(* ===== verification/Frob_Prelude.thy ===== *)
theory Frob_Prelude
  imports Main "HOL-Library.Word" "HOL-Library.Monad_Syntax" "HOL-Library.Char_ord"
begin

text \<open>
  What every theory of the development shares.

  The 6809 is a big-endian machine with 8-bit bytes, 16-bit words and 16-bit
  \<^verbatim>\<open>int\<close>s; both compilers the repository uses (CMOC and gcc6809) agree on
  that.  They differ on plain \<^verbatim>\<open>char\<close>, which is signed under CMOC and
  unsigned under gcc6809, so every theory says which one its code is built with.
  A C string is the list of its bytes up to, and without, the NUL.
\<close>

unbundle bit_operations_syntax

section \<open>Machine types\<close>

type_synonym byte = "8 word"
type_synonym word16 = "16 word"
type_synonym quad = "32 word"
type_synonym cstr = "byte list"

abbreviation ch :: "char \<Rightarrow> byte" where
  "ch c \<equiv> of_char c"

definition cs :: "string \<Rightarrow> cstr" where
  "cs s = map of_char s"

text \<open>The byte a C string pointer points at: the NUL once the string is used up.\<close>

definition peek :: "cstr \<Rightarrow> byte" where
  "peek s = (case s of [] \<Rightarrow> 0 | c # _ \<Rightarrow> c)"

definition cstring :: "cstr \<Rightarrow> bool" where
  "cstring s \<longleftrightarrow> 0 \<notin> set s"

text \<open>Range tests as the C code writes them: \<^verbatim>\<open>lo <= c && c <= hi\<close> on a
  signed char (CMOC) and on a byte.\<close>

definition srange :: "char \<Rightarrow> char \<Rightarrow> byte \<Rightarrow> bool" where
  "srange lo hi c \<longleftrightarrow> sint (ch lo) \<le> sint c \<and> sint c \<le> sint (ch hi)"

definition urange :: "char \<Rightarrow> char \<Rightarrow> byte \<Rightarrow> bool" where
  "urange lo hi c \<longleftrightarrow> ch lo \<le> c \<and> c \<le> ch hi"

definition hi :: "word16 \<Rightarrow> byte" where
  "hi w = ucast (drop_bit 8 w)"

definition lo :: "word16 \<Rightarrow> byte" where
  "lo w = ucast w"

definition hilo :: "byte \<Rightarrow> byte \<Rightarrow> word16" where
  "hilo h l = push_bit 8 (ucast h) OR ucast l"

named_theorems word_simps \<open>splitting words into bytes and joining them again\<close>
named_theorems peek_simps \<open>reading the first byte of a string\<close>

section \<open>Strings\<close>

lemma peek_Nil [simp, peek_simps]: "peek [] = 0"
  by (simp add: peek_def)

lemma peek_Cons [simp, peek_simps]: "peek (c # s) = c"
  by (simp add: peek_def)

lemma cstring_Nil [simp]: "cstring []"
  by (simp add: cstring_def)

lemma cstring_Cons [simp]: "cstring (c # s) \<longleftrightarrow> c \<noteq> 0 \<and> cstring s"
  by (auto simp: cstring_def)

lemma cstring_append [simp]: "cstring (s @ t) \<longleftrightarrow> cstring s \<and> cstring t"
  by (auto simp: cstring_def)

lemma peek_eq_0: "cstring s \<Longrightarrow> peek s = 0 \<longleftrightarrow> s = []"
  by (cases s) auto

lemma cs_Nil [simp]: "cs [] = []"
  by (simp add: cs_def)

lemma cs_Cons [simp]: "cs (c # s) = of_char c # cs s"
  by (simp add: cs_def)

section \<open>Words and bytes\<close>

lemma hi_hilo [simp, word_simps]: "hi (hilo h l) = h"
  unfolding hi_def hilo_def by (rule bit_word_eqI) (auto simp: bit_simps dest: bit_imp_le_length)

lemma lo_hilo [simp, word_simps]: "lo (hilo h l) = l"
  unfolding lo_def hilo_def by (rule bit_word_eqI) (auto simp: bit_simps dest: bit_imp_le_length)

lemma hilo_hi_lo [simp, word_simps]: "hilo (hi w) (lo w) = w"
  unfolding hi_def lo_def hilo_def by (rule bit_word_eqI) (auto simp: bit_simps dest: bit_imp_le_length)

lemma hilo_inject: "hilo a b = hilo c d \<longleftrightarrow> a = c \<and> b = d"
  by (metis hi_hilo lo_hilo)

lemma unat_hilo: "unat (hilo h l) = 256 * unat h + unat l"
proof -
  have "hilo h l = push_bit 8 (ucast h) + ucast l"
    unfolding hilo_def
    by (rule disjunctive_add [symmetric]) (auto simp: bit_simps dest: bit_imp_le_length)
  moreover have "unat h < 256" "unat l < 256"
    using unsigned_less [of h] unsigned_less [of l] by auto
  ultimately show ?thesis
    by (simp add: push_bit_eq_mult unat_word_ariths unsigned_ucast_eq take_bit_eq_mod)
qed

lemma unat_byte_lt [simp]: "unat (b :: byte) < 256"
  using unsigned_less [of b] by simp

lemma unat_word16_lt [simp]: "unat (w :: word16) < 65536"
  using unsigned_less [of w] by simp

lemma shift_mod_int:
  fixes k m :: int
  assumes "0 \<le> k" "k < 2 * m"
  shows "(k + m) mod (2 * m) - m = (if k < m then k else k - 2 * m)"
proof (cases "k < m")
  case True
  with assms show ?thesis by (simp add: mod_pos_pos_trivial)
next
  case False
  have "(k + m) mod (2 * m) = ((k - m) + 2 * m) mod (2 * m)" by (simp add: add.commute)
  also have "\<dots> = (k - m) mod (2 * m)" by (rule mod_add_self2)
  also have "\<dots> = k - m" using assms False by (intro mod_pos_pos_trivial) auto
  finally show ?thesis using False by simp
qed

lemma uint_byte_lt [simp]: "uint (c :: byte) < 256"
  using uint_lt2p [of c] by simp

lemma uint_word16_lt [simp]: "uint (w :: word16) < 65536"
  using uint_lt2p [of w] by simp

lemma sint_byte: "sint (c :: byte) = (if uint c < 128 then uint c else uint c - 256)"
  using shift_mod_int [of "uint c" 128]
  by (simp add: sint_uint signed_take_bit_eq_take_bit_shift take_bit_eq_mod)

lemma sint_word16: "sint (w :: word16) = (if uint w < 32768 then uint w else uint w - 65536)"
  using shift_mod_int [of "uint w" 32768]
  by (simp add: sint_uint signed_take_bit_eq_take_bit_shift take_bit_eq_mod)

lemma int_unat_uint: "int (unat w) = uint w"
  by simp

text \<open>Comparisons with numerals, brought from integers to natural numbers.\<close>

lemma uint_unat_cmp [word_simps]:
  "uint w < numeral k \<longleftrightarrow> unat w < numeral k"
  "uint w \<le> numeral k \<longleftrightarrow> unat w \<le> numeral k"
  "numeral k < uint w \<longleftrightarrow> numeral k < unat w"
  "numeral k \<le> uint w \<longleftrightarrow> numeral k \<le> unat w"
  unfolding int_unat_uint [symmetric]
  by (metis of_nat_less_iff of_nat_numeral, metis of_nat_le_iff of_nat_numeral,
      metis of_nat_less_iff of_nat_numeral, metis of_nat_le_iff of_nat_numeral)

lemma sint_word16_pos: "unat (w :: word16) < 32768 \<Longrightarrow> sint w = uint w"
  by (simp add: sint_word16 uint_unat_cmp)

lemma sint_word16_neg: "32768 \<le> unat (w :: word16) \<Longrightarrow> sint w = uint w - 65536"
  by (simp add: sint_word16 uint_unat_cmp)

text \<open>Widening a 16-bit \<^verbatim>\<open>int\<close> to a 32-bit \<^verbatim>\<open>long\<close>.\<close>

lemma sint16_range: "- 32768 \<le> sint (x :: word16)" "sint x < 32768"
  using sint_range_size [of x] by (simp_all add: word_size)
lemma sint_scast_quad: "sint (scast (x :: word16) :: quad) = sint x"
  unfolding scast_eq using sint16_range [of x] by (simp only: signed_of_int) (simp add: signed_take_bit_int_eq_self)
lemma unat_word_of_int_quad: "0 \<le> k \<Longrightarrow> k < 4294967296 \<Longrightarrow> unat (word_of_int k :: quad) = nat k"
  by (simp add: unsigned_of_int take_bit_int_eq_self)
lemma unat_neg_scast: "sint (x :: word16) < 0 \<Longrightarrow> unat (- scast x :: quad) = nat (- sint x)"
proof -
  assume n: "sint x < 0"
  have "- scast x = (word_of_int (- sint x) :: quad)"
    unfolding scast_eq by (rule wi_hom_neg)
  then show ?thesis using n sint16_range [of x] unat_word_of_int_quad [of "- sint x"] by (simp only:)
qed
lemma unat_pos_scast: "0 \<le> sint (x :: word16) \<Longrightarrow> unat (scast x :: quad) = nat (sint x)"
  unfolding scast_eq using sint16_range [of x] by (intro unat_word_of_int_quad) auto
section \<open>Scanning lists\<close>

lemma dropWhile_rest: "dropWhile P xs = y # ys \<Longrightarrow> \<not> P y"
  by (metis hd_dropWhile list.distinct(1) list.sel(1))

lemma length_dropWhile_Cons: "dropWhile P xs = y # ys \<Longrightarrow> length ys < length xs"
  by (metis Suc_le_lessD length_Cons length_dropWhile_le)

lemma unat_Suc_less:
  fixes i e :: "'a :: len word"
  assumes "i < e"
  shows "unat (i + 1) = Suc (unat i)"
proof -
  have "unat e < 2 ^ LENGTH('a)" by (rule unsigned_less)
  moreover have "unat i < unat e" using assms by (simp add: word_less_nat_alt)
  ultimately have "Suc (unat i) < 2 ^ LENGTH('a)" by linarith
  then show ?thesis by (simp add: unat_word_ariths)
qed

lemma unat_diff_le:
  fixes a b :: "'a :: len word"
  assumes "b \<le> a"
  shows "unat (a - b) = unat a - unat b"
  using assms by (simp add: word_le_nat_alt unat_sub)

lemma unat_diff_less:
  fixes a b :: "'a :: len word"
  assumes "b \<le> a" "b \<noteq> 0"
  shows "unat (a - b) < unat a"
proof -
  have "0 < unat b" "unat b \<le> unat a" using assms by (simp_all add: unat_gt_0 word_le_nat_alt)
  then show ?thesis using unat_diff_le [OF assms(1)] by simp
qed

section \<open>Parts of an array\<close>

text \<open>The \<^verbatim>\<open>n\<close> elements of an array from \<^verbatim>\<open>i\<close> on, and their replacement, as \<^verbatim>\<open>memcpy\<close>
  reads and writes them; \<^verbatim>\<open>None\<close> is an access outside of the array.\<close>

definition sub_bytes :: "'a list \<Rightarrow> nat \<Rightarrow> nat \<Rightarrow> 'a list option" where
  "sub_bytes a i n = (if i + n \<le> length a then Some (take n (drop i a)) else None)"

definition put_bytes :: "'a list \<Rightarrow> nat \<Rightarrow> 'a list \<Rightarrow> 'a list option" where
  "put_bytes a i bs =
     (if i + length bs \<le> length a then Some (take i a @ bs @ drop (i + length bs) a) else None)"

lemma put_bytes_length: "put_bytes a i bs = Some a' \<Longrightarrow> length a' = length a"
  by (auto simp: put_bytes_def split: if_splits)

lemma put_bytes_take: "put_bytes a i bs = Some a' \<Longrightarrow> take (i + length bs) a' = take i a @ bs"
  by (auto simp: put_bytes_def split: if_splits)

section \<open>The value of a string of digits\<close>

text \<open>The number a digit string denotes in base \<^verbatim>\<open>b\<close>.\<close>

definition digits_val :: "nat \<Rightarrow> cstr \<Rightarrow> nat" where
  "digits_val b s = foldl (\<lambda>n c. b * n + (unat c - 48)) 0 s"

lemma digits_val_snoc: "digits_val b (s @ [c]) = b * digits_val b s + (unat c - 48)"
  by (simp add: digits_val_def)

end
