(* ===== verification/Frob_Std.thy ===== *)
theory Frob_Std
  imports Frob_Prelude
begin

text \<open>
  The heap-free part of froblib (built with CMOC, so \<^verbatim>\<open>char\<close> is signed):
  the case conversions and the integer formatters of \<^verbatim>\<open>froblib/format.c\<close>,
  the parsers of \<^verbatim>\<open>froblib/std.c\<close> and the character, word and number
  routines of \<^verbatim>\<open>froblib/nylib.c\<close>.  A formatter that writes through a
  pointer and returns the advanced pointer is the function that returns the
  bytes written; a parser that advances \<^verbatim>\<open>*pp\<close> returns the rest of the
  string.  \<^verbatim>\<open>LogFatal\<close> leaves the program with status 127 when
  \<^verbatim>\<open>Verbosity\<close> is at least 1: that branch is \<^verbatim>\<open>None\<close>.
\<close>

section \<open>format.c: letters and integers\<close>

definition CharUp :: "byte \<Rightarrow> byte" where
  "CharUp c = (if srange CHR ''a'' CHR ''z'' c then c - 32 else c)"

definition CharDown :: "byte \<Rightarrow> byte" where
  "CharDown c = (if srange CHR ''A'' CHR ''Z'' c then c + 32 else c)"

definition LowerHexAlphabet :: cstr where
  "LowerHexAlphabet = cs ''0123456789abcdef''"

definition UpperHexAlphabet :: cstr where
  "UpperHexAlphabet = cs ''0123456789ABCDEF''"

function staticQFormatUnsignedLong :: "quad \<Rightarrow> cstr" where
  "staticQFormatUnsignedLong x =
     (if x > 9 then staticQFormatUnsignedLong (x div 10) @ [ch CHR ''0'' + ucast (x mod 10)]
      else [ch CHR ''0'' + ucast x])"
  by auto
termination
  by (relation "measure unat") (auto simp: word_less_nat_alt unat_div)

declare staticQFormatUnsignedLong.simps [simp del]

definition staticQFormatSignedLong :: "quad \<Rightarrow> cstr" where
  "staticQFormatSignedLong x =
     (if x <s 0 then ch CHR ''-'' # staticQFormatUnsignedLong (- x)
      else staticQFormatUnsignedLong x)"

text \<open>\<^verbatim>\<open>StaticFormatSignedLong\<close> takes a 16-bit \<^verbatim>\<open>int\<close>.\<close>

definition StaticFormatSignedLong :: "word16 \<Rightarrow> cstr" where
  "StaticFormatSignedLong x = staticQFormatSignedLong (scast x)"

function staticQFormatLongHex :: "cstr \<Rightarrow> quad \<Rightarrow> cstr" where
  "staticQFormatLongHex alphabet x =
     (if x > 15 then staticQFormatLongHex alphabet (drop_bit 4 x) @
        [alphabet ! unat ((ucast x :: byte) AND 15)]
      else [alphabet ! unat (ucast x :: byte)])"
  by auto
termination
proof (relation "measure (unat \<circ> snd)")
  fix alphabet :: cstr and x :: quad
  assume "x > 15"
  then have "unat x > 15" by (simp add: word_less_nat_alt)
  then have "unat x div 16 < unat x" by simp
  then show "((alphabet, drop_bit 4 x), alphabet, x) \<in> measure (unat \<circ> snd)"
    by (simp add: unat_div drop_bit_eq_div)
qed simp

declare staticQFormatLongHex.simps [simp del]

section \<open>std.c: prefixed numbers and comparison without case\<close>

definition hexdigit :: "byte \<Rightarrow> bool" where
  "hexdigit c \<longleftrightarrow> srange CHR ''0'' CHR ''9'' c \<or> srange CHR ''A'' CHR ''F'' (CharUp c)"

fun prefixed_hex_loop :: "word16 \<Rightarrow> cstr \<Rightarrow> word16" where
  "prefixed_hex_loop z [] = z"
| "prefixed_hex_loop z (c # s) =
     (if hexdigit c then
        (if srange CHR ''0'' CHR ''9'' c then prefixed_hex_loop (z * 16 + (scast c - 48)) s
         else prefixed_hex_loop (z * 16 + (scast (CharUp c) + 10 - 65)) s)
      else z)"

fun prefixed_octal_loop :: "word16 \<Rightarrow> cstr \<Rightarrow> word16" where
  "prefixed_octal_loop z [] = z"
| "prefixed_octal_loop z (c # s) =
     (if srange CHR ''0'' CHR ''7'' c then prefixed_octal_loop (z * 8 + (scast c - 48)) s else z)"

fun prefixed_decimal_loop :: "word16 \<Rightarrow> cstr \<Rightarrow> word16" where
  "prefixed_decimal_loop z [] = z"
| "prefixed_decimal_loop z (c # s) =
     (if srange CHR ''0'' CHR ''9'' c then prefixed_decimal_loop (z * 10 + (scast c - 48)) s else z)"

text \<open>After \<^verbatim>\<open>0x\<close> the pointer is still at the \<^verbatim>\<open>x\<close> when the hex loop starts.\<close>

definition prefixed_atoi :: "cstr \<Rightarrow> word16" where
  "prefixed_atoi s =
     (let neg = (peek s = ch CHR ''-'');
          s = (if neg then tl s else s);
          z = (if peek s = ch CHR ''0'' then
                 (let s = tl s in
                  if peek s = ch CHR ''x'' then prefixed_hex_loop 0 s
                  else prefixed_octal_loop 0 s)
               else prefixed_decimal_loop 0 s)
      in if neg then - z else z)"

fun strcasecmp :: "cstr \<Rightarrow> cstr \<Rightarrow> int" where
  "strcasecmp (a # as) (b # bs) =
     (if CharUp a < CharUp b then -1
      else if CharUp a > CharUp b then 1
      else strcasecmp as bs)"
| "strcasecmp (a # as) [] = -1"
| "strcasecmp [] (b # bs) = 1"
| "strcasecmp [] [] = 0"

text \<open>The C library's \<^verbatim>\<open>strcmp\<close> (bytes compared unsigned) and \<^verbatim>\<open>atoi\<close>.\<close>

fun strcmp :: "cstr \<Rightarrow> cstr \<Rightarrow> int" where
  "strcmp (a # as) (b # bs) = (if a < b then -1 else if a > b then 1 else strcmp as bs)"
| "strcmp (a # as) [] = 1"
| "strcmp [] (b # bs) = -1"
| "strcmp [] [] = 0"

definition isspace :: "byte \<Rightarrow> bool" where
  "isspace c \<longleftrightarrow> c = 32 \<or> 9 \<le> c \<and> c \<le> 13"

definition atoi :: "cstr \<Rightarrow> word16" where
  "atoi s =
     (let s = dropWhile isspace s in
      if peek s = ch CHR ''-'' then - prefixed_decimal_loop 0 (tl s)
      else if peek s = ch CHR ''+'' then prefixed_decimal_loop 0 (tl s)
      else prefixed_decimal_loop 0 s)"

section \<open>nylib.c: words, comparison and number parsing\<close>

definition NyWhite :: "byte \<Rightarrow> bool" where
  "NyWhite c \<longleftrightarrow> c \<le> ch CHR '' ''"

text \<open>\<^verbatim>\<open>NySplit\<close> writes a NUL after each word in place and stores pointers; the
  result is the list of the strings they point at.  The second argument is the room
  left in \<^verbatim>\<open>words_out\<close>.\<close>

fun NySplit :: "cstr \<Rightarrow> nat \<Rightarrow> cstr list" where
  "NySplit s 0 = []"
| "NySplit s (Suc room) =
     (let s = dropWhile NyWhite s in
      if s = [] then []
      else takeWhile (\<lambda>c. \<not> NyWhite c) s #
        (case dropWhile (\<lambda>c. \<not> NyWhite c) s of [] \<Rightarrow> [] | _ # rest \<Rightarrow> NySplit rest room))"

fun NyStrEq :: "cstr \<Rightarrow> cstr \<Rightarrow> bool" where
  "NyStrEq (a # as) (b # bs) = (if a \<noteq> b then False else NyStrEq as bs)"
| "NyStrEq as bs = (peek as = peek bs)"

definition NyCharEqIgnoreCase :: "byte \<Rightarrow> byte \<Rightarrow> bool" where
  "NyCharEqIgnoreCase x y =
     (let x = (if srange CHR ''a'' CHR ''z'' x then x - 32 else x);
          y = (if srange CHR ''a'' CHR ''z'' y then y - 32 else y)
      in x = y)"

fun NyStrEqIgnoreCase :: "cstr \<Rightarrow> cstr \<Rightarrow> bool" where
  "NyStrEqIgnoreCase (a # as) (b # bs) =
     (if \<not> NyCharEqIgnoreCase a b then False else NyStrEqIgnoreCase as bs)"
| "NyStrEqIgnoreCase as bs = NyCharEqIgnoreCase (peek as) (peek bs)"

text \<open>\<^verbatim>\<open>LogFatal\<close> under \<^verbatim>\<open>Verbosity\<close> \<^verbatim>\<open>v\<close>, and \<^verbatim>\<open>Assert\<close> on top of it.\<close>

definition LogFatal :: "byte \<Rightarrow> unit option" where
  "LogFatal v = (if 1 \<le> v then None else Some ())"

definition Assert :: "byte \<Rightarrow> bool \<Rightarrow> unit option" where
  "Assert v cond = (if \<not> cond then LogFatal v else Some ())"

definition NyDeHex :: "byte \<Rightarrow> byte \<Rightarrow> byte option" where
  "NyDeHex v c =
     (if urange CHR ''0'' CHR ''9'' c then Some (c - ch CHR ''0'')
      else if urange CHR ''A'' CHR ''Z'' c then Some (c - ch CHR ''A'' + 10)
      else if urange CHR ''a'' CHR ''z'' c then Some (c - ch CHR ''a'' + 10)
      else do { Assert v False; Some 0 })"

definition NySkipSpaces :: "cstr \<Rightarrow> cstr" where
  "NySkipSpaces s = dropWhile (\<lambda>c. c = ch CHR '' '') s"

text \<open>Reading the NUL leaves the pointer behind the end of the string: \<^verbatim>\<open>None\<close>.\<close>

definition NyParseChar :: "byte \<Rightarrow> cstr \<Rightarrow> (byte \<times> cstr) option" where
  "NyParseChar v s =
     (case s of [] \<Rightarrow> None | c # rest \<Rightarrow> do { d \<leftarrow> NyDeHex v c; Some (d, rest) })"

definition NyParseHexByte :: "byte \<Rightarrow> cstr \<Rightarrow> (byte \<times> cstr) option" where
  "NyParseHexByte v s = do {
     (a, s) \<leftarrow> NyParseChar v s;
     (b, s) \<leftarrow> NyParseChar v s;
     Some (push_bit 4 a OR b, s) }"

definition NyParseHexWord :: "byte \<Rightarrow> cstr \<Rightarrow> (word16 \<times> cstr) option" where
  "NyParseHexWord v s = do {
     (a, s) \<leftarrow> NyParseHexByte v s;
     (b, s) \<leftarrow> NyParseHexByte v s;
     Some (push_bit 8 (ucast a) OR ucast b, s) }"

fun decimal_word_loop :: "word16 \<Rightarrow> cstr \<Rightarrow> word16 \<times> cstr" where
  "decimal_word_loop z [] = (z, [])"
| "decimal_word_loop z (c # s) =
     (if srange CHR ''0'' CHR ''9'' c then decimal_word_loop (10 * z + (scast c - 48)) s
      else (z, c # s))"

definition NyParseDecimalWord :: "cstr \<Rightarrow> word16 \<times> cstr" where
  "NyParseDecimalWord s = decimal_word_loop 0 s"

definition NyCheckByte :: "byte \<Rightarrow> word16 \<Rightarrow> byte option" where
  "NyCheckByte v a = do { (if a > 255 then LogFatal v else Some ()); Some (ucast a) }"

text \<open>The four bytes stored at the address of a quad; on this machine the first is the
  most significant.\<close>

definition NyFormQuadFromBytes :: "byte \<Rightarrow> byte \<Rightarrow> byte \<Rightarrow> byte \<Rightarrow> quad" where
  "NyFormQuadFromBytes a b c d =
     push_bit 24 (ucast a) OR push_bit 16 (ucast b) OR push_bit 8 (ucast c) OR ucast d"

definition no_dot :: "byte \<Rightarrow> cstr \<Rightarrow> (quad \<times> cstr) option" where
  "no_dot v s = do { LogFatal v; Some (0, s) }"

definition NyParseDottedDecimalQuad :: "byte \<Rightarrow> cstr \<Rightarrow> (quad \<times> cstr) option" where
  "NyParseDottedDecimalQuad v s =
     (let (a, s) = NyParseDecimalWord s in
      if peek s \<noteq> ch CHR ''.'' then no_dot v s else
      let (b, s) = NyParseDecimalWord (tl s) in
      if peek s \<noteq> ch CHR ''.'' then no_dot v s else
      let (c, s) = NyParseDecimalWord (tl s) in
      if peek s \<noteq> ch CHR ''.'' then no_dot v s else
      let (d, s) = NyParseDecimalWord (tl s) in
      do { a \<leftarrow> NyCheckByte v a; b \<leftarrow> NyCheckByte v b;
           c \<leftarrow> NyCheckByte v c; d \<leftarrow> NyCheckByte v d;
           Some (NyFormQuadFromBytes a b c d, s) })"

definition NyParseDottedDecimalQuadAndPort ::
    "byte \<Rightarrow> cstr \<Rightarrow> word16 \<Rightarrow> (quad \<times> word16 \<times> cstr) option" where
  "NyParseDottedDecimalQuadAndPort v s port = do {
     (addy, s) \<leftarrow> NyParseDottedDecimalQuad v s;
     (if peek s = ch CHR '':'' then
        let (p, s) = NyParseDecimalWord (tl s) in Some (addy, p, s)
      else Some (addy, port, s)) }"

definition StrEq :: "cstr \<Rightarrow> cstr \<Rightarrow> bool" where
  "StrEq a b \<longleftrightarrow> 0 = strcmp a b"

definition StrNEq :: "cstr \<Rightarrow> cstr \<Rightarrow> word16 \<Rightarrow> bool" where
  "StrNEq a b n \<longleftrightarrow> 0 \<noteq> strcmp a b"

definition StrCaseEq :: "cstr \<Rightarrow> cstr \<Rightarrow> bool" where
  "StrCaseEq a b \<longleftrightarrow> 0 = strcasecmp a b"

section \<open>Decimal digits\<close>

lemma small_quad_cases:
  "d < 10 \<Longrightarrow> (d :: quad) \<in> {0, 1, 2, 3, 4, 5, 6, 7, 8, 9}"
proof -
  assume "d < 10"
  then have "unat d \<in> set [0..<10]" by (simp add: word_less_nat_alt)
  then have "unat d \<in> {0, 1, 2, 3, 4, 5, 6, 7, 8, 9}"
    by (simp add: upt_rec) arith
  then show ?thesis
    by (auto simp: word_unat_eq_iff)
qed

lemma decimal_digit:
  assumes "d < (10 :: quad)"
  shows "srange CHR ''0'' CHR ''9'' (48 + ucast d)"
    and "scast (48 + ucast d :: byte) - (48 :: word16) = ucast d"
  using small_quad_cases [OF assms] by (auto simp: srange_def)

lemma quad_mod10: "x mod 10 < (10 :: quad)"
  by (simp add: word_less_nat_alt unat_mod)

lemma quad_div_small: "\<not> x > 9 \<Longrightarrow> x < (10 :: quad)"
  by (simp add: word_less_nat_alt)

lemma ucast_div_mod_10: "10 * ucast (x div 10) + ucast (x mod 10) = (ucast (x :: quad) :: word16)"
proof -
  have "(ucast x :: word16) = of_nat (unat x)" by simp
  also have "\<dots> = of_nat (10 * (unat x div 10) + unat x mod 10)" by simp
  also have "\<dots> = 10 * of_nat (unat (x div 10)) + of_nat (unat (x mod 10))"
    by (simp only: of_nat_add of_nat_mult unat_div unat_mod) simp
  finally show ?thesis by simp
qed

definition no_digit :: "cstr \<Rightarrow> bool" where
  "no_digit s \<longleftrightarrow> \<not> srange CHR ''0'' CHR ''9'' (peek s)"

lemma no_digit_Nil [simp]: "no_digit []"
  by (simp add: no_digit_def srange_def)

lemma decimal_word_loop_stop [simp]: "no_digit s \<Longrightarrow> decimal_word_loop z s = (z, s)"
  by (cases s) (auto simp: no_digit_def)

lemma decimal_word_loop_format:
  "decimal_word_loop 0 (staticQFormatUnsignedLong x @ rest) = decimal_word_loop (ucast x) rest"
proof (induction x arbitrary: rest rule: staticQFormatUnsignedLong.induct)
  case (1 x)
  show ?case
  proof (cases "x > 9")
    case True
    have digit: "x mod 10 < 10" by (rule quad_mod10)
    show ?thesis
      using True 1
      by (subst staticQFormatUnsignedLong.simps)
        (simp add: decimal_digit [OF digit] ucast_div_mod_10)
  next
    case False
    show ?thesis
      using False quad_div_small [OF False]
      by (subst staticQFormatUnsignedLong.simps) (simp add: decimal_digit)
  qed
qed

lemma NyParseDecimalWord_format:
  "no_digit rest \<Longrightarrow>
    NyParseDecimalWord (staticQFormatUnsignedLong x @ rest) = (ucast x, rest)"
  by (simp add: NyParseDecimalWord_def decimal_word_loop_format)

lemma prefixed_decimal_loop_eq: "prefixed_decimal_loop z s = fst (decimal_word_loop z s)"
  by (induction s arbitrary: z) (auto simp: mult.commute)

lemma staticQFormatUnsignedLong_digits:
  "c \<in> set (staticQFormatUnsignedLong x) \<Longrightarrow> srange CHR ''0'' CHR ''9'' c"
proof (induction x rule: staticQFormatUnsignedLong.induct)
  case (1 x)
  show ?case
  proof (cases "x > 9")
    case True
    then have "c \<in> set (staticQFormatUnsignedLong (x div 10)) \<or> c = 48 + ucast (x mod 10)"
      using 1(2) by (subst (asm) staticQFormatUnsignedLong.simps) auto
    then show ?thesis using 1(1) [OF True] decimal_digit(1) [OF quad_mod10] by auto
  next
    case False
    then show ?thesis using 1(2) decimal_digit(1) [OF quad_div_small [OF False]]
      by (subst (asm) staticQFormatUnsignedLong.simps) auto
  qed
qed

lemma staticQFormatUnsignedLong_not_Nil [simp]: "staticQFormatUnsignedLong x \<noteq> []"
  by (subst staticQFormatUnsignedLong.simps) auto

section \<open>Values of digit strings\<close>

lemma srange_unat:
  "srange CHR ''0'' CHR ''9'' c \<longleftrightarrow> 48 \<le> unat c \<and> unat c \<le> 57"
  "srange CHR ''0'' CHR ''7'' c \<longleftrightarrow> 48 \<le> unat c \<and> unat c \<le> 55"
  by (auto simp: srange_def sint_byte split: if_splits) (use int_unat_uint [of c] uint_byte_lt [of c] in linarith)+

lemma sdigit_val:
  "srange CHR ''0'' CHR ''9'' c \<Longrightarrow> scast c - 48 = (of_nat (unat c - 48) :: word16)"
  "srange CHR ''0'' CHR ''7'' c \<Longrightarrow> scast c - 48 = (of_nat (unat c - 48) :: word16)"
  by (auto simp: srange_unat sint_byte of_nat_diff scast_eq) (use int_unat_uint [of c] in linarith)+

lemma digits_val_loop:
  assumes "\<forall>c \<in> set s. srange CHR ''0'' CHR ''9'' c"
  shows "prefixed_decimal_loop (of_nat n) s = of_nat (foldl (\<lambda>n c. 10 * n + (unat c - 48)) n s)"
  using assms
proof (induction s arbitrary: n)
  case (Cons c s)
  then have "of_nat n * 10 + (scast c - 48) = (of_nat (10 * n + (unat c - 48)) :: word16)"
    by (simp add: sdigit_val)
  with Cons show ?case by (simp del: of_nat_add of_nat_mult)
qed simp

lemma octal_val_loop:
  assumes "\<forall>c \<in> set s. srange CHR ''0'' CHR ''7'' c"
  shows "prefixed_octal_loop (of_nat n) s = of_nat (foldl (\<lambda>n c. 8 * n + (unat c - 48)) n s)"
  using assms
proof (induction s arbitrary: n)
  case (Cons c s)
  then have "of_nat n * 8 + (scast c - 48) = (of_nat (8 * n + (unat c - 48)) :: word16)"
    by (simp add: sdigit_val)
  with Cons show ?case by (simp del: of_nat_add of_nat_mult)
qed simp

lemma prefixed_atoi_decimal:
  assumes "\<forall>c \<in> set s. srange CHR ''0'' CHR ''9'' c" "peek s \<noteq> ch CHR ''0''"
  shows "prefixed_atoi s = of_nat (digits_val 10 s)"
    and "prefixed_atoi (ch CHR ''-'' # s) = - of_nat (digits_val 10 s)"
proof -
  have "peek s \<noteq> 45"
    using assms(1) by (cases s) (auto simp: srange_def)
  with assms digits_val_loop [OF assms(1), of 0]
  show "prefixed_atoi s = of_nat (digits_val 10 s)"
    "prefixed_atoi (ch CHR ''-'' # s) = - of_nat (digits_val 10 s)"
    by (auto simp: prefixed_atoi_def digits_val_def)
qed

text \<open>
   \<^verbatim>\<open>prefixed_atoi\<close> reads what its comment promises for decimal and octal
  numbers, with the sign: the result is the number modulo \<^verbatim>\<open>2^16\<close>.
\<close>

theorem prefixed_atoi_value:
  assumes "\<forall>c \<in> set s. srange CHR ''0'' CHR ''9'' c" "peek s \<noteq> ch CHR ''0''"
    and "\<forall>c \<in> set t. srange CHR ''0'' CHR ''7'' c"
  shows "prefixed_atoi s = of_nat (digits_val 10 s)
    \<and> prefixed_atoi (ch CHR ''-'' # s) = - of_nat (digits_val 10 s)
    \<and> prefixed_atoi (ch CHR ''0'' # t) = of_nat (digits_val 8 t)
    \<and> prefixed_atoi (ch CHR ''-'' # ch CHR ''0'' # t) = - of_nat (digits_val 8 t)"
proof -
  have "peek t \<noteq> 120"
    using assms(3) by (cases t) (auto simp: srange_def)
  with octal_val_loop [OF assms(3), of 0] prefixed_atoi_decimal [OF assms(1,2)]
  show ?thesis by (simp add: prefixed_atoi_def digits_val_def)
qed

lemma prefixed_atoi_value_witness:
  "prefixed_atoi (cs ''412'') = 412 \<and> prefixed_atoi (cs ''-0177'') = - 127"
  using prefixed_atoi_value [of "cs ''412''" "cs ''177''"]
  by (simp add: srange_def digits_val_def)

text \<open>
   The hexadecimal form never works: with the \<^verbatim>\<open>x\<close> still unread, the digit
  loop stops at once and every number written \<^verbatim>\<open>0x...\<close> is 0.
\<close>

theorem prefixed_atoi_hex_is_zero:
  "prefixed_atoi (ch CHR ''0'' # ch CHR ''x'' # s) = 0"
  by (simp add: prefixed_atoi_def hexdigit_def srange_def CharUp_def)

section \<open>Comparison without case\<close>

lemma strcasecmp_swap: "strcasecmp b a = - strcasecmp a b"
  by (induction a b rule: strcasecmp.induct) auto

lemma strcasecmp_eq_0: "strcasecmp a b = 0 \<longleftrightarrow> map CharUp a = map CharUp b"
  by (induction a b rule: strcasecmp.induct) auto

lemma strcasecmp_prefix: "strcasecmp (a @ x # y) a = -1"
  by (induction a) auto

text \<open>
   \<^verbatim>\<open>strcasecmp\<close> is 0 exactly on strings equal up to ASCII case and is
  antisymmetric, but a string ranks \<^emph>\<open>below\<close> each of its proper prefixes: the two
  signs at the end of the loop are the reverse of the C convention
  (\<^verbatim>\<open>strcmp\<close> has the other sign).
\<close>

theorem strcasecmp_order:
  "(strcasecmp a b = 0 \<longleftrightarrow> map CharUp a = map CharUp b)
   \<and> strcasecmp b a = - strcasecmp a b
   \<and> strcasecmp (a @ x # y) a = -1 \<and> strcmp (a @ x # y) a = 1"
proof -
  have "strcmp (a @ x # y) a = 1" by (induction a) auto
  then show ?thesis
    using strcasecmp_eq_0 [of a b] strcasecmp_swap [of b a] strcasecmp_prefix [of a x y] by blast
qed

section \<open>Splitting into words\<close>

text \<open>
  A line as a reader sees it: gaps of white space and words in turn, every gap but the first one and
  the one at the end nonempty.
\<close>

fun line_of :: "(cstr \<times> cstr) list \<Rightarrow> cstr \<Rightarrow> cstr" where
  "line_of [] e = e"
| "line_of ((g, w) # gws) e = g @ w @ line_of gws e"

fun laid_out :: "(cstr \<times> cstr) list \<Rightarrow> cstr \<Rightarrow> bool" where
  "laid_out [] e \<longleftrightarrow> (\<forall>c \<in> set e. NyWhite c)"
| "laid_out ((g, w) # gws) e \<longleftrightarrow> (\<forall>c \<in> set g. NyWhite c) \<and> w \<noteq> [] \<and> (\<forall>c \<in> set w. \<not> NyWhite c) \<and>
     (gws \<noteq> [] \<longrightarrow> fst (hd gws) \<noteq> []) \<and> laid_out gws e"

lemma dropWhile_gap: "\<forall>c \<in> set g. P c \<Longrightarrow> dropWhile P (g @ s) = dropWhile P s"
  by (induction g) auto

lemma line_rest:
  assumes "laid_out gws e" "gws \<noteq> [] \<longrightarrow> fst (hd gws) \<noteq> []"
  shows "line_of gws e = [] \<and> gws = [] \<or> (\<exists>c s. line_of gws e = c # s \<and> NyWhite c)"
proof (cases gws)
  case Nil
  then show ?thesis using assms(1) by (cases e) auto
next
  case (Cons x xs)
  obtain g w where x: "x = (g, w)" by fastforce
  then obtain c h where "g = c # h" using assms(2) Cons by (cases g) auto
  then show ?thesis using assms(1) Cons x by simp
qed

lemma NySplit_white: "NyWhite c \<Longrightarrow> NySplit (c # s) n = NySplit s n"
  by (cases n) simp_all

lemma NySplit_all_white: "\<forall>c \<in> set s. NyWhite c \<Longrightarrow> NySplit s n = []"
  by (cases n) (simp_all add: Let_def)

lemma NySplit_line: "laid_out gws e \<Longrightarrow> NySplit (line_of gws e) n = take n (map snd gws)"
proof (induction gws arbitrary: n)
  case (Cons x gws)
  obtain g w where x: "x = (g, w)" by fastforce
  show ?case
  proof (cases n)
    case (Suc m)
    obtain b v where w: "w = b # v" "\<not> NyWhite b" using Cons.prems x by (cases w) auto
    have d: "dropWhile NyWhite (g @ w @ line_of gws e) = w @ line_of gws e"
      using Cons.prems x w by (subst dropWhile_gap) simp_all
    have f: "\<forall>c \<in> set w. \<not> NyWhite c" using Cons.prems x by simp
    have "line_of gws e = [] \<and> gws = [] \<or> (\<exists>c s. line_of gws e = c # s \<and> NyWhite c)"
      by (rule line_rest) (use Cons.prems x in auto)
    then show ?thesis
    proof (elim disjE exE conjE)
      assume "line_of gws e = []" "gws = []"
      moreover have "takeWhile (\<lambda>c. \<not> NyWhite c) w = w" "dropWhile (\<lambda>c. \<not> NyWhite c) w = []"
        using f by (simp_all add: dropWhile_eq_Nil_conv takeWhile_eq_all_conv)
      ultimately show ?thesis using Suc x w(1) d by (simp add: Let_def)
    next
      fix c s assume c: "line_of gws e = c # s" "NyWhite c"
      then have "takeWhile (\<lambda>c. \<not> NyWhite c) (w @ c # s) = w" "dropWhile (\<lambda>c. \<not> NyWhite c) (w @ c # s) = c # s"
        using f by (simp_all add: takeWhile_append dropWhile_append)
      moreover have "NySplit s m = take m (map snd gws)"
        using Cons.IH [of m] Cons.prems x c NySplit_white [OF c(2), of s m] by simp
      ultimately show ?thesis using Suc x d c(1) w(1) by (simp add: Let_def)
    qed
  qed simp
qed (simp add: NySplit_all_white)

lemma line_exists: "\<exists>gws e. laid_out gws e \<and> s = line_of gws e"
proof (induction s rule: length_induct)
  case (1 s)
  let ?g = "takeWhile NyWhite s" and ?s = "dropWhile NyWhite s"
  let ?w = "takeWhile (\<lambda>c. \<not> NyWhite c) ?s" and ?r = "dropWhile (\<lambda>c. \<not> NyWhite c) ?s"
  show ?case
  proof (cases ?s)
    case Nil
    then have "laid_out [] s" by (simp add: dropWhile_eq_Nil_conv)
    then show ?thesis by (metis line_of.simps(1))
  next
    case (Cons b t)
    then have b: "\<not> NyWhite b" by (rule dropWhile_rest)
    then have w: "?w \<noteq> []" "length ?r < length ?s" using Cons length_dropWhile_le [of "\<lambda>c. \<not> NyWhite c" t] by auto
    then have "length ?r < length s" using length_dropWhile_le [of NyWhite s] by linarith
    with 1 obtain gws e where r: "laid_out gws e" "?r = line_of gws e" by blast
    have "gws \<noteq> [] \<longrightarrow> fst (hd gws) \<noteq> []"
    proof (cases gws)
      case (Cons x xs)
      obtain g v where x: "x = (g, v)" by fastforce
      have "?r \<noteq> [] \<Longrightarrow> NyWhite (hd ?r)" using hd_dropWhile [of "\<lambda>c. \<not> NyWhite c" ?s] by simp
      then show ?thesis using r Cons x by (cases g) (auto split: list.splits)
    qed simp
    then have "laid_out ((?g, ?w) # gws) e" using r(1) w(1) by (auto dest: set_takeWhileD)
    moreover have "s = line_of ((?g, ?w) # gws) e" using r(2) by (metis line_of.simps(2) takeWhile_dropWhile_id)
    ultimately show ?thesis by blast
  qed
qed

text \<open>
  C30.  \<^verbatim>\<open>NySplit\<close> cuts every line into its words.  Any line is gaps and words in turn, and however it
  is seen so, the result is its words, all of each of them, in order: the first \<^verbatim>\<open>max_words\<close> when there
  are more.
\<close>

theorem NySplit_spec:
  "(\<exists>gws e. laid_out gws e \<and> s = line_of gws e) \<and>
   (\<forall>gws e. laid_out gws e \<and> s = line_of gws e \<longrightarrow> NySplit s n = take n (map snd gws))"
  using line_exists NySplit_line by blast

lemma NySplit_spec_witness:
  "NySplit [32, 111, 110, 32, 10, 116, 9, 120, 120] 2 = [[111, 110], [116]]"
proof -
  let ?l = "[([32], [111, 110]), ([32, 10], [116]), ([9], [120, 120])] :: (cstr \<times> cstr) list"
  have "laid_out ?l []" by (simp add: NyWhite_def)
  moreover have "[32, 111, 110, 32, 10, 116, 9, 120, 120] = line_of ?l []" by simp
  ultimately have "NySplit [32, 111, 110, 32, 10, 116, 9, 120, 120] 2 = take 2 (map snd ?l)"
    by (intro NySplit_spec [THEN conjunct2, rule_format] conjI)
  then show ?thesis by simp
qed

end
