(* ===== verification/Frob_Malloc.thy ===== *)
theory Frob_Malloc
  imports Frob_Std
begin

text \<open>
  \<^verbatim>\<open>froblib/malloc.c\<close>: the bucket allocator, on the raw 64 KB memory of the
  process.  A block is a six byte header (\<^verbatim>\<open>barrierA\<close>, \<^verbatim>\<open>next\<close>,
  \<^verbatim>\<open>cap\<close>, \<^verbatim>\<open>barrierZ\<close>) and \<^verbatim>\<open>cap\<close> bytes of data; the twelve free
  lists are chained through \<^verbatim>\<open>next\<close>.  The kernel call \<^verbatim>\<open>F$Mem\<close> is a
  parameter: it maps its state and a requested size to an error number, or to the
  granted size and the end of memory.  \<^verbatim>\<open>Panic\<close> and \<^verbatim>\<open>PutHex\<close> print to
  \<^verbatim>\<open>stderr\<close> and \<^emph>\<open>return\<close>.  \<^verbatim>\<open>None\<close> is the exit of \<^verbatim>\<open>LogFatal\<close>, or the use
  of an index outside the twelve buckets.
\<close>

section \<open>Byte memory\<close>

type_synonym memory = "word16 \<Rightarrow> byte"

definition getw :: "memory \<Rightarrow> word16 \<Rightarrow> word16" where
  "getw m a = hilo (m a) (m (a + 1))"

definition putw :: "memory \<Rightarrow> word16 \<Rightarrow> word16 \<Rightarrow> memory" where
  "putw m a w = m(a := hi w, a + 1 := lo w)"

text \<open>The C library's \<^verbatim>\<open>memset\<close> and \<^verbatim>\<open>memcpy\<close> (of blocks that do not overlap).\<close>

definition memset_mem :: "memory \<Rightarrow> word16 \<Rightarrow> byte \<Rightarrow> word16 \<Rightarrow> memory" where
  "memset_mem m p v n = (\<lambda>x. if x - p < n then v else m x)"

definition memcpy_mem :: "memory \<Rightarrow> word16 \<Rightarrow> word16 \<Rightarrow> word16 \<Rightarrow> memory" where
  "memcpy_mem m d s n = (\<lambda>x. if x - d < n then m (s + (x - d)) else m x)"

section \<open>The heap\<close>

definition NBUCKETS :: nat where "NBUCKETS = 12"
definition SMALLEST_BUCKET :: word16 where "SMALLEST_BUCKET = 8"
definition sizeof_MallocHead :: word16 where "sizeof_MallocHead = 6"

record 'k mach =
  mem :: memory
  heap_min :: word16
  heap_here :: word16
  heap_max :: word16
  heap_retry :: bool
  buck_freelist :: "nat \<Rightarrow> word16"
  buck_num_alloc :: "nat \<Rightarrow> word16"
  buck_num_free :: "nat \<Rightarrow> word16"
  buck_num_brk :: "nat \<Rightarrow> word16"
  err_out :: cstr
  Verbosity :: byte
  ErrNo :: byte
  kernel :: 'k

type_synonym 'k os9mem = "'k \<Rightarrow> word16 \<Rightarrow> (byte + word16 \<times> word16) \<times> 'k"

text \<open>Fields of the header at \<^verbatim>\<open>h\<close>.\<close>

definition barrierA :: "memory \<Rightarrow> word16 \<Rightarrow> byte" where "barrierA m h = m h"
definition hnext :: "memory \<Rightarrow> word16 \<Rightarrow> word16" where "hnext m h = getw m (h + 1)"
definition hcap :: "memory \<Rightarrow> word16 \<Rightarrow> word16" where "hcap m h = getw m (h + 3)"
definition barrierZ :: "memory \<Rightarrow> word16 \<Rightarrow> byte" where "barrierZ m h = m (h + 5)"

section \<open>Messages\<close>

definition PutHex_text :: "byte \<Rightarrow> word16 \<Rightarrow> cstr" where
  "PutHex_text c w =
     cs ''['' @ [c] @ cs '':'' @ staticQFormatLongHex UpperHexAlphabet (ucast w) @ cs '']''"

definition PutHex :: "byte \<Rightarrow> word16 \<Rightarrow> 'k mach \<Rightarrow> 'k mach" where
  "PutHex c w s = s\<lparr>err_out := err_out s @ PutHex_text c w\<rparr>"

definition PC_Trace :: "byte \<Rightarrow> word16 \<Rightarrow> 'k mach \<Rightarrow> 'k mach" where
  "PC_Trace c w s = PutHex c w s"

definition Panic :: "cstr \<Rightarrow> 'k mach \<Rightarrow> 'k mach" where
  "Panic message s =
     s\<lparr>err_out := err_out s @ [10] @ cs ''*** PANIC: '' @ message @ [10]\<rparr>"

definition MallocOOM :: "byte \<Rightarrow> word16 \<Rightarrow> word16 \<Rightarrow> 'k mach \<Rightarrow> 'k mach" where
  "MallocOOM e n cap s =
     (let s = PutHex (ch CHR ''e'') (ucast e) s;
          s = PutHex (ch CHR ''n'') n s;
          s = PutHex (ch CHR ''c'') cap s;
          s = PutHex (ch CHR ''u'') (heap_here s) s;
          s = PutHex (ch CHR ''m'') (heap_max s) s
      in Panic (cs '' *oom* '') s)"

definition heap_check_block :: "word16 \<Rightarrow> word16 \<Rightarrow> 'k mach \<Rightarrow> 'k mach" where
  "heap_check_block h cap s =
     (let m = mem s in
      if barrierA m h \<noteq> ch CHR ''A'' \<or> barrierZ m h \<noteq> ch CHR ''Z''
         \<or> (cap \<noteq> 0 \<and> hcap m h \<noteq> cap) then
        let s = PutHex (ch CHR ''h'') h s;
            s = PutHex (ch CHR ''A'') (scast (barrierA m h)) s;
            s = PutHex (ch CHR ''Z'') (scast (barrierZ m h)) s;
            s = PutHex (ch CHR ''c'') (hcap m h) s;
            s = PutHex (ch CHR ''C'') cap s;
            s = PC_Trace (ch CHR ''*'') h s
        in Panic (cs ''corrupt heap'') s
      else s)"

section \<open>Buckets\<close>

text \<open>The comparison is of signed 16-bit integers, and so is the doubling.\<close>

function bucket_loop :: "nat \<Rightarrow> word16 \<Rightarrow> word16 \<Rightarrow> nat \<times> word16" where
  "bucket_loop b n cap =
     (if b < NBUCKETS then
        (if sint n \<le> sint cap then (b, cap) else bucket_loop (b + 1) n (cap + cap))
      else (b, cap))"
  by auto
termination by (relation "measure (\<lambda>(b, _). NBUCKETS - b)") auto

declare bucket_loop.simps [simp del]

definition which_bucket :: "word16 \<Rightarrow> 'k mach \<Rightarrow> nat \<times> word16 \<times> 'k mach" where
  "which_bucket n s =
     (let (b, cap) = bucket_loop 0 n SMALLEST_BUCKET;
          s = (if b \<ge> NBUCKETS then Panic (cs ''malloc too big'') (PutHex (ch CHR ''m'') n s) else s)
      in (b, cap, s))"

section \<open>Malloc, Free, ReAlloc\<close>

text \<open>The first call asks the kernel where memory ends and rounds up to an 8 KB page.
  An error is reported and ignored; the output words keep their values then.\<close>

definition Os9Mem :: "'k os9mem \<Rightarrow> word16 \<Rightarrow> word16 \<Rightarrow> 'k mach \<Rightarrow> byte \<times> word16 \<times> word16 \<times> 'k mach" where
  "Os9Mem os9 sz endm s =
     (case os9 (kernel s) sz of
        (Inl e, k) \<Rightarrow> (e, sz, endm, s\<lparr>kernel := k\<rparr>)
      | (Inr (sz', endm'), k) \<Rightarrow> (0, sz', endm', s\<lparr>kernel := k\<rparr>))"

definition malloc_first :: "'k os9mem \<Rightarrow> word16 \<Rightarrow> 'k mach \<Rightarrow> 'k mach option" where
  "malloc_first os9 n s = do {
     let (err, new_memory_size, end_of_new_mem, s) = Os9Mem os9 0 0 s;
     let s = (if err \<noteq> 0 then MallocOOM err n 0 s else s);
     let s = s\<lparr>heap_min := end_of_new_mem, heap_here := end_of_new_mem\<rparr>;
     let new_memory_size = (end_of_new_mem + 0x2000) AND 0xE000;
     let (err, new_memory_size, end_of_new_mem, s) = Os9Mem os9 new_memory_size end_of_new_mem s;
     let s = (if err \<noteq> 0 then MallocOOM err n 0 s else s);
     let s = s\<lparr>heap_max := end_of_new_mem\<rparr>;
     Assert (Verbosity s) (heap_max s \<ge> heap_min s);
     Some s }"

definition malloc_reuse :: "nat \<Rightarrow> word16 \<Rightarrow> word16 \<Rightarrow> 'k mach \<Rightarrow> word16 \<times> 'k mach" where
  "malloc_reuse b cap h s =
     (let s = s\<lparr>mem := putw (mem s) (h + 3) cap\<rparr>;
          s = heap_check_block h cap s;
          s = s\<lparr>buck_freelist := (buck_freelist s)(b := hnext (mem s) h)\<rparr>;
          s = s\<lparr>mem := memset_mem (mem s) (h + sizeof_MallocHead) 0 cap\<rparr>
      in (h + sizeof_MallocHead, s))"

definition malloc_break :: "nat \<Rightarrow> word16 \<Rightarrow> word16 \<Rightarrow> 'k mach \<Rightarrow> word16 \<times> 'k mach" where
  "malloc_break b cap new_brk s =
     (let h = heap_here s;
          s = s\<lparr>heap_here := new_brk,
                buck_num_brk := (buck_num_brk s)(b := buck_num_brk s b + 1)\<rparr>;
          m = (mem s)(h := ch CHR ''A'');
          m = m(h + 5 := ch CHR ''Z'');
          m = putw m (h + 3) cap;
          m = putw m (h + 1) 0;
          m = memset_mem m (h + sizeof_MallocHead) 0 cap
      in (h + sizeof_MallocHead, s\<lparr>mem := m\<rparr>))"

definition malloc_page :: "'k os9mem \<Rightarrow> word16 \<Rightarrow> word16 \<Rightarrow> 'k mach \<Rightarrow> 'k mach" where
  "malloc_page os9 n cap s =
     (let s = (if heap_retry s then MallocOOM 255 n cap s else s);
          (err, new_memory_size, end_of_new_mem, s) = Os9Mem os9 (heap_max s + 0x2000) 0 s;
          s = (if err \<noteq> 0 then MallocOOM err n cap s else s)
      in s\<lparr>heap_max := new_memory_size\<rparr>)"

partial_function (option) Malloc ::
    "'k os9mem \<Rightarrow> word16 \<Rightarrow> 'k mach \<Rightarrow> (word16 \<times> 'k mach) option" where
  "Malloc os9 n s = do {
     s \<leftarrow> (if heap_max s = 0 then malloc_first os9 n s else Some s);
     let (b, cap, s) = which_bucket n s;
     (if b \<ge> NBUCKETS then None else do {
        let s = s\<lparr>buck_num_alloc := (buck_num_alloc s)(b := buck_num_alloc s b + 1)\<rparr>;
        let h = buck_freelist s b;
        (if h \<noteq> 0 then Some (malloc_reuse b cap h s)
         else do {
           let new_brk = heap_here s + (cap + sizeof_MallocHead);
           (if new_brk > heap_max s then do {
              let s = malloc_page os9 n cap s;
              (p, s) \<leftarrow> Malloc os9 n (s\<lparr>heap_retry := True\<rparr>);
              Some (p, s\<lparr>heap_retry := False\<rparr>) }
            else Some (malloc_break b cap new_brk s)) }) }) }"

declare Malloc.simps [code]

definition Free :: "word16 \<Rightarrow> 'k mach \<Rightarrow> 'k mach option" where
  "Free p s =
     (if p = 0 then Some s else
      let h = p - sizeof_MallocHead in
      if hcap (mem s) h = 0 then Some (Panic (cs ''DoubleFree'') s) else
      let (b, cap, s) = which_bucket (hcap (mem s) h) s in
      if b \<ge> NBUCKETS then None else
      let s = heap_check_block h cap s;
          s = s\<lparr>buck_num_free := (buck_num_free s)(b := buck_num_free s b + 1)\<rparr>;
          m = memset_mem (mem s) p 0 cap;
          m = putw m (h + 3) 0;
          m = putw m (h + 1) (buck_freelist s b)
      in Some (s\<lparr>mem := m, buck_freelist := (buck_freelist s)(b := h)\<rparr>))"

definition ReAlloc :: "'k os9mem \<Rightarrow> word16 \<Rightarrow> word16 \<Rightarrow> 'k mach \<Rightarrow> (word16 \<times> 'k mach) option" where
  "ReAlloc os9 p n s =
     (if p = 0 then Malloc os9 n s else
      let h = p - sizeof_MallocHead in
      if n \<le> hcap (mem s) h then Some (p, s) else do {
        (z, s) \<leftarrow> Malloc os9 n s;
        let s = s\<lparr>mem := memcpy_mem (mem s) z p (hcap (mem s) h)\<rparr>;
        s \<leftarrow> Free p s;
        Some (z, s) })"

end
