(* ===== verification/Frob_Heap.thy ===== *)
theory Frob_Heap
  imports Frob_Malloc
begin

text \<open>
  Correctness of the allocator of \<^verbatim>\<open>Frob_Malloc\<close>.  A ghost list of blocks
  (header address and bucket) tiles the memory between \<^verbatim>\<open>heap_min\<close> and
  \<^verbatim>\<open>heap_here\<close>; every header is intact, a block is free exactly when its
  \<^verbatim>\<open>cap\<close> field is 0, and the free list of a bucket holds exactly the free blocks
  of that bucket.
\<close>

section \<open>Capacities\<close>

definition capb :: "nat \<Rightarrow> word16" where
  "capb b = 2 ^ (b + 3)"

lemma less_12_cases: "b < 12 \<Longrightarrow> (b :: nat) \<in> {0, 1, 2, 3, 4, 5, 6, 7, 8, 9, 10, 11}"
  by (simp; arith)

lemma capb_cases:
  assumes "b < NBUCKETS"
  shows "unat (capb b) = 8 * 2 ^ b" "sint (capb b) = 8 * 2 ^ b" "capb (Suc b) = capb b + capb b"
    "8 \<le> unat (capb b)" "unat (capb b) \<le> 16384"
  using assms less_12_cases [of b] by (auto simp: capb_def NBUCKETS_def)

lemma bucket_loop_ok:
  assumes "b < NBUCKETS" "sint n \<le> 16384"
  shows "\<exists>b'. b \<le> b' \<and> b' < NBUCKETS \<and> bucket_loop b n (capb b) = (b', capb b') \<and>
    sint n \<le> sint (capb b') \<and> (\<forall>j. b \<le> j \<longrightarrow> j < b' \<longrightarrow> sint (capb j) < sint n)"
  using assms
proof (induction "NBUCKETS - b" arbitrary: b)
  case (Suc k)
  show ?case
  proof (cases "sint n \<le> sint (capb b)")
    case True
    then show ?thesis using Suc.prems by (subst bucket_loop.simps) auto
  next
    case False
    have "b \<noteq> 11"
      using False Suc.prems by (auto simp: capb_def)
    then have b: "Suc b < NBUCKETS" using Suc.prems by (simp add: NBUCKETS_def)
    moreover have "k = NBUCKETS - Suc b" using Suc.hyps(2) by simp
    ultimately obtain b' where b': "Suc b \<le> b'" "b' < NBUCKETS"
      "bucket_loop (Suc b) n (capb (Suc b)) = (b', capb b')" "sint n \<le> sint (capb b')"
      "\<forall>j. Suc b \<le> j \<longrightarrow> j < b' \<longrightarrow> sint (capb j) < sint n"
      using Suc.hyps(1) [of "Suc b"] Suc.prems by blast
    moreover have "bucket_loop b n (capb b) = bucket_loop (Suc b) n (capb (Suc b))"
      using False Suc.prems(1) capb_cases(3) [OF Suc.prems(1)]
      by (subst bucket_loop.simps) simp
    moreover have "\<forall>j. b \<le> j \<longrightarrow> j < b' \<longrightarrow> sint (capb j) < sint n"
      using b'(5) False by (metis le_less_linear not_less_eq_eq le_antisym)
    ultimately show ?thesis by (intro exI [of _ b']) auto
  qed
qed simp

lemma bucket_loop_exact: "b < NBUCKETS \<Longrightarrow> bucket_loop 0 (capb b) 8 = (b, capb b)"
proof -
  assume b: "b < NBUCKETS"
  have "sint (capb b) \<le> 16384"
    using capb_cases(5) [OF b] by (simp add: sint_word16_pos uint_unat_cmp)
  then obtain b' where b': "b' < NBUCKETS" "bucket_loop 0 (capb b) (capb 0) = (b', capb b')"
    "sint (capb b) \<le> sint (capb b')" "\<forall>j. j < b' \<longrightarrow> sint (capb j) < sint (capb b)"
    using bucket_loop_ok [of 0 "capb b"] by (auto simp: NBUCKETS_def)
  have "b \<le> b'"
    using b'(3) capb_cases(2) [OF b] capb_cases(2) [OF b'(1)] by simp
  moreover have "\<not> b < b'" using b'(4) by auto
  ultimately show ?thesis using b'(2) by (simp add: capb_def)
qed

lemma which_bucket_ok:
  assumes "0 < unat n" "unat n \<le> 16384"
  shows "\<exists>b < NBUCKETS. which_bucket n s = (b, capb b, s) \<and> unat n \<le> unat (capb b) \<and>
    (\<forall>j < b. unat (capb j) < unat n)"
proof -
  have sn: "sint n = int (unat n)"
    using assms by (simp add: sint_word16_pos)
  then obtain b where b: "b < NBUCKETS" "bucket_loop 0 n (capb 0) = (b, capb b)"
    "sint n \<le> sint (capb b)" "\<forall>j. j < b \<longrightarrow> sint (capb j) < sint n"
    using bucket_loop_ok [of 0 n] assms by (auto simp: NBUCKETS_def uint_unat_cmp)
  have cap: "int (unat (capb j)) = sint (capb j)" if "j < NBUCKETS" for j
    unfolding capb_cases(2) [OF that] capb_cases(1) [OF that] by simp
  have "unat n \<le> unat (capb b)"
    using b(3) cap [OF b(1)] sn by linarith
  moreover have "unat (capb j) < unat n" if "j < b" for j
  proof -
    have "sint (capb j) < sint n" "j < NBUCKETS" using b(1,4) that by auto
    then show ?thesis using cap [of j] sn by linarith
  qed
  moreover have "which_bucket n s = (b, capb b, s)"
    using b(1,2) by (simp add: which_bucket_def SMALLEST_BUCKET_def capb_def)
  ultimately show ?thesis using b(1) by blast
qed

lemma which_bucket_capb: "b < NBUCKETS \<Longrightarrow> which_bucket (capb b) s = (b, capb b, s)"
  by (simp add: which_bucket_def SMALLEST_BUCKET_def bucket_loop_exact)

text \<open>
   For a request of 1 to 16384 bytes \<^verbatim>\<open>which_bucket\<close> picks the smallest bucket
  that holds it, of capacity \<^verbatim>\<open>8 * 2^b\<close>; a larger positive request is reported as
  too big (the bucket number is then out of range), and a request of 32768 bytes or more
  is taken for a negative number and served from the 8-byte bucket.
\<close>

theorem which_bucket_spec:
  "(0 < unat n \<and> unat n \<le> 16384 \<longrightarrow>
     (\<exists>b < NBUCKETS. which_bucket n s = (b, capb b, s) \<and> unat (capb b) = 8 * 2 ^ b \<and>
        unat n \<le> 8 * 2 ^ b \<and> (\<forall>j < b. 8 * 2 ^ j < unat n))) \<and>
   (unat n \<ge> 32768 \<longrightarrow> which_bucket n s = (0, 8, s))"
proof (intro conjI impI)
  assume "0 < unat n \<and> unat n \<le> 16384"
  then obtain b where b: "b < NBUCKETS" "which_bucket n s = (b, capb b, s)"
    "unat n \<le> unat (capb b)" "\<forall>j < b. unat (capb j) < unat n"
    using which_bucket_ok by blast
  then have "\<forall>j < b. 8 * 2 ^ j < unat n" using capb_cases(1) by fastforce
  with b capb_cases(1) [OF b(1)] show "\<exists>b < NBUCKETS. which_bucket n s = (b, capb b, s) \<and>
      unat (capb b) = 8 * 2 ^ b \<and> unat n \<le> 8 * 2 ^ b \<and> (\<forall>j < b. 8 * 2 ^ j < unat n)"
    by auto
next
  assume "unat n \<ge> 32768"
  then have "sint n \<le> 8"
    by (simp add: sint_word16_neg) (use uint_word16_lt [of n] in linarith)
  then show "which_bucket n s = (0, 8, s)"
    by (simp add: which_bucket_def SMALLEST_BUCKET_def NBUCKETS_def bucket_loop.simps [of 0])
qed

lemma which_bucket_spec_witness:
  "which_bucket 100 (undefined :: unit mach) = (4, capb 4, undefined)
   \<and> which_bucket 40000 (undefined :: unit mach) = (0, 8, undefined)"
proof -
  obtain b where b: "b < NBUCKETS" "which_bucket 100 (undefined :: unit mach) = (b, capb b, undefined)"
    "(100 :: nat) \<le> 8 * 2 ^ b" "\<forall>j < b. 8 * 2 ^ j < (100 :: nat)"
    using which_bucket_spec [of 100 "undefined :: unit mach"] by auto
  have "b = 4"
  proof (rule antisym)
    show "b \<le> 4" using b(4) [rule_format, of 4] by (cases "4 < b") auto
    show "4 \<le> b" using b(1,3) less_12_cases [of b] by (auto simp: NBUCKETS_def)
  qed
  then show ?thesis using b(2) which_bucket_spec [of 40000 "undefined :: unit mach"] by simp
qed

section \<open>Memory: what an update reaches\<close>

lemma unat_add_16: "unat (h :: word16) + unat k < 65536 \<Longrightarrow> unat (h + k) = unat h + unat k"
  by (simp add: unat_word_ariths)

lemma unat_diff_16:
  "unat (x - p :: word16) = (if p \<le> x then unat x - unat p else unat x + 65536 - unat p)"
  by (simp add: unat_sub_if' word_le_nat_alt)

lemma in_range_16:
  assumes "unat p + unat (n :: word16) \<le> 65536"
  shows "x - p < n \<longleftrightarrow> unat p \<le> unat x \<and> unat x < unat p + unat n"
  using assms unat_word16_lt [of p] by (auto simp: word_less_nat_alt word_le_nat_alt unat_diff_16)

text \<open>The addresses a block occupies, and agreement of two memories elsewhere.\<close>

type_synonym block = "word16 \<times> nat"

definition span :: "block \<Rightarrow> nat set" where
  "span x = {unat (fst x) ..< unat (fst x) + 6 + 8 * 2 ^ snd x}"

definition same_outside :: "block \<Rightarrow> memory \<Rightarrow> memory \<Rightarrow> bool" where
  "same_outside x m m' \<longleftrightarrow> (\<forall>a. unat a \<notin> span x \<longrightarrow> m' a = m a)"

definition fits16 :: "block \<Rightarrow> bool" where
  "fits16 x \<longleftrightarrow> snd x < NBUCKETS \<and> unat (fst x) + 6 + 8 * 2 ^ snd x < 65536"

named_theorems header_simps \<open>reading a header after an update of the same block\<close>

lemma header_putw_cap [header_simps]:
  "hcap (putw m (h + 3) c) h = c" "hnext (putw m (h + 3) c) h = hnext m h"
  "barrierA (putw m (h + 3) c) h = barrierA m h" "barrierZ (putw m (h + 3) c) h = barrierZ m h"
  by (simp_all add: hcap_def hnext_def barrierA_def barrierZ_def getw_def putw_def add.assoc)

lemma header_putw_next [header_simps]:
  "hcap (putw m (h + 1) c) h = hcap m h" "hnext (putw m (h + 1) c) h = c"
  "barrierA (putw m (h + 1) c) h = barrierA m h" "barrierZ (putw m (h + 1) c) h = barrierZ m h"
  by (simp_all add: hcap_def hnext_def barrierA_def barrierZ_def getw_def putw_def add.assoc)

lemma memset_below:
  assumes "b < NBUCKETS" "k < 6"
  shows "memset_mem m (h + 6) v (capb b) (h + k) = m (h + k)"
proof -
  have "unat k < 6" using assms(2) by (simp add: word_less_nat_alt)
  then have "unat (k - 6) \<ge> 60000" using assms(2) by (simp add: unat_diff_16 word_le_nat_alt)
  then have "\<not> k - 6 < capb b"
    using capb_cases(5) [OF assms(1)] by (simp add: word_less_nat_alt)
  then show ?thesis by (simp add: memset_mem_def)
qed

lemma header_memset [header_simps]:
  assumes "b < NBUCKETS"
  shows "hcap (memset_mem m (h + 6) v (capb b)) h = hcap m h"
    "hnext (memset_mem m (h + 6) v (capb b)) h = hnext m h"
    "barrierA (memset_mem m (h + 6) v (capb b)) h = barrierA m h"
    "barrierZ (memset_mem m (h + 6) v (capb b)) h = barrierZ m h"
  using memset_below [OF assms, of 0] memset_below [OF assms]
  by (simp_all add: hcap_def hnext_def barrierA_def barrierZ_def getw_def add.assoc)

lemma same_outside_refl [simp]: "same_outside x m m"
  by (simp add: same_outside_def)

lemma same_outside_trans:
  "same_outside x m m' \<Longrightarrow> same_outside x m' m'' \<Longrightarrow> same_outside x m m''"
  by (simp add: same_outside_def)

lemma same_outside_upd:
  assumes "fits16 (h, b)" "k < 6" "same_outside (h, b) m m'"
  shows "same_outside (h, b) m (m'(h + k := v))"
proof -
  have "unat k < 6" using assms(2) by (simp add: word_less_nat_alt)
  then have "unat (h + k) = unat h + unat k" "unat h + unat k < unat h + 6 + 8 * 2 ^ b"
    using assms(1) by (auto simp: unat_add_16 fits16_def)
  then show ?thesis
    using assms(3) by (auto simp: same_outside_def span_def)
qed

lemma same_outside_putw:
  assumes "fits16 (h, b)" "k < 5" "same_outside (h, b) m m'"
  shows "same_outside (h, b) m (putw m' (h + k) v)"
proof -
  have "k < 6" "k + 1 < 6" using assms(2)
    by (auto simp: word_less_nat_alt unat_word_ariths)
  then show ?thesis
    unfolding putw_def add.assoc using assms by (intro same_outside_upd) auto
qed

lemma same_outside_memset:
  assumes "fits16 (h, b)" "same_outside (h, b) m m'"
  shows "same_outside (h, b) m (memset_mem m' (h + 6) v (capb b))"
proof -
  have c: "unat (capb b) = 8 * 2 ^ b" "unat (h + 6) = unat h + 6"
    using assms(1) capb_cases(1) by (auto simp: fits16_def unat_add_16)
  then have "x - (h + 6) < capb b \<longleftrightarrow> unat h + 6 \<le> unat x \<and> unat x < unat h + 6 + 8 * 2 ^ b" for x
    using assms(1) in_range_16 [of "h + 6" "capb b" x] by (simp add: fits16_def)
  then show ?thesis
    using assms(2) by (auto simp: same_outside_def memset_mem_def span_def)
qed

lemmas same_outside_intros =
  same_outside_refl same_outside_upd same_outside_putw same_outside_memset

text \<open>Another block, disjoint from the updated one, keeps its header.\<close>

lemma header_frame:
  assumes "same_outside x m m'" "span x \<inter> span (g, c) = {}" "fits16 (g, c)"
  shows "hcap m' g = hcap m g" "hnext m' g = hnext m g"
    "barrierA m' g = barrierA m g" "barrierZ m' g = barrierZ m g"
proof -
  have *: "m' (g + k) = m (g + k)" if "unat k < 6" for k
  proof -
    have "unat (g + k) = unat g + unat k"
      using that assms(3) by (auto simp: unat_add_16 fits16_def)
    then have "unat (g + k) \<in> span (g, c)" using that by (simp add: span_def)
    then show ?thesis using assms(1,2) by (auto simp: same_outside_def)
  qed
  show "hcap m' g = hcap m g" "hnext m' g = hnext m g"
    "barrierA m' g = barrierA m g" "barrierZ m' g = barrierZ m g"
    using * [of 0] * [of 1] * [of 2] * [of 3] * [of 4] * [of 5]
    by (simp_all add: hcap_def hnext_def barrierA_def barrierZ_def getw_def add.assoc)
qed

section \<open>The heap invariant\<close>

fun tiles :: "nat \<Rightarrow> block list \<Rightarrow> nat \<Rightarrow> bool" where
  "tiles a [] e \<longleftrightarrow> a = e"
| "tiles a ((h, b) # bs) e \<longleftrightarrow> unat h = a \<and> b < NBUCKETS \<and> tiles (a + 6 + 8 * 2 ^ b) bs e"

fun chain :: "memory \<Rightarrow> word16 \<Rightarrow> word16 list \<Rightarrow> bool" where
  "chain m p [] \<longleftrightarrow> p = 0"
| "chain m p (x # xs) \<longleftrightarrow> p = x \<and> x \<noteq> 0 \<and> chain m (hnext m x) xs"

definition header_ok :: "memory \<Rightarrow> block \<Rightarrow> bool" where
  "header_ok m x \<longleftrightarrow> barrierA m (fst x) = ch CHR ''A'' \<and> barrierZ m (fst x) = ch CHR ''Z'' \<and>
     hcap m (fst x) \<in> {0, capb (snd x)}"

definition free_in :: "memory \<Rightarrow> block list \<Rightarrow> nat \<Rightarrow> word16 set" where
  "free_in m bs b = {h. (h, b) \<in> set bs \<and> hcap m h = 0}"

definition free_list_ok :: "memory \<Rightarrow> block list \<Rightarrow> nat \<Rightarrow> word16 \<Rightarrow> bool" where
  "free_list_ok m bs b p \<longleftrightarrow> (\<exists>fl. chain m p fl \<and> distinct fl \<and> set fl = free_in m bs b)"

definition heap_inv :: "'k mach \<Rightarrow> block list \<Rightarrow> bool" where
  "heap_inv s bs \<longleftrightarrow>
     0 < unat (heap_min s) \<and> heap_here s \<le> heap_max s \<and>
     tiles (unat (heap_min s)) bs (unat (heap_here s)) \<and>
     (\<forall>x \<in> set bs. header_ok (mem s) x) \<and>
     (\<forall>b < NBUCKETS. free_list_ok (mem s) bs b (buck_freelist s b))"

lemma tiles_bounds:
  "tiles a bs e \<Longrightarrow> a \<le> e"
  "tiles a bs e \<Longrightarrow> (h, b) \<in> set bs \<Longrightarrow>
    a \<le> unat h \<and> unat h + 6 + 8 * 2 ^ b \<le> e \<and> b < NBUCKETS"
proof -
  show le: "a \<le> e" if "tiles a bs e" for a bs e
    using that by (induction a bs e rule: tiles.induct) auto
  show "a \<le> unat h \<and> unat h + 6 + 8 * 2 ^ b \<le> e \<and> b < NBUCKETS"
    if "tiles a bs e" "(h, b) \<in> set bs"
    using that by (induction a bs e rule: tiles.induct) (auto dest: le)
qed

lemma tiles_disjoint:
  "tiles a bs e \<Longrightarrow> x \<in> set bs \<Longrightarrow> y \<in> set bs \<Longrightarrow> x \<noteq> y \<Longrightarrow> span x \<inter> span y = {}"
proof (induction a bs e rule: tiles.induct)
  case (2 a h b bs e)
  have tail: "span (h, b) \<inter> span z = {}" if "z \<in> set bs" for z
    using tiles_bounds(2) [of "a + 6 + 8 * 2 ^ b" bs e "fst z" "snd z"] that 2(2)
    by (auto simp: span_def)
  show ?case
    using 2 tail [of x] tail [of y] by auto
qed simp

lemma tiles_snoc:
  "tiles a bs (unat h) \<Longrightarrow> b < NBUCKETS \<Longrightarrow> tiles a (bs @ [(h, b)]) (unat h + 6 + 8 * 2 ^ b)"
  by (induction a bs "unat h" rule: tiles.induct) auto

lemma inv_block:
  assumes "heap_inv s bs" "(h, b) \<in> set bs"
  shows "fits16 (h, b)" "b < NBUCKETS" "h \<noteq> 0" "header_ok (mem s) (h, b)"
proof -
  have bounds: "unat (heap_min s) \<le> unat h \<and> unat h + 6 + 8 * 2 ^ b \<le> unat (heap_here s) \<and>
      b < NBUCKETS" "0 < unat (heap_min s)"
    using assms tiles_bounds(2) unfolding heap_inv_def by blast+
  then show "fits16 (h, b)"
    unfolding fits16_def using unat_word16_lt [of "heap_here s"] by (simp, linarith)
  show "b < NBUCKETS" "h \<noteq> 0" using bounds by auto
  show "header_ok (mem s) (h, b)" using assms by (simp add: heap_inv_def)
qed

lemma inv_disjoint:
  assumes "heap_inv s bs" "x \<in> set bs" "y \<in> set bs" "x \<noteq> y"
  shows "span x \<inter> span y = {}"
  using assms tiles_disjoint [OF _ assms(2-4)] unfolding heap_inv_def by blast

lemma inv_bucket_unique:
  assumes "heap_inv s bs" "(h, b) \<in> set bs" "(h, c) \<in> set bs"
  shows "b = c"
  using inv_disjoint [OF assms] by (auto simp: span_def)

lemma inv_frame:
  assumes "heap_inv s bs" "x \<in> set bs" "same_outside x (mem s) m'" "(g, c) \<in> set bs" "x \<noteq> (g, c)"
  shows "hcap m' g = hcap (mem s) g" "hnext m' g = hnext (mem s) g"
    "header_ok m' (g, c)"
  using header_frame [OF assms(3) inv_disjoint [OF assms(1,2,4,5)] inv_block(1) [OF assms(1,4)]]
    inv_block(4) [OF assms(1,4)]
  by (simp_all add: header_ok_def)

lemma chain_frame:
  "\<forall>x \<in> set fl. hnext m' x = hnext m x \<Longrightarrow> chain m' p fl = chain m p fl"
  by (induction fl arbitrary: p) auto

text \<open>An update inside one block leaves the free lists of the other buckets alone.\<close>

lemma free_list_other:
  assumes "heap_inv s bs" "(h, b) \<in> set bs" "same_outside (h, b) (mem s) m'" "c < NBUCKETS" "c \<noteq> b"
  shows "free_list_ok m' bs c (buck_freelist s c)"
proof -
  obtain fl where fl: "chain (mem s) (buck_freelist s c) fl" "distinct fl"
    "set fl = free_in (mem s) bs c"
    using assms(1,4) by (auto simp: heap_inv_def free_list_ok_def)
  have frame: "hcap m' g = hcap (mem s) g" "hnext m' g = hnext (mem s) g" if "(g, c) \<in> set bs" for g
    using inv_frame [OF assms(1,2,3) that] assms(5) by auto
  have "free_in m' bs c = free_in (mem s) bs c"
    by (auto simp: free_in_def frame)
  moreover have "chain m' (buck_freelist s c) fl"
    using fl by (subst chain_frame [where m = "mem s"]) (auto simp: free_in_def frame)
  ultimately show ?thesis using fl by (auto simp: free_list_ok_def)
qed

lemma inv_headers:
  assumes "heap_inv s bs" "(h, b) \<in> set bs" "same_outside (h, b) (mem s) m'"
    "header_ok m' (h, b)" "x \<in> set bs"
  shows "header_ok m' x"
  using inv_frame(3) [OF assms(1-3), of "fst x" "snd x"] assms(4,5) by (cases "x = (h, b)") auto

lemma heap_inv_update:
  assumes "heap_inv s bs" "(h, b) \<in> set bs" "same_outside (h, b) (mem s) (mem s')"
    and "header_ok (mem s') (h, b)"
    and "heap_min s' = heap_min s" "heap_here s' = heap_here s" "heap_max s' = heap_max s"
    and "\<forall>c. c \<noteq> b \<longrightarrow> buck_freelist s' c = buck_freelist s c"
    and "free_list_ok (mem s') bs b (buck_freelist s' b)"
  shows "heap_inv s' bs"
proof -
  have "free_list_ok (mem s') bs c (buck_freelist s' c)" if "c < NBUCKETS" for c
    using free_list_other [OF assms(1-3) that] assms(8,9) by (cases "c = b") auto
  with assms inv_headers [OF assms(1-4)] show ?thesis by (simp add: heap_inv_def)
qed

text \<open>Taking the first block of a free list, and putting a block in front.\<close>

lemma free_list_take:
  assumes "heap_inv s bs" "(h, b) \<in> set bs" "same_outside (h, b) (mem s) m'"
    and "buck_freelist s b = h" "hcap m' h \<noteq> 0"
  shows "free_list_ok m' bs b (hnext (mem s) h)"
proof -
  obtain fl where fl: "chain (mem s) h fl" "distinct fl" "set fl = free_in (mem s) bs b"
    using assms(1,4) inv_block(2) [OF assms(1,2)] by (auto simp: heap_inv_def free_list_ok_def)
  then obtain tl where tl: "fl = h # tl" "chain (mem s) (hnext (mem s) h) tl"
    using inv_block(3) [OF assms(1,2)] by (cases fl) auto
  have frame: "hcap m' g = hcap (mem s) g" "hnext m' g = hnext (mem s) g"
    if "(g, b) \<in> set bs" "g \<noteq> h" for g
    using inv_frame [OF assms(1-3) that(1)] that(2) by auto
  have set: "set tl = free_in m' bs b"
  proof -
    have "set tl = free_in (mem s) bs b - {h}" using fl tl by auto
    also have "\<dots> = free_in m' bs b"
    proof (rule set_eqI)
      show "g \<in> free_in (mem s) bs b - {h} \<longleftrightarrow> g \<in> free_in m' bs b" for g
        using assms(5) frame(1) [of g] by (cases "g = h") (auto simp: free_in_def)
    qed
    finally show ?thesis .
  qed
  have "\<forall>x \<in> set tl. hnext m' x = hnext (mem s) x"
  proof
    fix x assume "x \<in> set tl"
    then have "(x, b) \<in> set bs" "x \<noteq> h" using fl tl(1) unfolding free_in_def by auto
    then show "hnext m' x = hnext (mem s) x" by (rule frame(2))
  qed
  then have "chain m' (hnext (mem s) h) tl" using tl(2) chain_frame by blast
  with set fl tl show ?thesis by (auto simp: free_list_ok_def)
qed

lemma free_list_put:
  assumes "heap_inv s bs" "(h, b) \<in> set bs" "same_outside (h, b) (mem s) m'"
    and "hcap (mem s) h \<noteq> 0" "hcap m' h = 0" "hnext m' h = buck_freelist s b"
  shows "free_list_ok m' bs b h"
proof -
  obtain fl where fl: "chain (mem s) (buck_freelist s b) fl" "distinct fl"
    "set fl = free_in (mem s) bs b"
    using assms(1) inv_block(2) [OF assms(1,2)] by (auto simp: heap_inv_def free_list_ok_def)
  have new: "h \<notin> set fl" using fl(3) assms(4) by (simp add: free_in_def)
  have frame: "hcap m' g = hcap (mem s) g" "hnext m' g = hnext (mem s) g"
    if "(g, b) \<in> set bs" "g \<noteq> h" for g
    using inv_frame [OF assms(1-3) that(1)] that(2) by auto
  have "\<forall>x \<in> set fl. hnext m' x = hnext (mem s) x"
  proof
    fix x assume x: "x \<in> set fl"
    then have "(x, b) \<in> set bs" "x \<noteq> h" using fl new unfolding free_in_def by auto
    then show "hnext m' x = hnext (mem s) x" by (rule frame(2))
  qed
  then have "chain m' (buck_freelist s b) fl" using fl(1) chain_frame by blast
  then have "chain m' h (h # fl)"
    using inv_block(3) [OF assms(1,2)] assms(6) by simp
  moreover have "set (h # fl) = free_in m' bs b"
  proof (rule set_eqI)
    show "g \<in> set (h # fl) \<longleftrightarrow> g \<in> free_in m' bs b" for g
    proof (cases "g = h")
      case True
      then show ?thesis using assms(2,5) by (simp add: free_in_def)
    next
      case False
      have "g \<in> set fl \<longleftrightarrow> (g, b) \<in> set bs \<and> hcap (mem s) g = 0"
        unfolding fl(3) free_in_def by simp
      then show ?thesis using False frame(1) [of g] by (auto simp: free_in_def)
    qed
  qed
  ultimately show ?thesis using fl(2) new unfolding free_list_ok_def by (intro exI [of _ "h # fl"]) simp
qed

section \<open>Malloc\<close>

text \<open>The data bytes of a block, and the live blocks.\<close>

definition data :: "block \<Rightarrow> nat set" where
  "data x = {unat (fst x) + 6 ..< unat (fst x) + 6 + 8 * 2 ^ snd x}"

definition live :: "'k mach \<Rightarrow> block list \<Rightarrow> block set" where
  "live s bs = {x \<in> set bs. hcap (mem s) (fst x) \<noteq> 0}"

definition bucket_of :: "word16 \<Rightarrow> nat" where
  "bucket_of n = fst (bucket_loop 0 n SMALLEST_BUCKET)"

text \<open>A request can be served without asking the kernel for another page.\<close>

definition fits :: "'k mach \<Rightarrow> word16 \<Rightarrow> bool" where
  "fits s n \<longleftrightarrow> heap_max s \<noteq> 0 \<and> unat n \<le> 16384 \<and>
     (buck_freelist s (bucket_of n) \<noteq> 0 \<or>
      unat (heap_here s) + 6 + 8 * 2 ^ bucket_of n \<le> unat (heap_max s))"

lemma bucket_of_ok:
  fixes s :: "'k mach"
  assumes "unat n \<le> 16384"
  shows "bucket_of n < NBUCKETS" "which_bucket n s = (bucket_of n, capb (bucket_of n), s)"
    "unat n \<le> 8 * 2 ^ bucket_of n"
proof -
  have sn: "sint n = int (unat n)" using assms by (simp add: sint_word16_pos)
  then obtain b where b: "b < NBUCKETS" "bucket_loop 0 n (capb 0) = (b, capb b)"
    "sint n \<le> sint (capb b)"
    using bucket_loop_ok [of 0 n] assms by (auto simp: NBUCKETS_def uint_unat_cmp)
  moreover have bo: "bucket_of n = b" using b(2) by (simp add: bucket_of_def SMALLEST_BUCKET_def capb_def)
  ultimately show "bucket_of n < NBUCKETS" "which_bucket n s = (bucket_of n, capb (bucket_of n), s)"
    by (simp_all add: which_bucket_def SMALLEST_BUCKET_def capb_def)
  have "int (unat n) \<le> int (8 * 2 ^ b)"
    using b(3) capb_cases(2) [OF b(1)] sn by simp
  then show "unat n \<le> 8 * 2 ^ bucket_of n" unfolding bo by linarith
qed

text \<open>What an allocation establishes: an intact heap, a zeroed block that was not live
  before, and nothing else changed.\<close>

definition alloc_post ::
    "'k mach \<Rightarrow> block list \<Rightarrow> nat \<Rightarrow> word16 \<Rightarrow> 'k mach \<Rightarrow> block list \<Rightarrow> bool" where
  "alloc_post s bs b h s' bs' \<longleftrightarrow>
     heap_inv s' bs' \<and> b < NBUCKETS \<and> (h, b) \<in> live s' bs' \<and> (h, b) \<notin> live s bs \<and>
     set bs' = insert (h, b) (set bs) \<and>
     (\<forall>a. unat a \<in> data (h, b) \<longrightarrow> mem s' a = 0) \<and>
     same_outside (h, b) (mem s) (mem s') \<and>
     (\<forall>x \<in> set bs. x \<noteq> (h, b) \<longrightarrow> span x \<inter> span (h, b) = {})"

lemma capb_nonzero: "b < NBUCKETS \<Longrightarrow> capb b \<noteq> 0"
  using capb_cases(4) [of b] by auto

lemma memset_zero:
  assumes "fits16 (h, b)" "unat a \<in> data (h, b)"
  shows "memset_mem m (h + 6) 0 (capb b) a = 0"
proof -
  have "unat (h + 6) = unat h + 6" "unat (capb b) = 8 * 2 ^ b"
    using assms(1) capb_cases(1) by (auto simp: fits16_def unat_add_16)
  then have "a - (h + 6) < capb b"
    using assms in_range_16 [of "h + 6" "capb b" a] by (simp add: fits16_def data_def)
  then show ?thesis by (simp add: memset_mem_def)
qed

lemma heap_check_intact:
  "header_ok (mem s) (h, b) \<Longrightarrow> cap = 0 \<or> hcap (mem s) h = cap \<Longrightarrow> heap_check_block h cap s = s"
  by (auto simp: heap_check_block_def header_ok_def)

lemma heap_check_other: "heap_check_block h cap s =
  s\<lparr>err_out := err_out (heap_check_block h cap s)\<rparr>"
  by (auto simp: heap_check_block_def Let_def PutHex_def PC_Trace_def Panic_def)

lemma malloc_reuse_ok:
  assumes inv: "heap_inv s bs" and b: "b < NBUCKETS" and h: "buck_freelist s b = h" "h \<noteq> 0"
    and r: "malloc_reuse b (capb b) h s = (p, s')"
  shows "p = h + 6 \<and> alloc_post s bs b h s' bs \<and> heap_here s' = heap_here s \<and> heap_max s' = heap_max s \<and>
    kernel s' = kernel s"
proof -
  obtain fl where "chain (mem s) h fl" "set fl = free_in (mem s) bs b"
    using inv b h by (auto simp: heap_inv_def free_list_ok_def)
  then have hb: "(h, b) \<in> set bs" "hcap (mem s) h = 0"
    using h(2) by (cases fl; auto simp: free_in_def)+
  note ok = inv_block [OF inv hb(1)]
  let ?s1 = "s\<lparr>mem := putw (mem s) (h + 3) (capb b)\<rparr>"
  let ?m = "memset_mem (mem ?s1) (h + 6) 0 (capb b)"
  have chk: "heap_check_block h (capb b) ?s1 = ?s1"
    using ok(4) by (intro heap_check_intact [where b = b]) (auto simp: header_ok_def header_simps)
  have s': "p = h + 6" "s' = s\<lparr>mem := ?m, buck_freelist := (buck_freelist s)(b := hnext (mem s) h)\<rparr>"
    using r chk by (auto simp: malloc_reuse_def Let_def header_simps sizeof_MallocHead_def)
  have out: "same_outside (h, b) (mem s) ?m"
    using ok(1) by (simp add: same_outside_intros)
  have hdr: "hcap ?m h = capb b" "header_ok ?m (h, b)"
    using ok(4) b by (auto simp: header_simps header_ok_def)
  have "heap_inv s' bs"
    using inv hb(1) out hdr s'(2) free_list_take [OF inv hb(1) out h(1)] capb_nonzero [OF b]
    by (intro heap_inv_update [OF inv hb(1)]) auto
  then show ?thesis
    using s' hb out hdr capb_nonzero [OF b] memset_zero [OF ok(1)] b inv_disjoint [OF inv _ hb(1)]
    by (auto simp: alloc_post_def live_def)
qed

text \<open>Fresh memory: the new block is appended to the tiling.\<close>

lemma heap_inv_snoc:
  assumes inv: "heap_inv s bs" and h: "h = heap_here s" and b: "b < NBUCKETS"
    and new: "heap_here s' = h + (capb b + 6)" "unat h + 6 + 8 * 2 ^ b \<le> unat (heap_max s)"
    and same: "heap_min s' = heap_min s" "heap_max s' = heap_max s" "buck_freelist s' = buck_freelist s"
    and out: "same_outside (h, b) (mem s) (mem s')"
    and hdr: "header_ok (mem s') (h, b)" "hcap (mem s') h \<noteq> 0"
  shows "heap_inv s' (bs @ [(h, b)])" "\<forall>x \<in> set bs. span x \<inter> span (h, b) = {}"
    "(h, b) \<notin> set bs" "fits16 (h, b)"
proof -
  have tiles: "tiles (unat (heap_min s)) bs (unat h)" using inv h by (simp add: heap_inv_def)
  show disj: "\<forall>x \<in> set bs. span x \<inter> span (h, b) = {}"
    using tiles_bounds(2) [OF tiles] by (fastforce simp: span_def)
  show notin: "(h, b) \<notin> set bs" using tiles_bounds(2) [OF tiles, of h b] by auto
  show f: "fits16 (h, b)"
    using new(2) b unat_word16_lt [of "heap_max s"] unfolding fits16_def by (simp, linarith)
  have here: "unat (heap_here s') = unat h + 6 + 8 * 2 ^ b"
    using f capb_cases(1) [OF b] unfolding new(1) fits16_def
    by (simp add: unat_word_ariths)
  have frame: "hcap (mem s') g = hcap (mem s) g" "hnext (mem s') g = hnext (mem s) g"
      "header_ok (mem s') (g, c)" if "(g, c) \<in> set bs" for g c
    using header_frame [OF out _ inv_block(1) [OF inv that]] disj that inv_block(4) [OF inv that]
    by (auto simp: header_ok_def Int_commute)
  have lists: "free_list_ok (mem s') (bs @ [(h, b)]) c (buck_freelist s' c)" if c: "c < NBUCKETS" for c
  proof -
    obtain fl where fl: "chain (mem s) (buck_freelist s c) fl" "distinct fl"
      "set fl = free_in (mem s) bs c"
      using inv c by (auto simp: heap_inv_def free_list_ok_def)
    have "free_in (mem s') (bs @ [(h, b)]) c = free_in (mem s) bs c"
      using hdr(2) frame(1) by (auto simp: free_in_def)
    moreover have "\<forall>x \<in> set fl. hnext (mem s') x = hnext (mem s) x"
      unfolding fl(3) free_in_def using frame(2) by auto
    then have "chain (mem s') (buck_freelist s' c) fl"
      using fl(1) same(3) chain_frame by metis
    ultimately show ?thesis using fl by (auto simp: free_list_ok_def)
  qed
  have "heap_here s' \<le> heap_max s'" using here new(2) same(2) by (simp add: word_le_nat_alt)
  moreover have "tiles (unat (heap_min s')) (bs @ [(h, b)]) (unat (heap_here s'))"
    unfolding here same(1) using tiles b by (rule tiles_snoc)
  moreover have "\<forall>x \<in> set (bs @ [(h, b)]). header_ok (mem s') x"
    using frame(3) hdr(1) by auto
  ultimately show "heap_inv s' (bs @ [(h, b)])"
    using inv lists same(1) by (simp add: heap_inv_def)
qed

lemma header_upd_A [header_simps]:
  "barrierA (m(h := v)) h = v" "hcap (m(h := v)) h = hcap m h" "hnext (m(h := v)) h = hnext m h"
  "barrierZ (m(h := v)) h = barrierZ m h"
  by (simp_all add: hcap_def hnext_def barrierA_def barrierZ_def getw_def add.assoc)

lemma header_upd_Z [header_simps]:
  "barrierZ (m(h + 5 := v)) h = v" "barrierA (m(h + 5 := v)) h = barrierA m h"
  by (simp_all add: barrierA_def barrierZ_def)

lemma malloc_break_ok:
  assumes inv: "heap_inv s bs" and b: "b < NBUCKETS"
    and room: "unat (heap_here s) + 6 + 8 * 2 ^ b \<le> unat (heap_max s)"
    and r: "malloc_break b (capb b) (heap_here s + (capb b + 6)) s = (p, s')"
  shows "p = heap_here s + 6 \<and> alloc_post s bs b (heap_here s) s' (bs @ [(heap_here s, b)]) \<and>
    heap_max s' = heap_max s \<and> unat (heap_here s') = unat (heap_here s) + 6 + 8 * 2 ^ b \<and>
    kernel s' = kernel s"
proof -
  let ?h = "heap_here s"
  have f: "fits16 (?h, b)"
    using room b unat_word16_lt [of "heap_max s"] unfolding fits16_def by (simp, linarith)
  define m where "m = memset_mem (putw (putw ((mem s)(?h := 65, ?h + 5 := 90)) (?h + 3) (capb b))
      (?h + 1) 0) (?h + 6) 0 (capb b)"
  have s': "p = ?h + 6" "mem s' = m" "heap_here s' = ?h + (capb b + 6)" "heap_max s' = heap_max s"
      "heap_min s' = heap_min s" "buck_freelist s' = buck_freelist s" "kernel s' = kernel s"
    using r by (auto simp: malloc_break_def Let_def sizeof_MallocHead_def m_def)
  have out: "same_outside (?h, b) (mem s) m"
    unfolding m_def using f same_outside_upd [OF f, of 0] by (simp add: same_outside_intros)
  have hdr: "hcap m ?h = capb b" "header_ok m (?h, b)"
    using b by (auto simp: m_def header_simps header_ok_def)
  note snoc = heap_inv_snoc [OF inv refl b s'(3) room s'(5,4,6), unfolded s'(2), OF out hdr(2)]
  have "unat (heap_here s') = unat ?h + 6 + 8 * 2 ^ b"
    using f capb_cases(1) [OF b] unfolding s'(3) fits16_def by (simp add: unat_word_ariths)
  then show ?thesis
    using s' out hdr capb_nonzero [OF b] memset_zero [OF f] snoc b
    by (auto simp: alloc_post_def live_def m_def)
qed

lemma heap_inv_ghost [simp]:
  "heap_inv (s\<lparr>buck_num_alloc := f\<rparr>) bs = heap_inv s bs"
  "heap_inv (s\<lparr>buck_num_free := f\<rparr>) bs = heap_inv s bs"
  "heap_inv (s\<lparr>heap_retry := r\<rparr>) bs = heap_inv s bs"
  "heap_inv (s\<lparr>err_out := e\<rparr>) bs = heap_inv s bs"
  "heap_inv (s\<lparr>kernel := k\<rparr>) bs = heap_inv s bs"
  by (simp_all add: heap_inv_def)

lemma alloc_post_ghost [simp]:
  "alloc_post (s\<lparr>buck_num_alloc := f\<rparr>) = alloc_post s"
  "alloc_post s bs b h (s'\<lparr>heap_retry := r\<rparr>) bs' = alloc_post s bs b h s' bs'"
  by (simp_all add: alloc_post_def live_def fun_eq_iff)

lemma Malloc_fits:
  assumes inv: "heap_inv s bs" and fits: "fits s n"
  shows "\<exists>h s' bs'. Malloc os9 n s = Some (h + 6, s') \<and>
    alloc_post s bs (bucket_of n) h s' bs' \<and> heap_max s' = heap_max s \<and>
    unat (heap_here s') \<le> unat (heap_here s) + 6 + 8 * 2 ^ bucket_of n \<and> kernel s' = kernel s"
proof -
  let ?b = "bucket_of n"
  let ?s = "s\<lparr>buck_num_alloc := (buck_num_alloc s)(?b := buck_num_alloc s ?b + 1)\<rparr>"
  have n: "unat n \<le> 16384" "heap_max s \<noteq> 0" using fits by (auto simp: fits_def)
  note b = bucket_of_ok(1) [OF n(1)] bucket_of_ok(2) [OF n(1), of s]
  have inv': "heap_inv ?s bs" using inv by simp
  show ?thesis
  proof (cases "buck_freelist s ?b = 0")
    case False
    obtain p s' where r: "malloc_reuse ?b (capb ?b) (buck_freelist s ?b) ?s = (p, s')"
      by fastforce
    moreover have "Malloc os9 n s = Some (malloc_reuse ?b (capb ?b) (buck_freelist s ?b) ?s)"
      using n(2) b(1,2) False by (subst Malloc.simps) (simp add: not_le)
    ultimately show ?thesis
      using malloc_reuse_ok [OF inv' b(1) _ False r] by auto
  next
    case True
    then have room: "unat (heap_here ?s) + 6 + 8 * 2 ^ ?b \<le> unat (heap_max ?s)"
      using fits by (simp add: fits_def)
    obtain p s' where r: "malloc_break ?b (capb ?b) (heap_here s + (capb ?b + 6)) ?s = (p, s')"
      by fastforce
    have "unat (heap_here s + (capb ?b + 6)) \<le> unat (heap_max s)"
      using room capb_cases(1) [OF b(1)] unat_word16_lt [of "heap_max s"]
      by (simp add: unat_word_ariths)
    then have "\<not> heap_here s + (capb ?b + 6) > heap_max s" by (simp add: word_le_nat_alt not_less)
    then have "Malloc os9 n s = Some (malloc_break ?b (capb ?b) (heap_here s + (capb ?b + 6)) ?s)"
      using n(2) b(1,2) True by (subst Malloc.simps) (simp add: not_le sizeof_MallocHead_def)
    then show ?thesis
      using malloc_break_ok [OF inv' b(1) room] r by auto
  qed
qed

text \<open>
  C6.  On an intact heap, a request that fits is granted: \<^verbatim>\<open>Malloc\<close> returns a block
  of the smallest sufficient bucket that was not in use, all its bytes zero, and no byte
  outside that block has changed, so every other live block keeps its header and data.
\<close>

theorem Malloc_correct:
  assumes "heap_inv s bs" "fits s n"
  shows "\<exists>h s' bs'. Malloc os9 n s = Some (h + 6, s') \<and> heap_inv s' bs' \<and>
    unat n \<le> 8 * 2 ^ bucket_of n \<and>
    (h, bucket_of n) \<in> live s' bs' \<and> (h, bucket_of n) \<notin> live s bs \<and>
    set bs' = insert (h, bucket_of n) (set bs) \<and>
    (\<forall>a. unat a \<in> data (h, bucket_of n) \<longrightarrow> mem s' a = 0) \<and>
    (\<forall>a. unat a \<notin> span (h, bucket_of n) \<longrightarrow> mem s' a = mem s a) \<and>
    (\<forall>x \<in> set bs. x \<noteq> (h, bucket_of n) \<longrightarrow> span x \<inter> span (h, bucket_of n) = {})"
  using Malloc_fits [OF assms, of os9] bucket_of_ok(3) [of n] assms(2)
  unfolding alloc_post_def same_outside_def fits_def by metis

definition empty_heap :: "unit mach" where
  "empty_heap = \<lparr>mem = \<lambda>_. 0, heap_min = 0x2000, heap_here = 0x2000, heap_max = 0x4000,
     heap_retry = False, buck_freelist = \<lambda>_. 0, buck_num_alloc = \<lambda>_. 0, buck_num_free = \<lambda>_. 0,
     buck_num_brk = \<lambda>_. 0, err_out = [], Verbosity = 5, ErrNo = 0, kernel = ()\<rparr>"

lemma empty_heap_inv: "heap_inv empty_heap []"
  by (auto simp: heap_inv_def empty_heap_def free_list_ok_def free_in_def intro!: exI [of _ "[]"])

lemma bucket_of_100: "bucket_of 100 = 4"
  by (simp add: bucket_of_def SMALLEST_BUCKET_def NBUCKETS_def bucket_loop.simps)

lemma empty_heap_fits: "fits empty_heap 100"
  by (simp add: fits_def bucket_of_100 empty_heap_def)

lemma Malloc_correct_witness:
  "\<exists>h s'. Malloc (\<lambda>k n. (Inl 0, k)) 100 empty_heap = Some (h + 6, s')
    \<and> (\<forall>a. unat a \<in> data (h, 4) \<longrightarrow> mem s' a = 0)"
  using Malloc_correct [OF empty_heap_inv empty_heap_fits, of "\<lambda>k n. (Inl 0, k)"]
  unfolding bucket_of_100 by blast

section \<open>Free\<close>

lemma header_live:
  assumes "heap_inv s bs" "(h, b) \<in> live s bs"
  shows "(h, b) \<in> set bs" "hcap (mem s) h = capb b" "b < NBUCKETS" "fits16 (h, b)" "h + 6 \<noteq> 0"
proof -
  show *: "(h, b) \<in> set bs" "hcap (mem s) h = capb b" "b < NBUCKETS" "fits16 (h, b)"
    using assms inv_block [OF assms(1), of h b] by (auto simp: live_def header_ok_def)
  have "unat (h + 6) = unat h + 6" using *(4) by (simp add: fits16_def unat_add_16)
  then show "h + 6 \<noteq> 0" by auto
qed

lemma Free_live:
  assumes inv: "heap_inv s bs" and h: "(h, b) \<in> live s bs"
  shows "\<exists>s'. Free (h + 6) s = Some s' \<and> heap_inv s' bs \<and> live s' bs = live s bs - {(h, b)} \<and>
    same_outside (h, b) (mem s) (mem s') \<and> (\<forall>a. unat a \<in> data (h, b) \<longrightarrow> mem s' a = 0) \<and>
    heap_max s' = heap_max s \<and> heap_here s' = heap_here s \<and> err_out s' = err_out s \<and>
    kernel s' = kernel s"
proof -
  note hb = header_live [OF inv h]
  let ?s = "s\<lparr>buck_num_free := (buck_num_free s)(b := buck_num_free s b + 1)\<rparr>"
  let ?m1 = "memset_mem (mem s) (h + 6) 0 (capb b)"
  let ?m = "putw (putw ?m1 (h + 3) 0) (h + 1) (buck_freelist s b)"
  let ?s' = "?s\<lparr>mem := ?m, buck_freelist := (buck_freelist s)(b := h)\<rparr>"
  have chk: "heap_check_block h (capb b) s = s"
    using inv_block(4) [OF inv hb(1)] hb(2) by (rule heap_check_intact [OF _ disjI2])
  have free: "Free (h + 6) s = Some ?s'"
    using hb capb_nonzero [OF hb(3)] chk
    by (simp add: Free_def Let_def sizeof_MallocHead_def which_bucket_capb not_le)
  have out: "same_outside (h, b) (mem s) ?m"
    using hb(4) by (simp add: same_outside_intros)
  have hdr: "hcap ?m h = 0" "hnext ?m h = buck_freelist s b" "header_ok ?m (h, b)"
    using inv_block(4) [OF inv hb(1)] hb(3) by (auto simp: header_simps header_ok_def)
  have inv': "heap_inv ?s' bs"
    using free_list_put [OF inv hb(1) out _ hdr(1,2)] hb(2) capb_nonzero [OF hb(3)] out hdr(3)
    by (intro heap_inv_update [OF inv hb(1)]) auto
  have zero: "?m a = 0" if "unat a \<in> data (h, b)" for a
  proof -
    have "a \<noteq> h + k" if "unat k < 5" for k
      using \<open>unat a \<in> data (h, b)\<close> that hb(4) by (auto simp: data_def fits16_def unat_add_16)
    from this [of 1] this [of 2] this [of 3] this [of 4] memset_zero [OF hb(4) that]
    show ?thesis by (simp add: putw_def add.assoc)
  qed
  have caps: "hcap ?m g = hcap (mem s) g" if "(g, c) \<in> set bs" "(g, c) \<noteq> (h, b)" for g c
    using inv_frame(1) [OF inv hb(1) out that(1)] that(2) by auto
  have "live ?s' bs = live s bs - {(h, b)}"
  proof (rule set_eqI)
    fix x :: block
    show "x \<in> live ?s' bs \<longleftrightarrow> x \<in> live s bs - {(h, b)}"
      using caps [of "fst x" "snd x"] hdr(1) by (cases "x = (h, b)") (auto simp: live_def)
  qed
  with free inv' out zero show ?thesis by (intro exI [of _ ?s']) simp
qed

text \<open>
  C7.  \<^verbatim>\<open>Free\<close> of a live block returns it, zeroed, to the free list of its bucket and
  keeps the heap intact; every other block is untouched.  A second \<^verbatim>\<open>Free\<close> of
  the same block only prints \<^verbatim>\<open>DoubleFree\<close>, and the null pointer is ignored.
\<close>

theorem Free_correct:
  assumes "heap_inv s bs" "(h, b) \<in> live s bs"
  shows "\<exists>s'. Free (h + 6) s = Some s' \<and> heap_inv s' bs \<and> live s' bs = live s bs - {(h, b)} \<and>
    (\<forall>a. unat a \<in> data (h, b) \<longrightarrow> mem s' a = 0) \<and>
    (\<forall>a. unat a \<notin> span (h, b) \<longrightarrow> mem s' a = mem s a) \<and>
    Free (h + 6) s' = Some (Panic (cs ''DoubleFree'') s') \<and> Free 0 s' = Some s'"
proof -
  obtain s' where s': "Free (h + 6) s = Some s'" "heap_inv s' bs" "live s' bs = live s bs - {(h, b)}"
    "same_outside (h, b) (mem s) (mem s')" "\<forall>a. unat a \<in> data (h, b) \<longrightarrow> mem s' a = 0"
    using Free_live [OF assms] by blast
  have "(h, b) \<notin> live s' bs" using s'(3) by blast
  then have "hcap (mem s') h = 0" using header_live(1) [OF assms(1,2)] by (simp add: live_def)
  then have "Free (h + 6) s' = Some (Panic (cs ''DoubleFree'') s')"
    using header_live(5) [OF assms] by (simp add: Free_def Let_def sizeof_MallocHead_def)
  with s' show ?thesis by (auto simp: same_outside_def Free_def)
qed

lemma Free_correct_witness:
  "\<exists>h s s'. Malloc (\<lambda>k n. (Inl 0, k)) 100 empty_heap = Some (h + 6, s) \<and>
     Free (h + 6) s = Some s' \<and> Free (h + 6) s' = Some (Panic (cs ''DoubleFree'') s')"
proof -
  obtain h s bs where "Malloc (\<lambda>k n. (Inl 0, k)) 100 empty_heap = Some (h + 6, s)"
    "alloc_post empty_heap [] (bucket_of 100) h s bs"
    using Malloc_fits [OF empty_heap_inv empty_heap_fits] by metis
  then show ?thesis
    using Free_correct [of s bs h "bucket_of 100"] by (auto simp: alloc_post_def)
qed

section \<open>Client writes and ReAlloc\<close>

text \<open>A client that writes only inside the data of its block keeps the heap intact.\<close>

definition same_outside_data :: "block \<Rightarrow> memory \<Rightarrow> memory \<Rightarrow> bool" where
  "same_outside_data x m m' \<longleftrightarrow> (\<forall>a. unat a \<notin> data x \<longrightarrow> m' a = m a)"

lemma data_write_same_outside:
  "same_outside_data x m m' \<Longrightarrow> same_outside x m m'"
  by (auto simp: same_outside_def same_outside_data_def data_def span_def)

lemma data_write_header:
  assumes "same_outside_data (h, b) m m'" "fits16 (h, b)"
  shows "hcap m' h = hcap m h" "hnext m' h = hnext m h" "header_ok m' (h, b) = header_ok m (h, b)"
proof -
  have *: "m' (h + k) = m (h + k)" if "unat k < 6" for k
    using that assms by (auto simp: same_outside_data_def data_def fits16_def unat_add_16)
  then show "hcap m' h = hcap m h" "hnext m' h = hnext m h" "header_ok m' (h, b) = header_ok m (h, b)"
    using * [of 0] * [of 1] * [of 2] * [of 3] * [of 4] * [of 5]
    by (simp_all add: header_ok_def hcap_def hnext_def barrierA_def barrierZ_def getw_def add.assoc)
qed

lemma data_write_inv:
  assumes inv: "heap_inv s bs" and hb: "(h, b) \<in> set bs" and w: "same_outside_data (h, b) (mem s) m"
  shows "heap_inv (s\<lparr>mem := m\<rparr>) bs" "live (s\<lparr>mem := m\<rparr>) bs = live s bs"
proof -
  note out = data_write_same_outside [OF w] and hdr = data_write_header [OF w inv_block(1) [OF inv hb]]
  have frame: "hcap m g = hcap (mem s) g" "hnext m g = hnext (mem s) g" if "(g, c) \<in> set bs" for g c
    using inv_frame [OF inv hb out that] hdr by (cases "(g, c) = (h, b)"; auto)+
  have "free_list_ok m bs c (buck_freelist s c)" if c: "c < NBUCKETS" for c
  proof -
    obtain fl where fl: "chain (mem s) (buck_freelist s c) fl" "distinct fl"
      "set fl = free_in (mem s) bs c"
      using inv c by (auto simp: heap_inv_def free_list_ok_def)
    have "free_in m bs c = free_in (mem s) bs c" using frame(1) by (auto simp: free_in_def)
    moreover have "\<forall>x \<in> set fl. hnext m x = hnext (mem s) x"
      unfolding fl(3) free_in_def using frame(2) by auto
    then have "chain m (buck_freelist s c) fl" using fl(1) chain_frame by metis
    ultimately show ?thesis using fl by (auto simp: free_list_ok_def)
  qed
  moreover have "\<forall>x \<in> set bs. header_ok m x"
    using inv_headers [OF inv hb out] hdr(3) inv_block(4) [OF inv hb] by blast
  ultimately show "heap_inv (s\<lparr>mem := m\<rparr>) bs" using inv by (simp add: heap_inv_def)
  show "live (s\<lparr>mem := m\<rparr>) bs = live s bs"
    using frame(1) by (auto simp: live_def)
qed

lemma alloc_live:
  assumes inv: "heap_inv s bs" and post: "alloc_post s bs b h s' bs'"
  shows "live s' bs' = insert (h, b) (live s bs)"
proof (rule set_eqI)
  fix x :: block
  have out: "same_outside (h, b) (mem s) (mem s')" and bs': "set bs' = insert (h, b) (set bs)"
    using post by (auto simp: alloc_post_def)
  show "x \<in> live s' bs' \<longleftrightarrow> x \<in> insert (h, b) (live s bs)"
  proof (cases "x = (h, b) \<or> x \<notin> set bs")
    case True
    then show ?thesis using post bs' by (auto simp: alloc_post_def live_def)
  next
    case False
    then have "span (h, b) \<inter> span x = {}" using post by (auto simp: alloc_post_def)
    then have "hcap (mem s') (fst x) = hcap (mem s) (fst x)"
      using header_frame(1) [OF out, of "fst x" "snd x"] inv_block(1) [OF inv, of "fst x" "snd x"] False
      by simp
    then show ?thesis using False bs' by (auto simp: live_def)
  qed
qed

lemma live_disjoint:
  "heap_inv s bs \<Longrightarrow> x \<in> live s bs \<Longrightarrow> y \<in> live s bs \<Longrightarrow> x \<noteq> y \<Longrightarrow> span x \<inter> span y = {}"
  using inv_disjoint unfolding live_def by blast

lemma block_addr:
  assumes "fits16 (h, b)" "k < 8 * 2 ^ b"
  shows "unat (h + 6 + of_nat k) = unat h + 6 + k" "h + 6 + of_nat k - (h + 6) = of_nat k"
    "unat (of_nat k :: word16) = k" "unat (h + 6 + of_nat k) \<in> data (h, b)"
    "unat (h + 6 + of_nat k) \<in> span (h, b)"
proof -
  have k: "unat h + 6 + k < 65536" using assms by (auto simp: fits16_def)
  then show u: "unat (of_nat k :: word16) = k" by (simp add: unat_of_nat)
  with k show *: "unat (h + 6 + of_nat k) = unat h + 6 + k"
    by (simp add: unat_word_ariths)
  show "h + 6 + of_nat k - (h + 6) = of_nat k" by simp
  show "unat (h + 6 + of_nat k) \<in> data (h, b)" "unat (h + 6 + of_nat k) \<in> span (h, b)"
    unfolding * using assms(2) by (auto simp: data_def span_def)
qed

text \<open>The bytes of a block, from its first data byte.\<close>

definition block_byte :: "'k mach \<Rightarrow> block \<Rightarrow> nat \<Rightarrow> byte" where
  "block_byte s x k = mem s (fst x + 6 + of_nat k)"

lemma block_byte_frame:
  assumes "fits16 (g, c)" "k < 8 * 2 ^ c" "span (g, c) \<inter> span x = {}" "same_outside x (mem s) (mem s')"
  shows "block_byte s' (g, c) k = block_byte s (g, c) k"
  using block_addr(5) [OF assms(1,2)] assms(3,4) by (auto simp: block_byte_def same_outside_def)

lemma ReAlloc_small:
  assumes "heap_inv s bs" "(h, b) \<in> live s bs" "unat n \<le> 8 * 2 ^ b"
  shows "ReAlloc os9 (h + 6) n s = Some (h + 6, s)"
proof -
  note hb = header_live [OF assms(1,2)]
  have "n \<le> hcap (mem s) h"
    using hb(2) assms(3) capb_cases(1) [OF hb(3)] by (simp add: word_le_nat_alt)
  then show ?thesis
    using hb(5) by (simp add: ReAlloc_def sizeof_MallocHead_def)
qed

lemma memcpy_out:
  assumes "fits16 (h, b)" "c < NBUCKETS" "(8 :: nat) * 2 ^ c \<le> 8 * 2 ^ b"
  shows "same_outside_data (h, b) m (memcpy_mem m (h + 6) src (capb c))"
proof -
  have "unat (h + 6) = unat h + 6" using assms(1) by (auto simp: fits16_def unat_add_16)
  moreover have "unat (h + 6) + unat (capb c) \<le> 65536"
    unfolding calculation capb_cases(1) [OF assms(2)]
    using assms(1,3) unfolding fits16_def fst_conv snd_conv by linarith
  ultimately have "a - (h + 6) < capb c \<Longrightarrow> unat a \<in> data (h, b)" for a
    using in_range_16 [of "h + 6" "capb c" a] capb_cases(1) [OF assms(2)]
    unfolding data_def fst_conv snd_conv
    by simp (use assms(3) in linarith)
  then show ?thesis by (auto simp: same_outside_data_def memcpy_mem_def)
qed

lemma ReAlloc_grow:
  assumes inv: "heap_inv s bs" and h: "(h, b) \<in> live s bs" and n: "8 * 2 ^ b < unat n" "fits s n"
  shows "\<exists>h' b' s' bs'. ReAlloc os9 (h + 6) n s = Some (h' + 6, s') \<and> heap_inv s' bs' \<and>
    (h', b') \<notin> live s bs \<and> live s' bs' = insert (h', b') (live s bs - {(h, b)}) \<and> unat n \<le> 8 * 2 ^ b' \<and>
    b' = bucket_of n \<and> heap_max s' = heap_max s \<and> kernel s' = kernel s \<and>
    unat (heap_here s') \<le> unat (heap_here s) + 6 + 8 * 2 ^ b' \<and>
    (\<forall>k < 8 * 2 ^ b. block_byte s' (h', b') k = block_byte s (h, b) k) \<and>
    (\<forall>a. unat a \<notin> span (h, b) \<longrightarrow> unat a \<notin> span (h', b') \<longrightarrow> mem s' a = mem s a)"
proof -
  note hb = header_live [OF inv h]
  define b' where "b' = bucket_of n"
  obtain h' s1 bs' where m: "Malloc os9 n s = Some (h' + 6, s1)" "alloc_post s bs b' h' s1 bs'"
    and here1: "heap_max s1 = heap_max s" "kernel s1 = kernel s" "unat (heap_here s1) \<le> unat (heap_here s) + 6 + 8 * 2 ^ b'"
    using Malloc_fits [OF inv n(2)] unfolding b'_def by blast
  have inv1: "heap_inv s1 bs'" and out1: "same_outside (h', b') (mem s) (mem s1)"
    and new: "(h', b') \<in> live s1 bs'" "(h', b') \<notin> live s bs"
    using m(2) by (auto simp: alloc_post_def)
  note live1 = alloc_live [OF inv m(2)]
  have ne: "(h', b') \<noteq> (h, b)" using new(2) h by auto
  have h1: "(h, b) \<in> live s1 bs'" using live1 h by blast
  have nb: "unat n \<le> 8 * 2 ^ b'" using bucket_of_ok(3) n(2) by (simp add: fits_def b'_def)
  note hb1 = header_live [OF inv1 h1] and hb' = header_live [OF inv1 new(1)]
  define s2 where "s2 = s1\<lparr>mem := memcpy_mem (mem s1) (h' + 6) (h + 6) (capb b)\<rparr>"
  have out2: "same_outside_data (h', b') (mem s1) (mem s2)"
    unfolding s2_def using memcpy_out [OF hb'(4) hb(3) less_imp_le [OF less_le_trans [OF n(1) nb]]]
    by simp
  have inv2: "heap_inv s2 bs'" and live2: "live s2 bs' = live s1 bs'"
    using data_write_inv [OF inv1 hb'(1) out2] by (simp_all add: s2_def)
  obtain s3 where f: "Free (h + 6) s2 = Some s3" "heap_inv s3 bs'" "live s3 bs' = live s2 bs' - {(h, b)}"
    "same_outside (h, b) (mem s2) (mem s3)" "heap_max s3 = heap_max s2" "heap_here s3 = heap_here s2"
    "kernel s3 = kernel s2"
    using Free_live [OF inv2, of h b] h1 live2 by blast
  have "\<not> n \<le> hcap (mem s) h"
    using hb(2) n(1) capb_cases(1) [OF hb(3)] by (simp add: word_le_nat_alt)
  then have re: "ReAlloc os9 (h + 6) n s = Some (h' + 6, s3)"
    using hb(5) m(1) f(1) hb1(2) by (simp add: ReAlloc_def sizeof_MallocHead_def s2_def)
  have disj: "span (h', b') \<inter> span (h, b) = {}" using live_disjoint [OF inv1 new(1) h1 ne] .
  have bytes: "block_byte s3 (h', b') k = block_byte s (h, b) k" if k: "k < 8 * 2 ^ b" for k
  proof -
    have k': "k < 8 * 2 ^ b'" using k n(1) nb by simp
    have "block_byte s3 (h', b') k = block_byte s2 (h', b') k"
      by (rule block_byte_frame [OF hb'(4) k' disj f(4)])
    also have "\<dots> = block_byte s1 (h, b) k"
      using block_addr(2,3) [OF hb'(4) k'] k capb_cases(1) [OF hb(3)]
      by (simp add: block_byte_def s2_def memcpy_mem_def word_less_nat_alt)
    also have "\<dots> = block_byte s (h, b) k"
      by (rule block_byte_frame [OF hb(4) k _ out1]) (use disj in blast)
    finally show ?thesis .
  qed
  have rest: "mem s3 a = mem s a" if "unat a \<notin> span (h, b)" "unat a \<notin> span (h', b')" for a
    using that f(4) out1 data_write_same_outside [OF out2] by (simp add: same_outside_def)
  have "live s3 bs' = insert (h', b') (live s bs - {(h, b)})"
    using f(3) live2 live1 ne by blast
  moreover have "heap_max s3 = heap_max s" "heap_here s3 = heap_here s1" "kernel s3 = kernel s"
    using f(5,6,7) here1 by (simp_all add: s2_def)
  ultimately show ?thesis using re f(2) new(2) nb bytes rest here1 b'_def by metis
qed

text \<open>
  C8.  \<^verbatim>\<open>ReAlloc\<close> keeps the contents: a request within the capacity returns the same
  block and changes nothing; a larger one that fits moves the block, copies every byte of
  its old capacity, frees the old block and changes no byte elsewhere.
\<close>

theorem ReAlloc_correct:
  assumes "heap_inv s bs" "(h, b) \<in> live s bs" "unat n \<le> 8 * 2 ^ b \<or> fits s n"
  shows "\<exists>h' b' s' bs'. ReAlloc os9 (h + 6) n s = Some (h' + 6, s') \<and> heap_inv s' bs' \<and>
    live s' bs' = insert (h', b') (live s bs - {(h, b)}) \<and> unat n \<le> 8 * 2 ^ b' \<and>
    (\<forall>k < 8 * 2 ^ b. block_byte s' (h', b') k = block_byte s (h, b) k) \<and>
    (\<forall>a. unat a \<notin> span (h, b) \<longrightarrow> unat a \<notin> span (h', b') \<longrightarrow> mem s' a = mem s a)"
proof (cases "unat n \<le> 8 * 2 ^ b")
  case True
  then show ?thesis
    using ReAlloc_small [OF assms(1,2) True] assms(1,2)
    by (intro exI [of _ h] exI [of _ b] exI [of _ s] exI [of _ bs]) auto
next
  case False
  then show ?thesis using ReAlloc_grow [OF assms(1,2)] assms(3) by (metis not_le)
qed

lemma ReAlloc_correct_witness:
  "\<exists>h s s' h' b'. Malloc (\<lambda>k n. (Inl 0, k)) 100 empty_heap = Some (h + 6, s) \<and>
     ReAlloc (\<lambda>k n. (Inl 0, k)) (h + 6) 128 s = Some (h' + 6, s') \<and>
     (\<forall>k < 128. block_byte s' (h', b') k = block_byte s (h, 4) k)"
proof -
  obtain h s bs where m: "Malloc (\<lambda>k n. (Inl 0, k)) 100 empty_heap = Some (h + 6, s)"
    "alloc_post empty_heap [] 4 h s bs"
    using Malloc_fits [OF empty_heap_inv empty_heap_fits, of "\<lambda>k n. (Inl 0, k)"]
    unfolding bucket_of_100 by blast
  then have "heap_inv s bs" "(h, 4) \<in> live s bs" by (auto simp: alloc_post_def)
  from ReAlloc_correct [OF this, of 128 "\<lambda>k n. (Inl 0, k)"] m(1) show ?thesis by auto
qed

section \<open>Asking the kernel for another page\<close>

text \<open>The kernel refuses, or grants exactly the size asked for.\<close>

definition exact_grant :: "'k os9mem \<Rightarrow> 'k \<Rightarrow> word16 \<Rightarrow> bool" where
  "exact_grant os9 k sz \<longleftrightarrow> (\<forall>sz' e. fst (os9 k sz) = Inr (sz', e) \<longrightarrow> sz' = sz)"

lemma Os9Mem_size:
  assumes "exact_grant os9 (kernel s) sz"
  obtains err endm' k where "Os9Mem os9 sz endm s = (err, sz, endm', s\<lparr>kernel := k\<rparr>)"
proof (cases "os9 (kernel s) sz")
  case (Pair a k)
  have "\<exists>err endm'. Os9Mem os9 sz endm s = (err, sz, endm', s\<lparr>kernel := k\<rparr>)"
    using assms Pair by (cases a) (auto simp: Os9Mem_def exact_grant_def)
  then show ?thesis using that by blast
qed

lemma malloc_page_max:
  assumes "exact_grant os9 (kernel s) (heap_max s + 0x2000)" "\<not> heap_retry s"
  obtains k out where "malloc_page os9 n cap s =
    s\<lparr>heap_max := heap_max s + 0x2000, kernel := k, err_out := out\<rparr>"
proof -
  obtain err endm' k where e:
    "Os9Mem os9 (heap_max s + 0x2000) 0 s = (err, heap_max s + 0x2000, endm', s\<lparr>kernel := k\<rparr>)"
    by (rule Os9Mem_size [OF assms(1)])
  have "malloc_page os9 n cap s = s\<lparr>heap_max := heap_max s + 0x2000, kernel := k,
      err_out := (if err = 0 then err_out s else err_out (MallocOOM err n cap (s\<lparr>kernel := k\<rparr>)))\<rparr>"
    using assms(2) e
    by (simp add: malloc_page_def Let_def MallocOOM_def PutHex_def Panic_def)
  then show ?thesis by (rule that)
qed

lemma Malloc_full:
  assumes "heap_max s \<noteq> 0" "unat n \<le> 16384" "buck_freelist s (bucket_of n) = 0"
    and "unat (heap_here s) + 6 + 8 * 2 ^ bucket_of n < 65536"
    and "unat (heap_max s) < unat (heap_here s) + 6 + 8 * 2 ^ bucket_of n"
  shows "Malloc os9 n s =
    (let b = bucket_of n;
         s = s\<lparr>buck_num_alloc := (buck_num_alloc s)(b := buck_num_alloc s b + 1)\<rparr>
     in do { (p, s) \<leftarrow> Malloc os9 n ((malloc_page os9 n (capb b) s)\<lparr>heap_retry := True\<rparr>);
             Some (p, s\<lparr>heap_retry := False\<rparr>) })"
proof -
  note b = bucket_of_ok(1) [OF assms(2)] bucket_of_ok(2) [OF assms(2), of s]
  have "unat (heap_here s + (capb (bucket_of n) + 6)) = unat (heap_here s) + 6 + 8 * 2 ^ bucket_of n"
    using assms(4) capb_cases(1) [OF b(1)] by (simp add: unat_word_ariths)
  then have "heap_here s + (capb (bucket_of n) + 6) > heap_max s"
    using assms(5) by (simp add: word_less_nat_alt)
  then show ?thesis
    using assms(1,3) b by (subst Malloc.simps) (simp add: not_le sizeof_MallocHead_def Let_def)
qed

text \<open>
   When a request does not fit, \<^verbatim>\<open>Malloc\<close> asks for one more 8 KB page and serves
  the request from it, resetting \<^verbatim>\<open>heap_retry\<close>.  It does so whether the kernel
  grants the page or not: after a refusal the only trace is the out-of-memory message,
  and the block lies beyond the memory the kernel gave the process.
\<close>

theorem Malloc_next_page:
  assumes inv: "heap_inv s bs" and "\<not> heap_retry s" "heap_max s \<noteq> 0" "unat n \<le> 16384"
    and full: "buck_freelist s (bucket_of n) = 0"
      "unat (heap_max s) < unat (heap_here s) + 6 + 8 * 2 ^ bucket_of n"
    and room: "unat (heap_here s) + 6 + 8 * 2 ^ bucket_of n \<le> unat (heap_max s) + 0x2000"
      "unat (heap_max s) + 0x2000 < 65536"
    and os9: "exact_grant os9 (kernel s) (heap_max s + 0x2000)"
  shows "\<exists>s' bs'. Malloc os9 n s = Some (heap_here s + 6, s') \<and> heap_inv s' bs' \<and>
    (heap_here s, bucket_of n) \<in> live s' bs' \<and> heap_max s' = heap_max s + 0x2000 \<and>
    \<not> heap_retry s' \<and> unat (heap_max s) < unat (heap_here s) + 6 + 8 * 2 ^ bucket_of n"
proof -
  let ?b = "bucket_of n"
  let ?s = "s\<lparr>buck_num_alloc := (buck_num_alloc s)(?b := buck_num_alloc s ?b + 1)\<rparr>"
  obtain k out where page: "malloc_page os9 n (capb ?b) ?s =
      ?s\<lparr>heap_max := heap_max s + 0x2000, kernel := k, err_out := out\<rparr>"
    by (rule malloc_page_max [of os9 ?s n "capb ?b"]) (use os9 assms(2) in auto)
  let ?s1 = "?s\<lparr>heap_max := heap_max s + 0x2000, kernel := k, err_out := out, heap_retry := True\<rparr>"
  have max: "unat (heap_max s + 0x2000) = unat (heap_max s) + 0x2000"
    using room(2) by (simp add: unat_word_ariths)
  have inv1: "heap_inv ?s1 bs"
    using inv max by (simp add: heap_inv_def word_le_nat_alt)
  have room1: "unat (heap_here ?s1) + 6 + 8 * 2 ^ ?b \<le> unat (heap_max ?s1)"
    using room(1) max by simp
  have "heap_max s + 0x2000 \<noteq> 0" using max by auto
  then have "fits ?s1 n" using room1 assms(4) by (simp add: fits_def)
  note b = bucket_of_ok(1) [OF assms(4)] bucket_of_ok(2) [OF assms(4), of ?s1]
  let ?s2 = "?s1\<lparr>buck_num_alloc := (buck_num_alloc ?s1)(?b := buck_num_alloc ?s1 ?b + 1)\<rparr>"
  obtain p s' where r: "malloc_break ?b (capb ?b) (heap_here ?s2 + (capb ?b + 6)) ?s2 = (p, s')"
    by fastforce
  have "\<not> heap_here s + (capb ?b + 6) > heap_max s + 0x2000"
    using room1 capb_cases(1) [OF b(1)] room(2) max
    by (simp add: word_less_nat_alt not_less unat_word_ariths)
  then have "Malloc os9 n ?s1 = Some (p, s')"
    using b full(1) \<open>heap_max s + 0x2000 \<noteq> 0\<close> r
    by (subst Malloc.simps) (simp add: not_le sizeof_MallocHead_def)
  then have "Malloc os9 n s = Some (p, s'\<lparr>heap_retry := False\<rparr>)"
    using Malloc_full [OF assms(3,4) full(1) _ full(2), of os9] room page by simp
  moreover have "heap_inv ?s2 bs" using inv1 by (simp add: heap_inv_def)
  from malloc_break_ok [OF this b(1) _ r] room1
  have "p = heap_here s + 6 \<and> alloc_post ?s2 bs ?b (heap_here s) s' (bs @ [(heap_here s, ?b)]) \<and>
      heap_max s' = heap_max s + 0x2000" by simp
  ultimately show ?thesis
    using full(2) by (auto simp: alloc_post_def live_def)
qed

lemma bucket_of_9000: "bucket_of 9000 = 11"
  by (simp add: bucket_of_def SMALLEST_BUCKET_def NBUCKETS_def bucket_loop.simps)

lemma Malloc_next_page_witness:
  "\<exists>s'. Malloc (\<lambda>k n. (Inl 207, k)) 9000 (empty_heap\<lparr>heap_max := 0x5000\<rparr>) = Some (0x2006, s') \<and>
     heap_max s' = 0x7000"
proof -
  have "heap_inv (empty_heap\<lparr>heap_max := 0x5000\<rparr>) []"
    using empty_heap_inv by (simp add: heap_inv_def empty_heap_def)
  from Malloc_next_page [OF this, of 9000 "\<lambda>k n. (Inl 207, k)"] show ?thesis
    by (auto simp: empty_heap_def bucket_of_9000 exact_grant_def)
qed

text \<open>
   The new break is computed in 16 bits.  When it passes the top of the address space
  the test against \<^verbatim>\<open>heap_max\<close> sees the wrapped value, so \<^verbatim>\<open>Malloc\<close> succeeds:
  \<^verbatim>\<open>heap_here\<close> ends below the block and the zeroing runs through address 0.
\<close>

theorem Malloc_wraps:
  assumes "heap_max s \<noteq> 0" "unat n \<le> 16384" "buck_freelist s (bucket_of n) = 0"
    and "65536 \<le> unat (heap_here s) + 6 + 8 * 2 ^ bucket_of n"
    and "unat (heap_here s) + 6 + 8 * 2 ^ bucket_of n - 65536 \<le> unat (heap_max s)"
    and "unat (heap_here s) + 6 < 65536"
  shows "\<exists>s'. Malloc os9 n s = Some (heap_here s + 6, s') \<and>
    unat (heap_here s') = unat (heap_here s) + 6 + 8 * 2 ^ bucket_of n - 65536 \<and>
    heap_here s' < heap_here s \<and> (\<forall>a < heap_here s'. mem s' a = 0)"
proof -
  let ?b = "bucket_of n" and ?brk = "heap_here s + (capb (bucket_of n) + 6)"
  let ?s = "s\<lparr>buck_num_alloc := (buck_num_alloc s)(?b := buck_num_alloc s ?b + 1)\<rparr>"
  note b = bucket_of_ok(1) [OF assms(2)] bucket_of_ok(2) [OF assms(2), of s]
  note cap = capb_cases [OF b(1)]
  have brk: "unat ?brk = unat (heap_here s) + 6 + 8 * 2 ^ ?b - 65536"
  proof -
    have "unat (capb ?b + 6) = 6 + 8 * 2 ^ ?b"
      using cap(1,5) by (simp add: unat_word_ariths)
    then have "unat ?brk = (unat (heap_here s) + (6 + 8 * 2 ^ ?b)) mod 65536"
      by (simp only: unat_word_ariths) simp
    then have "unat ?brk = (unat (heap_here s) + 6 + 8 * 2 ^ ?b) mod 65536"
      by (simp only: add.assoc)
    also have "\<dots> = (unat (heap_here s) + 6 + 8 * 2 ^ ?b - 65536) mod 65536"
      using assms(4) by (rule le_mod_geq)
    also have "\<dots> = unat (heap_here s) + 6 + 8 * 2 ^ ?b - 65536"
      using cap(1,5) unat_word16_lt [of "heap_here s"] by (intro mod_less) linarith
    finally show ?thesis .
  qed
  have "\<not> ?brk > heap_max s" using brk assms(5) by (simp add: word_less_nat_alt)
  then have m: "Malloc os9 n s = Some (malloc_break ?b (capb ?b) ?brk ?s)"
    using assms(1,3) b by (subst Malloc.simps) (simp add: not_le sizeof_MallocHead_def)
  obtain p s' where r: "malloc_break ?b (capb ?b) ?brk ?s = (p, s')" by fastforce
  have s': "p = heap_here s + 6" "heap_here s' = ?brk"
    "mem s' = memset_mem (putw (putw ((mem s)(heap_here s := 65, heap_here s + 5 := 90))
       (heap_here s + 3) (capb ?b)) (heap_here s + 1) 0) (heap_here s + 6) 0 (capb ?b)"
    using r by (auto simp: malloc_break_def Let_def sizeof_MallocHead_def)
  have less: "heap_here s' < heap_here s"
    unfolding s'(2) word_less_nat_alt brk using cap(5) assms(4) unfolding cap(1) by linarith
  have "mem s' a = 0" if "a < heap_here s'" for a
  proof -
    have h6: "unat (heap_here s + 6) = unat (heap_here s) + 6"
      using assms(6) by (simp add: unat_word_ariths)
    have "unat a < unat (heap_here s) + 6 + 8 * 2 ^ ?b - 65536"
      using that s'(2) brk by (simp add: word_less_nat_alt)
    moreover from this have "\<not> heap_here s + 6 \<le> a"
      unfolding word_le_nat_alt h6 using cap(5) assms(4) unfolding cap(1) by linarith
    ultimately have "a - (heap_here s + 6) < capb ?b"
      unfolding word_less_nat_alt unat_diff_16 h6 cap(1) using assms(4)
      by simp (use unat_word16_lt [of "heap_here s"] cap(4) [unfolded cap(1)] in linarith)
    then show ?thesis using s'(3) by (simp add: memset_mem_def)
  qed
  with m r s' less brk show ?thesis by simp
qed

lemma Malloc_wraps_witness:
  "\<exists>s'. Malloc (\<lambda>k n. (Inl 0, k)) 9000 (empty_heap\<lparr>heap_here := 0xC800, heap_max := 0xE000\<rparr>) =
     Some (0xC806, s') \<and> unat (heap_here s') = 0x806 \<and> mem s' 0 = 0"
  using Malloc_wraps [of "empty_heap\<lparr>heap_here := 0xC800, heap_max := 0xE000\<rparr>" 9000
      "\<lambda>k n. (Inl 0, k)"]
  by (auto simp: empty_heap_def bucket_of_9000 word_less_nat_alt)

end
