(* ===== verification/Frob_Sink.thy ===== *)
theory Frob_Sink
  imports Frob_Prelude
begin

text \<open>
  The interface between what produces text (list elements, formats) and what holds it:
  a sink takes one byte, or the first bytes of a string, at its end.  The clients of the
  interface are proved once, for every sink that keeps the two laws; the growing buffer
  of \<^verbatim>\<open>Frob_Buf\<close> is one.
\<close>

fun app_each :: "(byte \<Rightarrow> 's \<Rightarrow> 's option) \<Rightarrow> cstr \<Rightarrow> 's \<Rightarrow> 's option" where
  "app_each f [] s = Some s"
| "app_each f (c # t) s = do { s \<leftarrow> f c s; app_each f t s }"

text \<open>\<^verbatim>\<open>room\<close> says how many bytes the sink can still take.\<close>

locale byte_sink =
  fixes app_c :: "byte \<Rightarrow> 's \<Rightarrow> 's option"
    and app_s :: "cstr \<Rightarrow> word16 \<Rightarrow> 's \<Rightarrow> 's option"
    and contents :: "'s \<Rightarrow> cstr"
    and room :: "nat \<Rightarrow> 's \<Rightarrow> bool"
  assumes app_c: "room (Suc k) s \<Longrightarrow>
      \<exists>s'. app_c c s = Some s' \<and> contents s' = contents s @ [c] \<and> room k s'"
    and app_s: "room (unat n + k) s \<Longrightarrow> unat n \<le> length str + 1 \<Longrightarrow>
      \<exists>s'. app_s str n s = Some s' \<and> contents s' = contents s @ take (unat n) (str @ [0]) \<and> room k s'"
    and room_mono: "room k s \<Longrightarrow> j \<le> k \<Longrightarrow> room j s"
    and room_bound: "room k s \<Longrightarrow> k \<le> 16384"
begin

text \<open>What it is for an operation to append a given text.\<close>

definition appends :: "cstr \<Rightarrow> ('s \<Rightarrow> 's option) \<Rightarrow> bool" where
  "appends t f \<longleftrightarrow> (\<forall>s k. room (length t + k) s \<longrightarrow>
     (\<exists>s'. f s = Some s' \<and> contents s' = contents s @ t \<and> room k s'))"

lemma appendsD:
  assumes "appends t f" "room (length t + k) s"
  obtains s' where "f s = Some s'" "contents s' = contents s @ t" "room k s'"
  using assms unfolding appends_def by blast

lemma appends_Nil: "appends [] Some"
  by (simp add: appends_def)

lemma appends_c: "appends [c] (app_c c)"
  using app_c by (auto simp: appends_def)

lemma appends_prefix:
  assumes "k \<le> length str"
  shows "appends (take k str) (app_s str (of_nat k))"
  unfolding appends_def
proof (intro allI impI)
  fix s j assume "room (length (take k str) + j) s"
  then have room: "room (k + j) s" using assms by simp
  then have n: "unat (of_nat k :: word16) = k"
    using room_bound [OF room] by (simp add: unat_of_nat)
  show "\<exists>s'. app_s str (of_nat k) s = Some s' \<and> contents s' = contents s @ take k str \<and> room j s'"
    using app_s [of "of_nat k" j s str] room assms unfolding n by simp
qed

lemma appends_str: "appends str (app_s str (of_nat (length str)))"
  using appends_prefix [of "length str" str] by simp

lemma appends_bind:
  assumes "appends t f" "appends u g"
  shows "appends (t @ u) (\<lambda>s. f s \<bind> g)"
  unfolding appends_def
proof (intro allI impI)
  fix s k assume "room (length (t @ u) + k) s"
  then have "room (length t + (length u + k)) s" by (simp add: add.assoc)
  with assms(1) obtain s1 where 1: "f s = Some s1" "contents s1 = contents s @ t"
    "room (length u + k) s1" by (rule appendsD)
  obtain s2 where "g s1 = Some s2" "contents s2 = contents s1 @ u" "room k s2"
    by (rule appendsD [OF assms(2) 1(3)])
  with 1 show "\<exists>s'. (f s \<bind> g) = Some s' \<and> contents s' = contents s @ (t @ u) \<and> room k s'"
    by simp
qed

lemma appends_each_of:
  assumes "\<And>c. c \<in> set t \<Longrightarrow> appends (e c) (f c)"
  shows "appends (concat (map e t)) (app_each f t)"
  using assms
proof (induction t)
  case Nil
  then show ?case using appends_Nil by (simp add: appends_def)
next
  case (Cons c t)
  have "appends (e c @ concat (map e t)) (\<lambda>s. f c s \<bind> app_each f t)"
    using Cons by (intro appends_bind) auto
  then show ?case by (simp add: appends_def)
qed

lemma appends_each: "appends t (app_each app_c t)"
  using appends_each_of [where e = "\<lambda>c. [c]" and t = t and f = app_c, OF appends_c] by simp

end

end
