(* ===== verification/Frob_Buf.thy ===== *)
theory Frob_Buf
  imports Frob_Heap Frob_Sink
begin

text \<open>
  \<^verbatim>\<open>froblib/buf.c\<close>: growing byte buffers, the element syntax of lists, and
  \<^verbatim>\<open>strdup\<close> and \<^verbatim>\<open>strndup\<close> of \<^verbatim>\<open>froblib/std.c\<close>, on the process memory of
  \<^verbatim>\<open>Frob_Malloc\<close>.  A failed \<^verbatim>\<open>ASSERT\<close> exits the process with status 255
  (\<^verbatim>\<open>None\<close>).  A \<^verbatim>\<open>char*\<close> argument that the callee only reads is the string it
  points at.
\<close>

section \<open>Strings in memory\<close>

text \<open>\<^verbatim>\<open>strlen\<close> of memory with no NUL byte never ends.\<close>

partial_function (option) strlen_mem :: "memory \<Rightarrow> word16 \<Rightarrow> word16 \<Rightarrow> word16 option" where
  "strlen_mem m p n = (if m (p + n) = 0 then Some n else strlen_mem m p (n + 1))"

declare strlen_mem.simps [code]

fun write_bytes :: "memory \<Rightarrow> word16 \<Rightarrow> cstr \<Rightarrow> memory" where
  "write_bytes m t [] = m"
| "write_bytes m t (c # str) = write_bytes (m(t := c)) (t + 1) str"

definition strdup :: "'k os9mem \<Rightarrow> cstr \<Rightarrow> 'k mach \<Rightarrow> (word16 \<times> 'k mach) option" where
  "strdup os9 str s = do {
     (p, s) \<leftarrow> Malloc os9 (of_nat (length str) + 1) s;
     Some (p, s\<lparr>mem := write_bytes (mem s) p (str @ [0])\<rparr>) }"

definition StrDup :: "'k os9mem \<Rightarrow> cstr \<Rightarrow> 'k mach \<Rightarrow> (word16 \<times> 'k mach) option" where
  "StrDup os9 str s = strdup os9 str s"

text \<open>\<^verbatim>\<open>strncpy\<close> copies \<^verbatim>\<open>n + 1\<close> bytes, padding with NULs, and writes no
  NUL of its own when the string is longer.\<close>

definition strndup :: "'k os9mem \<Rightarrow> cstr \<Rightarrow> word16 \<Rightarrow> 'k mach \<Rightarrow> (word16 \<times> 'k mach) option" where
  "strndup os9 str n s = do {
     (p, s) \<leftarrow> Malloc os9 (n + 1) s;
     let k = unat (n + 1);
     Some (p, s\<lparr>mem := write_bytes (mem s) p (take k (str @ replicate k 0))\<rparr>) }"

section \<open>Buffers\<close>

record Buf =
  buf_s :: word16
  buf_n :: word16

type_synonym 'k bufst = "Buf \<times> 'k mach"

definition BUF_INITIAL_CAP :: word16 where "BUF_INITIAL_CAP = 16"

definition bufhex :: cstr where "bufhex = cs ''0123456789abcdef''"

text \<open>The bytes printed before the exit are not kept: the process is gone.\<close>

definition minimal_assert :: "bool \<Rightarrow> unit option" where
  "minimal_assert b = (if \<not> b then None else Some ())"

definition BufCheck :: "Buf \<Rightarrow> unit option" where
  "BufCheck p = do {
     minimal_assert (0 \<le> sint (buf_n p));
     minimal_assert (buf_s p \<noteq> 0);
     minimal_assert (buf_s p \<le> 0xC000) }"

definition BufInit :: "'k os9mem \<Rightarrow> 'k mach \<Rightarrow> 'k bufst option" where
  "BufInit os9 s = do {
     (p, s) \<leftarrow> Malloc os9 BUF_INITIAL_CAP s;
     Some (\<lparr>buf_s = p, buf_n = 0\<rparr>, s) }"

definition BufInitWith :: "'k os9mem \<Rightarrow> cstr \<Rightarrow> 'k mach \<Rightarrow> 'k bufst option" where
  "BufInitWith os9 str s = do {
     (p, s) \<leftarrow> StrDup os9 str s;
     Some (\<lparr>buf_s = p, buf_n = of_nat (length str)\<rparr>, s) }"

definition BufInitTake :: "word16 \<Rightarrow> 'k mach \<Rightarrow> 'k bufst option" where
  "BufInitTake p s = do {
     n \<leftarrow> strlen_mem (mem s) p 0;
     Some (\<lparr>buf_s = p, buf_n = n\<rparr>, s) }"

definition BufDel :: "'k bufst \<Rightarrow> 'k bufst option" where
  "BufDel ps = (case ps of (p, s) \<Rightarrow> do {
     s \<leftarrow> Free (buf_s p) s;
     Some (p\<lparr>buf_s := 0, buf_n := - 1\<rparr>, s) })"

definition BufFinish :: "'k os9mem \<Rightarrow> 'k bufst \<Rightarrow> (word16 \<times> 'k bufst) option" where
  "BufFinish os9 ps = (case ps of (p, s) \<Rightarrow> do {
     BufCheck p;
     (t, s) \<leftarrow> ReAlloc os9 (buf_s p) (buf_n p + 1) s;
     let s = s\<lparr>mem := (mem s)(t + buf_n p := 0)\<rparr>;
     Some (t, (p\<lparr>buf_s := t\<rparr>, s)) })"

definition BufTake :: "'k bufst \<Rightarrow> (word16 \<times> 'k bufst) option" where
  "BufTake ps = (case ps of (p, s) \<Rightarrow> do {
     BufCheck p;
     Some (buf_s p, (p\<lparr>buf_s := 0, buf_n := - 1\<rparr>, s)) })"

definition BufPeek :: "'k bufst \<Rightarrow> word16" where
  "BufPeek ps = buf_s (fst ps)"

definition BufAppC :: "'k os9mem \<Rightarrow> byte \<Rightarrow> 'k bufst \<Rightarrow> 'k bufst option" where
  "BufAppC os9 c ps = (case ps of (p, s) \<Rightarrow> do {
     BufCheck p;
     let p = p\<lparr>buf_n := buf_n p + 1\<rparr>;
     (t, s) \<leftarrow> ReAlloc os9 (buf_s p) (buf_n p) s;
     let p = p\<lparr>buf_s := t\<rparr>;
     Some (p, s\<lparr>mem := (mem s)(buf_s p + (buf_n p - 1) := c)\<rparr>) })"

text \<open>Reading behind the NUL of the source is undefined.\<close>

definition BufAppS :: "'k os9mem \<Rightarrow> cstr \<Rightarrow> word16 \<Rightarrow> 'k bufst \<Rightarrow> 'k bufst option" where
  "BufAppS os9 str n ps = (case ps of (p, s) \<Rightarrow> do {
     BufCheck p;
     let n = (if sint n < 0 then of_nat (length str) else n);
     (q, s) \<leftarrow> ReAlloc os9 (buf_s p) (buf_n p + n) s;
     let p = p\<lparr>buf_s := q\<rparr>;
     let t = buf_s p + buf_n p;
     (if nat (sint n) > length str + 1 then None else
      let s = s\<lparr>mem := write_bytes (mem s) t (take (nat (sint n)) (str @ [0]))\<rparr>
      in Some (p\<lparr>buf_n := buf_n p + n\<rparr>, s)) })"

definition BufAppStr :: "'k os9mem \<Rightarrow> cstr \<Rightarrow> 'k bufst \<Rightarrow> 'k bufst option" where
  "BufAppStr os9 str ps = BufAppS os9 str (of_nat (length str)) ps"

section \<open>List elements\<close>

definition elem_special :: "byte \<Rightarrow> bool" where
  "elem_special c \<longleftrightarrow> c \<le>s ch CHR '' '' \<or> ch CHR ''z'' <s c \<or> c = 92"

definition BufAppElemC :: "'k os9mem \<Rightarrow> byte \<Rightarrow> 'k bufst \<Rightarrow> 'k bufst option" where
  "BufAppElemC os9 c ps = (case ps of (p, s) \<Rightarrow> do {
     BufCheck p;
     (if elem_special c then do {
        let p = p\<lparr>buf_n := buf_n p + 2\<rparr>;
        (t, s) \<leftarrow> ReAlloc os9 (buf_s p) (buf_n p) s;
        let p = p\<lparr>buf_s := t\<rparr>;
        let m = (mem s)(buf_s p + (buf_n p - 2) := 92);
        Some (p, s\<lparr>mem := m(buf_s p + (buf_n p - 1) := c)\<rparr>) }
      else do {
        let p = p\<lparr>buf_n := buf_n p + 1\<rparr>;
        (t, s) \<leftarrow> ReAlloc os9 (buf_s p) (buf_n p) s;
        let p = p\<lparr>buf_s := t\<rparr>;
        Some (p, s\<lparr>mem := (mem s)(buf_s p + (buf_n p - 1) := c)\<rparr>) }) })"

definition BufAppElemS :: "'k os9mem \<Rightarrow> cstr \<Rightarrow> 'k bufst \<Rightarrow> 'k bufst option" where
  "BufAppElemS os9 str ps = do {
     BufCheck (fst ps);
     ps \<leftarrow> (if buf_n (fst ps) \<noteq> 0 then BufAppC os9 (ch CHR '' '') ps else Some ps);
     let clean = (\<forall>c \<in> set str. \<not> elem_special c);
     (if clean \<and> str \<noteq> [] then app_each (BufAppC os9) str ps
      else do {
        ps \<leftarrow> BufAppC os9 (ch CHR ''{'') ps;
        ps \<leftarrow> app_each (BufAppElemC os9) str ps;
        BufAppC os9 (ch CHR ''}'') ps }) }"

text \<open>A buffer of pointers.\<close>

definition BufAppDope :: "'k os9mem \<Rightarrow> word16 \<Rightarrow> 'k bufst \<Rightarrow> 'k bufst option" where
  "BufAppDope os9 ptr ps = do {
     let n = buf_n (fst ps) div 2;
     (p, s) \<leftarrow> BufAppS os9 (cs ''        '') 2 ps;
     Some (p, s\<lparr>mem := putw (mem s) (buf_s p + 2 * n) ptr\<rparr>) }"

definition BufTakeDope :: "'k bufst \<Rightarrow> (word16 \<times> word16 \<times> 'k bufst) option" where
  "BufTakeDope ps = do {
     let len = buf_n (fst ps) div 2;
     (t, ps) \<leftarrow> BufTake ps;
     Some (len, t, ps) }"

text \<open>The braced loops of \<^verbatim>\<open>ElemLen\<close> and \<^verbatim>\<open>ElemDecode\<close>.  A backslash
  as the last character makes the pointer step over the NUL: \<^verbatim>\<open>None\<close>.\<close>

fun elem_len_loop :: "cstr \<Rightarrow> nat \<Rightarrow> (nat \<times> cstr) option" where
  "elem_len_loop [] n = Some (n, [])"
| "elem_len_loop (c # s) n =
     (if c = ch CHR ''}'' then Some (n, s)
      else if c = 92 then (case s of [] \<Rightarrow> None | _ # s' \<Rightarrow> elem_len_loop s' (n + 2))
      else elem_len_loop s (n + 1))"

definition bare_char :: "byte \<Rightarrow> bool" where
  "bare_char c \<longleftrightarrow> ch CHR '' '' <s c"

definition ElemLen :: "cstr \<Rightarrow> (nat \<times> cstr) option" where
  "ElemLen s =
     (if peek s = ch CHR ''{'' then elem_len_loop (tl s) 0
      else Some (length (takeWhile bare_char s), dropWhile bare_char s))"

fun elem_decode_loop :: "'k os9mem \<Rightarrow> cstr \<Rightarrow> 'k bufst \<Rightarrow> 'k bufst option" where
  "elem_decode_loop os9 [] ps = Some ps"
| "elem_decode_loop os9 (c # s) ps =
     (if c = ch CHR ''}'' then Some ps
      else if c = 92 then
        (case s of [] \<Rightarrow> None
         | d # s' \<Rightarrow> do { ps \<leftarrow> BufAppC os9 d ps; elem_decode_loop os9 s' ps })
      else do { ps \<leftarrow> BufAppC os9 c ps; elem_decode_loop os9 s ps })"

definition ElemDecode :: "'k os9mem \<Rightarrow> cstr \<Rightarrow> 'k mach \<Rightarrow> (word16 \<times> 'k mach) option" where
  "ElemDecode os9 str s = do {
     ps \<leftarrow> BufInit os9 s;
     ps \<leftarrow> (if peek str = ch CHR ''{'' then elem_decode_loop os9 (tl str) ps
            else BufAppS os9 str (of_nat (length (takeWhile bare_char str))) ps);
     (t, ps) \<leftarrow> BufFinish os9 ps;
     (t, ps) \<leftarrow> BufTake ps;
     Some (t, snd ps) }"

section \<open>Writing runs of bytes\<close>

lemma write_bytes_at:
  "unat t + length bs < 65536 \<Longrightarrow> write_bytes m t bs a =
    (if unat t \<le> unat a \<and> unat a < unat t + length bs then bs ! (unat a - unat t) else m a)"
proof (induction bs arbitrary: m t)
  case (Cons c bs)
  have t1: "unat (t + 1) = unat t + 1" using Cons.prems by (simp add: unat_word_ariths)
  have "a = t \<longleftrightarrow> unat a = unat t" by (simp add: word_unat_eq_iff)
  then show ?case
    using Cons t1 by (auto simp: nth_Cons')
qed auto

section \<open>The contents of a buffer\<close>

definition buf_contents :: "'k bufst \<Rightarrow> cstr" where
  "buf_contents ps = map (\<lambda>i. mem (snd ps) (buf_s (fst ps) + of_nat i)) [0 ..< unat (buf_n (fst ps))]"

text \<open>Memory the larger buckets up to \<^verbatim>\<open>N\<close> bytes may still take.\<close>

definition growth :: "nat \<Rightarrow> nat \<Rightarrow> nat" where
  "growth b N = (\<Sum>c \<in> {c. b < c \<and> c < NBUCKETS \<and> 8 * 2 ^ (c - 1) < N}. 6 + 8 * 2 ^ c)"

text \<open>A well-formed buffer with room for \<^verbatim>\<open>k\<close> more bytes: its pointer is the data of a
  live block of an intact heap that ends below the 0xC000 of \<^verbatim>\<open>BufCheck\<close>.\<close>

definition buf_room_at :: "'k \<Rightarrow> block list \<Rightarrow> block \<Rightarrow> nat \<Rightarrow> 'k bufst \<Rightarrow> bool" where
  "buf_room_at kk bs x k ps \<longleftrightarrow> (case ps of (p, s) \<Rightarrow>
     heap_inv s bs \<and> x \<in> live s bs \<and> buf_s p = fst x + 6 \<and> kernel s = kk \<and>
     unat (buf_n p) \<le> 8 * 2 ^ snd x \<and> unat (buf_n p) + k \<le> 16384 \<and>
     heap_max s \<noteq> 0 \<and> unat (heap_max s) \<le> 0xC000 \<and>
     unat (heap_here s) + growth (snd x) (unat (buf_n p) + k) \<le> unat (heap_max s))"

definition buf_room :: "'k \<Rightarrow> nat \<Rightarrow> 'k bufst \<Rightarrow> bool" where
  "buf_room kk k ps \<longleftrightarrow> (\<exists>bs x. buf_room_at kk bs x k ps)"

lemma growth_step:
  assumes "b < b'" "b' < NBUCKETS" "8 * 2 ^ (b' - 1) < N"
  shows "6 + 8 * 2 ^ b' + growth b' N \<le> growth b N"
proof -
  let ?S = "\<lambda>b. {c. b < c \<and> c < NBUCKETS \<and> (8 :: nat) * 2 ^ (c - 1) < N}"
  have "6 + 8 * 2 ^ b' + growth b' N = (\<Sum>c \<in> insert b' (?S b'). 6 + 8 * 2 ^ c)"
    by (simp add: growth_def)
  also have "\<dots> \<le> growth b N"
    unfolding growth_def using assms by (intro sum_mono2) auto
  finally show ?thesis .
qed

lemma growth_none: "N \<le> 8 * 2 ^ b \<Longrightarrow> growth b N = 0"
proof -
  assume N: "N \<le> 8 * 2 ^ b"
  have "\<not> (8 :: nat) * 2 ^ (c - 1) < N" if "b < c" for c
  proof -
    have "(2 :: nat) ^ b \<le> 2 ^ (c - 1)" using that by simp
    then show ?thesis using N by linarith
  qed
  then show "growth b N = 0" unfolding growth_def by (intro sum.neutral) auto
qed

lemma growth_mono: "M \<le> N \<Longrightarrow> growth b M \<le> growth b N"
  unfolding growth_def by (intro sum_mono2) auto

lemma bucket_of_below:
  assumes "unat n \<le> 16384" "8 * 2 ^ b < unat n"
  shows "b < bucket_of n" "8 * 2 ^ (bucket_of n - 1) < unat n"
proof -
  have le: "unat n \<le> 8 * 2 ^ bucket_of n" using bucket_of_ok(3) [OF assms(1)] .
  show b: "b < bucket_of n"
  proof (rule ccontr)
    assume "\<not> b < bucket_of n"
    then have "(8 :: nat) * 2 ^ bucket_of n \<le> 8 * 2 ^ b" by simp
    then show False using le assms(2) by linarith
  qed
  obtain b' where b': "b' < NBUCKETS" "which_bucket n (undefined :: unit mach) = (b', capb b', undefined)"
    "\<forall>j < b'. unat (capb j) < unat n"
    using which_bucket_ok [of n "undefined :: unit mach"] assms by auto
  then have "b' = bucket_of n" using bucket_of_ok(2) [OF assms(1)] by (metis prod.inject)
  moreover have "b' - 1 < b'" "b' - 1 < NBUCKETS" using calculation b b'(1) by auto
  ultimately show "8 * 2 ^ (bucket_of n - 1) < unat n"
    using b'(3) capb_cases(1) [of "b' - 1"] by metis
qed

lemma buf_room_check:
  assumes "buf_room_at kk bs x k (p, s)"
  shows "BufCheck p = Some ()"
proof -
  have x: "heap_inv s bs" "x \<in> live s bs" "buf_s p = fst x + 6" "unat (buf_n p) \<le> 16384"
    "unat (heap_max s) \<le> 0xC000" "heap_here s \<le> heap_max s"
    using assms by (auto simp: buf_room_at_def heap_inv_def)
  obtain h b where hb: "x = (h, b)" by (cases x)
  note l = header_live [OF x(1), of h b, folded hb, OF x(2)]
  have "unat h + 6 + 8 * 2 ^ b \<le> unat (heap_here s)"
    using x(1) l(1) tiles_bounds(2) hb unfolding heap_inv_def by blast
  moreover have "unat (h + 6) = unat h + 6" using l(4) hb by (simp add: fits16_def unat_add_16)
  ultimately have "unat (buf_s p) \<le> 0xC000"
    using x(3,5,6) hb by (simp add: word_le_nat_alt)
  then have "buf_s p \<le> 0xC000" by (simp add: word_le_nat_alt)
  moreover have "0 \<le> sint (buf_n p)" using x(4) by (simp add: sint_word16_pos)
  ultimately show ?thesis
    using l(5) x(3) hb by (simp add: BufCheck_def minimal_assert_def)
qed

text \<open>Growing by \<^verbatim>\<open>m\<close> bytes and filling them in.\<close>

lemma block_write:
  assumes inv: "heap_inv s bs" and l: "(h, b) \<in> live s bs"
    and n: "n + length t \<le> 8 * 2 ^ b"
  defines "s' \<equiv> s\<lparr>mem := write_bytes (mem s) (h + 6 + of_nat n) t\<rparr>"
  shows "heap_inv s' bs" "live s' bs = live s bs"
    "i < n \<Longrightarrow> mem s' (h + 6 + of_nat i) = mem s (h + 6 + of_nat i)"
    "i < length t \<Longrightarrow> mem s' (h + 6 + of_nat (n + i)) = t ! i"
proof -
  note hb = header_live [OF inv l]
  have nb: "n \<le> 8 * 2 ^ b" using n by simp
  have start: "unat (h + 6 + of_nat n) = unat h + 6 + n" if "t \<noteq> []"
  proof (rule block_addr(1) [OF hb(4)])
    show "n < 8 * 2 ^ b" using that n by (cases t) auto
  qed
  have top: "unat h + 6 + 8 * 2 ^ b < 65536" using hb(4) by (simp add: fits16_def)
  have w: "mem s' a = (if unat h + 6 + n \<le> unat a \<and> unat a < unat h + 6 + n + length t
      then t ! (unat a - (unat h + 6 + n)) else mem s a)" for a
  proof (cases "t = []")
    case False
    then have "unat (h + 6 + of_nat n) + length t < 65536" using start n top by simp
    from write_bytes_at [OF this, of "mem s" a] show ?thesis
      using start [OF False] by (simp add: s'_def)
  qed (auto simp: s'_def)
  have "same_outside_data (h, b) (mem s) (mem s')"
    unfolding same_outside_data_def data_def using w n by auto
  then show "heap_inv s' bs" "live s' bs = live s bs"
    using data_write_inv [OF inv hb(1)] by (simp_all add: s'_def)
  show "mem s' (h + 6 + of_nat i) = mem s (h + 6 + of_nat i)" if "i < n"
    using w [of "h + 6 + of_nat i"] block_addr(1) [OF hb(4), of i] that nb by simp
  show "mem s' (h + 6 + of_nat (n + i)) = t ! i" if "i < length t"
    using w [of "h + 6 + of_nat (n + i)"] block_addr(1) [OF hb(4), of "n + i"] that n
    by (simp del: of_nat_add)
qed

lemma buf_contents_append:
  assumes "\<And>i. i < n \<Longrightarrow> mem s' (q + of_nat i) = mem s (p + of_nat i)"
    and "\<And>i. i < length t \<Longrightarrow> mem s' (q + of_nat (n + i)) = t ! i"
    and "unat N = n + length t" "unat M = n"
  shows "buf_contents (\<lparr>buf_s = q, buf_n = N\<rparr>, s') = buf_contents (\<lparr>buf_s = p, buf_n = M\<rparr>, s) @ t"
proof (rule nth_equalityI)
  let ?l = "buf_contents (\<lparr>buf_s = q, buf_n = N\<rparr>, s')"
  let ?r = "buf_contents (\<lparr>buf_s = p, buf_n = M\<rparr>, s) @ t"
  show "length ?l = length ?r" using assms(3,4) by (simp add: buf_contents_def)
  fix i assume "i < length ?l"
  then have i: "i < n + length t" using assms(3) by (simp add: buf_contents_def)
  show "?l ! i = ?r ! i"
  proof (cases "i < n")
    case True
    then show ?thesis using assms(1,3,4) by (simp add: buf_contents_def nth_append)
  next
    case False
    then have "mem s' (q + of_nat i) = t ! (i - n)" using assms(2) [of "i - n"] i by simp
    then show ?thesis using False i assms(3,4) by (simp add: buf_contents_def nth_append)
  qed
qed

lemma buf_grow:
  assumes room: "buf_room kk (m + k) (p, s)"
  shows "\<exists>q s'. ReAlloc os9 (buf_s p) (buf_n p + of_nat m) s = Some (q, s') \<and>
    (\<forall>t. length t = m \<longrightarrow>
      (let ps = (\<lparr>buf_s = q, buf_n = buf_n p + of_nat m\<rparr>,
            s'\<lparr>mem := write_bytes (mem s') (q + buf_n p) t\<rparr>)
       in buf_room kk k ps \<and> buf_contents ps = buf_contents (p, s) @ t))"
proof -
  obtain bs h b where at: "buf_room_at kk bs (h, b) (m + k) (p, s)"
    using room by (auto simp: buf_room_def)
  then have inv: "heap_inv s bs" and l: "(h, b) \<in> live s bs" and p: "buf_s p = h + 6"
    and n: "unat (buf_n p) \<le> 8 * 2 ^ b" "unat (buf_n p) + (m + k) \<le> 16384"
    and max: "heap_max s \<noteq> 0" "unat (heap_max s) \<le> 0xC000" "kernel s = kk"
    and here: "unat (heap_here s) + growth b (unat (buf_n p) + (m + k)) \<le> unat (heap_max s)"
    by (auto simp: buf_room_at_def)
  let ?n = "unat (buf_n p)" and ?N = "buf_n p + of_nat m"
  have um: "unat (of_nat m :: word16) = m" using n(2) by (simp add: unat_of_nat)
  then have N: "unat ?N = ?n + m" using n(2) by (simp add: unat_word_ariths)
  have p_eq: "p = \<lparr>buf_s = h + 6, buf_n = buf_n p\<rparr>" using p by (cases p) simp
  obtain h' b' s' bs' where r: "ReAlloc os9 (h + 6) ?N s = Some (h' + 6, s')"
    and inv': "heap_inv s' bs'" and l': "(h', b') \<in> live s' bs'" and nb': "?n + m \<le> 8 * 2 ^ b'"
    and bytes: "\<forall>i < ?n. mem s' (h' + 6 + of_nat i) = mem s (h + 6 + of_nat i)"
    and max': "heap_max s' = heap_max s" "kernel s' = kernel s"
    and here': "unat (heap_here s') + growth b' (?n + m + k) \<le> unat (heap_max s)"
  proof (cases "?n + m \<le> 8 * 2 ^ b")
    case True
    then show ?thesis
      using that [of h s bs b] ReAlloc_small [OF inv l, of ?N os9] N inv l here
      by (simp add: add.assoc)
  next
    case False
    then have big: "8 * 2 ^ b < unat ?N" "unat ?N \<le> 16384" using N n(2) by auto
    note bb = bucket_of_below [OF big(2,1)]
    have step: "6 + 8 * 2 ^ bucket_of ?N + growth (bucket_of ?N) (?n + m + k) \<le> growth b (?n + m + k)"
      using bb bucket_of_ok(1) [OF big(2)] N by (intro growth_step) auto
    have "fits s ?N"
      using max(1) big(2) step here by (simp add: fits_def add.assoc)
    from ReAlloc_grow [OF inv l big(1) this, of os9]
    obtain h' b' s' bs' where g: "ReAlloc os9 (h + 6) ?N s = Some (h' + 6, s')" "heap_inv s' bs'"
      "live s' bs' = insert (h', b') (live s bs - {(h, b)})" "unat ?N \<le> 8 * 2 ^ b'"
      "b' = bucket_of ?N" "heap_max s' = heap_max s" "kernel s' = kernel s"
      "unat (heap_here s') \<le> unat (heap_here s) + 6 + 8 * 2 ^ b'"
      "\<forall>k < 8 * 2 ^ b. block_byte s' (h', b') k = block_byte s (h, b) k" by metis
    show ?thesis
      using that [of h' s' bs' b'] g N n(1) step here by (simp add: block_byte_def add.assoc)
  qed
  have "buf_room kk k (\<lparr>buf_s = h' + 6, buf_n = ?N\<rparr>, s'\<lparr>mem := write_bytes (mem s') (h' + 6 + buf_n p) t\<rparr>)
    \<and> buf_contents (\<lparr>buf_s = h' + 6, buf_n = ?N\<rparr>, s'\<lparr>mem := write_bytes (mem s') (h' + 6 + buf_n p) t\<rparr>)
      = buf_contents (p, s) @ t" if t: "length t = m" for t
  proof
    note w = block_write [OF inv' l' nb' [folded t], simplified]
    show "buf_room kk k (\<lparr>buf_s = h' + 6, buf_n = ?N\<rparr>, s'\<lparr>mem := write_bytes (mem s') (h' + 6 + buf_n p) t\<rparr>)"
      unfolding buf_room_def buf_room_at_def
      by (intro exI [of _ bs'] exI [of _ "(h', b')"])
        (use w(1,2) l' nb' N n(2) max max' here' in simp_all)
    show "buf_contents (\<lparr>buf_s = h' + 6, buf_n = ?N\<rparr>, s'\<lparr>mem := write_bytes (mem s') (h' + 6 + buf_n p) t\<rparr>)
      = buf_contents (p, s) @ t"
      unfolding p_eq [symmetric]
      by (subst p_eq, rule buf_contents_append [where n = ?n])
        (use w(3,4) bytes N t in auto)
  qed
  then show ?thesis using r p by (simp add: Let_def)
qed

section \<open>The buffer is a sink\<close>

lemma buf_room_bind_check: "buf_room kk k (p, s) \<Longrightarrow> BufCheck p = Some ()"
  using buf_room_check by (auto simp: buf_room_def)

lemma buf_room_less: "buf_room kk k ps \<Longrightarrow> j \<le> k \<Longrightarrow> buf_room kk j ps"
proof -
  assume "buf_room kk k ps" and le: "j \<le> k"
  then obtain bs x where at: "buf_room_at kk bs x k ps" by (auto simp: buf_room_def)
  have "growth (snd x) (unat (buf_n (fst ps)) + j) \<le> growth (snd x) (unat (buf_n (fst ps)) + k)"
    using le by (intro growth_mono) simp
  then have "buf_room_at kk bs x j ps" using at le by (auto simp: buf_room_at_def)
  then show "buf_room kk j ps" unfolding buf_room_def by blast
qed

lemma buf_room_16384: "buf_room kk k ps \<Longrightarrow> k \<le> 16384"
  by (auto simp: buf_room_def buf_room_at_def)

lemma buf_eta: "(p :: Buf)\<lparr>buf_n := n, buf_s := q\<rparr> = \<lparr>buf_s = q, buf_n = n\<rparr>"
  "(p :: Buf)\<lparr>buf_s := q, buf_n := n\<rparr> = \<lparr>buf_s = q, buf_n = n\<rparr>"
  by (cases p; simp)+

lemma BufAppC_room:
  assumes "buf_room kk (Suc k) ps"
  shows "\<exists>ps'. BufAppC os9 c ps = Some ps' \<and> buf_contents ps' = buf_contents ps @ [c] \<and> buf_room kk k ps'"
proof -
  obtain p s where ps: "ps = (p, s)" by (cases ps)
  have room: "buf_room kk (1 + k) (p, s)" using assms ps by simp
  from buf_grow [OF room, of os9, unfolded of_nat_1] obtain q s' where g:
    "ReAlloc os9 (buf_s p) (buf_n p + 1) s = Some (q, s')"
    "\<forall>t. length t = 1 \<longrightarrow> (let ps = (\<lparr>buf_s = q, buf_n = buf_n p + 1\<rparr>,
        s'\<lparr>mem := write_bytes (mem s') (q + buf_n p) t\<rparr>)
      in buf_room kk k ps \<and> buf_contents ps = buf_contents (p, s) @ t)" by blast
  from g(2) [rule_format, of "[c]"] g(1) show ?thesis
    by (simp add: BufAppC_def ps buf_room_bind_check [OF room] Let_def buf_eta)
qed

lemma BufAppS_room:
  assumes "buf_room kk (unat n + k) ps" "unat n \<le> length str + 1"
  shows "\<exists>ps'. BufAppS os9 str n ps = Some ps' \<and>
    buf_contents ps' = buf_contents ps @ take (unat n) (str @ [0]) \<and> buf_room kk k ps'"
proof -
  obtain p s where ps: "ps = (p, s)" by (cases ps)
  have room: "buf_room kk (unat n + k) (p, s)" using assms ps by simp
  have "unat n < 32768" using buf_room_16384 [OF room] by simp
  then have n: "\<not> sint n < 0" "nat (sint n) = unat n"
    by (simp_all add: sint_word16_pos)
  have nn: "of_nat (unat n) = n" by simp
  from buf_grow [OF room, of os9, unfolded nn] obtain q s' where g:
    "ReAlloc os9 (buf_s p) (buf_n p + n) s = Some (q, s')"
    "\<forall>t. length t = unat n \<longrightarrow> (let ps = (\<lparr>buf_s = q, buf_n = buf_n p + n\<rparr>,
        s'\<lparr>mem := write_bytes (mem s') (q + buf_n p) t\<rparr>)
      in buf_room kk k ps \<and> buf_contents ps = buf_contents (p, s) @ t)" by blast
  have "length (take (unat n) (str @ [0])) = unat n" using assms(2) by simp
  from g(2) [rule_format, OF this] g(1) n assms(2) show ?thesis
    by (simp add: BufAppS_def ps buf_room_bind_check [OF room] Let_def buf_eta)
qed

interpretation buf: byte_sink "BufAppC os9" "BufAppS os9" buf_contents "buf_room kk"
  for os9 :: "'k os9mem" and kk
  by unfold_locales (rule BufAppC_room BufAppS_room buf_room_less buf_room_16384; assumption)+

section \<open>Elements: what is appended, and reading it back\<close>

definition elem_esc :: "byte \<Rightarrow> cstr" where
  "elem_esc c = (if elem_special c then [92, c] else [c])"

definition elem_encode :: "cstr \<Rightarrow> cstr" where
  "elem_encode str =
     (if (\<forall>c \<in> set str. \<not> elem_special c) \<and> str \<noteq> [] then str
      else [ch CHR ''{''] @ concat (map elem_esc str) @ [ch CHR ''}''])"

lemma BufAppElemC_appends: "buf.appends kk (elem_esc c) (BufAppElemC os9 c)"
  unfolding buf.appends_def
proof (intro allI impI)
  fix ps :: "'a bufst" and k
  obtain p s where ps: "ps = (p, s)" by (cases ps)
  let ?m = "length (elem_esc c)"
  assume "buf_room kk (?m + k) ps"
  then have room: "buf_room kk (?m + k) (p, s)" using ps by simp
  from buf_grow [OF room, of os9] obtain q s' where g:
    "ReAlloc os9 (buf_s p) (buf_n p + of_nat ?m) s = Some (q, s')"
    "(let ps = (\<lparr>buf_s = q, buf_n = buf_n p + of_nat ?m\<rparr>,
        s'\<lparr>mem := write_bytes (mem s') (q + buf_n p) (elem_esc c)\<rparr>)
      in buf_room kk k ps \<and> buf_contents ps = buf_contents (p, s) @ elem_esc c)" by blast
  have two: "x + 2 - 1 = x + 1" for x :: word16 by simp
  show "\<exists>ps'. BufAppElemC os9 c ps = Some ps' \<and>
      buf_contents ps' = buf_contents ps @ elem_esc c \<and> buf_room kk k ps'"
  proof (cases "elem_special c")
    case True
    then show ?thesis using g
      by (simp add: BufAppElemC_def ps buf_room_bind_check [OF room] buf_eta elem_esc_def two
          Let_def add.assoc)
  next
    case False
    then show ?thesis using g
      by (simp add: BufAppElemC_def ps buf_room_bind_check [OF room] buf_eta elem_esc_def Let_def)
  qed
qed

lemma elem_encode_appends:
  "buf.appends kk (elem_encode str)
    (\<lambda>ps. let clean = (\<forall>c \<in> set str. \<not> elem_special c) in
      if clean \<and> str \<noteq> [] then app_each (BufAppC os9) str ps
      else do { ps \<leftarrow> BufAppC os9 (ch CHR ''{'') ps;
                ps \<leftarrow> app_each (BufAppElemC os9) str ps;
                BufAppC os9 (ch CHR ''}'') ps })"
proof (cases "(\<forall>c \<in> set str. \<not> elem_special c) \<and> str \<noteq> []")
  case True
  show ?thesis
    unfolding elem_encode_def Let_def if_P [OF True] by (rule buf.appends_each)
next
  case False
  have "buf.appends kk ([ch CHR ''{''] @ concat (map elem_esc str) @ [ch CHR ''}''])
      (\<lambda>ps. BufAppC os9 (ch CHR ''{'') ps \<bind>
        (\<lambda>ps. app_each (BufAppElemC os9) str ps \<bind> BufAppC os9 (ch CHR ''}'')))"
    by (intro buf.appends_bind buf.appends_c buf.appends_each_of BufAppElemC_appends)
  moreover have "elem_encode str = [ch CHR ''{''] @ concat (map elem_esc str) @ [ch CHR ''}'']"
    by (simp only: elem_encode_def if_not_P [OF False])
  ultimately show ?thesis by (simp only: Let_def if_not_P [OF False])
qed

text \<open>
  C23.  On a well-formed buffer with enough room, \<^verbatim>\<open>BufAppElemS\<close> appends exactly the
  list encoding of the string (after a space when the buffer is not empty) and leaves a
  well-formed buffer; \<^verbatim>\<open>BufAppS\<close> appends the bytes it is given.
\<close>

theorem BufAppElemS_correct:
  assumes "buf_room kk (1 + length (elem_encode str) + k) ps"
  shows "\<exists>ps'. BufAppElemS os9 str ps = Some ps' \<and> buf_room kk k ps' \<and>
    buf_contents ps' = buf_contents ps @
      (if buf_n (fst ps) \<noteq> 0 then [ch CHR '' ''] else []) @ elem_encode str"
proof -
  obtain p s where ps: "ps = (p, s)" by (cases ps)
  have chk: "BufCheck (fst ps) = Some ()"
    using buf_room_bind_check assms ps by (metis fst_conv)
  let ?sep = "if buf_n (fst ps) \<noteq> 0 then [ch CHR '' ''] else []"
  have sep: "buf.appends kk ?sep (\<lambda>qs. if buf_n (fst ps) \<noteq> 0 then BufAppC os9 (ch CHR '' '') qs else Some qs)"
    by (simp add: buf.appends_c buf.appends_Nil)
  have "buf_room kk (length (?sep @ elem_encode str) + k) ps"
    using assms by (rule buf_room_less) simp
  from buf.appendsD [OF buf.appends_bind [OF sep elem_encode_appends] this]
  obtain ps' where "((if buf_n (fst ps) \<noteq> 0 then BufAppC os9 (ch CHR '' '') ps else Some ps) \<bind>
      (\<lambda>ps. let clean = (\<forall>c \<in> set str. \<not> elem_special c) in
        if clean \<and> str \<noteq> [] then app_each (BufAppC os9) str ps
        else do { ps \<leftarrow> BufAppC os9 (ch CHR ''{'') ps;
                  ps \<leftarrow> app_each (BufAppElemC os9) str ps;
                  BufAppC os9 (ch CHR ''}'') ps })) = Some ps'"
    "buf_contents ps' = buf_contents ps @ (?sep @ elem_encode str)" "buf_room kk k ps'" .
  then show ?thesis
    by (simp add: BufAppElemS_def chk split del: if_split)
qed

lemma BufInit_room:
  assumes inv: "heap_inv s bs" and "heap_max s \<noteq> 0" "unat (heap_max s) \<le> 0xC000" "k \<le> 16384"
    and here: "unat (heap_here s) + 22 + growth 1 k \<le> unat (heap_max s)"
  shows "\<exists>ps. BufInit os9 s = Some ps \<and> buf_room (kernel s) k ps \<and> buf_contents ps = []"
proof -
  have b16: "bucket_of 16 = 1"
    by (simp add: bucket_of_def SMALLEST_BUCKET_def NBUCKETS_def bucket_loop.simps)
  have "fits s 16" using assms(2) here by (simp add: fits_def b16)
  from Malloc_fits [OF inv this, of os9] obtain h s' bs' where
    m: "Malloc os9 16 s = Some (h + 6, s')" "alloc_post s bs 1 h s' bs'" "heap_max s' = heap_max s"
      "unat (heap_here s') \<le> unat (heap_here s) + 22" "kernel s' = kernel s"
    unfolding b16 by auto
  have "buf_room_at (kernel s) bs' (h, 1) k (\<lparr>buf_s = h + 6, buf_n = 0\<rparr>, s')"
    using m(2-5) assms(2-4) here by (simp add: buf_room_at_def alloc_post_def)
  then show ?thesis
    using m(1) by (auto simp: BufInit_def BUF_INITIAL_CAP_def buf_room_def buf_contents_def)
qed

lemma BufAppElemS_correct_witness:
  "\<exists>ps ps'. BufInit (\<lambda>k n. (Inl 0, k)) empty_heap = Some ps \<and>
     BufAppElemS (\<lambda>k n. (Inl 0, k)) (cs ''a b'') ps = Some ps' \<and> buf_contents ps' = cs ''{a'' @ [92] @ cs '' b}''"
proof -
  have "growth 1 16 = 0" by (rule growth_none) simp
  then obtain p s where ps: "BufInit (\<lambda>k n. (Inl 0, k)) empty_heap = Some (p, s)" "buf_room () 16 (p, s)"
    "buf_contents (p, s) = []"
    using BufInit_room [OF empty_heap_inv, of 16 "\<lambda>k n. (Inl 0, k)"] by (fastforce simp: empty_heap_def)
  then have "buf_n p = 0" by (auto simp: buf_contents_def unat_eq_0)
  moreover have "elem_encode (cs ''a b'') = cs ''{a'' @ [92] @ cs '' b}''"
    by (simp add: elem_encode_def elem_esc_def elem_special_def word_sless_eq word_sle_eq)
  moreover have "buf_room () (1 + length (elem_encode (cs ''a b'')) + 9) (p, s)"
    unfolding calculation(2) using ps(2) by simp
  ultimately show ?thesis
    using BufAppElemS_correct [of "()" "cs ''a b''" 9 "(p, s)" "\<lambda>k n. (Inl 0, k)"] ps by auto
qed

section \<open>Reading elements back\<close>

text \<open>The bytes of the element at the start of a string, and what follows it.\<close>

fun braced_value :: "cstr \<Rightarrow> (cstr \<times> cstr) option" where
  "braced_value [] = Some ([], [])"
| "braced_value (c # s) =
     (if c = ch CHR ''}'' then Some ([], s)
      else if c = 92 then
        (case s of [] \<Rightarrow> None | d # s' \<Rightarrow> do { (v, r) \<leftarrow> braced_value s'; Some (d # v, r) })
      else do { (v, r) \<leftarrow> braced_value s; Some (c # v, r) })"

definition elem_value :: "cstr \<Rightarrow> (cstr \<times> cstr) option" where
  "elem_value s =
     (if peek s = ch CHR ''{'' then braced_value (tl s)
      else Some (takeWhile bare_char s, dropWhile bare_char s))"

lemma elem_special_bare: "\<not> elem_special c \<Longrightarrow> bare_char c \<and> c \<noteq> ch CHR ''{''"
  by (auto simp: elem_special_def bare_char_def word_sless_eq word_sle_eq)

lemma elem_esc_braces: "elem_esc c = [92, c] \<or> (elem_esc c = [c] \<and> c \<noteq> ch CHR ''}'' \<and> c \<noteq> 92)"
  by (auto simp: elem_esc_def elem_special_def word_sless_eq)

lemma braced_value_encode:
  "braced_value (concat (map elem_esc str) @ ch CHR ''}'' # rest) = Some (str, rest)"
proof (induction str)
  case (Cons c str)
  then show ?case using elem_esc_braces [of c] by auto
qed simp

text \<open>The rest of a list: nothing, or a separator.\<close>

definition separated :: "cstr \<Rightarrow> bool" where
  "separated rest \<longleftrightarrow> rest = [] \<or> \<not> bare_char (hd rest)"

lemma separated_take:
  "\<forall>c \<in> set str. bare_char c \<Longrightarrow> separated rest \<Longrightarrow> takeWhile bare_char (str @ rest) = str"
  "\<forall>c \<in> set str. bare_char c \<Longrightarrow> separated rest \<Longrightarrow> dropWhile bare_char (str @ rest) = rest"
  by (induction str; cases rest; auto simp: separated_def)+

lemma elem_value_encode: "separated rest \<Longrightarrow> elem_value (elem_encode str @ rest) = Some (str, rest)"
proof (cases "(\<forall>c \<in> set str. \<not> elem_special c) \<and> str \<noteq> []")
  case True
  assume "separated rest"
  moreover have "\<forall>c \<in> set str. bare_char c" "peek (str @ rest) \<noteq> ch CHR ''{''"
    using True elem_special_bare by (auto simp: neq_Nil_conv)
  ultimately show ?thesis
    unfolding elem_encode_def if_P [OF True] using separated_take [of str rest]
    by (simp add: elem_value_def)
next
  case False
  show ?thesis
    unfolding elem_encode_def if_not_P [OF False]
    using braced_value_encode [of str rest] by (simp add: elem_value_def)
qed

lemma elem_decode_loop_appends:
  "braced_value s = Some (v, r) \<Longrightarrow> buf.appends kk v (elem_decode_loop os9 s)"
proof (induction s arbitrary: v r rule: braced_value.induct)
  case 1
  then show ?case using buf.appends_Nil by (simp add: buf.appends_def)
next
  case (2 c s)
  have step: "buf.appends kk (d # w) (\<lambda>ps. BufAppC os9 d ps \<bind> elem_decode_loop os9 t)"
    if "buf.appends kk w (elem_decode_loop os9 t)" for d w t
    using buf.appends_bind [OF buf.appends_c that, of d] by simp
  consider "c = ch CHR ''}''" | "c \<noteq> ch CHR ''}''" "c = 92" | "c \<noteq> ch CHR ''}''" "c \<noteq> 92" by blast
  then show ?case
  proof cases
    case 1
    then show ?thesis using 2(3) by (simp add: buf.appends_def)
  next
    case 2
    then obtain d s' w where "s = d # s'" "braced_value s' = Some (w, r)" "v = d # w"
      using "2.prems" by (auto split: list.splits bind_splits)
    then show ?thesis using 2 "2.IH"(1) step [of w s' d] by (simp add: buf.appends_def)
  next
    case 3
    then obtain w where "braced_value s = Some (w, r)" "v = c # w"
      using "2.prems" by (auto split: bind_splits)
    then show ?thesis using 3 "2.IH"(2) step [of w s c] by (simp add: buf.appends_def)
  qed
qed

lemma BufFinish_room:
  assumes "buf_room kk (Suc k) (p, s)"
  shows "\<exists>q s'. BufFinish os9 (p, s) = Some (q, (p\<lparr>buf_s := q\<rparr>, s')) \<and> buf_room kk k (p\<lparr>buf_s := q\<rparr>, s') \<and>
    (\<forall>i < Suc (unat (buf_n p)). mem s' (q + of_nat i) = (buf_contents (p, s) @ [0]) ! i)"
proof -
  have room: "buf_room kk (1 + k) (p, s)" using assms by simp
  from buf_grow [OF room, of os9, unfolded of_nat_1] obtain q s' where g:
    "ReAlloc os9 (buf_s p) (buf_n p + 1) s = Some (q, s')"
    "\<forall>t. length t = 1 \<longrightarrow> (let ps = (\<lparr>buf_s = q, buf_n = buf_n p + 1\<rparr>,
        s'\<lparr>mem := write_bytes (mem s') (q + buf_n p) t\<rparr>)
      in buf_room kk k ps \<and> buf_contents ps = buf_contents (p, s) @ t)" by blast
  let ?s = "s'\<lparr>mem := (mem s')(q + buf_n p := 0)\<rparr>" and ?n = "unat (buf_n p)"
  have r: "buf_room kk k (\<lparr>buf_s = q, buf_n = buf_n p + 1\<rparr>, ?s)"
    "buf_contents (\<lparr>buf_s = q, buf_n = buf_n p + 1\<rparr>, ?s) = buf_contents (p, s) @ [0]"
    using g(2) [rule_format, of "[0]"] by (simp_all add: Let_def)
  have n: "unat (buf_n p + 1) = Suc ?n"
    using room by (auto simp: buf_room_def buf_room_at_def unat_word_ariths)
  have "mem ?s (q + of_nat i) = (buf_contents (p, s) @ [0]) ! i" if "i < Suc ?n" for i
    unfolding r(2) [symmetric] using that n by (simp add: buf_contents_def del: upt_Suc)
  moreover have "buf_room kk k (p\<lparr>buf_s := q\<rparr>, ?s)"
  proof -
    obtain bs x where at: "buf_room_at kk bs x k (\<lparr>buf_s = q, buf_n = buf_n p + 1\<rparr>, ?s)"
      using r(1) by (auto simp: buf_room_def)
    have "growth (snd x) (?n + k) \<le> growth (snd x) (Suc ?n + k)" by (rule growth_mono) simp
    then have "buf_room_at kk bs x k (p\<lparr>buf_s := q\<rparr>, ?s)"
      using at n by (auto simp: buf_room_at_def)
    then show ?thesis unfolding buf_room_def by blast
  qed
  ultimately show ?thesis
    using g(1) by (simp add: BufFinish_def buf_room_bind_check [OF room] Let_def)
qed

lemma elem_len_loop_rest:
  "braced_value s = Some (v, r) \<Longrightarrow> map_option snd (elem_len_loop s n) = Some r"
proof (induction s n arbitrary: v rule: elem_len_loop.induct)
  case (2 c s n)
  consider "c = ch CHR ''}''" | "c \<noteq> ch CHR ''}''" "c = 92" | "c \<noteq> ch CHR ''}''" "c \<noteq> 92" by blast
  then show ?case
  proof cases
    case 1
    then show ?thesis using 2(3) by simp
  next
    case 2
    then obtain d s' w where "s = d # s'" "braced_value s' = Some (w, r)"
      using "2.prems" by (auto split: list.splits bind_splits)
    then show ?thesis using 2 "2.IH"(1) by simp
  next
    case 3
    then obtain w where "braced_value s = Some (w, r)"
      using "2.prems" by (auto split: bind_splits)
    then show ?thesis using 3 "2.IH"(2) by simp
  qed
qed simp

lemma ElemLen_rest:
  assumes "elem_value s = Some (v, r)"
  shows "map_option snd (ElemLen s) = Some r"
proof (cases "peek s = ch CHR ''{''")
  case True
  then have "braced_value (tl s) = Some (v, r)" using assms by (simp add: elem_value_def)
  then show ?thesis unfolding ElemLen_def if_P [OF True] by (rule elem_len_loop_rest)
next
  case False
  then show ?thesis using assms by (simp add: elem_value_def ElemLen_def)
qed

lemma elem_decode_appends:
  assumes "elem_value s = Some (v, r)"
  shows "buf.appends kk v (\<lambda>ps. if peek s = ch CHR ''{'' then elem_decode_loop os9 (tl s) ps
    else BufAppS os9 s (of_nat (length (takeWhile bare_char s))) ps)"
proof (cases "peek s = ch CHR ''{''")
  case True
  then show ?thesis using assms elem_decode_loop_appends by (simp add: elem_value_def)
next
  case False
  then have "v = take (length (takeWhile bare_char s)) s"
    using assms takeWhile_eq_take [of bare_char s] by (simp add: elem_value_def)
  then show ?thesis
    using False buf.appends_prefix [OF length_takeWhile_le, of kk bare_char s os9] by simp
qed

lemma ElemDecode_value:
  assumes v: "elem_value str = Some (v, r)" and inv: "heap_inv s bs"
    and max: "heap_max s \<noteq> 0" "unat (heap_max s) \<le> 0xC000" and len: "length v < 16384"
    and here: "unat (heap_here s) + 22 + growth 1 (length v + 1) \<le> unat (heap_max s)"
  shows "\<exists>t s'. ElemDecode os9 str s = Some (t, s') \<and>
    (\<forall>i \<le> length v. mem s' (t + of_nat i) = (v @ [0]) ! i)"
proof -
  have "length v + 1 \<le> 16384" using len by simp
  from BufInit_room [OF inv max this here, of os9]
  obtain ps where i: "BufInit os9 s = Some ps" "buf_room (kernel s) (length v + 1) ps" "buf_contents ps = []"
    by blast
  obtain p s1 where d: "(if peek str = ch CHR ''{'' then elem_decode_loop os9 (tl str) ps
      else BufAppS os9 str (of_nat (length (takeWhile bare_char str))) ps) = Some (p, s1)"
    "buf_contents (p, s1) = v" "buf_room (kernel s) 1 (p, s1)"
  proof -
    obtain ps' where "(if peek str = ch CHR ''{'' then elem_decode_loop os9 (tl str) ps
      else BufAppS os9 str (of_nat (length (takeWhile bare_char str))) ps) = Some ps'"
      "buf_contents ps' = buf_contents ps @ v" "buf_room (kernel s) 1 ps'"
      by (rule buf.appendsD [OF elem_decode_appends [OF v] i(2)])
    then show ?thesis using that i(3) by (cases ps') simp
  qed
  then have n: "unat (buf_n p) = length v" by (auto simp: buf_contents_def)
  obtain q s2 where f: "BufFinish os9 (p, s1) = Some (q, (p\<lparr>buf_s := q\<rparr>, s2))"
    "buf_room (kernel s) 0 (p\<lparr>buf_s := q\<rparr>, s2)"
    "\<forall>i < Suc (unat (buf_n p)). mem s2 (q + of_nat i) = (buf_contents (p, s1) @ [0]) ! i"
    using BufFinish_room [of "kernel s" 0 p s1 os9] d(3) by auto
  have "ElemDecode os9 str s = Some (q, s2)"
    using i(1) d(1) f(1) buf_room_bind_check [OF f(2)]
    by (simp add: ElemDecode_def BufTake_def split del: if_split)
  then show ?thesis using f(3) d(2) n by (auto simp: less_Suc_eq_le)
qed

text \<open>
  C22.  Reading back what was encoded: decoding the encoding of any string, alone or
  followed by a separator, yields the string, NUL-terminated in a block of its own, and
  \<^verbatim>\<open>ElemLen\<close> stops exactly behind it.
\<close>

theorem ElemDecode_encode:
  assumes "heap_inv s bs" "heap_max s \<noteq> 0" "unat (heap_max s) \<le> 0xC000" "length str < 16384"
    and "unat (heap_here s) + 22 + growth 1 (length str + 1) \<le> unat (heap_max s)"
    and "separated rest"
  shows "\<exists>t s'. ElemDecode os9 (elem_encode str @ rest) s = Some (t, s') \<and>
    (\<forall>i \<le> length str. mem s' (t + of_nat i) = (str @ [0]) ! i) \<and>
    map_option snd (ElemLen (elem_encode str @ rest)) = Some rest"
  using ElemDecode_value [OF elem_value_encode [OF assms(6)] assms(1-5), of os9]
    ElemLen_rest [OF elem_value_encode [OF assms(6)]] by blast

lemma ElemDecode_encode_witness:
  "\<exists>t s'. ElemDecode (\<lambda>k n. (Inl 0, k)) (elem_encode (cs ''a b'') @ cs '' x'') empty_heap = Some (t, s') \<and>
    mem s' (t + 1) = ch CHR '' ''"
proof -
  have "growth 1 (length (cs ''a b'') + 1) = 0" by (rule growth_none) simp
  from ElemDecode_encode [OF empty_heap_inv, of "cs ''a b''" "cs '' x''" "\<lambda>k n. (Inl 0, k)"] this
  obtain t s' where "ElemDecode (\<lambda>k n. (Inl 0, k)) (elem_encode (cs ''a b'') @ cs '' x'') empty_heap = Some (t, s')"
    "\<forall>i \<le> length (cs ''a b''). mem s' (t + of_nat i) = (cs ''a b'' @ [0]) ! i"
    by (auto simp: empty_heap_def separated_def bare_char_def)
  moreover from this(2) have "mem s' (t + of_nat 1) = (cs ''a b'' @ [0]) ! 1"
    by (elim allE [of _ 1]) simp
  ultimately show ?thesis by auto
qed

text \<open>The length \<^verbatim>\<open>ElemLen\<close> returns is that of the encoded text inside the braces, with the
  backslashes, not that of the decoded element.\<close>

lemma ElemLen_counts_backslashes:
  "ElemLen (elem_encode (cs ''a b'')) = Some (4, [])" "length (cs ''a b'') = 3"
  by (simp_all add: elem_encode_def elem_esc_def elem_special_def ElemLen_def
      word_sless_eq word_sle_eq)

end
