(* ===== verification/Frob_Format.thy ===== *)
theory Frob_Format
  imports Frob_Buf
begin

text \<open>
  The formatter of \<^verbatim>\<open>froblib/format.c\<close>.  Which calls on the buffer
  \<^verbatim>\<open>BufFormatVA\<close> makes depends on the format and its arguments only, not on the
  buffer, so the model computes the calls first (\<^verbatim>\<open>format_calls\<close>) and then runs them
  on a sink.  A variable argument is a 16-bit integer, a 32-bit integer or a string
  pointer; taking one of another type, and a format that ends inside a conversion, are
  undefined (\<^verbatim>\<open>None\<close>), and so is a padding loop that does not end.
\<close>

datatype arg = AInt word16 | ALong quad | AStr "cstr option"

datatype call = AppC byte | AppS cstr word16

section \<open>The pieces of a conversion\<close>

text \<open>\<^verbatim>\<open>for (byte i = 0; i < gap; i++)\<close>: the counter is a byte, the gap a word.\<close>

partial_function (option) fill_gap_loop :: "call \<Rightarrow> word16 \<Rightarrow> byte \<Rightarrow> call list option" where
  "fill_gap_loop c gap i =
     (if ucast i < gap then do { es \<leftarrow> fill_gap_loop c gap (i + 1); Some (c # es) } else Some [])"

declare fill_gap_loop.simps [code]

definition staticBufFillGap :: "word16 \<Rightarrow> word16 \<Rightarrow> bool \<Rightarrow> call list option" where
  "staticBufFillGap width n fill0 =
     (if width > n then
        fill_gap_loop (AppC (if fill0 then ch CHR ''0'' else ch CHR '' '')) (width - n) 0
      else Some [])"

definition quote_char :: "byte \<Rightarrow> cstr" where
  "quote_char x =
     (if x = 9 then [92, ch CHR ''t'']
      else if x = 10 then [92, ch CHR ''n'']
      else if x = 13 then [92, ch CHR ''r'']
      else if x = 34 then [92, 34]
      else if x = 39 then [92, 39]
      else if x = 92 then [92, 92]
      else if srange CHR '' '' CHR ''~'' x then [x]
      else [92, ch CHR ''x'', LowerHexAlphabet ! unat (drop_bit 4 x), LowerHexAlphabet ! unat (x AND 15)])"

text \<open>The loop stops when it would read behind the NUL.\<close>

definition BufAppStringQuoting :: "cstr \<Rightarrow> word16 \<Rightarrow> call list option" where
  "BufAppStringQuoting s precision =
     (if unat precision > length s + 1 then None
      else Some (map AppC (concat (map quote_char (take (unat precision) (s @ [0]))))))"

record conv =
  cv_fill0 :: bool
  cv_width :: word16
  cv_precision :: word16
  cv_long :: bool
  cv_char :: byte

fun take_int :: "arg list \<Rightarrow> (word16 \<times> arg list) option" where
  "take_int (AInt x # args) = Some (x, args)"
| "take_int _ = None"

fun take_long :: "arg list \<Rightarrow> (quad \<times> arg list) option" where
  "take_long (ALong x # args) = Some (x, args)"
| "take_long _ = None"

fun take_str :: "arg list \<Rightarrow> (cstr \<times> arg list) option" where
  "take_str (AStr (Some x) # args) = Some (x, args)"
| "take_str (AStr None # args) = Some (cs ''<NULL>'', args)"
| "take_str _ = None"

text \<open>From behind the percent sign to behind the conversion character.  The digits are read
  before the dot, so they always set the width.\<close>

definition parse_conv :: "cstr \<Rightarrow> arg list \<Rightarrow> (conv \<times> cstr \<times> arg list) option" where
  "parse_conv s args =
     (let fill0 = (peek s = ch CHR ''0'');
          s = (if fill0 then tl s else s);
          (width, s) = decimal_word_loop 0 s;
          use_precision = (peek s = ch CHR ''.'');
          s = (if use_precision then tl s else s)
      in do {
        (width, precision, s, args) \<leftarrow>
          (if peek s = ch CHR ''*'' then do {
             (x, args) \<leftarrow> take_int args;
             Some (if use_precision then (width, x, tl s, args) else (x, 0, tl s, args)) }
           else Some (width, 0, s, args));
        let longingly = (peek s = ch CHR ''l'');
        let s = (if longingly then tl s else s);
        (case s of [] \<Rightarrow> None
         | c # rest \<Rightarrow> Some (\<lparr>cv_fill0 = fill0, cv_width = width, cv_precision = precision,
             cv_long = longingly, cv_char = c\<rparr>, rest, args)) })"

definition padded :: "conv \<Rightarrow> cstr \<Rightarrow> call list option" where
  "padded cv qbuf = do {
     let n = (of_nat (length qbuf) :: byte);
     gap \<leftarrow> staticBufFillGap (cv_width cv) (ucast n) (cv_fill0 cv);
     Some (gap @ [AppS qbuf (ucast n)]) }"

definition format_conv :: "conv \<Rightarrow> arg list \<Rightarrow> (call list \<times> arg list) option" where
  "format_conv cv args =
     (let c = cv_char cv in
      if c = ch CHR ''X'' \<or> c = ch CHR ''x'' then do {
        (x, args) \<leftarrow> (if cv_long cv then take_long args
                     else do { (x, args) \<leftarrow> take_int args; Some (ucast x, args) });
        es \<leftarrow> padded cv (staticQFormatLongHex
               (if c = ch CHR ''X'' then UpperHexAlphabet else LowerHexAlphabet) x);
        Some (es, args) }
      else if c = ch CHR ''u'' then do {
        (x, args) \<leftarrow> (if cv_long cv then take_long args
                     else do { (x, args) \<leftarrow> take_int args; Some (ucast x, args) });
        es \<leftarrow> padded cv (staticQFormatUnsignedLong x);
        Some (es, args) }
      else if c = ch CHR ''d'' then do {
        (x, args) \<leftarrow> (if cv_long cv then take_long args
                     else do { (x, args) \<leftarrow> take_int args; Some (scast x, args) });
        es \<leftarrow> padded cv (staticQFormatSignedLong x);
        Some (es, args) }
      else if c = ch CHR ''s'' then do {
        (x, args) \<leftarrow> take_str args;
        let precision = (if cv_precision cv = 0 then of_nat (length x) else cv_precision cv);
        gap \<leftarrow> staticBufFillGap (cv_width cv) precision (cv_fill0 cv);
        Some (gap @ [AppS x precision], args) }
      else if c = ch CHR ''q'' then do {
        (x, args) \<leftarrow> take_str args;
        let precision = (if cv_precision cv = 0 then of_nat (length x) else cv_precision cv);
        es \<leftarrow> BufAppStringQuoting x precision;
        Some (AppC 34 # es @ [AppC 34], args) }
      else if c = ch CHR ''c'' then do {
        (x, args) \<leftarrow> take_int args;
        let b = (ucast x :: byte);
        (if srange CHR '' '' CHR ''~'' b then Some ([AppC b], args)
         else let qbuf = staticQFormatUnsignedLong (ucast b) in
           Some ([AppC (ch CHR ''<''), AppS qbuf (of_nat (length qbuf)), AppC (ch CHR ''>'')], args)) }
      else Some ([AppC c], args))"

lemma decimal_word_loop_length: "decimal_word_loop z s = (w, r) \<Longrightarrow> length r \<le> length s"
  by (induction z s rule: decimal_word_loop.induct) (auto split: if_splits)

lemma tl_eq_Cons_length: "tl x = c # r \<Longrightarrow> length x = Suc (Suc (length r))"
  by (cases x) auto

lemma parse_conv_length: "parse_conv s args = Some (cv, rest, args') \<Longrightarrow> length rest < length s"
  unfolding parse_conv_def Let_def
  by (auto simp: Option.bind_eq_Some_conv split: prod.splits if_splits list.splits
      dest!: decimal_word_loop_length tl_eq_Cons_length)

function format_calls :: "cstr \<Rightarrow> arg list \<Rightarrow> call list option" where
  "format_calls [] args = Some []"
| "format_calls (c # s) args =
     (if c \<noteq> ch CHR ''%'' then do { es \<leftarrow> format_calls s args; Some (AppC c # es) }
      else case parse_conv s args of
        None \<Rightarrow> None
      | Some (cv, rest, args) \<Rightarrow>
          (case format_conv cv args of
             None \<Rightarrow> None
           | Some (es, args) \<Rightarrow> do { es' \<leftarrow> format_calls rest args; Some (es @ es') }))"
  by pat_completeness auto
termination
  by (relation "measure (length \<circ> fst)") (auto dest: parse_conv_length)

section \<open>Running the calls\<close>

fun run_calls ::
    "(byte \<Rightarrow> 's \<Rightarrow> 's option) \<Rightarrow> (cstr \<Rightarrow> word16 \<Rightarrow> 's \<Rightarrow> 's option) \<Rightarrow> call list \<Rightarrow> 's \<Rightarrow> 's option" where
  "run_calls app_c app_s [] st = Some st"
| "run_calls app_c app_s (AppC c # es) st = do { st \<leftarrow> app_c c st; run_calls app_c app_s es st }"
| "run_calls app_c app_s (AppS s n # es) st = do { st \<leftarrow> app_s s n st; run_calls app_c app_s es st }"

definition BufFormatVA :: "'k os9mem \<Rightarrow> cstr \<Rightarrow> arg list \<Rightarrow> 'k bufst \<Rightarrow> 'k bufst option" where
  "BufFormatVA os9 format ap buf = do {
     es \<leftarrow> format_calls format ap;
     run_calls (BufAppC os9) (BufAppS os9) es buf }"

definition BufFormat :: "'k os9mem \<Rightarrow> cstr \<Rightarrow> arg list \<Rightarrow> 'k bufst \<Rightarrow> 'k bufst option" where
  "BufFormat os9 fmt ap buf = BufFormatVA os9 fmt ap buf"

section \<open>What the calls append\<close>

fun call_text :: "call \<Rightarrow> cstr" where
  "call_text (AppC c) = [c]"
| "call_text (AppS s n) = take (unat n) (s @ [0])"

fun call_ok :: "call \<Rightarrow> bool" where
  "call_ok (AppC c) \<longleftrightarrow> True"
| "call_ok (AppS s n) \<longleftrightarrow> unat n \<le> length s + 1"

lemma run_calls_Nil [simp]: "run_calls app_c app_s [] = Some"
  by (rule ext) simp

definition calls_text :: "call list \<Rightarrow> cstr" where
  "calls_text es = concat (map call_text es)"

lemma calls_text_simps [simp]:
  "calls_text [] = []" "calls_text (e # es) = call_text e @ calls_text es"
  "calls_text (es @ es') = calls_text es @ calls_text es'"
  by (simp_all add: calls_text_def)

lemma calls_text_AppC [simp]: "calls_text (map AppC s) = s"
  by (induction s) auto

context byte_sink
begin

lemma appends_call: "call_ok e \<Longrightarrow> appends (call_text e) (run_calls app_c app_s [e])"
proof (cases e)
  case (AppC c)
  then show ?thesis using appends_c by (simp add: appends_def)
next
  case (AppS s n)
  assume "call_ok e"
  then have "length (take (unat n) (s @ [0])) = unat n" "unat n \<le> length s + 1"
    using AppS by auto
  then show ?thesis using AppS app_s [of n _ _ s] by (simp add: appends_def)
qed

lemma appends_calls: "\<forall>e \<in> set es. call_ok e \<Longrightarrow> appends (calls_text es) (run_calls app_c app_s es)"
proof (induction es)
  case Nil
  then show ?case using appends_Nil by (simp add: appends_def)
next
  case (Cons e es)
  have "run_calls app_c app_s (e # es) = (\<lambda>s. run_calls app_c app_s [e] s \<bind> run_calls app_c app_s es)"
    by (cases e) (auto simp: fun_eq_iff)
  then show ?case
    using appends_bind [OF appends_call [of e] Cons.IH] Cons.prems by simp
qed

end

lemma BufFormatVA_text:
  assumes "format_calls fmt args = Some es" "\<forall>e \<in> set es. call_ok e"
    and "buf_room kk (length (calls_text es) + k) ps"
  shows "\<exists>ps'. BufFormatVA os9 fmt args ps = Some ps' \<and>
    buf_contents ps' = buf_contents ps @ calls_text es \<and> buf_room kk k ps'"
  using buf.appendsD [OF buf.appends_calls [OF assms(2)] assms(3)] assms(1)
  by (metis BufFormatVA_def bind.bind_lunit)

section \<open>Padding\<close>

lemma ucast_byte_word16: "unat (ucast (i :: byte) :: word16) = unat i"
  by (simp add: unsigned_ucast_eq take_bit_nat_eq_self_iff less_le_trans [OF unat_byte_lt])

lemma fill_gap_ok:
  assumes "unat gap \<le> 255" "unat i \<le> unat gap"
  shows "fill_gap_loop c gap i = Some (replicate (unat gap - unat i) c)"
  using assms
proof (induction "unat gap - unat i" arbitrary: i)
  case 0
  then show ?case
    by (subst fill_gap_loop.simps) (simp add: word_less_nat_alt ucast_byte_word16)
next
  case (Suc k)
  have i1: "unat (i + 1) = unat i + 1" using Suc by (simp add: unat_word_ariths)
  then have "fill_gap_loop c gap (i + 1) = Some (replicate (unat gap - unat (i + 1)) c)"
    using Suc by (intro Suc(1)) auto
  moreover have "unat gap - unat i = Suc (unat gap - unat (i + 1))" using Suc(2) i1 by simp
  ultimately show ?case
    using Suc(2) by (subst fill_gap_loop.simps) (simp add: word_less_nat_alt ucast_byte_word16)
qed

lemma fill_gap_diverges:
  assumes "fill_gap_loop c gap i = Some es"
  shows "unat gap \<le> 255"
proof (rule fill_gap_loop.raw_induct [where P = "\<lambda>c gap i es. unat gap \<le> 255", OF _ assms])
  fix f :: "call \<Rightarrow> word16 \<Rightarrow> byte \<Rightarrow> call list option" and c gap i es
  assume IH: "\<And>c gap i es. f c gap i = Some es \<Longrightarrow> unat gap \<le> 255"
    and step: "(if ucast i < gap then f c gap (i + 1) \<bind> (\<lambda>cs. Some (c # cs)) else Some []) = Some es"
  show "unat gap \<le> 255"
  proof (cases "ucast i < gap")
    case True
    then show ?thesis using step IH by (auto simp: Option.bind_eq_Some_conv)
  next
    case False
    then show ?thesis
      by (simp add: word_less_nat_alt ucast_byte_word16) (use unat_byte_lt [of i] in linarith)
  qed
qed

lemma fill_gap:
  "(unat width - unat n \<le> 255 \<longrightarrow> staticBufFillGap width n fill0 =
      Some (replicate (unat width - unat n) (AppC (if fill0 then ch CHR ''0'' else ch CHR '' '')))) \<and>
   (unat width - unat n \<ge> 256 \<longrightarrow> staticBufFillGap width n fill0 = None)"
proof (cases "width > n")
  case True
  then have gap: "unat (width - n) = unat width - unat n" by (simp add: unat_diff_16)
  let ?c = "AppC (if fill0 then ch CHR ''0'' else ch CHR '' '')"
  show ?thesis
  proof (intro conjI impI)
    assume "unat width - unat n \<le> 255"
    then show "staticBufFillGap width n fill0 = Some (replicate (unat width - unat n) ?c)"
      using fill_gap_ok [of "width - n" 0 ?c] True gap by (simp add: staticBufFillGap_def)
  next
    assume "unat width - unat n \<ge> 256"
    then show "staticBufFillGap width n fill0 = None"
      using fill_gap_diverges [of ?c "width - n" 0] True gap
      by (cases "fill_gap_loop ?c (width - n) 0") (auto simp: staticBufFillGap_def)
  qed
next
  case False
  then show ?thesis by (simp add: staticBufFillGap_def word_less_nat_alt)
qed

text \<open>
   Padding to a width works up to a gap of 255: exactly the missing blanks or zeros are
  put in front.  A gap of 256 or more never ends, because the loop counter is a byte.
\<close>

theorem staticBufFillGap_spec:
  "(unat width - unat n \<le> 255 \<longrightarrow> staticBufFillGap width n fill0 =
      Some (replicate (unat width - unat n) (AppC (if fill0 then ch CHR ''0'' else ch CHR '' '')))) \<and>
   (unat width - unat n \<ge> 256 \<longrightarrow> staticBufFillGap width n fill0 = None)"
  by (rule fill_gap)

lemma staticBufFillGap_spec_witness:
  "staticBufFillGap 6 2 True = Some (replicate 4 (AppC (ch CHR ''0''))) \<and>
   staticBufFillGap 300 2 False = None"
  using staticBufFillGap_spec [of 6 2 True] staticBufFillGap_spec [of 300 2 False] by simp

section \<open>Numbers\<close>

lemma unat_digit_byte: "d < (10 :: quad) \<Longrightarrow> unat (48 + ucast d :: byte) - 48 = unat d"
  using small_quad_cases [of d] by auto


lemma staticQFormatUnsignedLong_val: "digits_val 10 (staticQFormatUnsignedLong x) = unat x"
proof (induction x rule: staticQFormatUnsignedLong.induct)
  case (1 x)
  show ?case
  proof (cases "x > 9")
    case True
    have "10 * (unat x div 10) + unat x mod 10 = unat x" by simp
    then show ?thesis
      using True 1 unat_digit_byte [OF quad_mod10, of x]
      by (subst staticQFormatUnsignedLong.simps) (simp add: digits_val_snoc unat_div unat_mod)
  next
    case False
    then show ?thesis
      using unat_digit_byte [OF quad_div_small [OF False]]
      by (subst staticQFormatUnsignedLong.simps) (simp add: digits_val_def)
  qed
qed

lemma staticQFormatUnsignedLong_length:
  "unat x < 10 ^ Suc k \<Longrightarrow> length (staticQFormatUnsignedLong x) \<le> Suc k"
proof (induction k arbitrary: x)
  case 0
  then have "\<not> x > 9" by (simp add: word_less_nat_alt)
  then show ?case by (subst staticQFormatUnsignedLong.simps) simp
next
  case (Suc k)
  have "unat (x div 10) < 10 ^ Suc k" using Suc.prems by (simp add: unat_div)
  from Suc.IH [OF this] show ?case by (subst staticQFormatUnsignedLong.simps) simp
qed

lemma unat_quad_lt: "unat (x :: quad) < 4294967296"
  using unsigned_less [of x] by simp

lemma staticQFormatUnsignedLong_length10: "length (staticQFormatUnsignedLong x) \<le> 10"
  using staticQFormatUnsignedLong_length [of x 9] unat_quad_lt [of x] by simp

text \<open>A number of fewer than 256 characters, padded.\<close>

definition pad_text :: "conv \<Rightarrow> cstr \<Rightarrow> cstr" where
  "pad_text cv t =
     replicate (unat (cv_width cv) - length t) (if cv_fill0 cv then ch CHR ''0'' else ch CHR '' '') @ t"

lemma padded_text:
  assumes "length t < 256" "unat (cv_width cv) - length t \<le> 255"
  obtains es where "padded cv t = Some es" "calls_text es = pad_text cv t" "\<forall>e \<in> set es. call_ok e"
proof -
  have n: "unat (ucast (of_nat (length t) :: byte) :: word16) = length t"
    unfolding ucast_byte_word16 using assms(1) by (simp add: unat_of_nat)
  let ?c = "if cv_fill0 cv then ch CHR ''0'' else ch CHR '' ''"
  let ?es = "replicate (unat (cv_width cv) - length t) (AppC ?c) @ [AppS t (ucast (of_nat (length t) :: byte))]"
  have "padded cv t = Some ?es"
    using fill_gap [of "cv_width cv" "ucast (of_nat (length t) :: byte)" "cv_fill0 cv"]
      assms(2) n by (simp add: padded_def)
  moreover have "calls_text (replicate k (AppC ?c)) = replicate k ?c" for k
    using calls_text_AppC [of "replicate k ?c"] by (simp add: map_replicate_const)
  then have "calls_text ?es = pad_text cv t" using n by (simp add: pad_text_def)
  ultimately show ?thesis using n by (intro that) auto
qed

lemma scast_neg_quad: "scast (x :: word16) <s (0 :: quad) \<longleftrightarrow> sint x < 0"
  by (simp add: word_sless_alt sint_scast_quad)

text \<open>The decimal text of a 16-bit \<^verbatim>\<open>int\<close>.\<close>

definition int_text :: "word16 \<Rightarrow> cstr" where
  "int_text x = staticQFormatSignedLong (scast x)"

lemma int_text_value:
  "\<exists>ds. int_text x = (if sint x < 0 then [ch CHR ''-''] else []) @ ds \<and>
    digits_val 10 ds = nat \<bar>sint x\<bar> \<and> (\<forall>c \<in> set ds. srange CHR ''0'' CHR ''9'' c) \<and> length ds \<le> 10"
proof (cases "sint x < 0")
  case True
  then show ?thesis
    using staticQFormatUnsignedLong_digits staticQFormatUnsignedLong_length10 [of "- scast x"]
    by (intro exI [of _ "staticQFormatUnsignedLong (- scast x)"])
      (auto simp: int_text_def staticQFormatSignedLong_def scast_neg_quad
        staticQFormatUnsignedLong_val unat_neg_scast)
next
  case False
  then show ?thesis
    using staticQFormatUnsignedLong_digits staticQFormatUnsignedLong_length10 [of "scast x"]
    by (intro exI [of _ "staticQFormatUnsignedLong (scast x)"])
      (auto simp: int_text_def staticQFormatSignedLong_def scast_neg_quad
        staticQFormatUnsignedLong_val unat_pos_scast)
qed

text \<open>
   The conversions \<^verbatim>\<open>%u\<close> and \<^verbatim>\<open>%d\<close>: the text is the decimal number, which reads
  back as its value, with a minus sign for a negative one, padded on the left to the width.
\<close>

theorem format_decimal_value:
  assumes "unat (cv_width cv) \<le> 255" "\<not> cv_long cv"
  shows "(cv_char cv = ch CHR ''u'' \<longrightarrow>
      (\<exists>es ds. format_conv cv (AInt x # args) = Some (es, args) \<and> calls_text es = pad_text cv ds \<and>
        digits_val 10 ds = unat x)) \<and>
    (cv_char cv = ch CHR ''d'' \<longrightarrow>
      (\<exists>es ds. format_conv cv (AInt x # args) = Some (es, args) \<and> digits_val 10 ds = nat \<bar>sint x\<bar> \<and>
        calls_text es = pad_text cv ((if sint x < 0 then [ch CHR ''-''] else []) @ ds)))"
proof (intro conjI impI)
  let ?u = "staticQFormatUnsignedLong (ucast x)"
  assume u: "cv_char cv = ch CHR ''u''"
  obtain es where "padded cv ?u = Some es" "calls_text es = pad_text cv ?u"
    by (rule padded_text [of ?u cv]) (use staticQFormatUnsignedLong_length10 [of "ucast x"] assms(1) in auto)
  moreover have "digits_val 10 ?u = unat x"
    using less_trans [OF unat_word16_lt [of x], of 4294967296]
    by (simp add: staticQFormatUnsignedLong_val unsigned_ucast_eq take_bit_nat_eq_self_iff)
  ultimately show "\<exists>es ds. format_conv cv (AInt x # args) = Some (es, args) \<and>
      calls_text es = pad_text cv ds \<and> digits_val 10 ds = unat x"
    using u assms(2) by (auto simp: format_conv_def)
next
  assume d: "cv_char cv = ch CHR ''d''"
  obtain ds where ds: "int_text x = (if sint x < 0 then [ch CHR ''-''] else []) @ ds"
    "digits_val 10 ds = nat \<bar>sint x\<bar>" "length ds \<le> 10" using int_text_value by blast
  obtain es where "padded cv (int_text x) = Some es" "calls_text es = pad_text cv (int_text x)"
    by (rule padded_text [of "int_text x" cv]) (use ds assms(1) in auto)
  then show "\<exists>es ds. format_conv cv (AInt x # args) = Some (es, args) \<and>
      digits_val 10 ds = nat \<bar>sint x\<bar> \<and>
      calls_text es = pad_text cv ((if sint x < 0 then [ch CHR ''-''] else []) @ ds)"
    using d assms(2) ds
    by (intro exI [of _ es] exI [of _ ds]) (simp add: format_conv_def int_text_def)
qed

lemma format_decimal_value_witness:
  "\<exists>es ds. format_conv \<lparr>cv_fill0 = True, cv_width = 5, cv_precision = 0, cv_long = False,
      cv_char = ch CHR ''d''\<rparr> [AInt (- 7)] = Some (es, []) \<and> digits_val 10 ds = 7"
  using format_decimal_value [of "\<lparr>cv_fill0 = True, cv_width = 5, cv_precision = 0, cv_long = False,
      cv_char = ch CHR ''d''\<rparr>" "- 7" "[]"] by auto

section \<open>Dotted quads\<close>

text \<open>\<^verbatim>\<open>NyFormatDottedDecimalQuad\<close> of \<^verbatim>\<open>nylib.c\<close>: the bytes of the quad, the most
  significant first, formatted by \<^verbatim>\<open>SPrintf\<close>.\<close>

definition quad_byte :: "quad \<Rightarrow> nat \<Rightarrow> byte" where
  "quad_byte q i = ucast (drop_bit (8 * (3 - i)) q)"

definition NyFormatDottedDecimalQuad :: "quad \<Rightarrow> cstr option" where
  "NyFormatDottedDecimalQuad addr = map_option calls_text
     (format_calls (cs ''%d.%d.%d.%d'') (map (\<lambda>i. AInt (ucast (quad_byte addr i))) [0, 1, 2, 3]))"

lemma NyFormQuad_bytes:
  "NyFormQuadFromBytes (quad_byte q 0) (quad_byte q 1) (quad_byte q 2) (quad_byte q 3) = q"
  unfolding NyFormQuadFromBytes_def quad_byte_def
  by (rule bit_word_eqI) (auto simp: bit_simps, (rule ccontr, simp)+)

lemma quad_byte_NyFormQuad:
  "quad_byte (NyFormQuadFromBytes a b c d) 0 = a" "quad_byte (NyFormQuadFromBytes a b c d) 1 = b"
  "quad_byte (NyFormQuadFromBytes a b c d) 2 = c" "quad_byte (NyFormQuadFromBytes a b c d) 3 = d"
  unfolding NyFormQuadFromBytes_def quad_byte_def
  by (rule bit_word_eqI; auto simp: bit_simps dest: bit_imp_le_length)+

lemma byte_text:
  "staticQFormatSignedLong (scast (ucast (b :: byte) :: word16)) = staticQFormatUnsignedLong (ucast b)"
proof -
  have u: "unat (ucast b :: word16) = unat b" by (rule ucast_byte_word16)
  then have s: "sint (ucast b :: word16) = uint (ucast b :: word16)"
    by (intro sint_word16_pos) (use unat_byte_lt [of b] in linarith)
  have "scast (ucast b :: word16) = (ucast b :: quad)"
  proof -
    have "uint (ucast b :: word16) = uint b" using u by (metis int_unat_uint)
    then show ?thesis unfolding scast_eq s by simp
  qed
  moreover have "\<not> scast (ucast b :: word16) <s (0 :: quad)"
    unfolding scast_neg_quad s by simp
  ultimately show ?thesis by (simp add: staticQFormatSignedLong_def)
qed

lemma ucast_byte_mod: "unat (ucast (b :: byte) :: quad) = unat b"
  by (simp add: unsigned_ucast_eq take_bit_nat_eq_self_iff less_trans [OF unat_byte_lt])

lemma format_byte:
  assumes "cv = \<lparr>cv_fill0 = False, cv_width = 0, cv_precision = 0, cv_long = False, cv_char = ch CHR ''d''\<rparr>"
  shows "\<exists>es. format_conv cv (AInt (ucast (b :: byte)) # args) = Some (es, args) \<and>
    calls_text es = staticQFormatUnsignedLong (ucast b)"
proof -
  let ?t = "staticQFormatUnsignedLong (ucast b)"
  obtain es where "padded cv ?t = Some es" "calls_text es = pad_text cv ?t"
    by (rule padded_text [of ?t cv])
      (use staticQFormatUnsignedLong_length10 [of "ucast b"] assms in auto)
  then show ?thesis using assms by (simp add: format_conv_def byte_text pad_text_def)
qed

lemma format_int:
  assumes "cv = \<lparr>cv_fill0 = False, cv_width = 0, cv_precision = 0, cv_long = False, cv_char = ch CHR ''d''\<rparr>"
  shows "\<exists>es. format_conv cv (AInt x # args) = Some (es, args) \<and> calls_text es = int_text x"
proof -
  obtain ds where ds: "int_text x = (if sint x < 0 then [ch CHR ''-''] else []) @ ds" "length ds \<le> 10"
    using int_text_value by blast
  obtain es where "padded cv (int_text x) = Some es" "calls_text es = pad_text cv (int_text x)"
    by (rule padded_text [of "int_text x" cv]) (use ds assms in auto)
  then show ?thesis using assms by (simp add: format_conv_def pad_text_def int_text_def)
qed

lemma parse_d:
  "parse_conv (ch CHR ''d'' # rest) args = Some (\<lparr>cv_fill0 = False, cv_width = 0, cv_precision = 0,
     cv_long = False, cv_char = ch CHR ''d''\<rparr>, rest, args)"
  by (simp add: parse_conv_def srange_def)

lemma format_calls_d:
  "map_option calls_text (format_calls (ch CHR ''%'' # ch CHR ''d'' # rest) (AInt x # args)) =
    map_option (\<lambda>es. int_text x @ calls_text es) (format_calls rest args)"
proof -
  obtain es where "format_conv \<lparr>cv_fill0 = False, cv_width = 0, cv_precision = 0, cv_long = False,
      cv_char = ch CHR ''d''\<rparr> (AInt x # args) = Some (es, args)" "calls_text es = int_text x"
    using format_int [OF refl] by blast
  then show ?thesis using parse_d [of rest "AInt x # args"]
    by (cases "format_calls rest args") auto
qed

lemma format_calls_s:
  "format_calls (ch CHR ''%'' # ch CHR ''s'' # rest) (AStr (Some x) # args) =
    map_option ((#) (AppS x (of_nat (length x)))) (format_calls rest args)"
proof -
  have "parse_conv (ch CHR ''s'' # rest) (AStr (Some x) # args) = Some (\<lparr>cv_fill0 = False, cv_width = 0,
      cv_precision = 0, cv_long = False, cv_char = ch CHR ''s''\<rparr>, rest, AStr (Some x) # args)"
    by (simp add: parse_conv_def srange_def)
  moreover have "staticBufFillGap 0 n False = Some []" for n
    using fill_gap [of 0 n False] by simp
  ultimately show ?thesis
    by (cases "format_calls rest args") (simp_all add: format_conv_def)
qed

lemma format_calls_byte:
  "\<exists>es. calls_text es = staticQFormatUnsignedLong (ucast (b :: byte)) \<and>
    format_calls (ch CHR ''%'' # ch CHR ''d'' # rest) (AInt (ucast b) # args) =
      do { es' \<leftarrow> format_calls rest args; Some (es @ es') }"
  using format_byte [OF refl, of b args] parse_d [of rest "AInt (ucast b) # args"] by fastforce

lemma NyFormatDottedDecimalQuad_text:
  "NyFormatDottedDecimalQuad q = Some (
     staticQFormatUnsignedLong (ucast (quad_byte q 0)) @ ch CHR ''.'' #
     staticQFormatUnsignedLong (ucast (quad_byte q 1)) @ ch CHR ''.'' #
     staticQFormatUnsignedLong (ucast (quad_byte q 2)) @ ch CHR ''.'' #
     staticQFormatUnsignedLong (ucast (quad_byte q 3)))"
proof -
  let ?t = "\<lambda>i. staticQFormatUnsignedLong (ucast (quad_byte q i))"
  let ?a = "\<lambda>i. AInt (ucast (quad_byte q i))"
  obtain e3 where 3: "calls_text e3 = ?t 3" "format_calls (cs ''%d'') [?a 3] = Some e3"
    using format_calls_byte [of "quad_byte q 3" "[]" "[]"] by (auto simp del: format_calls.simps(2))
  obtain e2 where 2: "calls_text e2 = ?t 2"
    "format_calls (cs ''%d.%d'') [?a 2, ?a 3] = Some (e2 @ AppC (ch CHR ''.'') # e3)"
    using format_calls_byte [of "quad_byte q 2" "cs ''.%d''" "[?a 3]"] 3 by auto
  obtain e1 where 1: "calls_text e1 = ?t 1"
    "format_calls (cs ''%d.%d.%d'') [?a 1, ?a 2, ?a 3] =
      Some (e1 @ AppC (ch CHR ''.'') # e2 @ AppC (ch CHR ''.'') # e3)"
    using format_calls_byte [of "quad_byte q 1" "cs ''.%d.%d''" "[?a 2, ?a 3]"] 2 by auto
  obtain e0 where 0: "calls_text e0 = ?t 0"
    "format_calls (cs ''%d.%d.%d.%d'') [?a 0, ?a 1, ?a 2, ?a 3] =
      Some (e0 @ AppC (ch CHR ''.'') # e1 @ AppC (ch CHR ''.'') # e2 @ AppC (ch CHR ''.'') # e3)"
    using format_calls_byte [of "quad_byte q 0" "cs ''.%d.%d.%d''" "[?a 1, ?a 2, ?a 3]"] 1 by auto
  show ?thesis using 0 1(1) 2(1) 3(1) by (simp add: NyFormatDottedDecimalQuad_def)
qed

lemma NyCheckByte_byte:
  "NyCheckByte v (ucast (ucast (b :: byte) :: quad)) = Some b"
proof -
  have "ucast (ucast b :: quad) = (ucast b :: word16)"
    by (rule bit_word_eqI) (auto simp: bit_simps)
  moreover have "\<not> (ucast b :: word16) > 255"
    by (simp add: word_less_nat_alt ucast_byte_word16 not_less) (use unat_byte_lt [of b] in linarith)
  moreover have "ucast (ucast b :: word16) = b"
    by (rule bit_word_eqI) (auto simp: bit_simps)
  ultimately show ?thesis by (simp add: NyCheckByte_def)
qed

text \<open>
  C31.  Internet addresses survive the round trip through text: whatever follows (no digit),
  parsing the dotted decimal form of a 32-bit address gives the address back and stops
  behind it, whatever the verbosity.
\<close>

theorem dotted_quad_roundtrip:
  assumes "no_digit rest"
  shows "\<exists>t. NyFormatDottedDecimalQuad q = Some t \<and> NyParseDottedDecimalQuad v (t @ rest) = Some (q, rest)"
proof -
  have dot: "no_digit (ch CHR ''.'' # s)" for s by (simp add: no_digit_def srange_def)
  show ?thesis
    using assms
    by (simp add: NyFormatDottedDecimalQuad_text NyParseDottedDecimalQuad_def
        NyParseDecimalWord_format [OF dot, simplified] NyParseDecimalWord_format NyCheckByte_byte
        NyFormQuad_bytes [simplified])
qed

lemma dotted_quad_roundtrip_witness:
  "\<exists>t. NyFormatDottedDecimalQuad 0x0A020103 = Some t \<and>
     NyParseDottedDecimalQuad 1 (t @ cs '':69'') = Some (0x0A020103, cs '':69'')"
  by (rule dotted_quad_roundtrip) (simp add: no_digit_def srange_def)

end
