(* ===== verification/Frob_Items.thy ===== *)
theory Frob_Items
  imports Frob_Format
begin

text \<open>
  What \<^verbatim>\<open>BufFormatVA\<close> is to print, said without its code: a format is a list of items, each one a
  byte or a conversion with its flags and its argument, and the text of an item is told by the value
  of the argument, with numerals in positional notation over the natural numbers.
\<close>

section \<open>Numerals\<close>

function positional :: "nat \<Rightarrow> nat \<Rightarrow> nat list" where
  "positional b n = (if b < 2 \<or> n < b then [n] else positional b (n div b) @ [n mod b])"
  by auto
termination
  by (relation "measure snd") auto

declare positional.simps [simp del]

definition decimal :: "nat \<Rightarrow> cstr" where
  "decimal n = map (\<lambda>d. cs ''0123456789'' ! d) (positional 10 n)"

definition hexadecimal :: "cstr \<Rightarrow> nat \<Rightarrow> cstr" where
  "hexadecimal digits n = map (\<lambda>d. digits ! d) (positional 16 n)"

section \<open>Items\<close>

datatype style = SDec | UDec | LHex | UHex

datatype width = Fixed nat | Star nat

datatype item =
    Lit byte
  | Num style bool width word16
  | NumL style bool width quad
  | Str bool width "cstr option"
  | Part bool nat nat cstr
  | Quoted "cstr option"
  | Letter word16
  | Other byte

fun width_num :: "width \<Rightarrow> nat" where
  "width_num (Fixed n) = n"
| "width_num (Star n) = n"

definition flag_text :: "bool \<Rightarrow> width \<Rightarrow> cstr" where
  "flag_text z w = (if z then cs ''0'' else []) @
     (case w of Fixed n \<Rightarrow> if n = 0 then [] else decimal n | Star n \<Rightarrow> cs ''*'')"

definition width_args :: "width \<Rightarrow> arg list" where
  "width_args w = (case w of Fixed n \<Rightarrow> [] | Star n \<Rightarrow> [AInt (of_nat n)])"

fun style_char :: "style \<Rightarrow> byte" where
  "style_char SDec = ch CHR ''d''"
| "style_char UDec = ch CHR ''u''"
| "style_char LHex = ch CHR ''x''"
| "style_char UHex = ch CHR ''X''"

text \<open>The format of an item and the arguments it takes.\<close>

fun item_format :: "item \<Rightarrow> cstr" where
  "item_format (Lit c) = [c]"
| "item_format (Num st z w x) = cs ''%'' @ flag_text z w @ [style_char st]"
| "item_format (NumL st z w x) = cs ''%'' @ flag_text z w @ cs ''l'' @ [style_char st]"
| "item_format (Str z w s) = cs ''%'' @ flag_text z w @ cs ''s''"
| "item_format (Part z n p s) = cs ''%'' @ flag_text z (Fixed n) @ cs ''.*s''"
| "item_format (Quoted s) = cs ''%q''"
| "item_format (Letter x) = cs ''%c''"
| "item_format (Other c) = cs ''%'' @ [c]"

fun item_args :: "item \<Rightarrow> arg list" where
  "item_args (Num st z w x) = width_args w @ [AInt x]"
| "item_args (NumL st z w x) = width_args w @ [ALong x]"
| "item_args (Str z w s) = width_args w @ [AStr s]"
| "item_args (Part z n p s) = [AInt (of_nat p), AStr (Some s)]"
| "item_args (Quoted s) = [AStr s]"
| "item_args (Letter x) = [AInt x]"
| "item_args _ = []"

text \<open>The text of an item.\<close>

definition pad_left :: "bool \<Rightarrow> nat \<Rightarrow> cstr \<Rightarrow> cstr" where
  "pad_left z n t = replicate (n - length t) (if z then ch CHR ''0'' else ch CHR '' '') @ t"

fun number_text :: "style \<Rightarrow> nat \<Rightarrow> int \<Rightarrow> cstr" where
  "number_text SDec u i = (if i < 0 then cs ''-'' else []) @ decimal (nat \<bar>i\<bar>)"
| "number_text UDec u i = decimal u"
| "number_text LHex u i = hexadecimal (cs ''0123456789abcdef'') u"
| "number_text UHex u i = hexadecimal (cs ''0123456789ABCDEF'') u"

definition string_of :: "cstr option \<Rightarrow> cstr" where
  "string_of s = (case s of Some t \<Rightarrow> t | None \<Rightarrow> cs ''<NULL>'')"

definition printable :: "byte \<Rightarrow> bool" where
  "printable c \<longleftrightarrow> 32 \<le> unat c \<and> unat c < 127"

definition escapes :: "(byte \<times> char) list" where
  "escapes = [(9, CHR ''t''), (10, CHR ''n''), (13, CHR ''r''), (34, CHR 0x22), (39, CHR 0x27), (92, CHR 0x5C)]"

definition escaped :: "byte \<Rightarrow> cstr" where
  "escaped c =
     (case map_of escapes c of Some e \<Rightarrow> [92, ch e]
      | None \<Rightarrow> if printable c then [c]
          else [92, ch CHR ''x'', cs ''0123456789abcdef'' ! (unat c div 16), cs ''0123456789abcdef'' ! (unat c mod 16)])"

fun item_text :: "item \<Rightarrow> cstr" where
  "item_text (Lit c) = [c]"
| "item_text (Num st z w x) = pad_left z (width_num w) (number_text st (unat x) (sint x))"
| "item_text (NumL st z w x) = pad_left z (width_num w) (number_text st (unat x) (sint x))"
| "item_text (Str z w s) = pad_left z (width_num w) (string_of s)"
| "item_text (Part z n p s) = pad_left z n (take p s)"
| "item_text (Quoted s) = cs [CHR 0x22] @ concat (map escaped (string_of s)) @ cs [CHR 0x22]"
| "item_text (Letter x) =
     (let b = (ucast x :: byte) in if printable b then [b] else cs ''<'' @ decimal (unat b) @ cs ''>'')"
| "item_text (Other c) = [c]"

text \<open>
  Bytes the format language reads otherwise are no \<^verbatim>\<open>Lit\<close> or \<^verbatim>\<open>Other\<close>; strings fit a 16-bit length; a
  gap is not more than the 255 the byte counter of \<^verbatim>\<open>staticBufFillGap\<close> can do.
\<close>

definition width_ok :: "nat \<Rightarrow> cstr \<Rightarrow> bool" where
  "width_ok n t \<longleftrightarrow> n < 65536 \<and> length t < 65536 \<and> n \<le> length t + 255"

fun item_ok :: "item \<Rightarrow> bool" where
  "item_ok (Lit c) \<longleftrightarrow> c \<noteq> 0 \<and> c \<noteq> ch CHR ''%''"
| "item_ok (Num st z w x) \<longleftrightarrow> width_ok (width_num w) (number_text st (unat x) (sint x))"
| "item_ok (NumL st z w x) \<longleftrightarrow> width_ok (width_num w) (number_text st (unat x) (sint x))"
| "item_ok (Str z w s) \<longleftrightarrow> cstring (string_of s) \<and> width_ok (width_num w) (string_of s)"
| "item_ok (Part z n p s) \<longleftrightarrow> cstring s \<and> 0 < p \<and> p \<le> length s \<and> width_ok n (take p s)"
| "item_ok (Quoted s) \<longleftrightarrow> cstring (string_of s) \<and> length (string_of s) < 65536"
| "item_ok (Letter x) \<longleftrightarrow> True"
| "item_ok (Other c) \<longleftrightarrow> c \<noteq> 0 \<and> c \<notin> set (cs ''0123456789.*lXxudsqc'')"

section \<open>The numerals of the code\<close>

lemma decimal_digits: "d < 10 \<Longrightarrow> cs ''0123456789'' ! d = 48 + of_nat d"
  by (auto simp: cs_def numeral_eq_Suc less_Suc_eq)

lemma unat_less_quad: "unat (x :: quad) < 4294967296"
  using unsigned_less [of x] by simp

lemma decimal_unsigned: "staticQFormatUnsignedLong x = decimal (unat x)"
proof (induction x rule: staticQFormatUnsignedLong.induct)
  case (1 x)
  have d: "ucast y = (of_nat (unat y) :: byte)" for y :: quad
    by simp
  show ?case
  proof (cases "x > 9")
    case True
    then have "\<not> unat x < 10" by (simp add: word_less_nat_alt)
    moreover have "ucast (x mod 10) = (of_nat (unat x mod 10) :: byte)"
      using d [of "x mod 10"] by (simp add: unat_mod)
    ultimately show ?thesis
      using True 1 by (subst staticQFormatUnsignedLong.simps)
        (subst decimal_def, subst positional.simps, simp add: decimal_def unat_div decimal_digits [simplified])
  next
    case False
    then have "unat x < 10" by (simp add: word_less_nat_alt)
    then show ?thesis
      using False d by (subst staticQFormatUnsignedLong.simps)
        (simp add: decimal_def positional.simps decimal_digits [simplified])
  qed
qed

lemma hexadecimal_unsigned: "staticQFormatLongHex digits x = hexadecimal digits (unat x)"
proof (induction digits x rule: staticQFormatLongHex.induct)
  case (1 digits x)
  have low: "unat (ucast x AND 15 :: byte) = unat x mod 16"
  proof -
    have "(15 :: nat) = mask 4" by (simp add: mask_eq_exp_minus_1)
    then have "take_bit 8 n AND 15 = take_bit 4 n" for n :: nat
      using take_bit_eq_mask [of 4 "take_bit 8 n"] by (simp add: take_bit_take_bit)
    then show ?thesis by (simp add: unsigned_ucast_eq unsigned_and_eq take_bit_eq_mod)
  qed
  show ?case
  proof (cases "x > 15")
    case True
    then have "\<not> unat x < 16" by (simp add: word_less_nat_alt)
    moreover have "unat (drop_bit 4 x) = unat x div 16" by (simp add: drop_bit_eq_div unat_div)
    ultimately show ?thesis
      using True 1 low by (subst staticQFormatLongHex.simps)
        (subst hexadecimal_def, subst positional.simps, simp add: hexadecimal_def unat_div)
  next
    case False
    then have "unat x < 16" by (simp add: word_less_nat_alt)
    moreover have "unat (ucast x :: byte) = unat x" using \<open>unat x < 16\<close> by (simp add: unsigned_ucast_eq take_bit_nat_eq_self)
    ultimately show ?thesis
      using False by (subst staticQFormatLongHex.simps) (simp add: hexadecimal_def positional.simps)
  qed
qed

lemma signed_text:
  "staticQFormatSignedLong x = (if sint x < 0 then cs ''-'' else []) @ decimal (nat \<bar>sint x\<bar>)"
proof (cases "sint x < 0")
  case True
  have x: "- x = word_of_int (- sint x)" by simp
  have "sint x \<ge> - 2147483648" using sint_range_size [of x] by (simp add: word_size)
  then have "unat (- x) = nat (- sint x)" unfolding x using True by (intro unat_word_of_int_quad) simp_all
  then show ?thesis using True by (simp add: staticQFormatSignedLong_def word_sless_alt decimal_unsigned cs_def)
next
  case False
  have x: "x = word_of_int (sint x)" by simp
  have "sint x < 2147483648" using sint_range_size [of x] by (simp add: word_size)
  then have "unat (word_of_int (sint x) :: quad) = nat (sint x)" using False by (intro unat_word_of_int_quad) simp_all
  then show ?thesis using False by (simp add: staticQFormatSignedLong_def word_sless_alt decimal_unsigned)
qed

section \<open>Reading a conversion\<close>

lemma decimal_read:
  assumes "n < 65536" "no_digit s"
  shows "decimal_word_loop 0 (decimal n @ s) = (of_nat n, s)"
proof -
  have n: "unat (of_nat n :: quad) = n" using assms(1) by (simp add: unat_of_nat)
  have "decimal_word_loop 0 (staticQFormatUnsignedLong (of_nat n) @ s) = decimal_word_loop (ucast (of_nat n :: quad)) s"
    by (rule decimal_word_loop_format)
  moreover have "ucast (of_nat n :: quad) = (of_nat n :: word16)" using n of_nat_unat [of "of_nat n :: quad"] by metis
  ultimately show ?thesis using assms(2) by (simp add: decimal_unsigned n)
qed

lemma positional_first: "0 < n \<Longrightarrow> 2 \<le> b \<Longrightarrow> positional b n \<noteq> [] \<and> hd (positional b n) \<noteq> 0 \<and> (\<forall>d \<in> set (positional b n). d < b)"
proof (induction b n rule: positional.induct)
  case (1 b n)
  show ?case
  proof (cases "n < b")
    case True
    then show ?thesis using 1 by (subst (1 2 3) positional.simps) simp
  next
    case False
    then have "positional b (n div b) \<noteq> [] \<and> hd (positional b (n div b)) \<noteq> 0 \<and> (\<forall>d \<in> set (positional b (n div b)). d < b)"
      using 1 by (intro 1(1)) (auto simp: div_greater_zero_iff)
    then show ?thesis using 1(3) False by (subst (1 2 3) positional.simps) auto
  qed
qed

lemma decimal_first:
  assumes "0 < n"
  shows "peek (decimal n @ s) \<noteq> ch CHR ''0''"
proof -
  obtain d ds where d: "positional 10 n = d # ds" "0 < d" "d < 10"
    using positional_first [OF assms, of 10] by (cases "positional 10 n") auto
  have "(48 + of_nat d :: byte) \<noteq> 48" using d(2,3) of_nat_0_less_iff by (simp add: word_of_nat_eq_0_iff nat_dvd_not_less)
  then show ?thesis using d decimal_digits [OF d(3)] by (simp add: decimal_def peek_def)
qed

definition conv_of :: "bool \<Rightarrow> word16 \<Rightarrow> word16 \<Rightarrow> cstr \<Rightarrow> arg list \<Rightarrow> (conv \<times> cstr \<times> arg list) option" where
  "conv_of z wd pr s args =
    (let s' = (if peek s = ch CHR ''l'' then tl s else s) in
     case s' of [] \<Rightarrow> None
     | c # rest \<Rightarrow> Some (\<lparr>cv_fill0 = z, cv_width = wd, cv_precision = pr,
         cv_long = (peek s = ch CHR ''l''), cv_char = c\<rparr>, rest, args))"

lemma parse_plain:
  assumes "decimal_word_loop 0 (if peek t = ch CHR ''0'' then tl t else t) = (v, s)" "peek s \<noteq> ch CHR ''.''" "peek s \<noteq> ch CHR ''*''"
  shows "parse_conv t args = conv_of (peek t = ch CHR ''0'') v 0 s args"
  using assms by (simp add: parse_conv_def conv_of_def Let_def split: list.split)

lemma parse_star:
  assumes "decimal_word_loop 0 (if peek t = ch CHR ''0'' then tl t else t) = (v, ch CHR ''*'' # s)"
  shows "parse_conv t (AInt x # args) = conv_of (peek t = ch CHR ''0'') x 0 s args"
  using assms by (simp add: parse_conv_def conv_of_def Let_def peek_simps split: list.split)

lemma parse_dot_star:
  assumes "decimal_word_loop 0 (if peek t = ch CHR ''0'' then tl t else t) = (v, ch CHR ''.'' # ch CHR ''*'' # s)"
  shows "parse_conv t (AInt x # args) = conv_of (peek t = ch CHR ''0'') v x s args"
  using assms by (simp add: parse_conv_def conv_of_def Let_def peek_simps split: list.split)

lemma flags_Fixed:
  assumes "no_digit s" "n < 65536" "t = flag_text z (Fixed n) @ s"
  shows "(peek t = ch CHR ''0'') = z" "decimal_word_loop 0 (if z then tl t else t) = (of_nat n, s)"
proof -
  have 0: "peek s \<noteq> ch CHR ''0''" using assms(1) by (auto simp: no_digit_def srange_def)
  show "(peek t = ch CHR ''0'') = z"
    using 0 decimal_first [of n s] by (cases z; cases "n = 0") (simp_all add: assms(3) flag_text_def cs_def peek_def)
  show "decimal_word_loop 0 (if z then tl t else t) = (of_nat n, s)"
    using decimal_read [OF assms(2,1)] assms(1) by (cases z; cases "n = 0") (simp_all add: assms(3) flag_text_def cs_def)
qed

lemma flags_Star:
  assumes "t = flag_text z (Star n) @ s"
  shows "(peek t = ch CHR ''0'') = z" "decimal_word_loop 0 (if z then tl t else t) = (0, ch CHR ''*'' # s)"
proof -
  have "no_digit (ch CHR ''*'' # s)" by (simp add: no_digit_def srange_def)
  then show "decimal_word_loop 0 (if z then tl t else t) = (0, ch CHR ''*'' # s)"
    using decimal_word_loop_stop [of "ch CHR ''*'' # s" 0] by (cases z) (simp_all add: assms flag_text_def cs_def)
  show "(peek t = ch CHR ''0'') = z" by (cases z) (simp_all add: assms flag_text_def cs_def peek_def)
qed

lemma parse_flags:
  assumes "no_digit s" "peek s \<noteq> ch CHR ''.''" "peek s \<noteq> ch CHR ''*''" "width_num w < 65536"
  shows "parse_conv (flag_text z w @ s) (width_args w @ args) = conv_of z (of_nat (width_num w)) 0 s args"
proof (cases w)
  case (Fixed n)
  show ?thesis
    using parse_plain [of "flag_text z (Fixed n) @ s" "of_nat n" s args] flags_Fixed [OF assms(1) _ refl, of n z] assms Fixed
    by (simp add: width_args_def)
next
  case (Star n)
  show ?thesis
    using parse_star [of "flag_text z (Star n) @ s" 0 s "of_nat n" args] flags_Star [OF refl, of z n s] Star
    by (simp add: width_args_def)
qed

section \<open>The text of a conversion\<close>

lemma positional_length: "n < b ^ Suc k \<Longrightarrow> 2 \<le> b \<Longrightarrow> length (positional b n) \<le> Suc k"
proof (induction k arbitrary: n)
  case 0
  then show ?case by (simp add: positional.simps)
next
  case (Suc k)
  have "n div b < b ^ Suc k" using Suc.prems by (simp add: less_mult_imp_div_less mult.commute)
  from Suc.IH [OF this Suc.prems(2)] show ?case by (subst positional.simps) simp
qed

lemma number_text_length: "u < 4294967296 \<Longrightarrow> \<bar>i\<bar> < 4294967296 \<Longrightarrow> length (number_text st u i) \<le> 11"
proof -
  assume u: "u < 4294967296" and i: "\<bar>i\<bar> < 4294967296"
  have "nat \<bar>i\<bar> < 10 ^ Suc 9" using i by simp
  then have "length (positional 10 (nat \<bar>i\<bar>)) \<le> Suc 9" by (rule positional_length) simp
  then show ?thesis
    using u positional_length [of u 10 9] positional_length [of u 16 7]
    by (cases st; cases "i < 0") (simp_all add: decimal_def hexadecimal_def cs_def)
qed

lemma printable_srange: "srange CHR '' '' CHR ''~'' c \<longleftrightarrow> printable c"
  by (auto simp: srange_def printable_def sint_byte uint_unat_cmp) (use unat_byte_lt [of c] in linarith)+

lemma pad_text_left: "pad_text cv t = pad_left (cv_fill0 cv) (unat (cv_width cv)) t"
  by (simp add: pad_text_def pad_left_def)

definition number_of_quad :: "style \<Rightarrow> quad \<Rightarrow> cstr" where
  "number_of_quad st x = number_text st (unat x) (sint x)"

lemma number_of_quad_code:
  "number_of_quad SDec x = staticQFormatSignedLong x" "number_of_quad UDec x = staticQFormatUnsignedLong x"
  "number_of_quad LHex x = staticQFormatLongHex LowerHexAlphabet x" "number_of_quad UHex x = staticQFormatLongHex UpperHexAlphabet x"
  by (simp_all add: number_of_quad_def signed_text decimal_unsigned hexadecimal_unsigned LowerHexAlphabet_def UpperHexAlphabet_def)

lemma number_of_quad_length: "length (number_of_quad st x) \<le> 11"
proof -
  have "\<bar>sint x\<bar> < 4294967296" using sint_range_size [of x] by (simp add: word_size abs_if)
  then show ?thesis unfolding number_of_quad_def by (intro number_text_length unat_less_quad)
qed

definition widened :: "style \<Rightarrow> word16 \<Rightarrow> quad" where
  "widened st x = (if st = SDec then scast x else ucast x)"

lemma number_of_widened: "number_of_quad st (widened st x) = number_text st (unat x) (sint x)"
proof -
  have "unat (ucast x :: quad) = unat x"
    using less_trans [OF unat_word16_lt [of x], of 4294967296] by (simp add: unsigned_ucast_eq take_bit_nat_eq_self_iff)
  then show ?thesis by (cases st) (simp_all add: number_of_quad_def widened_def sint_scast_quad)
qed

definition conv_does :: "conv \<Rightarrow> arg list \<Rightarrow> cstr \<Rightarrow> bool" where
  "conv_does cv as t \<longleftrightarrow> (\<exists>es. (\<forall>args. format_conv cv (as @ args) = Some (es, args)) \<and>
     calls_text es = t \<and> (\<forall>e \<in> set es. call_ok e))"

lemma conv_doesI:
  "(\<And>args. format_conv cv (as @ args) = Some (es, args)) \<Longrightarrow> calls_text es = t \<Longrightarrow> \<forall>e \<in> set es. call_ok e \<Longrightarrow> conv_does cv as t"
  unfolding conv_does_def by blast

lemma number_conv:
  assumes c: "cv_char cv = style_char st"
    and a: "if cv_long cv then a = ALong q else \<exists>x. a = AInt x \<and> q = widened st x"
    and w: "width_ok (unat (cv_width cv)) (number_of_quad st q)"
  shows "conv_does cv [a] (pad_left (cv_fill0 cv) (unat (cv_width cv)) (number_of_quad st q))"
proof -
  obtain es where es: "padded cv (number_of_quad st q) = Some es"
      "calls_text es = pad_text cv (number_of_quad st q)" "\<forall>e \<in> set es. call_ok e"
    by (rule padded_text [of "number_of_quad st q" cv]) (use number_of_quad_length [of st q] w in \<open>auto simp: width_ok_def\<close>)
  have "format_conv cv ([a] @ args) = Some (es, args)" for args
    using a es(1) by (cases st; cases "cv_long cv") (auto simp: format_conv_def c number_of_quad_code widened_def)
  then show ?thesis by (rule conv_doesI) (use es in \<open>auto simp: pad_text_left\<close>)
qed

lemma calls_text_gap: "calls_text (replicate k (AppC c)) = replicate k c"
  using calls_text_AppC [of "replicate k c"] by (simp add: map_replicate_const)

lemma string_conv:
  assumes cv: "cv_char cv = ch CHR ''s''" and x: "x = string_of s" and p: "unat (cv_precision cv) \<le> length x"
    and w: "width_ok (unat (cv_width cv)) t" and t: "t = (if cv_precision cv = 0 then x else take (unat (cv_precision cv)) x)"
  shows "conv_does cv [AStr s] (pad_left (cv_fill0 cv) (unat (cv_width cv)) t)"
proof -
  let ?p = "if cv_precision cv = 0 then of_nat (length x) else cv_precision cv" and ?w = "unat (cv_width cv)"
  have a: "take_str (AStr s # args) = Some (x, args)" for args by (cases s) (simp_all add: x string_of_def)
  have l: "unat ?p = length t" using p w t by (auto simp: width_ok_def unat_of_nat)
  then have tx: "take (unat ?p) (x @ [0]) = t" using p t by auto
  have "?w - unat ?p \<le> 255" using w l by (auto simp: width_ok_def)
  then have "staticBufFillGap (cv_width cv) ?p (cv_fill0 cv) =
      Some (replicate (?w - unat ?p) (AppC (if cv_fill0 cv then ch CHR ''0'' else ch CHR '' '')))"
    using fill_gap [of "cv_width cv" ?p "cv_fill0 cv"] by blast
  then have "format_conv cv ([AStr s] @ args) = Some (replicate (?w - unat ?p)
      (AppC (if cv_fill0 cv then ch CHR ''0'' else ch CHR '' '')) @ [AppS x ?p], args)" for args
    using a by (simp add: format_conv_def cv Let_def)
  then show ?thesis
  proof (rule conv_doesI)
    have "length t \<le> length x + 1" using p t by auto
    then show "\<forall>e \<in> set (replicate (?w - unat ?p) (AppC (if cv_fill0 cv then ch CHR ''0'' else ch CHR '' '')) @ [AppS x ?p]). call_ok e"
      using l by auto
  qed (use l tx in \<open>simp add: pad_left_def calls_text_gap split del: if_split\<close>)
qed

lemma nibbles:
  fixes c :: byte
  shows "unat (drop_bit 4 c) = unat c div 16" "unat (c AND 15) = unat c mod 16"
proof -
  have "c AND 15 = take_bit 4 c" by (simp add: take_bit_eq_mask mask_eq_exp_minus_1)
  then show "unat (c AND 15) = unat c mod 16" by (simp add: take_bit_eq_mod unat_mod)
  show "unat (drop_bit 4 c) = unat c div 16" by (simp add: drop_bit_eq_div unat_div)
qed

lemma quote_char_escaped: "quote_char c = escaped c"
  by (simp add: quote_char_def escaped_def escapes_def printable_srange nibbles LowerHexAlphabet_def)

lemma quoted_conv:
  assumes "cv_char cv = ch CHR ''q''" "cv_precision cv = 0" "length (string_of s) < 65536"
  shows "conv_does cv [AStr s] (item_text (Quoted s))"
proof -
  let ?x = "string_of s"
  have a: "take_str (AStr s # args) = Some (?x, args)" for args by (cases s) (simp_all add: string_of_def)
  have "unat (of_nat (length ?x) :: word16) = length ?x" using assms(3) by (simp add: unat_of_nat)
  then have "BufAppStringQuoting ?x (of_nat (length ?x)) = Some (map AppC (concat (map escaped ?x)))"
    by (simp add: BufAppStringQuoting_def quote_char_escaped cong: map_cong)
  then have "format_conv cv ([AStr s] @ args) = Some (AppC 34 # map AppC (concat (map escaped ?x)) @ [AppC 34], args)" for args
    using a by (simp add: format_conv_def assms(1,2))
  then show ?thesis by (rule conv_doesI) (auto simp: cs_def)
qed

section \<open>Items\<close>

lemma letter_conv:
  assumes "cv_char cv = ch CHR ''c''"
  shows "conv_does cv [AInt x] (item_text (Letter x))"
proof (cases "printable (ucast x)")
  case True
  then show ?thesis using assms by (intro conv_doesI [of _ _ "[AppC (ucast x)]"]) (simp_all add: format_conv_def printable_srange)
next
  case False
  let ?b = "ucast x :: byte" and ?t = "decimal (unat (ucast x :: byte))"
  have t: "staticQFormatUnsignedLong (ucast ?b) = ?t" by (simp only: decimal_unsigned ucast_byte_mod)
  have "length ?t \<le> 10" using staticQFormatUnsignedLong_length10 [of "ucast ?b"] unfolding t .
  then have "unat (of_nat (length ?t) :: word16) = length ?t" by (simp add: unat_of_nat)
  then show ?thesis
    using False assms
    by (intro conv_doesI [of _ _ "[AppC (ch CHR ''<''), AppS ?t (of_nat (length ?t)), AppC (ch CHR ''>'')]"])
      (simp_all add: format_conv_def printable_srange t [simplified] cs_def Let_def)
qed

lemma other_conv:
  assumes "cv_char cv \<notin> set (cs ''Xxudsqc'')"
  shows "conv_does cv [] [cv_char cv]"
  by (rule conv_doesI [of _ _ "[AppC (cv_char cv)]"]) (use assms in \<open>simp_all add: format_conv_def cs_def\<close>)

text \<open>What a format makes of an item does not depend on what comes before and behind it.\<close>

definition does :: "cstr \<Rightarrow> arg list \<Rightarrow> cstr \<Rightarrow> bool" where
  "does fmt as t \<longleftrightarrow> (\<exists>es. calls_text es = t \<and> (\<forall>e \<in> set es. call_ok e) \<and>
     (\<forall>rest args. format_calls (fmt @ rest) (as @ args) = do { es' \<leftarrow> format_calls rest args; Some (es @ es') }))"

lemma does_conv:
  assumes "\<And>rest args. parse_conv (fmt @ rest) (ws @ args) = Some (cv, rest, args)" "conv_does cv as t"
  shows "does (ch CHR ''%'' # fmt) (ws @ as) t"
proof -
  obtain es where es: "\<And>args. format_conv cv (as @ args) = Some (es, args)" "calls_text es = t" "\<forall>e \<in> set es. call_ok e"
    using assms(2) unfolding conv_does_def by blast
  have "format_calls ((ch CHR ''%'' # fmt) @ rest) ((ws @ as) @ args) = do { es' \<leftarrow> format_calls rest args; Some (es @ es') }"
    for rest args
    using assms(1) [of rest "as @ args"] es(1) [of args] by simp
  then show ?thesis using es(2,3) unfolding does_def by blast
qed

lemma does_lit: "c \<noteq> ch CHR ''%'' \<Longrightarrow> does [c] [] [c]"
  unfolding does_def by (intro exI [of _ "[AppC c]"]) simp

text \<open>A conversion behind flags, with and without the \<^verbatim>\<open>l\<close>.\<close>

lemma does_flags:
  assumes "no_digit [c]" "c \<notin> set (cs ''.*l'')" "width_num w < 65536"
    and "conv_does \<lparr>cv_fill0 = z, cv_width = of_nat (width_num w), cv_precision = 0, cv_long = False, cv_char = c\<rparr> as t"
  shows "does (ch CHR ''%'' # flag_text z w @ [c]) (width_args w @ as) t"
proof (rule does_conv [OF _ assms(4)])
  fix rest args
  have "no_digit (c # rest)" using assms(1) by (simp add: no_digit_def)
  from parse_flags [OF this, of w z args]
  show "parse_conv ((flag_text z w @ [c]) @ rest) (width_args w @ args) =
      Some (\<lparr>cv_fill0 = z, cv_width = of_nat (width_num w), cv_precision = 0, cv_long = False, cv_char = c\<rparr>, rest, args)"
    using assms(2,3) by (simp add: conv_of_def cs_def)
qed

lemma does_flags_l:
  assumes "width_num w < 65536"
    and "conv_does \<lparr>cv_fill0 = z, cv_width = of_nat (width_num w), cv_precision = 0, cv_long = True, cv_char = c\<rparr> as t"
  shows "does (ch CHR ''%'' # flag_text z w @ [ch CHR ''l'', c]) (width_args w @ as) t"
proof (rule does_conv [OF _ assms(2)])
  fix rest args
  have "no_digit (ch CHR ''l'' # c # rest)" by (simp add: no_digit_def srange_def)
  from parse_flags [OF this, of w z args]
  show "parse_conv ((flag_text z w @ [ch CHR ''l'', c]) @ rest) (width_args w @ args) =
      Some (\<lparr>cv_fill0 = z, cv_width = of_nat (width_num w), cv_precision = 0, cv_long = True, cv_char = c\<rparr>, rest, args)"
    using assms(1) by (simp add: conv_of_def cs_def)
qed

lemma does_precision:
  assumes "n < 65536"
    and "conv_does \<lparr>cv_fill0 = z, cv_width = of_nat n, cv_precision = p, cv_long = False, cv_char = ch CHR ''s''\<rparr> as t"
  shows "does (ch CHR ''%'' # flag_text z (Fixed n) @ cs ''.*s'') (AInt p # as) t"
proof -
  have "parse_conv ((flag_text z (Fixed n) @ cs ''.*s'') @ rest) ([AInt p] @ args) =
      Some (\<lparr>cv_fill0 = z, cv_width = of_nat n, cv_precision = p, cv_long = False, cv_char = ch CHR ''s''\<rparr>, rest, args)" for rest args
  proof -
    let ?t = "flag_text z (Fixed n) @ ch CHR ''.'' # ch CHR ''*'' # ch CHR ''s'' # rest"
    have "no_digit (ch CHR ''.'' # ch CHR ''*'' # ch CHR ''s'' # rest)" by (simp add: no_digit_def srange_def)
    from flags_Fixed [OF this assms(1) refl, of z] parse_dot_star [of ?t "of_nat n" "ch CHR ''s'' # rest" p args]
    show ?thesis by (simp add: conv_of_def cs_def)
  qed
  from does_conv [OF this assms(2)] show ?thesis by simp
qed

lemma no_flags: "flag_text False (Fixed 0) = []" "width_args (Fixed 0) = []"
  by (simp_all add: flag_text_def width_args_def)

lemma style_char_plain: "no_digit [style_char st]" "style_char st \<notin> set (cs ''.*l'')"
  by (cases st; simp add: no_digit_def srange_def cs_def)+

lemma width_unat: "width_ok n t \<Longrightarrow> unat (of_nat n :: word16) = n"
  by (simp add: width_ok_def unat_of_nat)

lemma decimal_digit_char: "srange CHR ''0'' CHR ''9'' c \<Longrightarrow> c \<in> set (cs ''0123456789'')"
proof -
  assume "srange CHR ''0'' CHR ''9'' c"
  then have c: "48 \<le> unat c" "unat c - 48 < 10" by (auto simp: srange_unat)
  have "(48 :: byte) + of_nat (unat c - 48) = of_nat (48 + (unat c - 48))" by simp
  also have "\<dots> = of_nat (unat c)" using c(1) by (simp only: le_add_diff_inverse)
  also have "\<dots> = c" by simp
  finally have "cs ''0123456789'' ! (unat c - 48) = c" unfolding decimal_digits [OF c(2)] .
  moreover have "length (cs ''0123456789'') = 10" by simp
  ultimately show ?thesis using c(2) by (metis nth_mem)
qed

lemma does_item: "item_ok it \<Longrightarrow> does (item_format it) (item_args it) (item_text it)"
proof (cases it)
  case (Lit c)
  assume "item_ok it"
  then show ?thesis using Lit does_lit [of c] by simp
next
  case (Num st z w x)
  assume "item_ok it"
  then have w: "width_ok (width_num w) (number_of_quad st (widened st x))" using Num by (simp add: number_of_widened)
  let ?cv = "\<lparr>cv_fill0 = z, cv_width = of_nat (width_num w), cv_precision = 0, cv_long = False, cv_char = style_char st\<rparr>"
  have "conv_does ?cv [AInt x] (pad_left z (width_num w) (number_of_quad st (widened st x)))"
    using number_conv [of ?cv st "AInt x" "widened st x"] w by (simp add: width_unat [OF w])
  from does_flags [OF style_char_plain _ this] show ?thesis using Num w by (simp add: number_of_widened width_ok_def cs_def)
next
  case (NumL st z w x)
  assume "item_ok it"
  then have w: "width_ok (width_num w) (number_of_quad st x)" using NumL by (simp add: number_of_quad_def)
  let ?cv = "\<lparr>cv_fill0 = z, cv_width = of_nat (width_num w), cv_precision = 0, cv_long = True, cv_char = style_char st\<rparr>"
  have "conv_does ?cv [ALong x] (pad_left z (width_num w) (number_of_quad st x))"
    using number_conv [of ?cv st "ALong x" x] w by (simp add: width_unat [OF w])
  from does_flags_l [OF _ this] show ?thesis using NumL w by (simp add: number_of_quad_def width_ok_def cs_def)
next
  case (Str z w s)
  assume "item_ok it"
  then have w: "width_ok (width_num w) (string_of s)" using Str by simp
  let ?cv = "\<lparr>cv_fill0 = z, cv_width = of_nat (width_num w), cv_precision = 0, cv_long = False, cv_char = ch CHR ''s''\<rparr>"
  have "conv_does ?cv [AStr s] (pad_left z (width_num w) (string_of s))"
    using string_conv [of ?cv "string_of s" s "string_of s"] w by (simp add: width_unat [OF w])
  from does_flags [OF _ _ _ this] show ?thesis using Str w by (simp add: width_ok_def no_digit_def srange_def cs_def)
next
  case (Part z n p s)
  assume "item_ok it"
  then have w: "width_ok n (take p s)" "0 < p" "p \<le> length s" using Part by simp_all
  then have "p < 65536" by (simp add: width_ok_def)
  then have "unat (of_nat p :: word16) = p" by (simp add: unat_of_nat)
  then obtain q :: word16 where q: "of_nat p = q" "unat q = p" by blast
  then have "q \<noteq> 0" using w(2) by (metis less_irrefl unsigned_0)
  note q = q this
  let ?cv = "\<lparr>cv_fill0 = z, cv_width = of_nat n, cv_precision = q, cv_long = False, cv_char = ch CHR ''s''\<rparr>"
  have "conv_does ?cv [AStr (Some s)] (pad_left z n (take p s))"
  proof -
    have "unat (cv_precision ?cv) \<le> length s" "width_ok (unat (cv_width ?cv)) (take p s)"
      "take p s = (if cv_precision ?cv = 0 then s else take (unat (cv_precision ?cv)) s)" "s = string_of (Some s)"
      using w(1,3) q(2,3) by (simp_all only: conv.simps width_unat [OF w(1)] string_of_def option.case if_False)
    from string_conv [OF _ this(4,1,2,3)] show ?thesis by (simp only: conv.simps width_unat [OF w(1)])
  qed
  from does_precision [OF _ this] show ?thesis using Part w q(1) by (simp add: width_ok_def cs_def)
next
  case (Quoted s)
  assume "item_ok it"
  then have "length (string_of s) < 65536" using Quoted by simp
  from does_flags [OF _ _ _ quoted_conv [OF _ _ this], of "ch CHR ''q''" "Fixed 0" False]
  show ?thesis using Quoted by (simp add: no_flags no_digit_def srange_def cs_def)
next
  case (Letter x)
  from does_flags [OF _ _ _ letter_conv, of "ch CHR ''c''" "Fixed 0" False]
  show ?thesis using Letter by (simp add: no_flags no_digit_def srange_def cs_def)
next
  case (Other c)
  assume "item_ok it"
  then have "c \<notin> set (cs ''0123456789'')" and c: "c \<notin> set (cs ''.*l'')" "c \<notin> set (cs ''Xxudsqc'')"
    using Other by (simp_all add: cs_def)
  then have "no_digit [c]" using decimal_digit_char [of c] unfolding no_digit_def peek_Cons by blast
  note c = this c
  let ?cv = "\<lparr>cv_fill0 = False, cv_width = of_nat (width_num (Fixed 0)), cv_precision = 0, cv_long = False, cv_char = c\<rparr>"
  have "conv_does ?cv [] [c]" using other_conv [of ?cv] c(3) by simp
  from does_flags [OF c(1,2) _ this] show ?thesis using Other by (simp add: no_flags cs_def)
qed

definition items_text :: "item list \<Rightarrow> cstr" where
  "items_text its = concat (map item_text its)"

definition items_format :: "item list \<Rightarrow> cstr" where
  "items_format its = concat (map item_format its)"

definition items_args :: "item list \<Rightarrow> arg list" where
  "items_args its = concat (map item_args its)"

lemma format_items:
  assumes "\<forall>it \<in> set its. item_ok it"
  shows "\<exists>es. format_calls (items_format its) (items_args its @ args) = Some es \<and> calls_text es = items_text its \<and>
    (\<forall>e \<in> set es. call_ok e)"
  using assms
proof (induction its)
  case Nil
  then show ?case by (simp add: items_format_def items_args_def items_text_def)
next
  case (Cons it its)
  then obtain es' where es': "format_calls (items_format its) (items_args its @ args) = Some es'"
      "calls_text es' = items_text its" "\<forall>e \<in> set es'. call_ok e" by auto
  obtain es where es: "calls_text es = item_text it" "\<forall>e \<in> set es. call_ok e"
      "\<And>rest args. format_calls (item_format it @ rest) (item_args it @ args) = do { es' \<leftarrow> format_calls rest args; Some (es @ es') }"
    using does_item [of it] Cons.prems unfolding does_def by auto
  then show ?case
    using es' by (intro exI [of _ "es @ es'"]) (auto simp: items_format_def items_args_def items_text_def)
qed

text \<open>
  C11.  What a format prints: for every list of items, bytes and conversions with flags, width and
  argument, \<^verbatim>\<open>BufFormatVA\<close> called with the format and the arguments of the items on a well-formed buffer
  with enough room appends the texts of the items, decimal or hexadecimal by the value of the argument,
  padded on the left with blanks or zeros, strings cut to the precision or quoted, and nothing else;
  the buffer stays well formed.
\<close>

theorem BufFormatVA_appends:
  assumes "\<forall>it \<in> set its. item_ok it" "buf_room kk (length (items_text its) + k) ps"
  shows "\<exists>ps'. BufFormatVA os9 (items_format its) (items_args its) ps = Some ps' \<and>
    buf_contents ps' = buf_contents ps @ items_text its \<and> buf_room kk k ps'"
proof -
  obtain es where "format_calls (items_format its) (items_args its) = Some es" "calls_text es = items_text its"
      "\<forall>e \<in> set es. call_ok e"
    using format_items [OF assms(1), of "[]"] by auto
  then show ?thesis using BufFormatVA_text [of _ _ es kk k ps os9] assms(2) by simp
qed

lemma BufFormatVA_appends_witness:
  "\<exists>ps ps'. BufInit (\<lambda>k n. (Inl 0, k)) empty_heap = Some ps \<and>
     BufFormatVA (\<lambda>k n. (Inl 0, k)) (cs ''a%5d%04x%s'') [AInt (- 7), AInt 255, AStr (Some (cs ''b''))] ps = Some ps' \<and>
     buf_contents ps' = cs ''a   -700ffb''"
proof -
  let ?its = "[Lit 97, Num SDec False (Fixed 5) (- 7), Num LHex True (Fixed 4) 255, Str False (Fixed 0) (Some (cs ''b''))]"
  have "growth 1 16 = 0" by (rule growth_none) simp
  then obtain ps where ps: "BufInit (\<lambda>k n. (Inl 0, k)) empty_heap = Some ps" "buf_room () 16 ps"
    "buf_contents ps = []"
    using BufInit_room [OF empty_heap_inv, of 16 "\<lambda>k n. (Inl 0, k)"] by (fastforce simp: empty_heap_def)
  have p: "positional 10 7 = [7]" "positional 10 5 = [5]" "positional 10 4 = [4]" "positional 16 255 = [15, 15]"
    by (simp_all add: positional.simps)
  have r: "replicate 3 b = [b, b, b]" "replicate 2 b = [b, b]" for b :: byte by (simp_all add: eval_nat_numeral)
  have n: "sint (- 7 :: word16) = - 7" by simp
  have ok: "\<forall>it \<in> set ?its. item_ok it" by (simp add: width_ok_def string_of_def cstring_def cs_def n p decimal_def hexadecimal_def)
  have t: "items_text ?its = cs ''a   -700ffb''"
    by (simp add: items_text_def n p r pad_left_def decimal_def hexadecimal_def string_of_def cs_def)
  have f: "items_format ?its = cs ''a%5d%04x%s''" "items_args ?its = [AInt (- 7), AInt 255, AStr (Some (cs ''b''))]"
    by (simp_all add: items_format_def items_args_def flag_text_def width_args_def p decimal_def cs_def)
  have "buf_room () (length (items_text ?its) + 5) ps" using ps(2) unfolding t by (simp add: cs_def)
  from BufFormatVA_appends [OF ok this, of "\<lambda>k n. (Inl 0, k)"] ps(1,3) show ?thesis unfolding t f by auto
qed

end
