(* ===== verification/Ncl_Parse.thy ===== *)
theory Ncl_Parse
  imports Frob_Format
begin

text \<open>
  The parser of the command language (\<^verbatim>\<open>ncl/ncl.c\<close>, built with CMOC), the list
  functions on top of \<^verbatim>\<open>froblib/buf.c\<close>, and the glob matcher of \<^verbatim>\<open>ncl/match.c\<close>.
  A parser's position is the rest of its text; the bytes between \<^verbatim>\<open>start\<close> and
  \<^verbatim>\<open>end\<close> are the token.  Running past the end of the text is \<^verbatim>\<open>None\<close>.
\<close>

section \<open>Tokens\<close>

datatype tok = PT_ESC | PT_STR | PT_CMD | PT_VAR | PT_SEP | PT_EOL | PT_EOF

record picolParser =
  rest_p :: cstr
  token :: cstr
  type_p :: tok
  insidequote :: bool

definition picolInitParser :: "cstr \<Rightarrow> picolParser" where
  "picolInitParser text = \<lparr>rest_p = text, token = [], type_p = PT_EOL, insidequote = False\<rparr>"

definition sep_char :: "byte \<Rightarrow> bool" where
  "sep_char c \<longleftrightarrow> c = 32 \<or> c = 9 \<or> c = 10 \<or> c = 13"

definition eol_char :: "byte \<Rightarrow> bool" where
  "eol_char c \<longleftrightarrow> c = 32 \<or> c = 9 \<or> c = 10 \<or> c = 13 \<or> c = ch CHR '';''"

definition var_char :: "byte \<Rightarrow> bool" where
  "var_char c \<longleftrightarrow> srange CHR ''a'' CHR ''z'' c \<or> srange CHR ''A'' CHR ''Z'' c
     \<or> srange CHR ''0'' CHR ''9'' c \<or> c = ch CHR ''_''"

definition picolParseSep :: "picolParser \<Rightarrow> picolParser" where
  "picolParseSep p = p\<lparr>token := takeWhile sep_char (rest_p p),
     rest_p := dropWhile sep_char (rest_p p), type_p := PT_SEP\<rparr>"

definition picolParseEol :: "picolParser \<Rightarrow> picolParser" where
  "picolParseEol p = p\<lparr>token := takeWhile eol_char (rest_p p),
     rest_p := dropWhile eol_char (rest_p p), type_p := PT_EOL\<rparr>"

text \<open>The loop of \<^verbatim>\<open>picolParseCommand\<close>: bracket level, brace level, text; it returns the
  token and the rest behind the closing bracket.\<close>

fun command_loop :: "nat \<Rightarrow> nat \<Rightarrow> cstr \<Rightarrow> (cstr \<times> cstr) option" where
  "command_loop level blevel [] = Some ([], [])"
| "command_loop level blevel (c # s) =
     (if c = ch CHR ''['' \<and> blevel = 0 then
        map_option (apfst ((#) c)) (command_loop (level + 1) blevel s)
      else if c = ch CHR '']'' \<and> blevel = 0 then
        (if level - 1 = 0 then Some ([], s)
         else map_option (apfst ((#) c)) (command_loop (level - 1) blevel s))
      else if c = 92 then
        (case s of [] \<Rightarrow> None
         | d # s' \<Rightarrow> map_option (apfst (\<lambda>t. c # d # t)) (command_loop level blevel s'))
      else if c = ch CHR ''{'' then map_option (apfst ((#) c)) (command_loop level (blevel + 1) s)
      else if c = ch CHR ''}'' then map_option (apfst ((#) c)) (command_loop level (blevel - 1) s)
      else map_option (apfst ((#) c)) (command_loop level blevel s))"

definition picolParseCommand :: "picolParser \<Rightarrow> picolParser option" where
  "picolParseCommand p = do {
     (t, r) \<leftarrow> command_loop 1 0 (tl (rest_p p));
     Some (p\<lparr>token := t, rest_p := r, type_p := PT_CMD\<rparr>) }"

definition picolParseVar :: "picolParser \<Rightarrow> picolParser" where
  "picolParseVar p =
     (let s = tl (rest_p p); t = takeWhile var_char s in
      if t = [] then p\<lparr>token := [ch CHR ''$''], rest_p := s, type_p := PT_STR\<rparr>
      else p\<lparr>token := t, rest_p := dropWhile var_char s, type_p := PT_VAR\<rparr>)"

fun brace_loop :: "nat \<Rightarrow> cstr \<Rightarrow> cstr \<times> cstr" where
  "brace_loop level [] = ([], [])"
| "brace_loop level (c # s) =
     (if c = 92 \<and> s \<noteq> [] then
        (case s of d # s' \<Rightarrow> apfst (\<lambda>t. c # d # t) (brace_loop level s'))
      else if c = ch CHR ''}'' then
        (if level - 1 = 0 then ([], s) else apfst ((#) c) (brace_loop (level - 1) s))
      else if c = ch CHR ''{'' then apfst ((#) c) (brace_loop (level + 1) s)
      else apfst ((#) c) (brace_loop level s))"

definition picolParseBrace :: "picolParser \<Rightarrow> picolParser" where
  "picolParseBrace p =
     (case brace_loop 1 (tl (rest_p p)) of (t, r) \<Rightarrow> p\<lparr>token := t, rest_p := r, type_p := PT_STR\<rparr>)"

text \<open>The loop of \<^verbatim>\<open>picolParseString\<close>: token, rest, and whether a quote is still open.\<close>

fun string_loop :: "bool \<Rightarrow> cstr \<Rightarrow> cstr \<times> cstr \<times> bool" where
  "string_loop q [] = ([], [], q)"
| "string_loop q (c # s) =
     (if c = 92 then
        (case s of [] \<Rightarrow> apfst ((#) c) (string_loop q s)
         | d # s' \<Rightarrow> apfst (\<lambda>t. c # d # t) (string_loop q s'))
      else if c = ch CHR ''$'' \<or> c = ch CHR ''['' then ([], c # s, q)
      else if eol_char c then
        (if \<not> q then ([], c # s, q) else apfst ((#) c) (string_loop q s))
      else if c = 34 then
        (if q then ([], s, False) else apfst ((#) c) (string_loop q s))
      else apfst ((#) c) (string_loop q s))"

definition picolParseString :: "picolParser \<Rightarrow> picolParser" where
  "picolParseString p =
     (let newword = (type_p p = PT_SEP \<or> type_p p = PT_EOL \<or> type_p p = PT_STR) in
      if newword \<and> peek (rest_p p) = ch CHR ''{'' then picolParseBrace p
      else
        let p = (if newword \<and> peek (rest_p p) = 34 then
                   p\<lparr>insidequote := True, rest_p := tl (rest_p p)\<rparr> else p);
            (t, r, q) = string_loop (insidequote p) (rest_p p)
        in p\<lparr>token := t, rest_p := r, insidequote := q, type_p := PT_ESC\<rparr>)"

definition picolParseComment :: "picolParser \<Rightarrow> picolParser" where
  "picolParseComment p = p\<lparr>rest_p := dropWhile (\<lambda>c. c \<noteq> 10 \<and> c \<noteq> 13) (rest_p p)\<rparr>"

function picolGetToken :: "picolParser \<Rightarrow> picolParser option" where
  "picolGetToken p =
     (case rest_p p of
        [] \<Rightarrow> Some (p\<lparr>type_p := (if type_p p \<noteq> PT_EOL \<and> type_p p \<noteq> PT_EOF then PT_EOL else PT_EOF)\<rparr>)
      | c # _ \<Rightarrow>
          if c = 32 \<or> c = 9 then
            Some (if insidequote p then picolParseString p else picolParseSep p)
          else if c = 10 \<or> c = 13 \<or> c = ch CHR '';'' then
            Some (if insidequote p then picolParseString p else picolParseEol p)
          else if c = ch CHR ''['' then picolParseCommand p
          else if c = ch CHR ''$'' then Some (picolParseVar p)
          else if c = ch CHR ''#'' \<and> type_p p = PT_EOL then picolGetToken (picolParseComment p)
          else Some (picolParseString p))"
  by auto
termination
proof (relation "measure (\<lambda>p. length (rest_p p))", simp)
  fix p :: picolParser and c s
  assume "rest_p p = c # s" "\<not> (c = 32 \<or> c = 9)" "\<not> (c = 10 \<or> c = 13 \<or> c = ch CHR '';'')"
  then show "(picolParseComment p, p) \<in> measure (\<lambda>p. length (rest_p p))"
    by (simp add: picolParseComment_def le_imp_less_Suc length_dropWhile_le)
qed

declare picolGetToken.simps [simp del]

section \<open>Lists\<close>

text \<open>The value of \<^verbatim>\<open>BufAppElemS\<close> on the text gathered so far.\<close>

definition list_append :: "cstr \<Rightarrow> cstr \<Rightarrow> cstr" where
  "list_append buf e = buf @ (if buf \<noteq> [] then [ch CHR '' ''] else []) @ elem_encode e"

definition FormList :: "cstr list \<Rightarrow> cstr" where
  "FormList xs = foldl list_append [] xs"

lemma braced_value_length: "braced_value s = Some (v, r) \<Longrightarrow> length r \<le> length s"
proof (induction s arbitrary: v r rule: braced_value.induct)
  case (2 c s)
  consider "c = ch CHR ''}''" | "c \<noteq> ch CHR ''}''" "c = 92" | "c \<noteq> ch CHR ''}''" "c \<noteq> 92" by blast
  then show ?case
  proof cases
    case 1
    then show ?thesis using 2(3) by simp
  next
    case 2
    then obtain d s' w where "s = d # s'" "braced_value s' = Some (w, r)"
      using "2.prems" by (auto split: list.splits bind_splits)
    then show ?thesis using 2 "2.IH"(1) [of d s' w r] by simp
  next
    case 3
    then obtain w where "braced_value s = Some (w, r)" using "2.prems" by (auto split: bind_splits)
    then show ?thesis using 3 "2.IH"(2) [of w r] by simp
  qed
qed simp

text \<open>\<^verbatim>\<open>SplitList\<close>: skip white space, decode an element, go on behind it.  The test
  for the end of the text after the white space is written on the pointer and is never
  true.\<close>

definition white32 :: "byte \<Rightarrow> bool" where
  "white32 c \<longleftrightarrow> sint c \<le> 32"

lemma bare_char_white: "bare_char c \<longleftrightarrow> \<not> white32 c"
  by (auto simp: bare_char_def white32_def word_sless_alt)

lemma elem_value_progress:
  assumes "elem_value (dropWhile white32 s) = Some (v, r)" "s \<noteq> []"
  shows "length r < length s"
proof (cases "dropWhile white32 s")
  case Nil
  then show ?thesis using assms unfolding Nil by (simp add: elem_value_def)
next
  case (Cons c t)
  have len: "length (c # t) \<le> length s" using Cons length_dropWhile_le [of white32 s] by simp
  have "bare_char c" using dropWhile_rest [OF Cons] by (simp add: bare_char_white)
  then show ?thesis
    using assms(1) len braced_value_length [of t v r] length_dropWhile_le [of bare_char t]
    unfolding Cons by (auto simp: elem_value_def split: if_splits)
qed

function SplitList :: "cstr \<Rightarrow> cstr list option" where
  "SplitList s =
     (if s = [] then Some [] else
      case elem_value (dropWhile white32 s) of
        None \<Rightarrow> None
      | Some (elem, rest) \<Rightarrow> map_option ((#) elem) (SplitList rest))"
  by auto
termination by (relation "measure length") (auto dest: elem_value_progress)

declare SplitList.simps [simp del]

section \<open>Lists round trip\<close>

lemma elem_encode_first: "\<exists>c t. elem_encode e = c # t \<and> \<not> white32 c"
proof (cases "(\<forall>c \<in> set e. \<not> elem_special c) \<and> e \<noteq> []")
  case True
  then obtain c t where e: "e = c # t" "\<not> elem_special c" by (cases e) auto
  then have "\<not> white32 c" using elem_special_bare bare_char_white by blast
  then show ?thesis unfolding elem_encode_def if_P [OF True] using e by blast
next
  case False
  show ?thesis unfolding elem_encode_def if_not_P [OF False] by (simp add: white32_def)
qed

definition list_rest :: "cstr list \<Rightarrow> cstr" where
  "list_rest xs = concat (map (\<lambda>e. ch CHR '' '' # elem_encode e) xs)"

lemma list_append_foldl:
  "buf \<noteq> [] \<Longrightarrow> foldl list_append buf xs = buf @ list_rest xs"
proof (induction xs arbitrary: buf)
  case (Cons x xs)
  have "list_append buf x \<noteq> []" using Cons.prems by (simp add: list_append_def)
  from Cons.IH [OF this] show ?case using Cons.prems by (simp add: list_append_def list_rest_def)
qed (simp add: list_rest_def)

lemma FormList_Cons: "FormList (x # xs) = elem_encode x @ list_rest xs"
proof -
  obtain c t where "elem_encode x = c # t" using elem_encode_first by blast
  then show ?thesis using list_append_foldl [of "elem_encode x" xs]
    by (simp add: FormList_def list_append_def)
qed

lemma separated_list_rest: "separated (list_rest xs @ s)" if "s = [] \<or> white32 (hd s)"
  using that
  by (cases xs; cases s) (auto simp: separated_def list_rest_def bare_char_white white32_def)

lemma SplitList_step:
  assumes "separated r"
  shows "SplitList (elem_encode x @ r) = map_option ((#) x) (SplitList r)"
    "SplitList (ch CHR '' '' # elem_encode x @ r) = map_option ((#) x) (SplitList r)"
proof -
  obtain c t where c: "elem_encode x = c # t" "\<not> white32 c" using elem_encode_first by blast
  then have d: "dropWhile white32 (elem_encode x @ r) = elem_encode x @ r"
    "dropWhile white32 (32 # elem_encode x @ r) = elem_encode x @ r" "elem_encode x \<noteq> []"
    by (simp_all add: white32_def)
  then show "SplitList (elem_encode x @ r) = map_option ((#) x) (SplitList r)"
    "SplitList (ch CHR '' '' # elem_encode x @ r) = map_option ((#) x) (SplitList r)"
    using elem_value_encode [OF assms, of x] by (subst SplitList.simps; simp)+
qed

lemma SplitList_rest:
  assumes "s = [] \<or> white32 (hd s)"
  shows "SplitList (list_rest xs @ s) = map_option ((@) xs) (SplitList s)"
proof (induction xs)
  case Nil
  show ?case by (cases "SplitList s") (auto simp: list_rest_def)
next
  case (Cons x xs)
  have "list_rest (x # xs) @ s = ch CHR '' '' # elem_encode x @ (list_rest xs @ s)"
    by (simp add: list_rest_def)
  then show ?case
    using SplitList_step(2) [OF separated_list_rest [OF assms], of x xs] Cons
    by (cases "SplitList s") auto
qed

lemma SplitList_FormList:
  assumes "s = [] \<or> white32 (hd s)" "xs \<noteq> []"
  shows "SplitList (FormList xs @ s) = map_option ((@) xs) (SplitList s)"
proof -
  obtain y ys where xs: "xs = y # ys" using assms(2) by (cases xs) auto
  have "SplitList (FormList xs @ s) = map_option ((#) y) (SplitList (list_rest ys @ s))"
    using SplitList_step(1) [OF separated_list_rest [OF assms(1)], of y ys]
    by (simp add: xs FormList_Cons)
  then show ?thesis using SplitList_rest [OF assms(1), of ys] xs by (cases "SplitList s") auto
qed

lemma SplitList_FormList_id: "SplitList (FormList xs) = Some xs"
  using SplitList_FormList [of "[]" xs]
  by (cases "xs = []") (auto simp: FormList_def SplitList.simps)

text \<open>
  C15.  Lists of the command language: splitting what \<^verbatim>\<open>FormList\<close> built gives back
  exactly the elements, whatever bytes they hold.  White space behind the last element,
  however, is read as one more, empty, element.
\<close>

theorem SplitList_roundtrip:
  "SplitList (FormList xs) = Some xs \<and>
   (xs \<noteq> [] \<longrightarrow> SplitList (FormList xs @ [ch CHR '' '']) = Some (xs @ [[]]))"
proof -
  have "SplitList [ch CHR '' ''] = Some [[]]"
    by (simp add: SplitList.simps [of "[32]"] SplitList.simps [of "[]"] white32_def elem_value_def)
  moreover have "SplitList [] = Some []" by (simp add: SplitList.simps)
  ultimately show ?thesis
    using SplitList_FormList [of "[]" xs] SplitList_FormList [of "[ch CHR '' '']" xs]
    by (cases "xs = []") (auto simp: FormList_def white32_def)
qed

lemma SplitList_roundtrip_witness:
  "SplitList (FormList [cs ''a'', cs ''b c''] @ [ch CHR '' '']) = Some [cs ''a'', cs ''b c'', []]"
  using SplitList_roundtrip [of "[cs ''a'', cs ''b c'']"] by simp

section \<open>Tokens make progress\<close>

lemma length_induct2 [case_names Nil Cons]:
  assumes "P []" "\<And>c s. (\<And>t. length t \<le> length s \<Longrightarrow> P t) \<Longrightarrow> P (c # s)"
  shows "P (s :: 'a list)"
proof (induction s rule: length_induct)
  case (1 s)
  then show ?case using assms by (cases s) (auto simp: less_Suc_eq_le)
qed

lemma command_loop_length: "\<forall>l b. \<forall>x \<in> set_option (command_loop l b s). length (snd x) \<le> length s"
proof (induction s rule: length_induct2)
  case (Cons c s)
  have a: "\<forall>x \<in> set_option (command_loop l b s). length (snd x) \<le> Suc (length s)" for l b
    using Cons [of s] le_SucI by blast
  have b: "s = d # u \<Longrightarrow> \<forall>x \<in> set_option (command_loop l b u). length (snd x) \<le> Suc (Suc (length u))" for d u l b
    using Cons [of u] le_SucI by (metis length_Cons order_refl)
  show ?case
    unfolding command_loop.simps(2) using a b
    by (simp add: option.set_map del: command_loop.simps split: list.split)
qed simp

lemma brace_loop_length: "\<forall>l. length (snd (brace_loop l s)) \<le> length s"
proof (induction s rule: length_induct2)
  case (Cons c s)
  have a: "length (snd (brace_loop l s)) \<le> Suc (length s)" for l using Cons [of s] le_SucI by blast
  have b: "s = d # u \<Longrightarrow> length (snd (brace_loop l u)) \<le> Suc (Suc (length u))" for d u l
    using Cons [of u] by (simp add: le_SucI)
  show ?case using a b by (cases s) (simp_all split: if_split)
qed simp

lemma string_loop_length: "\<forall>q. length (fst (snd (string_loop q s))) \<le> length s"
proof (induction s rule: length_induct2)
  case (Cons c s)
  have a: "length (fst (snd (string_loop q s))) \<le> Suc (length s)" for q using Cons [of s] le_SucI by blast
  have b: "s = d # u \<Longrightarrow> length (fst (snd (string_loop q u))) \<le> Suc (Suc (length u))" for d u q
    using Cons [of u] by (simp add: le_SucI)
  show ?case using a b by (cases s) (simp_all split: if_split)
qed simp

lemma string_loop_first:
  assumes "c \<noteq> ch CHR ''$''" "c \<noteq> ch CHR ''[''" "q \<or> \<not> eol_char c"
  shows "length (fst (snd (string_loop q (c # s)))) \<le> length s"
  using assms string_loop_length [of s] string_loop_length [of "tl s"]
  by (cases s) (auto simp: le_SucI)

lemma parse_string_shorter:
  assumes "rest_p p = c # s" "c \<noteq> ch CHR ''$''" "c \<noteq> ch CHR ''[''" "insidequote p \<or> \<not> eol_char c"
  shows "length (rest_p (picolParseString p)) < length (rest_p p)" "type_p (picolParseString p) \<noteq> PT_EOF"
proof -
  let ?new = "type_p p = PT_SEP \<or> type_p p = PT_EOL \<or> type_p p = PT_STR"
  consider "?new \<and> c = ch CHR ''{''" | "?new \<and> c = 34" | "\<not> (?new \<and> c = ch CHR ''{'')" "\<not> (?new \<and> c = 34)"
    by blast
  then have "length (rest_p (picolParseString p)) \<le> length s \<and> type_p (picolParseString p) \<noteq> PT_EOF"
  proof cases
    case 1
    then have "picolParseString p = picolParseBrace p"
      using assms(1) by (simp add: picolParseString_def Let_def)
    then show ?thesis using assms(1) brace_loop_length [of s]
      by (simp add: picolParseBrace_def split: prod.split) (metis snd_conv)
  next
    case 2
    then show ?thesis using assms(1) string_loop_length [of s]
      by (simp add: picolParseString_def Let_def split: prod.split) (metis fst_conv snd_conv)
  next
    case 3
    have "\<not> (?new \<and> peek (rest_p p) = ch CHR ''{'')" "\<not> (?new \<and> peek (rest_p p) = 34)"
      using 3 assms(1) by auto
    then have "picolParseString p = (case string_loop (insidequote p) (c # s) of (t, r, q) \<Rightarrow>
        p\<lparr>token := t, rest_p := r, insidequote := q, type_p := PT_ESC\<rparr>)"
      using assms(1) by (auto simp: picolParseString_def Let_def)
    then show ?thesis using string_loop_first [OF assms(2-4)]
      by (simp del: string_loop.simps split: prod.split) (metis fst_conv snd_conv)
  qed
  then show "length (rest_p (picolParseString p)) < length (rest_p p)" "type_p (picolParseString p) \<noteq> PT_EOF"
    using assms(1) by auto
qed

lemma picolGetToken_shorter:
  assumes "picolGetToken p = Some p'"
  shows "(if type_p p' = PT_EOF then rest_p p' = []
          else length (rest_p p') < length (rest_p p) \<or>
            (rest_p p = [] \<and> rest_p p' = [] \<and> type_p p' = PT_EOL \<and> type_p p \<notin> {PT_EOL, PT_EOF}))"
  using assms
proof (induction p rule: picolGetToken.induct)
  case (1 p)
  show ?case
  proof (cases "rest_p p")
    case Nil
    then show ?thesis using 1(2) by (subst (asm) picolGetToken.simps) auto
  next
    case (Cons c s)
    note str = parse_string_shorter [OF Cons]
    have sep: "length (rest_p (picolParseSep p)) < length (rest_p p)" if "c = 32 \<or> c = 9"
      using that Cons by (auto simp: picolParseSep_def sep_char_def le_imp_less_Suc length_dropWhile_le)
    have eol: "length (rest_p (picolParseEol p)) < length (rest_p p)" if "eol_char c"
      using that Cons by (auto simp: picolParseEol_def le_imp_less_Suc length_dropWhile_le)
    have var: "length (rest_p (picolParseVar p)) < length (rest_p p)" "type_p (picolParseVar p) \<noteq> PT_EOF"
      using Cons by (auto simp: picolParseVar_def Let_def le_imp_less_Suc length_dropWhile_le)
    have cmd: "length (rest_p q) < length (rest_p p) \<and> type_p q \<noteq> PT_EOF" if q: "picolParseCommand p = Some q" for q
    proof -
      obtain t r where l: "command_loop 1 0 s = Some (t, r)"
        "q = p\<lparr>token := t, rest_p := r, type_p := PT_CMD\<rparr>"
        using q Cons by (auto simp: picolParseCommand_def Option.bind_eq_Some_conv)
      have "\<forall>x \<in> set_option (command_loop 1 0 s). length (snd x) \<le> length s"
        using command_loop_length by blast
      then show ?thesis using l Cons by simp
    qed
    have types: "type_p (picolParseSep p) = PT_SEP" "type_p (picolParseEol p) = PT_EOL"
      by (simp_all add: picolParseSep_def picolParseEol_def)
    have step: "picolGetToken p =
      (if c = 32 \<or> c = 9 then Some (if insidequote p then picolParseString p else picolParseSep p)
       else if c = 10 \<or> c = 13 \<or> c = ch CHR '';'' then
         Some (if insidequote p then picolParseString p else picolParseEol p)
       else if c = ch CHR ''['' then picolParseCommand p
       else if c = ch CHR ''$'' then Some (picolParseVar p)
       else if c = ch CHR ''#'' \<and> type_p p = PT_EOL then picolGetToken (picolParseComment p)
       else Some (picolParseString p))"
      using Cons by (subst picolGetToken.simps) simp
    consider "c = 32 \<or> c = 9" | "c = 10 \<or> c = 13 \<or> c = ch CHR '';''" | "c = ch CHR ''[''"
      | "c = ch CHR ''$''" | "c = ch CHR ''#'' \<and> type_p p = PT_EOL"
      | "\<not> eol_char c" "c \<noteq> ch CHR ''[''" "c \<noteq> ch CHR ''$''" "\<not> (c = ch CHR ''#'' \<and> type_p p = PT_EOL)"
      unfolding eol_char_def by blast
    then show ?thesis
    proof cases
      case a: 1
      then have "c \<noteq> ch CHR ''$''" "c \<noteq> ch CHR ''[''" by auto
      then show ?thesis using 1(2) step a str sep types by (auto split: if_splits)
    next
      case a: 2
      then have "c \<noteq> ch CHR ''$''" "c \<noteq> ch CHR ''[''" "eol_char c" "\<not> (c = 32 \<or> c = 9)"
        by (auto simp: eol_char_def)
      then show ?thesis using 1(2) step a str eol types by (auto split: if_splits)
    next
      case a: 3
      then have "picolGetToken p = picolParseCommand p" unfolding step by simp
      then show ?thesis using 1(2) cmd by auto
    next
      case a: 4
      then have "picolGetToken p = Some (picolParseVar p)" unfolding step by simp
      then show ?thesis using 1(2) var by auto
    next
      case a: 5
      then have n: "\<not> (c = 32 \<or> c = 9)" "\<not> (c = 10 \<or> c = 13 \<or> c = ch CHR '';'')"
        "c \<noteq> ch CHR ''[''" "c \<noteq> ch CHR ''$''" by auto
      have "picolGetToken p = picolGetToken (picolParseComment p)" unfolding step using a n by simp
      with 1(2) have g: "picolGetToken (picolParseComment p) = Some p'" by simp
      have "length (rest_p (picolParseComment p)) \<le> length (rest_p p)" "type_p (picolParseComment p) = PT_EOL"
        using a by (simp_all add: picolParseComment_def length_dropWhile_le)
      then show ?thesis using 1(1) [OF Cons n a g] by (auto split: if_splits)
    next
      case a: 6
      then have "picolGetToken p = Some (picolParseString p)" unfolding step by (auto simp: eol_char_def)
      then show ?thesis using 1(2) str a by auto
    qed
  qed
qed

text \<open>
   The tokenizer always advances: a token other than end-of-file either consumes text or
  is the end-of-line reported once when the text is used up, and end-of-file is reported
  only then.  So a text of \<^verbatim>\<open>n\<close> bytes has at most \<^verbatim>\<open>n + 1\<close> tokens before the end.
\<close>

theorem picolGetToken_progress:
  assumes "picolGetToken p = Some p'"
  shows "(if type_p p' = PT_EOF then rest_p p' = []
          else length (rest_p p') < length (rest_p p) \<or>
            (rest_p p = [] \<and> rest_p p' = [] \<and> type_p p' = PT_EOL \<and> type_p p \<notin> {PT_EOL, PT_EOF}))"
  using assms by (rule picolGetToken_shorter)

lemma picolGetToken_progress_witness:
  "\<exists>p'. picolGetToken (picolInitParser (cs ''set x'')) = Some p' \<and> token p' = cs ''set'' \<and>
     length (rest_p p') < 5"
proof -
  have g: "picolGetToken (picolInitParser (cs ''set x'')) =
      Some \<lparr>rest_p = cs '' x'', token = cs ''set'', type_p = PT_ESC, insidequote = False\<rparr>"
    by (simp add: picolGetToken.simps picolInitParser_def picolParseString_def eol_char_def)
  show ?thesis using picolGetToken_progress [OF g] g by (simp add: picolInitParser_def)
qed

end
