(* ===== verification/Frob_Stdio.thy ===== *)
theory Frob_Stdio
  imports Frob_Format
begin

text \<open>
  \<^verbatim>\<open>froblib/nystdio.c\<close>, the printing functions of \<^verbatim>\<open>froblib/format.c\<close> and the option
  scanner of \<^verbatim>\<open>froblib/flag.c\<close>.  The calls of NitrOS9 are parameters: functions of
  the kernel's state that return an error number (\<^verbatim>\<open>Inl\<close>) or a result.  A loop
  over a kernel call that may make no progress is a partial function; a failed
  \<^verbatim>\<open>Assert\<close> on a null pointer cannot happen here, because the model's pointers are
  strings and records.
\<close>

record 'k os =
  o_mem :: "'k os9mem"
  o_writln :: "'k \<Rightarrow> word16 \<Rightarrow> cstr \<Rightarrow> (byte + word16) \<times> 'k"
  o_write :: "'k \<Rightarrow> word16 \<Rightarrow> cstr \<Rightarrow> (byte + word16) \<times> 'k"
  o_read :: "'k \<Rightarrow> word16 \<Rightarrow> word16 \<Rightarrow> (byte + cstr) \<times> 'k"
  o_readln :: "'k \<Rightarrow> word16 \<Rightarrow> word16 \<Rightarrow> (byte + cstr) \<times> 'k"
  o_open :: "'k \<Rightarrow> cstr \<Rightarrow> byte \<Rightarrow> (byte + word16) \<times> 'k"
  o_create :: "'k \<Rightarrow> cstr \<Rightarrow> byte \<Rightarrow> byte \<Rightarrow> (byte + word16) \<times> 'k"
  o_delete :: "'k \<Rightarrow> cstr \<Rightarrow> byte \<times> 'k"
  o_close :: "'k \<Rightarrow> word16 \<Rightarrow> byte \<times> 'k"

definition E_EOF :: byte where "E_EOF = 211"
definition StdOut :: word16 where "StdOut = 1"
definition StdErr :: word16 where "StdErr = 2"

section \<open>Writing\<close>

text \<open>The bytes still to be written are the last argument but one; the result is the error
  number.  The kernel reporting more than it was given reads behind the buffer.\<close>

partial_function (option) WritLnAll :: "'k os \<Rightarrow> word16 \<Rightarrow> cstr \<Rightarrow> 'k mach \<Rightarrow> (byte \<times> 'k mach) option" where
  "WritLnAll os path s st =
     (if s = [] then Some (0, st\<lparr>ErrNo := 0\<rparr>) else
      case o_writln os (kernel st) path s of
        (Inl e, k) \<Rightarrow> (if e \<noteq> 0 then Some (e, st\<lparr>kernel := k, ErrNo := e\<rparr>)
                     else WritLnAll os path s (st\<lparr>kernel := k, ErrNo := 0\<rparr>))
      | (Inr wrote, k) \<Rightarrow>
          (if unat wrote > length s then None
           else WritLnAll os path (drop (unat wrote) s) (st\<lparr>kernel := k, ErrNo := 0\<rparr>)))"

declare WritLnAll.simps [code]

definition FPuts :: "'k os \<Rightarrow> cstr \<Rightarrow> word16 \<Rightarrow> 'k mach \<Rightarrow> (word16 \<times> 'k mach) option" where
  "FPuts os str fd st = do {
     let n = of_nat (length str);
     (e, st) \<leftarrow> WritLnAll os fd str st;
     let st = st\<lparr>ErrNo := e\<rparr>;
     Some (if ErrNo st \<noteq> 0 then - 1 else n, st) }"

text \<open>\<^verbatim>\<open>FWrite\<close> passes the start of the buffer to every call.\<close>

partial_function (option) FWrite :: "'k os \<Rightarrow> cstr \<Rightarrow> word16 \<Rightarrow> word16 \<Rightarrow> 'k mach \<Rightarrow> (byte \<times> 'k mach) option" where
  "FWrite os buf n fd st =
     (if n = 0 then Some (0, st) else
      if unat n > length buf then None else
      case o_write os (kernel st) fd (take (unat n) buf) of
        (Inl e, k) \<Rightarrow> (if e \<noteq> 0 then Some (e, st\<lparr>kernel := k, ErrNo := e\<rparr>)
                     else FWrite os buf n fd (st\<lparr>kernel := k, ErrNo := 0\<rparr>))
      | (Inr cc, k) \<Rightarrow> FWrite os buf (n - cc) fd (st\<lparr>kernel := k, ErrNo := 0\<rparr>))"

declare FWrite.simps [code]

section \<open>Reading\<close>

text \<open>\<^verbatim>\<open>FRead\<close> stores what it reads at \<^verbatim>\<open>buf\<close>, not at the advanced pointer.\<close>

partial_function (option) FRead :: "'k os \<Rightarrow> word16 \<Rightarrow> word16 \<Rightarrow> word16 \<Rightarrow> 'k mach \<Rightarrow> (byte \<times> 'k mach) option" where
  "FRead os buf n fd st =
     (if n = 0 then Some (0, st) else
      case o_read os (kernel st) fd n of
        (Inl e, k) \<Rightarrow> (if e \<noteq> 0 then Some (e, st\<lparr>kernel := k, ErrNo := e\<rparr>)
                     else FRead os buf n fd (st\<lparr>kernel := k, ErrNo := 0\<rparr>))
      | (Inr bytes, k) \<Rightarrow>
          FRead os buf (n - of_nat (length bytes)) fd
            (st\<lparr>kernel := k, ErrNo := 0, mem := write_bytes (mem st) buf bytes\<rparr>))"

declare FRead.simps [code]

definition FGets :: "'k os \<Rightarrow> word16 \<Rightarrow> word16 \<Rightarrow> word16 \<Rightarrow> 'k mach \<Rightarrow> (word16 \<times> 'k mach) option" where
  "FGets os buf sz fd st = do {
     Assert (Verbosity st) (buf \<noteq> 0);
     Assert (Verbosity st) (sz \<noteq> 0);
     (case o_readln os (kernel st) fd (sz - 1) of
        (Inl e, k) \<Rightarrow>
          (if e = E_EOF then
             Some (0, st\<lparr>kernel := k, ErrNo := 0, mem := (mem st)(buf := 0)\<rparr>)
           else Some (0, st\<lparr>kernel := k, ErrNo := e\<rparr>))
      | (Inr bytes, k) \<Rightarrow>
          let n = of_nat (length bytes); m = write_bytes (mem st) buf bytes
          in Some (n, st\<lparr>kernel := k, ErrNo := 0, mem := m(buf + n := 0)\<rparr>)) }"

section \<open>Opening and closing\<close>

text \<open>A \<^verbatim>\<open>File\<close> is a heap block that holds the path number.\<close>

definition FOpen :: "'k os \<Rightarrow> cstr \<Rightarrow> cstr \<Rightarrow> 'k mach \<Rightarrow> (word16 \<times> 'k mach) option" where
  "FOpen os pathname mode st = do {
     Assert (Verbosity st) (mode = cs ''r'' \<or> mode = cs ''w'');
     let (r, k) = (if peek mode = ch CHR ''r'' then o_open os (kernel st) pathname 1
                   else if peek mode = ch CHR ''w'' then
                     (case o_delete os (kernel st) pathname of (_, k) \<Rightarrow> o_create os k pathname 2 3)
                   else (Inr (- 1), kernel st));
     (case r of
        Inl e \<Rightarrow> Some (0, st\<lparr>kernel := k, ErrNo := e\<rparr>)
      | Inr fd \<Rightarrow> do {
          let st = st\<lparr>kernel := k, ErrNo := 0\<rparr>;
          Assert (Verbosity st) (0 \<le> sint fd);
          (f, st) \<leftarrow> Malloc (o_mem os) 2 st;
          Some (f, st\<lparr>mem := putw (mem st) f fd\<rparr>) }) }"

definition FClose :: "'k os \<Rightarrow> word16 \<Rightarrow> 'k mach \<Rightarrow> (word16 \<times> 'k mach) option" where
  "FClose os f st = do {
     Assert (Verbosity st) (f \<noteq> 0);
     let (e, k) = o_close os (kernel st) (getw (mem st) f);
     let st = st\<lparr>kernel := k, ErrNo := e\<rparr>;
     (if e \<noteq> 0 then Some (- 1, st)
      else do {
        let st = st\<lparr>mem := putw (mem st) f (- 1)\<rparr>;
        st \<leftarrow> Free f st;
        Some (0, st) }) }"

section \<open>Error messages\<close>

definition err_digits :: "byte \<Rightarrow> cstr" where
  "err_digits e =
     (let d0 = e div 100 + ch CHR ''0''; e = e mod 100;
          d1 = e div 10 + ch CHR ''0''; e = e mod 10;
          d2 = e + ch CHR ''0''
      in [d0, d1, d2])"

definition PErrNum :: "'k os \<Rightarrow> byte \<Rightarrow> 'k mach \<Rightarrow> 'k mach option" where
  "PErrNum os e st = do {
     let saved = ErrNo st;
     (_, st) \<leftarrow> FPuts os (cs '' Err'') StdErr st;
     (_, st) \<leftarrow> FPuts os (err_digits e) StdErr st;
     (_, st) \<leftarrow> FPuts os (cs ''.'') StdErr st;
     Some (st\<lparr>ErrNo := saved\<rparr>) }"

definition PError :: "'k os \<Rightarrow> cstr \<Rightarrow> 'k mach \<Rightarrow> 'k mach option" where
  "PError os str st = do {
     let e = ErrNo st;
     let st = st\<lparr>ErrNo := 0\<rparr>;
     (_, st) \<leftarrow> FPuts os (cs '' '') StdErr st;
     (_, st) \<leftarrow> FPuts os str StdErr st;
     (_, st) \<leftarrow> FPuts os (cs '' :'') StdErr st;
     st \<leftarrow> PErrNum os e st;
     (_, st) \<leftarrow> FPuts os [10] StdErr st;
     Some (st\<lparr>ErrNo := 0\<rparr>) }"

text \<open>The result is the state in which the process exits with status 127.\<close>

definition PErrorFatal :: "'k os \<Rightarrow> cstr \<Rightarrow> 'k mach \<Rightarrow> 'k mach option" where
  "PErrorFatal os str st = do {
     let saved = ErrNo st;
     (_, st) \<leftarrow> FPuts os (cs ''*** FATAL:'') StdErr st;
     PError os str (st\<lparr>ErrNo := saved\<rparr>) }"

section \<open>Formatted printing\<close>

definition mem_bytes :: "memory \<Rightarrow> word16 \<Rightarrow> word16 \<Rightarrow> cstr" where
  "mem_bytes m p n = map (\<lambda>i. m (p + of_nat i)) [0 ..< unat n]"

definition format_buffer :: "'k os \<Rightarrow> cstr \<Rightarrow> arg list \<Rightarrow> 'k mach \<Rightarrow> 'k bufst option" where
  "format_buffer os fmt ap st = do {
     buf \<leftarrow> BufInit (o_mem os) st;
     BufFormatVA (o_mem os) fmt ap buf }"

definition Printf :: "'k os \<Rightarrow> cstr \<Rightarrow> arg list \<Rightarrow> 'k mach \<Rightarrow> (word16 \<times> 'k mach) option" where
  "Printf os fmt ap st = do {
     buf \<leftarrow> format_buffer os fmt ap st;
     (p, buf) \<leftarrow> BufFinish (o_mem os) buf;
     let bytes_written = buf_n (fst buf);
     let st = (snd buf)\<lparr>ErrNo := 0\<rparr>;
     (_, st) \<leftarrow> WritLnAll os 1 (mem_bytes (mem st) (buf_s (fst buf)) (buf_n (fst buf))) st;
     (_, st) \<leftarrow> BufDel (fst buf, st);
     Some (if ErrNo st \<noteq> 0 then - 1 else bytes_written, st) }"

text \<open>\<^verbatim>\<open>FPrintf\<close> and \<^verbatim>\<open>EPrintf\<close> drop the result of \<^verbatim>\<open>WritLnAll\<close>.\<close>

definition FPrintf :: "'k os \<Rightarrow> word16 \<Rightarrow> cstr \<Rightarrow> arg list \<Rightarrow> 'k mach \<Rightarrow> (word16 \<times> 'k mach) option" where
  "FPrintf os fd fmt ap st = do {
     buf \<leftarrow> format_buffer os fmt ap st;
     (p, buf) \<leftarrow> BufFinish (o_mem os) buf;
     let bytes_written = buf_n (fst buf);
     (_, st) \<leftarrow> WritLnAll os fd (mem_bytes (mem (snd buf)) (buf_s (fst buf)) (buf_n (fst buf))) (snd buf);
     (_, st) \<leftarrow> BufDel (fst buf, st);
     Some (bytes_written, st) }"

definition EPrintf :: "'k os \<Rightarrow> cstr \<Rightarrow> arg list \<Rightarrow> 'k mach \<Rightarrow> (word16 \<times> 'k mach) option" where
  "EPrintf os fmt ap st = FPrintf os 2 fmt ap st"

definition SPrintf :: "'k os \<Rightarrow> word16 \<Rightarrow> cstr \<Rightarrow> arg list \<Rightarrow> 'k mach \<Rightarrow> (word16 \<times> 'k mach) option" where
  "SPrintf os dest fmt ap st = do {
     buf \<leftarrow> format_buffer os fmt ap st;
     let n = buf_n (fst buf);
     (p, buf) \<leftarrow> BufFinish (o_mem os) buf;
     let st = (snd buf)\<lparr>mem := memcpy_mem (mem (snd buf)) dest (buf_s (fst buf)) (n + 1)\<rparr>;
     (_, st) \<leftarrow> BufDel (fst buf, st);
     Some (n, st) }"

definition SnPrintf :: "'k os \<Rightarrow> word16 \<Rightarrow> word16 \<Rightarrow> cstr \<Rightarrow> arg list \<Rightarrow> 'k mach \<Rightarrow> (word16 \<times> 'k mach) option" where
  "SnPrintf os dest mx fmt ap st = do {
     buf \<leftarrow> format_buffer os fmt ap st;
     let n = buf_n (fst buf);
     (p, buf) \<leftarrow> BufFinish (o_mem os) buf;
     let n = min n (mx - 1);
     let m = memcpy_mem (mem (snd buf)) dest (buf_s (fst buf)) (n + 1);
     let st = (snd buf)\<lparr>mem := m(dest + (mx - 1) := 0)\<rparr>;
     (_, st) \<leftarrow> BufDel (fst buf, st);
     Some (n, st) }"

definition StrFormat :: "'k os \<Rightarrow> cstr \<Rightarrow> arg list \<Rightarrow> 'k mach \<Rightarrow> (word16 \<times> 'k mach) option" where
  "StrFormat os fmt ap st = do {
     buf \<leftarrow> format_buffer os fmt ap st;
     (p, buf) \<leftarrow> BufFinish (o_mem os) buf;
     Some (p, snd buf) }"

section \<open>Options\<close>

text \<open>The option character, its argument, and the arguments that are left.\<close>

record flags =
  FlagChar :: byte
  FlagArg :: "cstr option"
  ARGV :: "cstr list"

definition SkipArg :: "flags \<Rightarrow> flags" where
  "SkipArg f = f\<lparr>ARGV := tl (ARGV f)\<rparr>"

definition GetFlag :: "cstr \<Rightarrow> flags \<Rightarrow> bool \<times> flags" where
  "GetFlag flagDesc f =
     (let f = f\<lparr>FlagChar := 0, FlagArg := None\<rparr> in
      case ARGV f of
        [] \<Rightarrow> (False, f)
      | s # _ \<Rightarrow>
          if peek s \<noteq> ch CHR ''-'' then (False, f)
          else if s = cs ''-'' then (False, f)
          else if s = cs ''--'' then (False, SkipArg f)
          else
            let f = f\<lparr>FlagChar := CharDown (s ! 1)\<rparr>;
                desc = dropWhile (\<lambda>c. c \<noteq> FlagChar f) flagDesc
            in if desc = [] then (True, (SkipArg f)\<lparr>FlagChar := ch CHR ''?''\<rparr>)
               else if peek (tl desc) = ch CHR '':'' then
                 (if drop 2 s \<noteq> [] then (True, SkipArg (f\<lparr>FlagArg := Some (drop 2 s)\<rparr>))
                  else
                    let f = SkipArg f in
                    case ARGV f of
                      [] \<Rightarrow> (True, f\<lparr>FlagChar := 1\<rparr>)
                    | a # _ \<Rightarrow> (True, SkipArg (f\<lparr>FlagArg := Some a\<rparr>)))
               else if drop 2 s \<noteq> [] then (True, f\<lparr>FlagChar := 1\<rparr>)
               else (True, SkipArg f))"

section \<open>Printing reaches the kernel\<close>

text \<open>A kernel that takes at least one of the bytes it is offered, in order, and never fails;
  \<^verbatim>\<open>out\<close> is what it has been given for each path.\<close>

definition accepts :: "'k os \<Rightarrow> ('k \<Rightarrow> word16 \<Rightarrow> cstr) \<Rightarrow> bool" where
  "accepts os out \<longleftrightarrow> (\<forall>k path s. s \<noteq> [] \<longrightarrow>
     (\<exists>w k'. o_writln os k path s = (Inr w, k') \<and> 1 \<le> unat w \<and> unat w \<le> length s \<and>
        out k' path = out k path @ take (unat w) s))"

lemma WritLnAll_accepts:
  assumes "accepts os out"
  shows "\<exists>k'. WritLnAll os path s st = Some (0, st\<lparr>kernel := k', ErrNo := 0\<rparr>) \<and>
    out k' path = out (kernel st) path @ s"
proof (induction "length s" arbitrary: s st rule: less_induct)
  case less
  show ?case
  proof (cases "s = []")
    case True
    then show ?thesis by (subst WritLnAll.simps) (auto intro!: exI [of _ "kernel st"])
  next
    case False
    then obtain w k where w: "o_writln os (kernel st) path s = (Inr w, k)" "1 \<le> unat w"
      "unat w \<le> length s" "out k path = out (kernel st) path @ take (unat w) s"
      using assms unfolding accepts_def by blast
    have "length (drop (unat w) s) < length s" using w(2) False by simp
    from less [OF this, of "st\<lparr>kernel := k, ErrNo := 0\<rparr>"] obtain k' where
      "WritLnAll os path (drop (unat w) s) (st\<lparr>kernel := k, ErrNo := 0\<rparr>) =
        Some (0, st\<lparr>kernel := k', ErrNo := 0\<rparr>)"
      "out k' path = out k path @ drop (unat w) s" by auto
    then show ?thesis
      using w False by (intro exI [of _ k'], subst WritLnAll.simps) simp
  qed
qed

lemma buf_live:
  assumes "buf_room kk k (p, s)"
  obtains bs h b where "heap_inv s bs" "(h, b) \<in> live s bs" "buf_s p = h + 6"
  using assms by (auto simp: buf_room_def buf_room_at_def)

lemma heap_inv_ErrNo [simp]: "heap_inv (s\<lparr>ErrNo := e\<rparr>) bs = heap_inv s bs"
  by (simp add: heap_inv_def)

lemma live_ghost [simp]: "live (s\<lparr>ErrNo := e\<rparr>) bs = live s bs" "live (s\<lparr>kernel := k\<rparr>) bs = live s bs"
  by (simp_all add: live_def)

lemma BufDel_live:
  assumes "heap_inv s bs" "(h, b) \<in> live s bs" "buf_s p = h + 6"
  shows "\<exists>s'. BufDel (p, s) = Some (p\<lparr>buf_s := 0, buf_n := - 1\<rparr>, s') \<and> heap_inv s' bs \<and>
    kernel s' = kernel s \<and> ErrNo s' = ErrNo s"
proof -
  obtain s' where f: "Free (h + 6) s = Some s'" "heap_inv s' bs" "kernel s' = kernel s"
    using Free_live [OF assms(1,2)] by blast
  have "ErrNo s' = ErrNo s"
    using f(1) by (auto simp: Free_def Let_def which_bucket_def Panic_def PutHex_def PC_Trace_def
        heap_check_block_def split: if_splits prod.splits)
  with f assms(3) show ?thesis by (simp add: BufDel_def)
qed

text \<open>
  C32.  \<^verbatim>\<open>Printf\<close> end to end: on an intact heap with room for the text, and a kernel that
  takes bytes, it returns the length of the formatted text, the kernel has received
  exactly that text on path 1, and the heap is intact again.
\<close>

theorem Printf_prints:
  assumes fmt: "format_calls fmt args = Some es" "\<forall>e \<in> set es. call_ok e"
    and inv: "heap_inv st bs" and max: "heap_max st \<noteq> 0" "unat (heap_max st) \<le> 0xC000"
    and len: "length (calls_text es) < 16384"
    and here: "unat (heap_here st) + 22 + growth 1 (length (calls_text es) + 1) \<le> unat (heap_max st)"
    and os: "accepts os out"
  shows "\<exists>st' bs'. Printf os fmt args st = Some (of_nat (length (calls_text es)), st') \<and>
    out (kernel st') 1 = out (kernel st) 1 @ calls_text es \<and> heap_inv st' bs'"
proof -
  let ?t = "calls_text es"
  have "length ?t + 1 \<le> 16384" using len by simp
  from BufInit_room [OF inv max this here, of "o_mem os"]
  obtain ps where i: "BufInit (o_mem os) st = Some ps" "buf_room (kernel st) (length ?t + 1) ps"
    "buf_contents ps = []" by blast
  obtain p s1 where f: "BufFormatVA (o_mem os) fmt args ps = Some (p, s1)"
    "buf_contents (p, s1) = ?t" "buf_room (kernel st) 1 (p, s1)"
    using BufFormatVA_text [OF fmt i(2), of "o_mem os"] i(3) by auto
  have "unat (buf_n p) = length (buf_contents (p, s1))" by (simp add: buf_contents_def)
  then have n: "unat (buf_n p) = length ?t" unfolding f(2) .
  obtain q s2 where g: "BufFinish (o_mem os) (p, s1) = Some (q, (p\<lparr>buf_s := q\<rparr>, s2))"
    "buf_room (kernel st) 0 (p\<lparr>buf_s := q\<rparr>, s2)"
    "\<forall>i < Suc (unat (buf_n p)). mem s2 (q + of_nat i) = (buf_contents (p, s1) @ [0]) ! i"
    using BufFinish_room [of "kernel st" 0 p s1 "o_mem os"] f(3) by auto
  have bytes: "mem_bytes (mem s2) q (buf_n p) = ?t"
    by (rule nth_equalityI) (use g(3) f(2) n in \<open>auto simp: mem_bytes_def nth_append\<close>)
  have kern: "kernel s2 = kernel st" using g(2) by (auto simp: buf_room_def buf_room_at_def)
  obtain k' where w: "WritLnAll os 1 ?t (s2\<lparr>ErrNo := 0\<rparr>) = Some (0, s2\<lparr>kernel := k', ErrNo := 0\<rparr>)"
    "out k' 1 = out (kernel st) 1 @ ?t"
    using WritLnAll_accepts [OF os, of 1 ?t "s2\<lparr>ErrNo := 0\<rparr>"] kern by auto
  obtain bs' h b where "heap_inv s2 bs'" "(h, b) \<in> live s2 bs'" "q = h + 6"
    using buf_live [OF g(2)] by auto
  then obtain s3 where d: "BufDel (p\<lparr>buf_s := q\<rparr>, s2\<lparr>kernel := k', ErrNo := 0\<rparr>) =
      Some (p\<lparr>buf_s := 0, buf_n := - 1\<rparr>, s3)" "heap_inv s3 bs'" "kernel s3 = k'" "ErrNo s3 = 0"
    using BufDel_live [of "s2\<lparr>kernel := k', ErrNo := 0\<rparr>" bs' h b "p\<lparr>buf_s := q\<rparr>"] by auto
  have "buf_n p = of_nat (length ?t)" unfolding n [symmetric] by simp
  then have "Printf os fmt args st = Some (of_nat (length ?t), s3)"
    using i(1) f(1) g(1) bytes w(1) d by (simp add: Printf_def format_buffer_def)
  with w(2) d show ?thesis by auto
qed

text \<open>A kernel for the witnesses: it takes everything and keeps what it got for each path.\<close>

definition demo_os :: "(word16 \<Rightarrow> cstr) os" where
  "demo_os = \<lparr>o_mem = \<lambda>k n. (Inl 0, k), o_writln = \<lambda>k p s. (Inr (of_nat (length (take 100 s))), k(p := k p @ take 100 s)),
     o_write = \<lambda>k p s. (Inl 1, k), o_read = \<lambda>k p n. (Inl 1, k), o_readln = \<lambda>k p n. (Inl 1, k),
     o_open = \<lambda>k n m. (Inl 1, k), o_create = \<lambda>k n m a. (Inl 1, k), o_delete = \<lambda>k n. (1, k),
     o_close = \<lambda>k p. (0, k)\<rparr>"

lemma demo_os_accepts: "accepts demo_os (\<lambda>k. k)"
  unfolding accepts_def
proof (intro allI impI)
  fix k :: "word16 \<Rightarrow> cstr" and path s assume "(s :: cstr) \<noteq> []"
  then have "0 < length s" by simp
  then have "unat (of_nat (length (take 100 s)) :: word16) = min (length s) 100" "0 < min (length s) 100"
    by (auto simp: unat_of_nat)
  then show "\<exists>w k'. o_writln demo_os k path s = (Inr w, k') \<and> 1 \<le> unat w \<and> unat w \<le> length s \<and>
      k' path = k path @ take (unat w) s"
    by (intro exI [of _ "of_nat (length (take 100 s))"] exI [of _ "k(path := k path @ take 100 s)"])
      (auto simp: demo_os_def min_def)
qed

definition demo_heap :: "(word16 \<Rightarrow> cstr) mach" where
  "demo_heap = \<lparr>mem = \<lambda>_. 0, heap_min = 0x2000, heap_here = 0x2000, heap_max = 0x4000,
     heap_retry = False, buck_freelist = \<lambda>_. 0, buck_num_alloc = \<lambda>_. 0, buck_num_free = \<lambda>_. 0,
     buck_num_brk = \<lambda>_. 0, err_out = [], Verbosity = 5, ErrNo = 0, kernel = \<lambda>_. []\<rparr>"

lemma demo_heap_inv: "heap_inv demo_heap []"
  by (auto simp: heap_inv_def demo_heap_def free_list_ok_def free_in_def intro!: exI [of _ "[]"])

lemma Printf_prints_witness:
  "\<exists>st'. Printf demo_os (cs ''hi%%'') [] demo_heap = Some (3, st') \<and> kernel st' 1 = cs ''hi%''"
proof -
  have fmt: "format_calls (cs ''hi%%'') [] = Some (map AppC (cs ''hi%''))"
    by (simp add: parse_conv_def srange_def format_conv_def)
  have "growth 1 (length (calls_text (map AppC (cs ''hi%''))) + 1) = 0" by (rule growth_none) simp
  then show ?thesis
    using Printf_prints [OF fmt _ demo_heap_inv _ _ _ _ demo_os_accepts] by (auto simp: demo_heap_def)
qed

section \<open>Reading in pieces\<close>

text \<open>
   When the kernel delivers a request in two pieces, \<^verbatim>\<open>FRead\<close> reports success but
  the second piece has overwritten the first: the bytes of the buffer behind the second
  piece were never written.  (The same error makes \<^verbatim>\<open>FWrite\<close> send the start of its
  buffer again.)
\<close>

theorem FRead_overwrites:
  assumes "o_read os (kernel st) fd n = (Inr c1, k1)" "o_read os k1 fd (n - of_nat (length c1)) = (Inr c2, k2)"
    and "n = of_nat (length c1 + length c2)" "n \<noteq> 0" "n \<noteq> of_nat (length c1)"
    and "length c2 = length c1" "unat buf + length c1 < 65536"
  shows "\<exists>st'. FRead os buf n fd st = Some (0, st') \<and>
    (\<forall>i < length c1. mem st' (buf + of_nat i) = c2 ! i) \<and>
    (\<forall>a. unat buf + length c1 \<le> unat a \<longrightarrow> mem st' a = mem st a)"
proof -
  let ?m = "write_bytes (write_bytes (mem st) buf c1) buf c2"
  have n2: "n - of_nat (length c1) - of_nat (length c2) = 0" using assms(3) by simp
  have "n - of_nat (length c1) \<noteq> 0" using assms(5) by simp
  then have "FRead os buf n fd st = Some (0, st\<lparr>kernel := k2, ErrNo := 0, mem := ?m\<rparr>)"
    using assms(1,2,4) n2
    by (subst FRead.simps, simp, subst FRead.simps, simp, subst FRead.simps, simp)
  moreover have "?m (buf + of_nat i) = c2 ! i" if "i < length c1" for i
  proof -
    have "unat (buf + of_nat i) = unat buf + i"
      using that assms(7) by (simp add: unat_word_ariths unat_of_nat)
    then show ?thesis using that assms(6,7) by (simp add: write_bytes_at)
  qed
  moreover have "?m a = mem st a" if "unat buf + length c1 \<le> unat a" for a
    using that assms(6,7) by (simp add: write_bytes_at)
  ultimately show ?thesis by simp
qed

lemma FRead_overwrites_witness:
  "\<exists>st'. FRead (demo_os\<lparr>o_read := \<lambda>k p n. (Inr (if n = 4 then cs ''ab'' else cs ''cd''), k)\<rparr>)
      0x3000 4 0 demo_heap = Some (0, st') \<and> mem st' 0x3000 = ch CHR ''c'' \<and> mem st' 0x3002 = 0"
proof -
  let ?os = "demo_os\<lparr>o_read := \<lambda>k p n. (Inr (if n = 4 then cs ''ab'' else cs ''cd''), k)\<rparr>"
  have a: "o_read ?os (kernel demo_heap) 0 4 = (Inr (cs ''ab''), kernel demo_heap)"
    "o_read ?os (kernel demo_heap) 0 (4 - of_nat (length (cs ''ab''))) = (Inr (cs ''cd''), kernel demo_heap)"
    by simp_all
  have "\<exists>st'. FRead ?os 0x3000 4 0 demo_heap = Some (0, st') \<and>
    (\<forall>i < length (cs ''ab''). mem st' (0x3000 + of_nat i) = cs ''cd'' ! i) \<and>
    (\<forall>a. unat (0x3000 :: word16) + length (cs ''ab'') \<le> unat a \<longrightarrow> mem st' a = mem demo_heap a)"
    by (rule FRead_overwrites [OF a]) simp_all
  then obtain st' where st': "FRead ?os 0x3000 4 0 demo_heap = Some (0, st')"
    "\<forall>i < length (cs ''ab''). mem st' (0x3000 + of_nat i) = cs ''cd'' ! i"
    "\<forall>a. unat (0x3000 :: word16) + length (cs ''ab'') \<le> unat a \<longrightarrow> mem st' a = mem demo_heap a"
    by blast
  have "mem st' 0x3000 = ch CHR ''c''" using st'(2) by (elim allE [of _ 0]) simp
  moreover have "mem st' 0x3002 = 0" using st'(3) by (elim allE [of _ "0x3002"]) (simp add: demo_heap_def)
  ultimately show ?thesis using st'(1) by blast
qed

section \<open>Scanning options\<close>

lemma dropWhile_hd: "dropWhile (\<lambda>c. c \<noteq> x) d \<noteq> [] \<Longrightarrow> dropWhile (\<lambda>c. c \<noteq> x) d = x # tl (dropWhile (\<lambda>c. c \<noteq> x) d)"
  by (induction d) auto

text \<open>
  C40.  \<^verbatim>\<open>GetFlag\<close>: an option that takes an argument is recognised with the argument
  attached or as the next word, and both are consumed; every call leaves a suffix of
  the arguments; and a call that returns true without consuming anything has set
  \<^verbatim>\<open>FlagChar\<close> to 1, so a scanning loop that stops on an error ends.
\<close>

theorem GetFlag_spec:
  "(c \<noteq> ch CHR ''-'' \<and> a \<noteq> [] \<and> peek (tl (dropWhile (\<lambda>d. d \<noteq> CharDown c) desc)) = ch CHR '':'' \<longrightarrow>
      GetFlag desc (f\<lparr>ARGV := (ch CHR ''-'' # c # a) # rest\<rparr>) =
        (True, f\<lparr>FlagChar := CharDown c, FlagArg := Some a, ARGV := rest\<rparr>) \<and>
      GetFlag desc (f\<lparr>ARGV := [ch CHR ''-'', c] # a # rest\<rparr>) =
        (True, f\<lparr>FlagChar := CharDown c, FlagArg := Some a, ARGV := rest\<rparr>)) \<and>
   (\<exists>n. ARGV (snd (GetFlag desc f)) = drop n (ARGV f)) \<and>
   (fst (GetFlag desc f) \<and> ARGV (snd (GetFlag desc f)) = ARGV f \<longrightarrow> FlagChar (snd (GetFlag desc f)) = 1)"
proof (intro conjI impI)
  assume a: "c \<noteq> ch CHR ''-'' \<and> a \<noteq> [] \<and> peek (tl (dropWhile (\<lambda>d. d \<noteq> CharDown c) desc)) = ch CHR '':''"
  have "dropWhile (\<lambda>d. d \<noteq> CharDown c) desc \<noteq> []"
  proof
    assume "dropWhile (\<lambda>d. d \<noteq> CharDown c) desc = []"
    with a show False by (simp del: dropWhile_eq_Nil_conv)
  qed
  then show "GetFlag desc (f\<lparr>ARGV := (ch CHR ''-'' # c # a) # rest\<rparr>) =
        (True, f\<lparr>FlagChar := CharDown c, FlagArg := Some a, ARGV := rest\<rparr>)"
    "GetFlag desc (f\<lparr>ARGV := [ch CHR ''-'', c] # a # rest\<rparr>) =
        (True, f\<lparr>FlagChar := CharDown c, FlagArg := Some a, ARGV := rest\<rparr>)"
    using a by (auto simp: GetFlag_def SkipArg_def Let_def)
next
  have "ARGV (snd (GetFlag desc f)) \<in> {drop 0 (ARGV f), drop 1 (ARGV f), drop 2 (ARGV f)}"
    by (auto simp: GetFlag_def SkipArg_def Let_def numeral_2_eq_2 drop_Suc split: list.split)
  then show "\<exists>n. ARGV (snd (GetFlag desc f)) = drop n (ARGV f)" by blast
next
  assume "fst (GetFlag desc f) \<and> ARGV (snd (GetFlag desc f)) = ARGV f"
  then show "FlagChar (snd (GetFlag desc f)) = 1"
    by (auto simp: GetFlag_def SkipArg_def Let_def split: list.splits if_splits)
qed

lemma GetFlag_spec_witness:
  "GetFlag (cs ''vw:'') \<lparr>FlagChar = 0, FlagArg = None, ARGV = [cs ''-w'', cs ''7'', cs ''x'']\<rparr> =
     (True, \<lparr>FlagChar = ch CHR ''w'', FlagArg = Some (cs ''7''), ARGV = [cs ''x'']\<rparr>)"
  using GetFlag_spec [where c = "ch CHR ''w''" and a = "cs ''7''" and desc = "cs ''vw:''"
      and f = "\<lparr>FlagChar = 0, FlagArg = None, ARGV = []\<rparr>" and rest = "[cs ''x'']"]
  by (simp add: CharDown_def srange_def)

end
