(* ===== verification/Ncl_Interp.thy ===== *)
theory Ncl_Interp
  imports Ncl_Parse Frob_Stdio
begin

text \<open>
  The state of the command language's interpreter (\<^verbatim>\<open>ncl/ncl.c\<close>): call frames, commands,
  arrays and the result, with the functions that look things up, set them and produce a
  result.  The linked lists of the code are lists, newest entry first; strings are values,
  so the heap is not part of the state.  The texts built in a buffer of
  \<^verbatim>\<open>BUF_SIZE\<close> bytes are cut as \<^verbatim>\<open>SnPrintf\<close> cuts them.
\<close>

section \<open>State\<close>

datatype retcode = PICOL_OK | PICOL_ERR | PICOL_RETURN | PICOL_BREAK | PICOL_CONTINUE

fun retcode_num :: "retcode \<Rightarrow> word16" where
  "retcode_num PICOL_OK = 0"
| "retcode_num PICOL_ERR = 1"
| "retcode_num PICOL_RETURN = 2"
| "retcode_num PICOL_BREAK = 3"
| "retcode_num PICOL_CONTINUE = 4"

text \<open>The functions a command can be bound to.\<close>

datatype picolCmdFunc =
    Math | StringRelOp | Set_f | Puts | Gets | If_f | And_f | Or_f | While_f | RetCodes | Proc
  | Return | Info | ForEach | Eval | Catch | List_f | ExplodeCmd | ImplodeCmd | Peek | Poke | Incr
  | Append | ListAppend | ListLength | ListRangeOrIndex | StringLength | StringRangeOrIndex
  | StringUpperOrLower | StringMatchOrRegexp | Array | Split | Join | Error | CallProc
  | Exit9 | Source | Kill9 | Chain9 | Fork9 | Wait9 | FileSize9 | Dup9 | Close9 | Sleep9
  | MakOrChgDir9 | Open9 | Create9 | Delete9 | Read9

type_synonym picolVars = "(cstr \<times> cstr) list"

record picolCmd =
  cmd_name :: cstr
  minArgc :: byte
  maxArgc :: byte
  cmd_func :: picolCmdFunc
  privdata :: "(cstr \<times> cstr) option"

record 'k interp =
  Callframe :: "picolVars list"
  Commands :: "picolCmd list"
  Arrays :: "(cstr \<times> picolVars) list"
  Result :: cstr
  sys :: 'k

type_synonym 'k reply = "(retcode \<times> 'k interp) option"
type_synonym 'k evaluator = "cstr \<Rightarrow> cstr \<Rightarrow> 'k interp \<Rightarrow> 'k reply"

definition BUF_SIZE :: nat where "BUF_SIZE = 200"

definition picolInitInterp :: "'k \<Rightarrow> 'k interp" where
  "picolInitInterp k = \<lparr>Callframe = [[]], Commands = [], Arrays = [], Result = [], sys = k\<rparr>"

section \<open>Results\<close>

definition picolSetResult :: "cstr \<Rightarrow> 'k interp \<Rightarrow> 'k interp" where
  "picolSetResult s i = i\<lparr>Result := s\<rparr>"

definition picolAppendResult :: "cstr \<Rightarrow> 'k interp \<Rightarrow> 'k interp" where
  "picolAppendResult s i = i\<lparr>Result := Result i @ s\<rparr>"

definition picolMoveToResult :: "cstr \<Rightarrow> 'k interp \<Rightarrow> 'k interp" where
  "picolMoveToResult s i = i\<lparr>Result := s\<rparr>"

definition ResultFormat :: "cstr \<Rightarrow> arg list \<Rightarrow> 'k interp \<Rightarrow> 'k reply" where
  "ResultFormat fmt ap i = do {
     calls \<leftarrow> format_calls fmt ap;
     Some (PICOL_OK, picolMoveToResult (calls_text calls) i) }"

definition ResultD :: "word16 \<Rightarrow> 'k interp \<Rightarrow> 'k reply" where
  "ResultD x i = do { (_, i) \<leftarrow> ResultFormat (cs ''%d'') [AInt x] i; Some (PICOL_OK, i) }"

definition ErrorNum :: "word16 \<Rightarrow> 'k interp \<Rightarrow> 'k reply" where
  "ErrorNum err i = do { (_, i) \<leftarrow> ResultD err i; Some (PICOL_ERR, i) }"

definition EmptyOrErrorNum :: "word16 \<Rightarrow> 'k interp \<Rightarrow> 'k reply" where
  "EmptyOrErrorNum e i =
     (if e \<noteq> 0 then ErrorNum e i else Some (PICOL_OK, picolSetResult [] i))"

definition IntOrErrorNum :: "word16 \<Rightarrow> word16 \<Rightarrow> 'k interp \<Rightarrow> 'k reply" where
  "IntOrErrorNum e x i = (if e \<noteq> 0 then ErrorNum e i else ResultD x i)"

definition NotFound :: "'k interp \<Rightarrow> 'k reply" where
  "NotFound i = Some (PICOL_ERR, picolSetResult (cs ''not found'') i)"

definition snprintf_s :: "cstr \<Rightarrow> arg list \<Rightarrow> cstr option" where
  "snprintf_s fmt ap = map_option (\<lambda>calls. take (BUF_SIZE - 1) (calls_text calls)) (format_calls fmt ap)"

definition picolArityErr :: "cstr \<Rightarrow> 'k interp \<Rightarrow> 'k reply" where
  "picolArityErr name i = do {
     buf \<leftarrow> snprintf_s (cs ''Wrong number of args for %s'') [AStr (Some name)];
     Some (PICOL_ERR, picolSetResult buf i) }"

section \<open>Variables, arrays and commands\<close>

fun picolGetVarFromRoot :: "picolVars \<Rightarrow> cstr \<Rightarrow> cstr option" where
  "picolGetVarFromRoot [] name = None"
| "picolGetVarFromRoot (v # vs) name =
     (if strcmp (fst v) name = 0 then Some (snd v) else picolGetVarFromRoot vs name)"

text \<open>Setting overwrites the entry found, or puts a new one in front of the list.\<close>

fun replace_var :: "picolVars \<Rightarrow> cstr \<Rightarrow> cstr \<Rightarrow> picolVars" where
  "replace_var [] name val = []"
| "replace_var (v # vs) name val =
     (if strcmp (fst v) name = 0 then (fst v, val) # vs else v # replace_var vs name val)"

definition picolSetVarFromRoot :: "picolVars \<Rightarrow> cstr \<Rightarrow> cstr \<Rightarrow> picolVars" where
  "picolSetVarFromRoot root name val =
     (if picolGetVarFromRoot root name \<noteq> None then replace_var root name val
      else (name, val) # root)"

definition picolGetVar :: "cstr \<Rightarrow> 'k interp \<Rightarrow> cstr option" where
  "picolGetVar name i = picolGetVarFromRoot (hd (Callframe i)) name"

definition picolSetVar :: "cstr \<Rightarrow> cstr \<Rightarrow> 'k interp \<Rightarrow> 'k interp" where
  "picolSetVar name val i =
     i\<lparr>Callframe := picolSetVarFromRoot (hd (Callframe i)) name val # tl (Callframe i)\<rparr>"

definition picolGetCommand :: "cstr \<Rightarrow> 'k interp \<Rightarrow> picolCmd option" where
  "picolGetCommand name i = find (\<lambda>c. strcmp (cmd_name c) name = 0) (Commands i)"

definition picolGetArray :: "cstr \<Rightarrow> 'k interp \<Rightarrow> picolVars option" where
  "picolGetArray name i = map_option snd (find (\<lambda>a. strcmp (fst a) name = 0) (Arrays i))"

fun replace_array :: "(cstr \<times> picolVars) list \<Rightarrow> cstr \<Rightarrow> picolVars \<Rightarrow> (cstr \<times> picolVars) list" where
  "replace_array [] name vs = []"
| "replace_array (a # as) name vs =
     (if strcmp (fst a) name = 0 then (fst a, vs) # as else a # replace_array as name vs)"

text \<open>The entry of a command of the same name is overwritten where it stands.\<close>

fun replace_cmd :: "picolCmd list \<Rightarrow> picolCmd \<Rightarrow> picolCmd list" where
  "replace_cmd [] d = []"
| "replace_cmd (c # cmds) d =
     (if strcmp (cmd_name c) (cmd_name d) = 0 then d\<lparr>cmd_name := cmd_name c\<rparr> # cmds
      else c # replace_cmd cmds d)"

definition picolRegisterCommand ::
    "cstr \<Rightarrow> byte \<Rightarrow> byte \<Rightarrow> picolCmdFunc \<Rightarrow> (cstr \<times> cstr) option \<Rightarrow> 'k interp \<Rightarrow> 'k interp" where
  "picolRegisterCommand name mn mx f pd i =
     (let d = \<lparr>cmd_name = name, minArgc = mn, maxArgc = mx, cmd_func = f, privdata = pd\<rparr> in
      if picolGetCommand name i \<noteq> None then i\<lparr>Commands := replace_cmd (Commands i) d\<rparr>
      else i\<lparr>Commands := d # Commands i\<rparr>)"

definition picolDropCallFrame :: "'k interp \<Rightarrow> 'k interp" where
  "picolDropCallFrame i = i\<lparr>Callframe := tl (Callframe i)\<rparr>"

section \<open>Laws of the tables\<close>

lemma strcmp_eq [simp]: "strcmp a b = 0 \<longleftrightarrow> a = b"
  by (induction a b rule: strcmp.induct) auto

text \<open>What the interpreter relies on in each of its tables.\<close>

locale name_table =
  fixes get :: "'t \<Rightarrow> cstr \<Rightarrow> 'v option"
    and put :: "'t \<Rightarrow> cstr \<Rightarrow> 'v \<Rightarrow> 't"
  assumes get_put_same: "get (put t n v) n = Some v"
    and get_put_other: "m \<noteq> n \<Longrightarrow> get (put t n v) m = get t m"
begin

lemma get_put: "get (put t n v) m = (if m = n then Some v else get t m)"
  using get_put_same get_put_other by simp

lemma put_put: "get (put (put t n v) n w) m = get (put t n w) m"
  by (simp add: get_put)

lemma put_commute: "m \<noteq> n \<Longrightarrow> get (put (put t n v) m w) k = get (put (put t m w) n v) k"
  by (simp add: get_put)

text \<open>A sequence of bindings: the last one of a name counts.\<close>

definition put_all :: "'t \<Rightarrow> (cstr \<times> 'v) list \<Rightarrow> 't" where
  "put_all t bs = foldl (\<lambda>t b. put t (fst b) (snd b)) t bs"

lemma get_put_all: "get (put_all t bs) m = (case map_of (rev bs) m of Some v \<Rightarrow> Some v | None \<Rightarrow> get t m)"
proof (induction bs rule: rev_induct)
  case (snoc b bs)
  have "put_all t (bs @ [b]) = put (put_all t bs) (fst b) (snd b)" by (simp add: put_all_def)
  then show ?case using snoc by (cases b) (simp add: get_put)
qed (simp add: put_all_def)

end

lemma get_replace_var:
  "picolGetVarFromRoot vs n \<noteq> None \<Longrightarrow>
   picolGetVarFromRoot (replace_var vs n v) m = (if m = n then Some v else picolGetVarFromRoot vs m)"
  by (induction vs) auto

interpretation vars: name_table picolGetVarFromRoot picolSetVarFromRoot
  by unfold_locales (auto simp: picolSetVarFromRoot_def get_replace_var)

definition put_array :: "(cstr \<times> picolVars) list \<Rightarrow> cstr \<Rightarrow> picolVars \<Rightarrow> (cstr \<times> picolVars) list" where
  "put_array as name vs =
     (if find (\<lambda>a. strcmp (fst a) name = 0) as \<noteq> None then replace_array as name vs
      else (name, vs) # as)"

lemma get_replace_array:
  "find (\<lambda>a. fst a = n) as \<noteq> None \<Longrightarrow>
   map_option snd (find (\<lambda>a. fst a = m) (replace_array as n v)) =
     (if m = n then Some v else map_option snd (find (\<lambda>a. fst a = m) as))"
  by (induction as) auto

interpretation arrays: name_table "\<lambda>as n. map_option snd (find (\<lambda>a. strcmp (fst a) n = 0) as)" put_array
proof unfold_locales
  fix as :: "(cstr \<times> picolVars) list" and n m v
  show "map_option snd (find (\<lambda>a. strcmp (fst a) n = 0) (put_array as n v)) = Some v"
    using get_replace_array [of n as n v] by (simp add: put_array_def)
  show "m \<noteq> n \<Longrightarrow> map_option snd (find (\<lambda>a. strcmp (fst a) m = 0) (put_array as n v)) =
      map_option snd (find (\<lambda>a. strcmp (fst a) m = 0) as)"
    using get_replace_array [of n as m v] by (simp add: put_array_def)
qed

definition cmd_entry :: "picolCmd \<Rightarrow> byte \<times> byte \<times> picolCmdFunc \<times> (cstr \<times> cstr) option" where
  "cmd_entry c = (minArgc c, maxArgc c, cmd_func c, privdata c)"

lemma find_replace_cmd:
  "find (\<lambda>c. cmd_name c = cmd_name d) cmds \<noteq> None \<Longrightarrow>
   map_option cmd_entry (find (\<lambda>c. cmd_name c = m) (replace_cmd cmds d)) =
     (if m = cmd_name d then Some (cmd_entry d) else map_option cmd_entry (find (\<lambda>c. cmd_name c = m) cmds))"
  by (induction cmds) (auto simp: cmd_entry_def)

interpretation commands: name_table "\<lambda>i n. map_option cmd_entry (picolGetCommand n i)"
    "\<lambda>i n e. case e of (mn, mx, f, pd) \<Rightarrow> picolRegisterCommand n mn mx f pd i"
proof unfold_locales
  fix i :: "'a interp" and n m :: cstr and e :: "byte \<times> byte \<times> picolCmdFunc \<times> (cstr \<times> cstr) option"
  obtain mn mx f pd where e: "e = (mn, mx, f, pd)" by (cases e)
  let ?d = "\<lparr>cmd_name = n, minArgc = mn, maxArgc = mx, cmd_func = f, privdata = pd\<rparr>"
  have *: "map_option cmd_entry (picolGetCommand m (picolRegisterCommand n mn mx f pd i)) =
      (if m = n then Some e else map_option cmd_entry (picolGetCommand m i))" for m
    using find_replace_cmd [of ?d "Commands i" m]
    by (auto simp: picolRegisterCommand_def picolGetCommand_def Let_def e cmd_entry_def)
  show "map_option cmd_entry (picolGetCommand n (case e of (mn, mx, f, pd) \<Rightarrow> picolRegisterCommand n mn mx f pd i)) = Some e"
    using * [of n] by (simp add: e)
  show "m \<noteq> n \<Longrightarrow> map_option cmd_entry (picolGetCommand m (case e of (mn, mx, f, pd) \<Rightarrow> picolRegisterCommand n mn mx f pd i))
      = map_option cmd_entry (picolGetCommand m i)"
    using * [of m] by (simp add: e)
qed

lemma picolGetVar_set [simp]:
  "picolGetVar m (picolSetVar n v i) = (if m = n then Some v else picolGetVar m i)"
  by (simp add: picolGetVar_def picolSetVar_def vars.get_put)

lemma Callframe_set [simp]:
  "tl (Callframe (picolSetVar n v i)) = tl (Callframe i)" "Callframe (picolSetVar n v i) \<noteq> []"
  by (simp_all add: picolSetVar_def)

section \<open>Printed numbers\<close>

lemma ResultD_eq [simp]: "ResultD x i = Some (PICOL_OK, i\<lparr>Result := int_text x\<rparr>)"
  using format_calls_d [of "[]" x "[]"]
  by (auto simp: ResultD_def ResultFormat_def picolMoveToResult_def)

lemma ErrorNum_eq [simp]: "ErrorNum x i = Some (PICOL_ERR, i\<lparr>Result := int_text x\<rparr>)"
  by (simp add: ErrorNum_def)

end
