(* ===== verification/Ncl_Cmds.thy ===== *)
theory Ncl_Cmds
  imports Ncl_Interp "HOL-Library.Signed_Division"
begin

text \<open>
  The commands of \<^verbatim>\<open>ncl/ncl.c\<close> that work on values, on the variables and on the files, and
  the glob matcher \<^verbatim>\<open>ncl/match.c\<close>.  A command takes its words (the first one is its
  name) and the interpreter.  \<^verbatim>\<open>None\<close> is undefined behaviour: a word that is not there,
  an uninitialised variable, a division by zero, a list that runs past its end.
\<close>

section \<open>Words and characters of a command\<close>

definition word_at :: "cstr list \<Rightarrow> nat \<Rightarrow> cstr option" where
  "word_at argv k = (if k < length argv then Some (argv ! k) else None)"

text \<open>A character of a word; the blocks that hold words have at least eight bytes, so the
  reads just behind a short word see one of the zero bytes of the block.\<close>

definition char_at :: "cstr \<Rightarrow> nat \<Rightarrow> byte" where
  "char_at s k = (if k < length s then s ! k else 0)"

lemma word_at_simps [simp]:
  "word_at (x # xs) 0 = Some x" "word_at (x # xs) (Suc k) = word_at xs k" "word_at [] k = None"
  by (auto simp: word_at_def)

lemma word_at_numeral [simp]: "word_at (x # xs) (numeral n) = word_at xs (pred_numeral n)"
  by (simp add: numeral_eq_Suc)

definition bool_text :: "bool \<Rightarrow> cstr" where
  "bool_text b = (if b then cs ''1'' else cs ''0'')"

definition bool_int :: "bool \<Rightarrow> word16" where
  "bool_int b = (if b then 1 else 0)"

section \<open>Comparison and arithmetic\<close>

definition picolCommandStringRelOp :: "cstr list \<Rightarrow> 'k interp \<Rightarrow> 'k reply" where
  "picolCommandStringRelOp argv i = do {
     name \<leftarrow> word_at argv 0; a \<leftarrow> word_at argv 1; b \<leftarrow> word_at argv 2;
     let m1 = char_at name 0;
     let m2 = char_at name 1;
     let cmp = strcmp a b;
     let result = (\<lambda>b. Some (PICOL_OK, picolSetResult (bool_text b) i));
     if m1 = ch CHR ''e'' \<and> m2 = ch CHR ''q'' then result (cmp = 0)
     else if m1 = ch CHR ''n'' \<and> m2 = ch CHR ''e'' then result (cmp \<noteq> 0)
     else if m1 = ch CHR ''l'' \<and> m2 = ch CHR ''t'' then result (cmp < 0)
     else if m1 = ch CHR ''l'' \<and> m2 = ch CHR ''e'' then result (cmp \<le> 0)
     else if m1 = ch CHR ''g'' \<and> m2 = ch CHR ''t'' then result (cmp > 0)
     else if m1 = ch CHR ''g'' \<and> m2 = ch CHR ''e'' then result (cmp \<ge> 0)
     else NotFound i }"

text \<open>Signed division truncates; shifting by the width or more is undefined.\<close>

definition int_div :: "word16 \<Rightarrow> word16 \<Rightarrow> word16 option" where
  "int_div a b = (if b = 0 then None else Some (word_of_int (sint a sdiv sint b)))"

definition int_mod :: "word16 \<Rightarrow> word16 \<Rightarrow> word16 option" where
  "int_mod a b = (if b = 0 then None else Some (word_of_int (sint a smod sint b)))"

definition shifted :: "(nat \<Rightarrow> word16 \<Rightarrow> word16) \<Rightarrow> word16 \<Rightarrow> word16 \<Rightarrow> word16 option" where
  "shifted f a b = (if 16 \<le> b then None else Some (f (unat b) a))"

definition math2 :: "cstr \<Rightarrow> word16 \<Rightarrow> word16 \<Rightarrow> word16 option option" where
  "math2 name a b =
     (let m1 = char_at name 0; m2 = char_at name 1; m3 = char_at name 2 in
      if m1 = ch CHR ''-'' then Some (Some (a - b))
      else if m1 = ch CHR ''/'' then Some (int_div a b)
      else if m1 = ch CHR ''%'' then Some (int_mod a b)
      else if m1 = ch CHR ''>'' \<and> m2 = 0 then Some (Some (bool_int (b <s a)))
      else if m1 = ch CHR ''>'' \<and> m2 = ch CHR ''='' then Some (Some (bool_int (b \<le>s a)))
      else if m1 = ch CHR ''>'' \<and> m2 = ch CHR ''>'' \<and> m3 = 0 then Some (shifted signed_drop_bit a b)
      else if m1 = ch CHR ''>'' \<and> m2 = ch CHR ''>'' \<and> m3 = ch CHR ''>'' then Some (shifted drop_bit a b)
      else if m1 = ch CHR ''<'' \<and> m2 = 0 then Some (Some (bool_int (a <s b)))
      else if m1 = ch CHR ''<'' \<and> m2 = ch CHR ''='' then Some (Some (bool_int (a \<le>s b)))
      else if m1 = ch CHR ''<'' \<and> m2 = ch CHR ''<'' then Some (shifted push_bit a b)
      else if m1 = ch CHR ''='' \<and> m2 = ch CHR ''='' then Some (Some (bool_int (a = b)))
      else if m1 = ch CHR ''!'' \<and> m2 = ch CHR ''='' then Some (Some (bool_int (a \<noteq> b)))
      else if strcmp name (cs ''bitand'') = 0 then Some (Some (and a b))
      else if strcmp name (cs ''bitor'') = 0 then Some (Some (or a b))
      else if strcmp name (cs ''bitxor'') = 0 then Some (Some (xor a b))
      else None)"

definition picolCommandMath :: "cstr list \<Rightarrow> 'k interp \<Rightarrow> 'k reply" where
  "picolCommandMath argv i = do {
     name \<leftarrow> word_at argv 0;
     let m1 = char_at name 0;
     if m1 = ch CHR ''+'' then ResultD (foldl (\<lambda>c a. c + atoi a) 0 (tl argv)) i
     else if m1 = ch CHR ''*'' then ResultD (foldl (\<lambda>c a. c * atoi a) 1 (tl argv)) i
     else if length argv \<noteq> 3 then picolArityErr name i
     else case math2 name (atoi (argv ! 1)) (atoi (argv ! 2)) of
            None \<Rightarrow> NotFound i
          | Some c \<Rightarrow> do { c \<leftarrow> c; ResultD c i } }"

section \<open>Matching\<close>

text \<open>The character class behind a left bracket: the pattern at the matching entry, or
  \<^verbatim>\<open>None\<close> when no entry matches.\<close>

fun class_loop :: "cstr \<Rightarrow> byte \<Rightarrow> cstr option" where
  "class_loop [] c = None"
| "class_loop (p # ps) c =
     (if p = ch CHR '']'' then None
      else if p = c then Some (p # ps)
      else case ps of
        d # c2 # ps' \<Rightarrow>
          (if d = ch CHR ''-'' then
             (if p \<le>s c \<and> c \<le>s c2 then Some (p # ps)
              else if c \<le>s p \<and> c2 \<le>s c then Some (p # ps)
              else class_loop ps' c)
           else class_loop ps c)
      | [d] \<Rightarrow> if d = ch CHR ''-'' then None else class_loop ps c
      | [] \<Rightarrow> None)"

lemma class_loop_length: "class_loop ps c = Some r \<Longrightarrow> length r \<le> length ps"
  by (induction ps c rule: class_loop.induct) (auto split: if_splits list.splits)

definition class_rest :: "cstr \<Rightarrow> cstr" where
  "class_rest ps = tl (dropWhile (\<lambda>p. p \<noteq> ch CHR '']'') ps)"

lemma class_rest_length: "length (class_rest ps) \<le> length ps"
  unfolding class_rest_def using length_dropWhile_le [of "\<lambda>p. p \<noteq> ch CHR '']''" ps] by simp

lemma class_step_length: "class_loop ps c = Some r \<Longrightarrow> length (class_rest r) < Suc (length ps)"
  using class_loop_length [of ps c r] class_rest_length [of r] by simp

text \<open>The second clause of \<^verbatim>\<open>Tcl_StringMatch\<close> runs over the postfixes of the string.
  Behind a character class without its right bracket the pattern pointer passes the end:
  \<^verbatim>\<open>None\<close>.\<close>

function (sequential) Tcl_StringMatch :: "cstr \<Rightarrow> cstr \<Rightarrow> bool option" where
  "Tcl_StringMatch string [] = Some (string = [])"
| "Tcl_StringMatch string (p # ps) =
     (if p = ch CHR ''*'' then
        (if ps = [] then Some True
         else case Tcl_StringMatch string ps of
             None \<Rightarrow> None
           | Some True \<Rightarrow> Some True
           | Some False \<Rightarrow> (case string of [] \<Rightarrow> Some False | _ # s \<Rightarrow> Tcl_StringMatch s (p # ps)))
      else case string of
        [] \<Rightarrow> Some False
      | c # s \<Rightarrow>
          if p = ch CHR ''?'' then Tcl_StringMatch s ps
          else if p = ch CHR ''['' then
            (case class_loop ps c of
               None \<Rightarrow> Some False
             | Some r \<Rightarrow> if ch CHR '']'' \<in> set r then Tcl_StringMatch s (class_rest r) else None)
          else if p = 92 then
            (case ps of [] \<Rightarrow> Some False
             | q # ps' \<Rightarrow> if q \<noteq> c then Some False else Tcl_StringMatch s ps')
          else if p \<noteq> c then Some False
          else Tcl_StringMatch s ps)"
  by pat_completeness auto

termination
  by (relation "measures [\<lambda>(s, p). length p + length s]")
    (auto dest: class_step_length)

declare Tcl_StringMatch.simps [simp del]

text \<open>\<^verbatim>\<open>sregexp\<close> goes to the regular expression matcher, which is a parameter.\<close>

definition picolCommandStringMatchOrRegexp :: "(cstr \<Rightarrow> cstr \<Rightarrow> word16) \<Rightarrow> cstr list \<Rightarrow> 'k interp \<Rightarrow> 'k reply" where
  "picolCommandStringMatchOrRegexp re_match argv i = do {
     name \<leftarrow> word_at argv 0; pattern \<leftarrow> word_at argv 1; s \<leftarrow> word_at argv 2;
     z \<leftarrow> (if char_at name 1 = ch CHR ''r'' then Some (re_match pattern s)
          else map_option bool_int (Tcl_StringMatch s pattern));
     ResultD z i }"

section \<open>Variables and arrays\<close>

definition picolCommandSet :: "cstr list \<Rightarrow> 'k interp \<Rightarrow> 'k reply" where
  "picolCommandSet argv i = do {
     name \<leftarrow> word_at argv 1;
     if length argv = 2 then
       (case picolGetVar name i of
          None \<Rightarrow> do {
            (_, i) \<leftarrow> ResultFormat (cs ''no such var: %s'') [AStr (Some name)] (picolSetResult (cs ''no such var'') i);
            Some (PICOL_ERR, i) }
        | Some val \<Rightarrow> Some (PICOL_OK, picolSetResult val i))
     else do {
       val \<leftarrow> word_at argv 2;
       Some (PICOL_OK, picolSetResult val (picolSetVar name val i)) } }"

text \<open>\<^verbatim>\<open>incr\<close>, \<^verbatim>\<open>append\<close> and \<^verbatim>\<open>lappend\<close> make the variable when it is missing.\<close>

definition make_var :: "cstr \<Rightarrow> cstr \<Rightarrow> 'k interp \<Rightarrow> cstr \<times> 'k interp" where
  "make_var name dflt i =
     (case picolGetVar name i of
        Some val \<Rightarrow> (val, i)
      | None \<Rightarrow> (dflt, picolSetVar name dflt i))"

definition picolCommandIncr :: "cstr list \<Rightarrow> 'k interp \<Rightarrow> 'k reply" where
  "picolCommandIncr argv i = do {
     name \<leftarrow> word_at argv 1;
     let (val, i) = make_var name (cs ''0'') i;
     let z = (if length argv = 3 then atoi (argv ! 2) else 1) + atoi val;
     let i = picolSetVar name (int_text z) i;
     Some (PICOL_OK, picolSetResult (int_text z) i) }"

definition picolCommandAppend :: "cstr list \<Rightarrow> 'k interp \<Rightarrow> 'k reply" where
  "picolCommandAppend argv i = do {
     name \<leftarrow> word_at argv 1;
     let (val, i) = make_var name [] i;
     Some (PICOL_OK, picolSetVar name (foldl (@) val (drop 2 argv)) i) }"

definition picolCommandListAppend :: "cstr list \<Rightarrow> 'k interp \<Rightarrow> 'k reply" where
  "picolCommandListAppend argv i = do {
     name \<leftarrow> word_at argv 1;
     let (val, i) = make_var name [] i;
     Some (PICOL_OK, picolSetVar name (foldl list_append val (drop 2 argv)) i) }"

definition picolCommandArray :: "cstr list \<Rightarrow> 'k interp \<Rightarrow> 'k reply" where
  "picolCommandArray argv i =
     (if length argv = 1 then
        Some (PICOL_OK, picolMoveToResult (FormList (map fst (Arrays i))) i)
      else if length argv = 2 then
        (case picolGetArray (argv ! 1) i of
           None \<Rightarrow> NotFound i
         | Some vs \<Rightarrow> Some (PICOL_OK, picolMoveToResult (FormList (map fst vs)) i))
      else if length argv = 3 then
        (case picolGetArray (argv ! 1) i of
           None \<Rightarrow> NotFound i
         | Some vs \<Rightarrow>
             (case picolGetVarFromRoot vs (argv ! 2) of
                None \<Rightarrow> NotFound i
              | Some val \<Rightarrow> Some (PICOL_OK, picolSetResult val i)))
      else if length argv = 4 then
        (let vs = (case picolGetArray (argv ! 1) i of None \<Rightarrow> [] | Some vs \<Rightarrow> vs);
             vs = picolSetVarFromRoot vs (argv ! 2) (argv ! 3)
         in Some (PICOL_OK, i\<lparr>Arrays := put_array (Arrays i) (argv ! 1) vs\<rparr>))
      else Some (PICOL_OK, i))"

section \<open>Strings and lists\<close>

definition Explode :: "cstr \<Rightarrow> cstr" where
  "Explode s = foldl (\<lambda>result c. list_append result (int_text (scast c))) [] s"

definition picolCommandExplode :: "cstr list \<Rightarrow> 'k interp \<Rightarrow> 'k reply" where
  "picolCommandExplode argv i = do {
     s \<leftarrow> word_at argv 1;
     Some (PICOL_OK, picolMoveToResult (Explode s) i) }"

text \<open>A zero element ends the string that is read from the bytes.\<close>

definition picolCommandImplode :: "cstr list \<Rightarrow> 'k interp \<Rightarrow> 'k reply" where
  "picolCommandImplode argv i = do {
     s \<leftarrow> word_at argv 1;
     v \<leftarrow> SplitList s;
     let z = map (\<lambda>e. ucast (atoi e)) v;
     Some (PICOL_OK, picolMoveToResult (takeWhile (\<lambda>c. c \<noteq> 0) z) i) }"

definition delimiter :: "cstr list \<Rightarrow> byte option" where
  "delimiter argv =
     (if length argv = 2 then Some 0
      else if length argv = 3 then Some (peek (argv ! 2))
      else None)"

text \<open>The loop of \<^verbatim>\<open>join\<close>: the index of the next element, the text so far.\<close>

fun join_loop :: "byte \<Rightarrow> nat \<Rightarrow> cstr list \<Rightarrow> cstr \<Rightarrow> cstr" where
  "join_loop delim j [] result = result"
| "join_loop delim j (e # es) result =
     join_loop delim (Suc j) es (result @ (if j \<noteq> 0 \<and> delim \<noteq> 0 then [delim] else []) @ e)"

definition picolCommandJoin :: "cstr list \<Rightarrow> 'k interp \<Rightarrow> 'k reply" where
  "picolCommandJoin argv i = do {
     s \<leftarrow> word_at argv 1;
     v \<leftarrow> SplitList s;
     delim \<leftarrow> delimiter argv;
     Some (PICOL_OK, picolMoveToResult (join_loop delim 0 v []) i) }"

definition split_stop :: "byte \<Rightarrow> byte \<Rightarrow> bool" where
  "split_stop delim c = (if delim \<noteq> 0 then c = delim else white32 c)"

function split_loop :: "byte \<Rightarrow> bool \<Rightarrow> cstr \<Rightarrow> cstr \<Rightarrow> cstr" where
  "split_loop delim final_delim s list =
     (if s = [] then (if final_delim then list_append list [] else list)
      else
        let part = takeWhile (\<lambda>c. \<not> split_stop delim c) s;
            rest = dropWhile (\<lambda>c. \<not> split_stop delim c) s;
            final_delim = (if rest \<noteq> [] \<and> delim \<noteq> 0 then True
                           else if part \<noteq> [] then False else final_delim);
            list = (if delim \<noteq> 0 \<or> part \<noteq> [] then list_append list part else list)
        in split_loop delim final_delim (tl rest) list)"
  by pat_completeness auto
termination
proof (relation "measure (\<lambda>(_, _, s, _). length s)", simp)
  fix delim final_delim and s :: cstr and lst x xa xb xc
  assume "s \<noteq> []" "xa = dropWhile (\<lambda>c. \<not> split_stop delim c) s"
  then show "((delim, xb, tl xa, xc), delim, final_delim, s, lst) \<in> measure (\<lambda>(_, _, s, _). length s)"
    using length_dropWhile_le [of "\<lambda>c. \<not> split_stop delim c" s] by (cases s) auto
qed

declare split_loop.simps [simp del]

definition picolCommandSplit :: "cstr list \<Rightarrow> 'k interp \<Rightarrow> 'k reply" where
  "picolCommandSplit argv i = do {
     s \<leftarrow> word_at argv 1;
     delim \<leftarrow> delimiter argv;
     Some (PICOL_OK, picolMoveToResult (split_loop delim False s []) i) }"

definition picolCommandListLength :: "cstr list \<Rightarrow> 'k interp \<Rightarrow> 'k reply" where
  "picolCommandListLength argv i = do {
     s \<leftarrow> word_at argv 1;
     v \<leftarrow> SplitList s;
     ResultD (of_nat (length v)) i }"

definition picolCommandListRangeOrIndex :: "cstr list \<Rightarrow> 'k interp \<Rightarrow> 'k reply" where
  "picolCommandListRangeOrIndex argv i = do {
     lst \<leftarrow> word_at argv 1;
     a \<leftarrow> map_option atoi (word_at argv 2);
     b \<leftarrow> (if length argv = 3 then Some a else map_option atoi (word_at argv 3));
     v \<leftarrow> SplitList lst;
     let js = filter (\<lambda>j. sint a \<le> int j \<and> int j \<le> sint b) [0 ..< length v];
     Some (PICOL_OK, picolMoveToResult (foldl (\<lambda>result j. list_append result (v ! j)) [] js) i) }"

definition picolCommandStringLength :: "cstr list \<Rightarrow> 'k interp \<Rightarrow> 'k reply" where
  "picolCommandStringLength argv i = do {
     s \<leftarrow> word_at argv 1;
     ResultD (of_nat (length s)) i }"

definition picolCommandStringRangeOrIndex :: "cstr list \<Rightarrow> 'k interp \<Rightarrow> 'k reply" where
  "picolCommandStringRangeOrIndex argv i = do {
     s \<leftarrow> word_at argv 1;
     let n = int (length s);
     a \<leftarrow> map_option atoi (word_at argv 2);
     b \<leftarrow> (if length argv = 3 then Some a else map_option atoi (word_at argv 3));
     let a = (if sint a < 0 then 0 else sint a);
     let b = (if sint b \<ge> n then n - 1 else sint b);
     Some (PICOL_OK, picolMoveToResult (map (\<lambda>j. s ! j) [nat a ..< nat (b + 1)]) i) }"

definition picolCommandStringUpperOrLower :: "cstr list \<Rightarrow> 'k interp \<Rightarrow> 'k reply" where
  "picolCommandStringUpperOrLower argv i = do {
     name \<leftarrow> word_at argv 0;
     s \<leftarrow> word_at argv 1;
     let up = (char_at name 1 = ch CHR ''u'');
     Some (PICOL_OK, picolMoveToResult (map (if up then CharUp else CharDown) s) i) }"

definition picolCommandList :: "cstr list \<Rightarrow> 'k interp \<Rightarrow> 'k reply" where
  "picolCommandList argv i = Some (PICOL_OK, picolMoveToResult (FormList (tl argv)) i)"

definition picolCommandError :: "cstr list \<Rightarrow> 'k interp \<Rightarrow> 'k reply" where
  "picolCommandError argv i = do {
     s \<leftarrow> word_at argv 1;
     Some (PICOL_ERR, picolSetResult s i) }"
section \<open>Numbers read back\<close>

lemma digits_not_space:
  assumes "\<forall>c \<in> set s. srange CHR ''0'' CHR ''9'' c"
  shows "dropWhile isspace s = s" "peek s \<noteq> ch CHR ''-''" "peek s \<noteq> ch CHR ''+''"
proof -
  have "\<not> isspace c \<and> c \<noteq> 45 \<and> c \<noteq> 43" if "c \<in> set s" for c
    using assms that by (auto simp: srange_unat isspace_def word_le_nat_alt)
  then show "dropWhile isspace s = s" "peek s \<noteq> ch CHR ''-''" "peek s \<noteq> ch CHR ''+''"
    by (cases s; simp)+
qed

lemma atoi_int_text [simp]: "atoi (int_text x) = x"
proof -
  obtain ds where ds: "int_text x = (if sint x < 0 then [ch CHR ''-''] else []) @ ds"
    "digits_val 10 ds = nat \<bar>sint x\<bar>" "\<forall>c \<in> set ds. srange CHR ''0'' CHR ''9'' c"
    using int_text_value by blast
  have v: "prefixed_decimal_loop 0 ds = word_of_int \<bar>sint x\<bar>"
    using digits_val_loop [OF ds(3), of 0] ds(2) by (simp add: digits_val_def)
  note d = digits_not_space [OF ds(3)]
  show ?thesis
  proof (cases "sint x < 0")
    case True
    then have "atoi (int_text x) = - prefixed_decimal_loop 0 ds"
      using ds(1) by (simp add: atoi_def isspace_def)
    then show ?thesis using v True by (simp add: word_of_int_minus)
  next
    case False
    then have "int_text x = ds" using ds(1) by simp
    then have "atoi (int_text x) = prefixed_decimal_loop 0 ds" using d by (simp add: atoi_def Let_def)
    then show ?thesis using v False by simp
  qed
qed

section \<open>The glob language\<close>

text \<open>
  A character belongs to a class by an entry of its own or by a range, whose ends may come in
  either order; the last argument is the class text from that entry on.
\<close>

definition between :: "byte \<Rightarrow> byte \<Rightarrow> byte \<Rightarrow> bool" where
  "between a b c \<longleftrightarrow> min (sint a) (sint b) \<le> sint c \<and> sint c \<le> max (sint a) (sint b)"

inductive in_class :: "cstr \<Rightarrow> byte \<Rightarrow> cstr \<Rightarrow> bool" where
  class_self: "c \<noteq> ch CHR '']'' \<Longrightarrow> in_class (c # ps) c (c # ps)"
| class_range: "p \<noteq> ch CHR '']'' \<Longrightarrow> between p c2 c \<Longrightarrow>
    in_class (p # ch CHR ''-'' # c2 # ps) c (p # ch CHR ''-'' # c2 # ps)"
| class_next_range: "p \<noteq> ch CHR '']'' \<Longrightarrow> \<not> between p c2 c \<Longrightarrow> in_class ps c r \<Longrightarrow>
    in_class (p # ch CHR ''-'' # c2 # ps) c r"
| class_next: "p \<noteq> ch CHR '']'' \<Longrightarrow> p \<noteq> c \<Longrightarrow> d \<noteq> ch CHR ''-'' \<Longrightarrow> in_class (d # ps) c r \<Longrightarrow>
    in_class (p # d # ps) c r"

inductive_simps in_class_Nil_iff [simp]: "in_class [] c r"
inductive_simps in_class_one_iff [simp]: "in_class [p] c r"
inductive_simps in_class_iff: "in_class (p # d # ps) c r"
inductive_simps in_class_dash_iff [simp]: "in_class [p, d] c r"

lemma between_iff: "between a b c \<longleftrightarrow> (a \<le>s c \<and> c \<le>s b) \<or> (c \<le>s a \<and> b \<le>s c)"
  by (auto simp: between_def word_sle_eq)

lemma class_loop_in_class: "class_loop ps c = Some r \<longleftrightarrow> in_class ps c r"
proof (induction ps c rule: class_loop.induct)
  case (2 p ps c)
  show ?case
  proof (cases ps)
    case (Cons d ps')
    show ?thesis
    proof (cases ps')
      case (Cons c2 qs)
      with \<open>ps = d # ps'\<close> 2 show ?thesis
        by (cases "p = c") (auto simp: in_class_iff between_iff word_sle_eq)
    qed (use Cons 2 in \<open>auto simp: in_class_iff\<close>)
  qed auto
qed simp

inductive globs :: "cstr \<Rightarrow> cstr \<Rightarrow> bool" where
  globs_end: "globs [] []"
| globs_star: "globs s ps \<Longrightarrow> globs (u @ s) (ch CHR ''*'' # ps)"
| globs_any: "globs s ps \<Longrightarrow> globs (c # s) (ch CHR ''?'' # ps)"
| globs_class: "in_class ps c r \<Longrightarrow> globs s (class_rest r) \<Longrightarrow> globs (c # s) (ch CHR ''['' # ps)"
| globs_quote: "globs s ps \<Longrightarrow> globs (c # s) (92 # c # ps)"
| globs_char: "c \<notin> {ch CHR ''*'', ch CHR ''?'', ch CHR ''['', 92} \<Longrightarrow> globs s ps \<Longrightarrow> globs (c # s) (c # ps)"

inductive_simps globs_end_iff: "globs s []"
inductive_simps globs_pat_iff: "globs s (p # ps)"

lemma globs_star_iff: "globs s (ch CHR ''*'' # ps) \<longleftrightarrow> (\<exists>u t. s = u @ t \<and> globs t ps)"
  by (subst globs_pat_iff) auto

lemma globs_star_rec:
  "globs s (ch CHR ''*'' # ps) \<longleftrightarrow> globs s ps \<or> (\<exists>c t. s = c # t \<and> globs t (ch CHR ''*'' # ps))"
  unfolding globs_star_iff by (metis append_Cons append_Nil list.exhaust)

lemma globs_Nil: "p \<noteq> ch CHR ''*'' \<Longrightarrow> \<not> globs [] (p # ps)"
  by (subst globs_pat_iff) auto

lemma globs_one:
  "globs (c # s) (ch CHR ''?'' # ps) \<longleftrightarrow> globs s ps"
  "globs (c # s) (ch CHR ''['' # ps) \<longleftrightarrow> (\<exists>r. class_loop ps c = Some r \<and> globs s (class_rest r))"
  "globs (c # s) (92 # ps) \<longleftrightarrow> (\<exists>ps'. ps = c # ps' \<and> globs s ps')"
  "p \<notin> {ch CHR ''*'', ch CHR ''?'', ch CHR ''['', 92} \<Longrightarrow> globs (c # s) (p # ps) \<longleftrightarrow> p = c \<and> globs s ps"
  by (subst globs_pat_iff; auto simp: class_loop_in_class)+

lemma StringMatch_one:
  assumes "p \<noteq> ch CHR ''*''"
  shows "Tcl_StringMatch (c # s) (p # ps) =
      (if p = ch CHR ''?'' then Tcl_StringMatch s ps
       else if p = ch CHR ''['' then
         (case class_loop ps c of
            None \<Rightarrow> Some False
          | Some r \<Rightarrow> if ch CHR '']'' \<in> set r then Tcl_StringMatch s (class_rest r) else None)
       else if p = 92 then
         (case ps of [] \<Rightarrow> Some False
          | q # ps' \<Rightarrow> if q \<noteq> c then Some False else Tcl_StringMatch s ps')
       else if p \<noteq> c then Some False
       else Tcl_StringMatch s ps)"
  using assms by (simp add: Tcl_StringMatch.simps(2))

lemma StringMatch_globs: "Tcl_StringMatch s p = Some b \<Longrightarrow> b \<longleftrightarrow> globs s p"
proof (induction s p arbitrary: b rule: Tcl_StringMatch.induct)
  case (1 string)
  then show ?case by (auto simp: Tcl_StringMatch.simps(1) globs_end_iff)
next
  case (2 string p ps)
  note IH = "2.IH" and prem = "2.prems"
  consider "p = ch CHR ''*''" "ps = []" | "p = ch CHR ''*''" "ps \<noteq> []" | "p \<noteq> ch CHR ''*''" "string = []"
    | c s where "p \<noteq> ch CHR ''*''" "string = c # s" by (cases string) auto
  then show ?case
  proof cases
    case 1
    then show ?thesis using prem globs_star [OF globs_end, of string]
      by (simp add: Tcl_StringMatch.simps(2))
  next
    case a: 2
    show ?thesis
    proof (cases "Tcl_StringMatch string ps = Some True")
      case True
      then show ?thesis using IH(1) [OF a True] prem a globs_star_rec [of string ps]
        by (simp add: Tcl_StringMatch.simps(2))
    next
      case False
      then have f: "Tcl_StringMatch string ps = Some False"
        using prem a by (auto simp: Tcl_StringMatch.simps(2) split: option.splits bool.splits)
      then show ?thesis using IH(1) [OF a f] IH(2) [OF a f] prem a globs_star_rec [of string ps]
        by (cases string) (auto simp: Tcl_StringMatch.simps(2) globs_star_iff)
    qed
  next
    case a: 3
    then show ?thesis using prem globs_Nil [OF a(1)] by (simp add: Tcl_StringMatch.simps(2))
  next
    case a: 4
    then have eq: "Some b = Tcl_StringMatch (c # s) (p # ps)" using prem by simp
    note eq = eq [unfolded StringMatch_one [OF a(1)]]
    consider "p = ch CHR ''?''" | "p = ch CHR ''[''" | "p = 92"
      | "p \<notin> {ch CHR ''*'', ch CHR ''?'', ch CHR ''['', 92}" using a(1) by blast
    then show ?thesis
    proof cases
      case 1
      then show ?thesis using IH(3) [OF a] eq a(2) by (simp add: globs_one [simplified])
    next
      case 2
      then show ?thesis using IH(4) [OF a] eq a(2) by (auto simp: globs_one [simplified] split: option.splits if_splits)
    next
      case 3
      then show ?thesis using IH(5) [OF a] eq a(2) by (auto simp: globs_one [simplified] split: list.splits if_splits)
    next
      case 4
      then show ?thesis using IH(6) [OF a] eq a(2) by (auto simp: globs_one(4) [OF 4] simp del: insert_iff split: if_splits)
    qed
  qed
qed


lemma StringMatch_total:
  "ch CHR ''['' \<notin> set p \<Longrightarrow> \<exists>b. Tcl_StringMatch s p = Some b"
proof (induction s p rule: Tcl_StringMatch.induct)
  case (1 string)
  then show ?case by (simp add: Tcl_StringMatch.simps(1))
next
  case (2 string p ps)
  note IH = "2.IH" and prem = "2.prems"
  consider "p = ch CHR ''*''" "ps = []" | "p = ch CHR ''*''" "ps \<noteq> []" | "p \<noteq> ch CHR ''*''" "string = []"
    | c s where "p \<noteq> ch CHR ''*''" "string = c # s" by (cases string) auto
  then show ?case
  proof cases
    case a: 2
    then obtain b where b: "Tcl_StringMatch string ps = Some b" using IH(1) prem by auto
    then show ?thesis using IH(2) [OF a] prem a
      by (cases b; cases string) (auto simp: Tcl_StringMatch.simps(2))
  next
    case a: 4
    show ?thesis using IH(3,5,6) [OF a] prem a(2) StringMatch_one [OF a(1), of c s ps]
      by (cases "p = ch CHR ''?''"; cases "p = 92"; cases ps) auto
  qed (auto simp: Tcl_StringMatch.simps(2))
qed

text \<open>
  C14.  The matcher decides the glob language: an answer is right whenever the code gives one,
  and it gives one for every pattern without a character class.  A class without its right
  bracket makes the code read behind the end of the pattern.
\<close>

theorem StringMatch_spec:
  "(Tcl_StringMatch s p = Some b \<longrightarrow> (b \<longleftrightarrow> globs s p)) \<and>
   (ch CHR ''['' \<notin> set p \<longrightarrow> Tcl_StringMatch s p = Some (globs s p)) \<and>
   Tcl_StringMatch (cs ''a'') (cs ''[a'') = None"
proof (intro conjI impI)
  show "Tcl_StringMatch s p = Some b \<Longrightarrow> b \<longleftrightarrow> globs s p" by (rule StringMatch_globs)
  assume "ch CHR ''['' \<notin> set p"
  then obtain c where "Tcl_StringMatch s p = Some c" using StringMatch_total by blast
  then show "Tcl_StringMatch s p = Some (globs s p)" using StringMatch_globs by blast
qed (simp add: Tcl_StringMatch.simps(2))

lemma StringMatch_spec_witness:
  "globs (cs ''abc'') (cs ''a*?'') \<and> Tcl_StringMatch (cs ''abc'') (cs ''a[b-d]c'') = Some True \<and>
   globs (cs ''abc'') (cs ''a[b-d]c'')"
proof -
  have "Tcl_StringMatch (cs ''abc'') (cs ''a*?'') = Some True"
    "Tcl_StringMatch (cs ''abc'') (cs ''a[b-d]c'') = Some True"
    by (simp_all add: Tcl_StringMatch.simps class_rest_def word_sle_eq)
  then show ?thesis
    using StringMatch_spec [of "cs ''abc''" "cs ''a*?''" True] StringMatch_spec [of "cs ''abc''" "cs ''a[b-d]c''" True]
    by simp
qed

section \<open>Lists taken apart and put together\<close>

definition joined :: "byte \<Rightarrow> cstr list \<Rightarrow> cstr" where
  "joined d xs = (case xs of [] \<Rightarrow> [] | y # ys \<Rightarrow> y @ concat (map ((#) d) ys))"

lemma join_loop_joined: "d \<noteq> 0 \<Longrightarrow> join_loop d 0 xs [] = joined d xs"
proof -
  assume d: "d \<noteq> 0"
  have "join_loop d (Suc j) xs r = r @ concat (map ((#) d) xs)" for j r xs
    by (induction xs arbitrary: j r) (simp_all add: d)
  then show ?thesis by (cases xs) (simp_all add: joined_def)
qed

lemma split_loop_parts:
  assumes "d \<noteq> 0"
  shows "\<exists>xs. split_loop d f s lst = foldl list_append lst xs \<and> (f \<or> s \<noteq> [] \<longleftrightarrow> xs \<noteq> []) \<and>
    joined d xs = s \<and> (\<forall>x \<in> set xs. d \<notin> set x)"
proof (induction s arbitrary: f lst rule: measure_induct_rule [where f = length])
  case (less s)
  show ?case
  proof (cases "s = []")
    case True
    then have "split_loop d f s lst = foldl list_append lst (if f then [[]] else [])"
      by (simp add: split_loop.simps)
    then show ?thesis using True
      by (intro exI [of _ "if f then [[]] else []"]) (simp add: joined_def)
  next
    case False
    let ?go = "\<lambda>c. \<not> split_stop d c"
    let ?part = "takeWhile ?go s" and ?rest = "dropWhile ?go s"
    have go: "?go = (\<lambda>c. c \<noteq> d)" using assms by (auto simp: split_stop_def)
    have len: "length (tl ?rest) < length s"
      using length_dropWhile_le [of ?go s] False by (cases s) auto
    let ?f = "if ?rest \<noteq> [] then True else False"
    have "\<not> (?rest = [] \<and> ?part = [])" using False takeWhile_dropWhile_id [of ?go s] by (metis append.right_neutral)
    then have step: "split_loop d f s lst = split_loop d ?f (tl ?rest) (list_append lst ?part)"
      using False assms by (subst split_loop.simps) (auto simp: Let_def)
    obtain xs where xs: "split_loop d ?f (tl ?rest) (list_append lst ?part) =
        foldl list_append (list_append lst ?part) xs" "?f \<or> tl ?rest \<noteq> [] \<longleftrightarrow> xs \<noteq> []"
      "joined d xs = tl ?rest" "\<forall>x \<in> set xs. d \<notin> set x"
      using less.IH [OF len, of ?f "list_append lst ?part"] by blast
    have part: "d \<notin> set ?part" unfolding go by (auto dest: set_takeWhileD)
    have j: "joined d (?part # xs) = s"
    proof (cases ?rest)
      case Nil
      have "xs = []" using xs(2) unfolding Nil by simp
      moreover have "?part = s" using Nil takeWhile_dropWhile_id [of ?go s] by simp
      ultimately show ?thesis by (simp add: joined_def)
    next
      case (Cons c t)
      then have "c = d" using dropWhile_rest [OF Cons] assms by (simp add: split_stop_def)
      moreover have "xs \<noteq> []" using xs(2) Cons by simp
      ultimately show ?thesis using xs(3) Cons takeWhile_dropWhile_id [of ?go s]
        by (cases xs) (auto simp: joined_def)
    qed
    show ?thesis
      by (intro exI [of _ "?part # xs"] conjI)
        (use False part j xs(4) step xs(1) in \<open>simp_all only: foldl_Cons list.set insert_iff ball_simps simp_thms list.distinct not_False_eq_True\<close>)
  qed
qed

lemma sint_inject: "sint (a :: word16) = sint b \<longleftrightarrow> a = b"
  by (auto intro: signed_word_eqI)

lemma FormList_foldl: "foldl list_append [] xs = FormList xs"
  by (simp add: FormList_def)

lemma foldl_map: "foldl (\<lambda>r x. list_append r (f x)) b xs = foldl list_append b (map f xs)"
  by (induction xs arbitrary: b) simp_all

text \<open>
  C39.  \<^verbatim>\<open>split\<close> on a delimiter returns the list of the parts between the delimiters (empty
  ones included), which hold no delimiter, and \<^verbatim>\<open>join\<close> on the same delimiter gives the
  string back.
\<close>

theorem split_join_roundtrip:
  assumes "d \<noteq> 0"
  shows "\<exists>xs. picolCommandSplit [nm, s, d # ds] i = Some (PICOL_OK, i\<lparr>Result := FormList xs\<rparr>) \<and>
      (\<forall>x \<in> set xs. d \<notin> set x) \<and> joined d xs = s \<and>
      picolCommandJoin [nm', FormList xs, d # ds] i' = Some (PICOL_OK, i'\<lparr>Result := s\<rparr>)"
proof -
  obtain xs where xs: "split_loop d False s [] = foldl list_append [] xs" "joined d xs = s"
    "\<forall>x \<in> set xs. d \<notin> set x"
    using split_loop_parts [OF assms, of False s "[]"] by blast
  have "SplitList (FormList xs) = Some xs" by (rule SplitList_FormList_id)
  then show ?thesis using xs join_loop_joined [OF assms, of xs]
    by (intro exI [of _ xs])
      (simp add: picolCommandSplit_def picolCommandJoin_def delimiter_def picolMoveToResult_def FormList_foldl)
qed

lemma split_join_roundtrip_witness:
  "\<exists>xs. picolCommandSplit [cs ''split'', cs ''a,,b'', cs '',''] (picolInitInterp ()) =
        Some (PICOL_OK, (picolInitInterp ())\<lparr>Result := FormList xs\<rparr>) \<and>
      picolCommandJoin [cs ''join'', FormList xs, cs '',''] (picolInitInterp ()) =
        Some (PICOL_OK, (picolInitInterp ())\<lparr>Result := cs ''a,,b''\<rparr>)"
  using split_join_roundtrip [of "ch CHR '',''" "cs ''split''" "cs ''a,,b''" "[]" "picolInitInterp ()"
      "cs ''join''" "picolInitInterp ()"] by auto

lemma ucast_scast_byte: "ucast (scast (c :: byte) :: word16) = c"
  by (rule bit_word_eqI) (simp add: bit_ucast_iff bit_word_scast_iff)

text \<open>
   The list commands on a list of fewer than 32768 elements: \<^verbatim>\<open>llength\<close> counts them,
  \<^verbatim>\<open>lrange\<close> selects the elements between two indexes, \<^verbatim>\<open>implode\<close> undoes \<^verbatim>\<open>explode\<close>.
  But \<^verbatim>\<open>lindex\<close> returns the element in its list encoding: an element that needs quoting
  does not come back as it was put in.
\<close>

theorem list_commands:
  assumes "length xs < 32768" "k < length xs" "cstring s"
  shows "(\<exists>i'. picolCommandListLength [nm, FormList xs] i = Some (PICOL_OK, i') \<and> atoi (Result i') = of_nat (length xs)) \<and>
    picolCommandListRangeOrIndex [nm, FormList xs, int_text 0, int_text (of_nat k)] i =
      Some (PICOL_OK, i\<lparr>Result := FormList (take (Suc k) xs)\<rparr>) \<and>
    picolCommandListRangeOrIndex [nm, FormList xs, int_text (of_nat k)] i =
      Some (PICOL_OK, i\<lparr>Result := elem_encode (xs ! k)\<rparr>) \<and>
    picolCommandImplode [nm, Explode s] i = Some (PICOL_OK, i\<lparr>Result := s\<rparr>)"
proof -
  have sl: "SplitList (FormList xs) = Some xs" by (rule SplitList_FormList_id)
  have "unat (of_nat k :: word16) = k" using assms by (simp add: unat_of_nat)
  then have k: "sint (of_nat k :: word16) = int k"
    using sint_word16_pos [of "of_nat k"] int_unat_uint [of "of_nat k :: word16"] assms by simp
  have "length xs = Suc k + (length xs - Suc k)" using assms(2) by simp
  then have u: "[0 ..< length xs] = [0 ..< Suc k] @ [Suc k ..< length xs]"
    using upt_add_eq_append [of 0 "Suc k" "length xs - Suc k"] by (metis zero_le)
  have r1: "filter (\<lambda>j. j \<le> k) [0 ..< length xs] = [0 ..< Suc k]"
    unfolding u by (simp add: filter_empty_conv)
  have r2: "filter (\<lambda>j. k \<le> j \<and> j \<le> k) [0 ..< length xs] = [k]"
    unfolding u by (simp add: filter_empty_conv)
  have t: "map (\<lambda>j. xs ! j) [0 ..< Suc k] = take (Suc k) xs"
    by (rule nth_equalityI) (use assms(2) in \<open>auto simp del: upt_Suc\<close>)
  let ?v = "map (\<lambda>c. int_text (scast c)) s"
  have "Explode s = FormList ?v" unfolding Explode_def FormList_def by (rule foldl_map)
  then have v: "SplitList (Explode s) = Some ?v" by (simp only: SplitList_FormList_id)
  have e: "map (\<lambda>e. ucast (atoi e)) ?v = s"
    by (simp add: comp_def ucast_scast_byte)
  have "takeWhile (\<lambda>c. c \<noteq> 0) s = s" using assms(3) by (auto simp: cstring_def takeWhile_eq_all_conv)
  then have i: "picolCommandImplode [nm, Explode s] i = Some (PICOL_OK, i\<lparr>Result := s\<rparr>)"
    unfolding picolCommandImplode_def word_at_simps One_nat_def v bind.bind_lunit Let_def e
    by (simp only: picolMoveToResult_def)
  have f: "foldl (\<lambda>r j. list_append r (xs ! j)) [] js = FormList (map ((!) xs) js)" for js
    unfolding FormList_def by (rule foldl_map)
  note defs = picolCommandListLength_def picolCommandListRangeOrIndex_def picolMoveToResult_def
  have l: "picolCommandListLength [nm, FormList xs] i = Some (PICOL_OK, i\<lparr>Result := int_text (of_nat (length xs))\<rparr>)"
    by (simp add: defs sl)
  have x: "picolCommandListRangeOrIndex [nm, FormList xs, int_text 0, int_text (of_nat k)] i =
      Some (PICOL_OK, i\<lparr>Result := FormList (take (Suc k) xs)\<rparr>)"
    using f [of "[0 ..< Suc k]"] t by (simp add: defs sl k r1 del: upt_Suc)
  have y: "picolCommandListRangeOrIndex [nm, FormList xs, int_text (of_nat k)] i =
      Some (PICOL_OK, i\<lparr>Result := elem_encode (xs ! k)\<rparr>)"
    using f [of "[k]"] FormList_Cons [of "xs ! k" "[]"] by (simp add: defs sl k r2 list_rest_def)
  show ?thesis using i l x y by simp
qed

lemma list_commands_witness:
  "\<exists>xs. xs = [cs ''a b'', cs ''c''] \<and>
    picolCommandListRangeOrIndex [cs ''lindex'', FormList xs, int_text (of_nat 0)] (picolInitInterp ()) =
      Some (PICOL_OK, (picolInitInterp ())\<lparr>Result := elem_encode (xs ! 0)\<rparr>) \<and> elem_encode (xs ! 0) \<noteq> xs ! 0"
proof -
  have "elem_encode (cs ''a b'') \<noteq> cs ''a b''"
    by (simp add: elem_encode_def elem_esc_def elem_special_def word_sless_eq word_sle_eq)
  then show ?thesis
    using list_commands [of "[cs ''a b'', cs ''c'']" 0 "[]" "cs ''lindex''" "picolInitInterp ()"] by simp
qed

section \<open>Arithmetic\<close>

text \<open>A command on printed numbers, and the reply that prints a number.\<close>

definition math_on :: "cstr \<Rightarrow> word16 list \<Rightarrow> 'k interp \<Rightarrow> 'k reply" where
  "math_on op ns i = picolCommandMath (op # map int_text ns) i"

definition number :: "int \<Rightarrow> 'k interp \<Rightarrow> 'k reply" where
  "number c i = Some (PICOL_OK, i\<lparr>Result := int_text (word_of_int c)\<rparr>)"

text \<open>
   The arithmetic commands on printed numbers: the sum, difference and product wrap at
  16 bits, the quotient and remainder truncate, dividing by zero is undefined, comparisons
  are signed.  \<^verbatim>\<open>+\<close> and \<^verbatim>\<open>*\<close> take any number of operands, the others exactly two.
\<close>

theorem math_commands:
  "math_on (cs ''+'') ns i = number (sum_list (map sint ns)) i \<and>
    math_on (cs ''*'') ns i = number (prod_list (map sint ns)) i \<and>
    math_on (cs ''-'') [a, b] i = number (sint a - sint b) i \<and>
    math_on (cs ''/'') [a, b] i = (if b = 0 then None else number (sint a sdiv sint b) i) \<and>
    math_on (cs ''%'') [a, b] i = (if b = 0 then None else number (sint a smod sint b) i) \<and>
    math_on (cs ''<'') [a, b] i = number (if sint a < sint b then 1 else 0) i \<and>
    math_on (cs ''>='') [a, b] i = number (if sint a \<ge> sint b then 1 else 0) i \<and>
    math_on (cs ''=='') [a, b] i = number (if sint a = sint b then 1 else 0) i \<and>
    (length ns \<noteq> 2 \<longrightarrow> (\<exists>i'. math_on (cs ''-'') ns i = Some (PICOL_ERR, i')))"
proof (intro conjI impI)
  have add: "foldl (\<lambda>c a. c + atoi a) z (map int_text ns) = z + word_of_int (sum_list (map sint ns))" for z
    by (induction ns arbitrary: z) (simp_all add: of_int_add algebra_simps)
  have mul: "foldl (\<lambda>c a. c * atoi a) z (map int_text ns) = z * word_of_int (prod_list (map sint ns))" for z
    by (induction ns arbitrary: z) (simp_all add: of_int_mult algebra_simps)
  show "math_on (cs ''+'') ns i = number (sum_list (map sint ns)) i"
    by (simp add: math_on_def number_def picolCommandMath_def char_at_def add)
  show "math_on (cs ''*'') ns i = number (prod_list (map sint ns)) i"
    by (simp add: math_on_def number_def picolCommandMath_def char_at_def mul)
  note defs = math_on_def number_def picolCommandMath_def char_at_def math2_def int_div_def int_mod_def bool_int_def
  show "math_on (cs ''-'') [a, b] i = number (sint a - sint b) i"
    by (simp add: defs of_int_diff)
  show "math_on (cs ''/'') [a, b] i = (if b = 0 then None else number (sint a sdiv sint b) i)" by (simp add: defs)
  show "math_on (cs ''%'') [a, b] i = (if b = 0 then None else number (sint a smod sint b) i)" by (simp add: defs)
  show "math_on (cs ''<'') [a, b] i = number (if sint a < sint b then 1 else 0) i"
    by (simp add: defs word_sless_alt)
  show "math_on (cs ''>='') [a, b] i = number (if sint a \<ge> sint b then 1 else 0) i"
    by (simp add: defs word_sle_eq)
  show "math_on (cs ''=='') [a, b] i = number (if sint a = sint b then 1 else 0) i"
    by (simp add: defs sint_inject)
  assume "length ns \<noteq> 2"
  then show "\<exists>i'. math_on (cs ''-'') ns i = Some (PICOL_ERR, i')"
    by (simp add: defs picolArityErr_def snprintf_s_def format_calls_s [simplified])
qed

lemma math_commands_witness:
  "\<exists>i'. math_on (cs ''-'') [1] (picolInitInterp ()) = Some (PICOL_ERR, i')"
  using math_commands [of "[1]" "picolInitInterp ()"] by auto

end
