(* ===== verification/Ncl_Os9.thy ===== *)
theory Ncl_Os9
  imports Ncl_Cmds
begin

text \<open>
  The commands of the command language that call NitrOS9: the file commands of
  \<^verbatim>\<open>ncl/ncl.c\<close> and all of \<^verbatim>\<open>ncl/ncl_os9.c\<close>.  The calls are parameters, functions of the
  kernel's state that give a nonzero error number (\<^verbatim>\<open>Inl\<close>) or a result.  What the code
  passes by address and gets back is the result.

  The memory of the process is a parameter too: the byte at an address (\<^verbatim>\<open>o_byte\<close>), the addresses at
  which the code and the data of the interpreter lie (\<^verbatim>\<open>o_own\<close>, which the allocator and the stack
  decide), and a store elsewhere (\<^verbatim>\<open>o_store\<close>).
\<close>

record 'k ncl_os = "'k os" +
  o_chain :: "'k \<Rightarrow> cstr \<Rightarrow> cstr \<Rightarrow> word16 \<times> 'k"
  o_fork :: "'k \<Rightarrow> cstr \<Rightarrow> cstr \<Rightarrow> word16 \<Rightarrow> (word16 + word16) \<times> 'k"
  o_getsize :: "'k \<Rightarrow> word16 \<Rightarrow> (word16 + word16 \<times> word16) \<times> 'k"
  o_wait :: "'k \<Rightarrow> (word16 + word16) \<times> 'k"
  o_dup :: "'k \<Rightarrow> word16 \<Rightarrow> (word16 + word16) \<times> 'k"
  o_send :: "'k \<Rightarrow> word16 \<Rightarrow> word16 \<Rightarrow> word16 \<times> 'k"
  o_sleep :: "'k \<Rightarrow> word16 \<Rightarrow> word16 \<times> 'k"
  o_makdir :: "'k \<Rightarrow> cstr \<Rightarrow> word16 \<Rightarrow> word16 \<times> 'k"
  o_chgdir :: "'k \<Rightarrow> cstr \<Rightarrow> word16 \<Rightarrow> word16 \<times> 'k"
  o_re_match :: "cstr \<Rightarrow> cstr \<Rightarrow> word16"
  o_byte :: "'k interp \<Rightarrow> word16 \<Rightarrow> byte"
  o_own :: "'k interp \<Rightarrow> word16 \<Rightarrow> bool"
  o_store :: "'k \<Rightarrow> word16 \<Rightarrow> byte \<Rightarrow> 'k"

section \<open>Reading and writing\<close>

text \<open>The string that is read from a zeroed buffer ends at its first zero byte.\<close>

definition c_string :: "cstr \<Rightarrow> cstr" where
  "c_string bytes = takeWhile (\<lambda>c. c \<noteq> 0) bytes"

definition picolCommand9Read :: "'k ncl_os \<Rightarrow> cstr list \<Rightarrow> 'k interp \<Rightarrow> 'k reply" where
  "picolCommand9Read os argv i = do {
     fd \<leftarrow> map_option atoi (word_at argv 1);
     n \<leftarrow> map_option atoi (word_at argv 2);
     (case o_read os (sys i) fd n of
        (Inl e, k) \<Rightarrow> ErrorNum (ucast e) (i\<lparr>sys := k\<rparr>)
      | (Inr buf, k) \<Rightarrow> Some (PICOL_OK, picolMoveToResult (Explode buf) (i\<lparr>sys := k\<rparr>))) }"

definition picolCommandGets :: "'k ncl_os \<Rightarrow> cstr list \<Rightarrow> 'k interp \<Rightarrow> 'k reply" where
  "picolCommandGets os argv i = do {
     fd \<leftarrow> map_option atoi (word_at argv 1);
     varname \<leftarrow> word_at argv 2;
     (case o_readln os (sys i) fd (of_nat BUF_SIZE) of
        (Inl e, k) \<Rightarrow>
          (if e = 211 then ResultD 0 (picolSetVar varname [] (i\<lparr>sys := k\<rparr>))
           else ErrorNum (ucast e) (i\<lparr>sys := k\<rparr>))
      | (Inr buf, k) \<Rightarrow>
          ResultD (of_nat (length buf)) (picolSetVar varname (c_string buf) (i\<lparr>sys := k\<rparr>))) }"

text \<open>One call of \<^verbatim>\<open>Os9WritLn\<close>: the error number, zero when there is none.\<close>

definition writln :: "'k ncl_os \<Rightarrow> word16 \<Rightarrow> cstr \<Rightarrow> 'k interp \<Rightarrow> word16 \<times> 'k interp" where
  "writln os fd s i =
     (case o_writln os (sys i) fd s of
        (Inl e, k) \<Rightarrow> (ucast e, i\<lparr>sys := k\<rparr>)
      | (Inr _, k) \<Rightarrow> (0, i\<lparr>sys := k\<rparr>))"

definition picolCommandPuts :: "'k ncl_os \<Rightarrow> cstr list \<Rightarrow> 'k interp \<Rightarrow> 'k reply" where
  "picolCommandPuts os argv i = do {
     name \<leftarrow> word_at argv 0;
     let nonewline = (length argv > 2 \<and> peek (argv ! 1) = ch CHR ''-'');
     let argv = (if nonewline then tl argv else argv);
     if length argv \<noteq> 2 \<and> length argv \<noteq> 3 then picolArityErr name i
     else do {
       let fd = (if length argv = 3 then atoi (argv ! 1) else 1);
       let (e, i) = writln os fd (last argv) i;
       if e \<noteq> 0 then ErrorNum e i
       else if \<not> nonewline then do {
         let (e, i) = writln os fd [10] i;
         if e \<noteq> 0 then ErrorNum e i else EmptyOrErrorNum 0 i }
       else EmptyOrErrorNum 0 i } }"

section \<open>Processes\<close>

fun JoinWithSpaces :: "cstr list \<Rightarrow> cstr" where
  "JoinWithSpaces [] = []"
| "JoinWithSpaces [s] = s"
| "JoinWithSpaces (s # t # ss) = s @ ch CHR '' '' # JoinWithSpaces (t # ss)"

definition AddCR :: "cstr \<Rightarrow> cstr" where
  "AddCR s = s @ [13]"

definition picolCommand9Chain :: "'k ncl_os \<Rightarrow> cstr list \<Rightarrow> 'k interp \<Rightarrow> 'k reply" where
  "picolCommand9Chain os argv i = do {
     program \<leftarrow> word_at argv 1;
     let params = AddCR (JoinWithSpaces (drop 2 argv));
     let (e, k) = o_chain os (sys i) program params;
     ErrorNum e (i\<lparr>sys := k\<rparr>) }"

text \<open>The options \<^verbatim>\<open>-m\<close> in front: the memory size and the words that are left.\<close>

fun fork_options :: "word16 \<Rightarrow> cstr list \<Rightarrow> word16 \<times> cstr list" where
  "fork_options mem_size (name # opt # a # as) =
     (if Tcl_StringMatch opt (cs ''-m*'') = Some True then
        (let size = atoi (drop 2 opt);
             size = (if CharUp (last opt) = ch CHR ''K'' then push_bit 2 size else size)
         in fork_options size (opt # a # as))
      else (mem_size, name # opt # a # as))"
| "fork_options mem_size argv = (mem_size, argv)"

definition picolCommand9Fork :: "'k ncl_os \<Rightarrow> cstr list \<Rightarrow> 'k interp \<Rightarrow> 'k reply" where
  "picolCommand9Fork os argv i = do {
     let (mem_size, argv) = fork_options 0 argv;
     name \<leftarrow> word_at argv 0;
     if length argv < 2 then picolArityErr name i
     else do {
       let params = AddCR (JoinWithSpaces (drop 2 argv));
       (case o_fork os (sys i) (argv ! 1) params mem_size of
          (Inl e, k) \<Rightarrow> IntOrErrorNum e 0 (i\<lparr>sys := k\<rparr>)
        | (Inr child_id, k) \<Rightarrow> IntOrErrorNum 0 child_id (i\<lparr>sys := k\<rparr>)) } }"

definition picolCommand9FileSize :: "'k ncl_os \<Rightarrow> cstr list \<Rightarrow> 'k interp \<Rightarrow> 'k reply" where
  "picolCommand9FileSize os argv i = do {
     fd \<leftarrow> map_option atoi (word_at argv 1);
     (case o_getsize os (sys i) fd of
        (Inl e, k) \<Rightarrow> ErrorNum e (i\<lparr>sys := k\<rparr>)
      | (Inr (x, u), k) \<Rightarrow>
          (if x \<noteq> 0 then Some (PICOL_ERR, picolSetResult (cs ''toobig'') (i\<lparr>sys := k\<rparr>))
           else ResultD u (i\<lparr>sys := k\<rparr>))) }"

definition picolCommand9Wait :: "'k ncl_os \<Rightarrow> cstr list \<Rightarrow> 'k interp \<Rightarrow> 'k reply" where
  "picolCommand9Wait os argv i =
     (case o_wait os (sys i) of
        (Inl e, k) \<Rightarrow> ErrorNum e (i\<lparr>sys := k\<rparr>)
      | (Inr ids, k) \<Rightarrow>
          (let i = i\<lparr>sys := k\<rparr>;
               i = (if length argv \<ge> 2 then
                      picolSetVar (argv ! 1) (int_text (and 255 (signed_drop_bit 8 ids))) i else i);
               i = (if length argv \<ge> 3 then picolSetVar (argv ! 2) (int_text (and 255 ids)) i else i)
           in Some (PICOL_OK, i)))"

definition picolCommand9Kill :: "'k ncl_os \<Rightarrow> cstr list \<Rightarrow> 'k interp \<Rightarrow> 'k reply" where
  "picolCommand9Kill os argv i = do {
     victim \<leftarrow> map_option atoi (word_at argv 1);
     let signal = (if length argv < 3 then 228 else atoi (argv ! 2));
     let (e, k) = o_send os (sys i) victim signal;
     EmptyOrErrorNum e (i\<lparr>sys := k\<rparr>) }"

definition picolCommand9Sleep :: "'k ncl_os \<Rightarrow> cstr list \<Rightarrow> 'k interp \<Rightarrow> 'k reply" where
  "picolCommand9Sleep os argv i = do {
     ticks \<leftarrow> map_option atoi (word_at argv 1);
     let (e, k) = o_sleep os (sys i) ticks;
     EmptyOrErrorNum e (i\<lparr>sys := k\<rparr>) }"

section \<open>Paths\<close>

definition int_reply :: "(word16 + word16) \<times> 'k \<Rightarrow> 'k interp \<Rightarrow> 'k reply" where
  "int_reply r i =
     (case r of
        (Inl e, k) \<Rightarrow> IntOrErrorNum e 0 (i\<lparr>sys := k\<rparr>)
      | (Inr x, k) \<Rightarrow> IntOrErrorNum 0 x (i\<lparr>sys := k\<rparr>))"

definition byte_error :: "(byte + word16) \<times> 'k \<Rightarrow> (word16 + word16) \<times> 'k" where
  "byte_error r = apfst (map_sum ucast id) r"

definition picolCommand9Dup :: "'k ncl_os \<Rightarrow> cstr list \<Rightarrow> 'k interp \<Rightarrow> 'k reply" where
  "picolCommand9Dup os argv i = do {
     path \<leftarrow> map_option atoi (word_at argv 1);
     int_reply (o_dup os (sys i) path) i }"

definition picolCommand9Close :: "'k ncl_os \<Rightarrow> cstr list \<Rightarrow> 'k interp \<Rightarrow> 'k reply" where
  "picolCommand9Close os argv i = do {
     path \<leftarrow> map_option atoi (word_at argv 1);
     let (e, k) = o_close os (sys i) path;
     EmptyOrErrorNum (ucast e) (i\<lparr>sys := k\<rparr>) }"

definition picolCommand9Create :: "'k ncl_os \<Rightarrow> cstr list \<Rightarrow> 'k interp \<Rightarrow> 'k reply" where
  "picolCommand9Create os argv i = do {
     path \<leftarrow> word_at argv 1;
     mode \<leftarrow> map_option atoi (word_at argv 2);
     attrs \<leftarrow> map_option atoi (word_at argv 3);
     int_reply (byte_error (o_create os (sys i) path (ucast mode) (ucast attrs))) i }"

definition picolCommand9Open :: "'k ncl_os \<Rightarrow> cstr list \<Rightarrow> 'k interp \<Rightarrow> 'k reply" where
  "picolCommand9Open os argv i = do {
     path \<leftarrow> word_at argv 1;
     mode \<leftarrow> map_option atoi (word_at argv 2);
     int_reply (byte_error (o_open os (sys i) path (ucast mode))) i }"

definition picolCommand9MakOrChgDir :: "'k ncl_os \<Rightarrow> cstr list \<Rightarrow> 'k interp \<Rightarrow> 'k reply" where
  "picolCommand9MakOrChgDir os argv i = do {
     name \<leftarrow> word_at argv 0;
     path \<leftarrow> word_at argv 1;
     mode \<leftarrow> map_option atoi (word_at argv 2);
     let f = (if CharUp (char_at name 1) = ch CHR ''M'' then o_makdir os else o_chgdir os);
     let (e, k) = f (sys i) path mode;
     EmptyOrErrorNum e (i\<lparr>sys := k\<rparr>) }"

definition picolCommand9Delete :: "'k ncl_os \<Rightarrow> cstr list \<Rightarrow> 'k interp \<Rightarrow> 'k reply" where
  "picolCommand9Delete os argv i = do {
     path \<leftarrow> word_at argv 1;
     let (e, k) = o_delete os (sys i) path;
     EmptyOrErrorNum (ucast e) (i\<lparr>sys := k\<rparr>) }"

text \<open>\<^verbatim>\<open>source\<close> reads a whole file of at most 16K and evaluates it.  The early returns leave
  the file open.\<close>

definition toobig :: "word16 \<Rightarrow> word16 \<Rightarrow> bool" where
  "toobig x u \<longleftrightarrow> x \<noteq> 0 \<or> sint u < 0 \<or> sint u > 16 * 1024"

definition picolCommandSource :: "'k ncl_os \<Rightarrow> 'k evaluator \<Rightarrow> cstr list \<Rightarrow> 'k interp \<Rightarrow> 'k reply" where
  "picolCommandSource os ev argv i =
     (if argv = [] then None else
      let path = last argv in
      case o_open os (sys i) path 1 of
        (Inl e, k) \<Rightarrow> ErrorNum (ucast e) (i\<lparr>sys := k\<rparr>)
      | (Inr fd, k) \<Rightarrow>
     (case o_getsize os k fd of
        (Inl e, k) \<Rightarrow> ErrorNum e (i\<lparr>sys := k\<rparr>)
      | (Inr (x, u), k) \<Rightarrow>
          if toobig x u then Some (PICOL_ERR, picolSetResult (cs ''toobig'') (i\<lparr>sys := k\<rparr>)) else
     (case o_read os k fd u of
        (Inl e, k) \<Rightarrow> ErrorNum (ucast e) (i\<lparr>sys := k\<rparr>)
      | (Inr buf, k) \<Rightarrow>
          if of_nat (length buf) \<noteq> u then ErrorNum 0 (i\<lparr>sys := k\<rparr>) else
     (case o_close os k fd of
        (e, k) \<Rightarrow> if e \<noteq> 0 then ErrorNum (ucast e) (i\<lparr>sys := k\<rparr>)
                  else ev (c_string buf) path (i\<lparr>sys := k\<rparr>)))))"

section \<open>Printing\<close>

text \<open>\<^verbatim>\<open>Os9_print\<close> writes to the error path, and ends the process on an error or when
  nothing is written.\<close>

function Os9_print :: "'k ncl_os \<Rightarrow> cstr \<Rightarrow> 'k interp \<Rightarrow> 'k interp option" where
  "Os9_print os s i =
     (if s = [] then Some i else
      case o_writln os (sys i) 2 s of
        (Inl e, k) \<Rightarrow> None
      | (Inr cc, k) \<Rightarrow>
          (if cc = 0 \<or> unat cc > length s then None
           else Os9_print os (drop (unat cc) s) (i\<lparr>sys := k\<rparr>)))"
  by pat_completeness auto
termination
  by (relation "measure (\<lambda>(_, s, _). length s)") (auto simp: unat_gt_0)

declare Os9_print.simps [simp del]

text \<open>\<^verbatim>\<open>Printf\<close> writes all of its text to the standard output; an error ends it.\<close>

partial_function (option) print_all :: "'k ncl_os \<Rightarrow> cstr \<Rightarrow> 'k interp \<Rightarrow> 'k interp option" where
  "print_all os s i =
     (if s = [] then Some i else
      case o_writln os (sys i) 1 s of
        (Inl e, k) \<Rightarrow> (if e \<noteq> 0 then Some (i\<lparr>sys := k\<rparr>) else print_all os s (i\<lparr>sys := k\<rparr>))
      | (Inr cc, k) \<Rightarrow>
          (if unat cc > length s then None else print_all os (drop (unat cc) s) (i\<lparr>sys := k\<rparr>)))"

declare print_all.simps [code]

fun print_each :: "'k ncl_os \<Rightarrow> cstr list \<Rightarrow> 'k interp \<Rightarrow> 'k interp option" where
  "print_each os [] i = Some i"
| "print_each os (s # ss) i = do { i \<leftarrow> Os9_print os s i; print_each os ss i }"

section \<open>Looking into the interpreter\<close>

text \<open>A row of names, each with a blank behind it, then the end of the line.\<close>

definition name_row :: "cstr list \<Rightarrow> cstr list" where
  "name_row names = concat (map (\<lambda>s. [s, cs '' '']) names) @ [[10]]"

text \<open>The frames from the current one on; the last one, without a parent, holds the globals.\<close>

fun print_frames :: "'k ncl_os \<Rightarrow> picolVars list \<Rightarrow> 'k interp \<Rightarrow> 'k interp option" where
  "print_frames os [] i = Some i"
| "print_frames os (f # fs) i = do {
     i \<leftarrow> print_each os ((if fs \<noteq> [] then cs '' frame: '' else cs '' globals: '') # name_row (map fst f)) i;
     print_frames os fs i }"

text \<open>The name of an array goes through \<^verbatim>\<open>Printf\<close>, to the standard output.\<close>

fun print_arrays :: "'k ncl_os \<Rightarrow> (cstr \<times> picolVars) list \<Rightarrow> 'k interp \<Rightarrow> 'k interp option" where
  "print_arrays os [] i = Some i"
| "print_arrays os (a # as) i = do {
     calls \<leftarrow> format_calls (cs ''   %s: '') [AStr (Some (fst a))];
     i \<leftarrow> print_all os (calls_text calls) i;
     i \<leftarrow> print_each os (name_row (map fst (snd a))) i;
     print_arrays os as i }"

definition picolCommandInfo :: "'k ncl_os \<Rightarrow> cstr list \<Rightarrow> 'k interp \<Rightarrow> 'k reply" where
  "picolCommandInfo os argv i = do {
     let names = (\<lambda>p. map cmd_name (filter (\<lambda>c. (cmd_func c = CallProc) = p) (Commands i)));
     i \<leftarrow> print_each os (cs '' procs: '' # name_row (names True)) i;
     i \<leftarrow> print_each os (cs '' commands: '' # name_row (names False)) i;
     i \<leftarrow> print_frames os (Callframe i) i;
     i \<leftarrow> Os9_print os (cs '' arrays:'' @ [10]) i;
     i \<leftarrow> print_arrays os (Arrays i) i;
     Some (PICOL_OK, picolSetResult [] i) }"

section \<open>Peek and poke\<close>

definition picolCommandPeek :: "'k ncl_os \<Rightarrow> cstr list \<Rightarrow> 'k interp \<Rightarrow> 'k reply" where
  "picolCommandPeek os argv i = do {
     addr \<leftarrow> map_option atoi (word_at argv 1);
     Some (PICOL_OK, picolSetResult (int_text (ucast (o_byte os i addr))) i) }"

text \<open>
  A store into the code or the data of the interpreter itself has no result here: from there on the C
  program is another one.
\<close>

definition picolCommandPoke :: "'k ncl_os \<Rightarrow> cstr list \<Rightarrow> 'k interp \<Rightarrow> 'k reply" where
  "picolCommandPoke os argv i = do {
     addr \<leftarrow> map_option atoi (word_at argv 1);
     val \<leftarrow> map_option atoi (word_at argv 2);
     if o_own os i addr then None
     else Some (PICOL_OK, picolSetResult [] (i\<lparr>sys := o_store os (sys i) addr (ucast val)\<rparr>)) }"

end
