(* ===== verification/Ncl_Eval.thy ===== *)
theory Ncl_Eval
  imports Ncl_Os9
begin

text \<open>
  The evaluator of the command language (\<^verbatim>\<open>ncl/ncl.c\<close>): the commands that evaluate
  scripts, the dispatch to a command's function, \<^verbatim>\<open>picolEval\<close>, the table of core commands
  and the interactive loop.  A command that evaluates takes the evaluator as an argument;
  \<^verbatim>\<open>picolEval\<close> ties the knot with fuel, which bounds the depth of nested evaluations and
  the number of rounds of one \<^verbatim>\<open>while\<close>.  \<^verbatim>\<open>None\<close> is undefined behaviour, a command
  that does not return (\<^verbatim>\<open>exit\<close>) or too little fuel; the lemmas on fuel show that more of
  it never changes a result.  The body of a procedure that redefines itself is a value
  here; the code frees it while it is evaluated.
\<close>

section \<open>Commands that evaluate\<close>

definition picolCommandIf :: "'k evaluator \<Rightarrow> cstr list \<Rightarrow> 'k interp \<Rightarrow> 'k reply" where
  "picolCommandIf ev argv i = do {
     name \<leftarrow> word_at argv 0;
     if length argv \<noteq> 3 \<and> length argv \<noteq> 5 then picolArityErr name i
     else do {
       (rc, i) \<leftarrow> ev (argv ! 1) (cs ''cond of if'') i;
       if rc \<noteq> PICOL_OK then Some (rc, i)
       else if atoi (Result i) \<noteq> 0 then ev (argv ! 2) (cs ''then of if'') i
       else if length argv = 5 then ev (argv ! 4) (cs ''else of if'') i
       else Some (PICOL_OK, i) } }"

fun and_loop :: "'k evaluator \<Rightarrow> word16 \<Rightarrow> cstr list \<Rightarrow> 'k interp \<Rightarrow> 'k reply" where
  "and_loop ev n [] i = ResultD n i"
| "and_loop ev n (a # as) i = do {
     (e, i) \<leftarrow> ev a (cs ''clause of and'') i;
     if e \<noteq> PICOL_OK then Some (e, i)
     else let n = atoi (Result i) in
       if n = 0 then ResultD 0 i else and_loop ev n as i }"

definition picolCommandAnd :: "'k evaluator \<Rightarrow> cstr list \<Rightarrow> 'k interp \<Rightarrow> 'k reply" where
  "picolCommandAnd ev argv i = and_loop ev 1 (tl argv) i"

fun or_loop :: "'k evaluator \<Rightarrow> cstr list \<Rightarrow> 'k interp \<Rightarrow> 'k reply" where
  "or_loop ev [] i = ResultD 0 i"
| "or_loop ev (a # as) i = do {
     (e, i) \<leftarrow> ev a (cs ''clause of or'') i;
     if e \<noteq> PICOL_OK then Some (e, i)
     else let n = atoi (Result i) in
       if n \<noteq> 0 then ResultD n i else or_loop ev as i }"

definition picolCommandOr :: "'k evaluator \<Rightarrow> cstr list \<Rightarrow> 'k interp \<Rightarrow> 'k reply" where
  "picolCommandOr ev argv i = or_loop ev (tl argv) i"

fun picolCommandWhile :: "nat \<Rightarrow> 'k evaluator \<Rightarrow> cstr list \<Rightarrow> 'k interp \<Rightarrow> 'k reply" where
  "picolCommandWhile 0 ev argv i = None"
| "picolCommandWhile (Suc n) ev argv i = do {
     test \<leftarrow> word_at argv 1;
     body \<leftarrow> word_at argv 2;
     (rc, i) \<leftarrow> ev test (cs ''cond of while'') i;
     if rc \<noteq> PICOL_OK then Some (rc, i)
     else if atoi (Result i) \<noteq> 0 then do {
       (rc, i) \<leftarrow> ev body (cs ''body of while'') i;
       if rc = PICOL_CONTINUE \<or> rc = PICOL_OK then picolCommandWhile n ev argv i
       else if rc = PICOL_BREAK then Some (PICOL_OK, i)
       else Some (rc, i) }
     else Some (PICOL_OK, i) }"

definition picolCommandRetCodes :: "cstr list \<Rightarrow> 'k interp \<Rightarrow> 'k reply" where
  "picolCommandRetCodes argv i = do {
     name \<leftarrow> word_at argv 0;
     Some (if char_at name 0 = ch CHR ''b'' then PICOL_BREAK else PICOL_CONTINUE, i) }"

text \<open>The frame of a call: the parameters, then the rest of the words for \<^verbatim>\<open>args\<close>.\<close>

definition bind_params :: "cstr list \<Rightarrow> cstr list \<Rightarrow> bool \<Rightarrow> 'k interp \<Rightarrow> 'k interp" where
  "bind_params v argv varargs i =
     (let c = length v;
          i = foldl (\<lambda>i k. picolSetVar (v ! k) (argv ! (k + 1)) i) i [0 ..< c - (if varargs then 1 else 0)]
      in if varargs then picolSetVar (cs ''args'') (foldl list_append [] (drop c argv)) i else i)"

definition picolCommandCallProc ::
    "'k evaluator \<Rightarrow> cstr list \<Rightarrow> (cstr \<times> cstr) option \<Rightarrow> 'k interp \<Rightarrow> 'k reply" where
  "picolCommandCallProc ev argv pd i = do {
     (alist, body) \<leftarrow> pd;
     name \<leftarrow> word_at argv 0;
     let i = i\<lparr>Callframe := [] # Callframe i\<rparr>;
     v \<leftarrow> SplitList alist;
     let c = length v;
     let argc = length argv;
     let varargs = (c \<noteq> 0 \<and> strcmp (v ! (c - 1)) (cs ''args'') = 0);
     if (\<not> varargs \<and> c \<noteq> argc - 1) \<or> (varargs \<and> argc - 1 < c - 1) then do {
       errbuf \<leftarrow> snprintf_s (cs ''Proc '' @ [39] @ cs ''%s'' @ [39] @ cs '' called with wrong num args'')
                  [AStr (Some name)];
       Some (PICOL_ERR, picolDropCallFrame (picolSetResult errbuf i)) }
     else do {
       (errcode, i) \<leftarrow> ev body name (bind_params v argv varargs i);
       let errcode = (if errcode = PICOL_RETURN then PICOL_OK else errcode);
       Some (errcode, picolDropCallFrame i) } }"

definition picolCommandProc :: "cstr list \<Rightarrow> 'k interp \<Rightarrow> 'k reply" where
  "picolCommandProc argv i = do {
     name \<leftarrow> word_at argv 1; alist \<leftarrow> word_at argv 2; body \<leftarrow> word_at argv 3;
     Some (PICOL_OK, picolRegisterCommand name 0 0 CallProc (Some (alist, body)) i) }"

definition picolCommandReturn :: "cstr list \<Rightarrow> 'k interp \<Rightarrow> 'k reply" where
  "picolCommandReturn argv i =
     Some (PICOL_RETURN, picolSetResult (if length argv = 2 then argv ! 1 else []) i)"

definition picolCommandEval :: "'k evaluator \<Rightarrow> cstr list \<Rightarrow> 'k interp \<Rightarrow> 'k reply" where
  "picolCommandEval ev argv i =
     ev (foldl (\<lambda>buf a. buf @ ch CHR '' '' # a) [] (tl argv)) (cs ''eval'') i"

definition picolCommandCatch :: "'k evaluator \<Rightarrow> cstr list \<Rightarrow> 'k interp \<Rightarrow> 'k reply" where
  "picolCommandCatch ev argv i = do {
     body \<leftarrow> word_at argv 1;
     (e, i) \<leftarrow> ev body (cs ''catch'') i;
     let i = (if length argv = 3 then picolSetVar (argv ! 2) (Result i) i else i);
     ResultD (retcode_num e) i }"

fun foreach_loop :: "'k evaluator \<Rightarrow> cstr \<Rightarrow> cstr \<Rightarrow> cstr list \<Rightarrow> 'k interp \<Rightarrow> 'k reply" where
  "foreach_loop ev var body [] i = Some (PICOL_OK, picolSetResult [] i)"
| "foreach_loop ev var body (x # xs) i = do {
     (e, i) \<leftarrow> ev body (cs ''body of foreach'') (picolSetVar var x i);
     if e = PICOL_CONTINUE then foreach_loop ev var body xs i
     else if e = PICOL_BREAK then Some (PICOL_OK, picolSetResult [] i)
     else if e \<noteq> PICOL_OK then Some (e, i)
     else foreach_loop ev var body xs i }"

definition picolCommandForEach :: "'k evaluator \<Rightarrow> cstr list \<Rightarrow> 'k interp \<Rightarrow> 'k reply" where
  "picolCommandForEach ev argv i = do {
     var \<leftarrow> word_at argv 1; lst \<leftarrow> word_at argv 2; body \<leftarrow> word_at argv 3;
     v \<leftarrow> SplitList lst;
     foreach_loop ev var body v i }"

section \<open>Dispatch\<close>

definition run_func ::
    "'k ncl_os \<Rightarrow> nat \<Rightarrow> 'k evaluator \<Rightarrow> picolCmdFunc \<Rightarrow> cstr list \<Rightarrow> (cstr \<times> cstr) option \<Rightarrow>
     'k interp \<Rightarrow> 'k reply" where
  "run_func os n ev f argv pd i =
     (case f of
        Math \<Rightarrow> picolCommandMath argv i
      | StringRelOp \<Rightarrow> picolCommandStringRelOp argv i
      | Set_f \<Rightarrow> picolCommandSet argv i
      | Puts \<Rightarrow> picolCommandPuts os argv i
      | Gets \<Rightarrow> picolCommandGets os argv i
      | If_f \<Rightarrow> picolCommandIf ev argv i
      | And_f \<Rightarrow> picolCommandAnd ev argv i
      | Or_f \<Rightarrow> picolCommandOr ev argv i
      | While_f \<Rightarrow> picolCommandWhile n ev argv i
      | RetCodes \<Rightarrow> picolCommandRetCodes argv i
      | Proc \<Rightarrow> picolCommandProc argv i
      | Return \<Rightarrow> picolCommandReturn argv i
      | Info \<Rightarrow> picolCommandInfo os argv i
      | ForEach \<Rightarrow> picolCommandForEach ev argv i
      | Eval \<Rightarrow> picolCommandEval ev argv i
      | Catch \<Rightarrow> picolCommandCatch ev argv i
      | List_f \<Rightarrow> picolCommandList argv i
      | ExplodeCmd \<Rightarrow> picolCommandExplode argv i
      | ImplodeCmd \<Rightarrow> picolCommandImplode argv i
      | Peek \<Rightarrow> picolCommandPeek os argv i
      | Poke \<Rightarrow> picolCommandPoke os argv i
      | Incr \<Rightarrow> picolCommandIncr argv i
      | Append \<Rightarrow> picolCommandAppend argv i
      | ListAppend \<Rightarrow> picolCommandListAppend argv i
      | ListLength \<Rightarrow> picolCommandListLength argv i
      | ListRangeOrIndex \<Rightarrow> picolCommandListRangeOrIndex argv i
      | StringLength \<Rightarrow> picolCommandStringLength argv i
      | StringRangeOrIndex \<Rightarrow> picolCommandStringRangeOrIndex argv i
      | StringUpperOrLower \<Rightarrow> picolCommandStringUpperOrLower argv i
      | StringMatchOrRegexp \<Rightarrow> picolCommandStringMatchOrRegexp (o_re_match os) argv i
      | Array \<Rightarrow> picolCommandArray argv i
      | Split \<Rightarrow> picolCommandSplit argv i
      | Join \<Rightarrow> picolCommandJoin argv i
      | Error \<Rightarrow> picolCommandError argv i
      | CallProc \<Rightarrow> picolCommandCallProc ev argv pd i
      | Exit9 \<Rightarrow> None
      | Source \<Rightarrow> picolCommandSource os ev argv i
      | Kill9 \<Rightarrow> picolCommand9Kill os argv i
      | Chain9 \<Rightarrow> picolCommand9Chain os argv i
      | Fork9 \<Rightarrow> picolCommand9Fork os argv i
      | Wait9 \<Rightarrow> picolCommand9Wait os argv i
      | FileSize9 \<Rightarrow> picolCommand9FileSize os argv i
      | Dup9 \<Rightarrow> picolCommand9Dup os argv i
      | Close9 \<Rightarrow> picolCommand9Close os argv i
      | Sleep9 \<Rightarrow> picolCommand9Sleep os argv i
      | MakOrChgDir9 \<Rightarrow> picolCommand9MakOrChgDir os argv i
      | Open9 \<Rightarrow> picolCommand9Open os argv i
      | Create9 \<Rightarrow> picolCommand9Create os argv i
      | Delete9 \<Rightarrow> picolCommand9Delete os argv i
      | Read9 \<Rightarrow> picolCommand9Read os argv i)"

type_synonym 'k runner =
  "picolCmdFunc \<Rightarrow> cstr list \<Rightarrow> (cstr \<times> cstr) option \<Rightarrow> 'k interp \<Rightarrow> 'k reply"

text \<open>The call of a found command.  The second test of the code repeats the first one, so
  \<^verbatim>\<open>maxArgc\<close> is never looked at.\<close>

definition call_cmd :: "'k runner \<Rightarrow> picolCmd \<Rightarrow> cstr list \<Rightarrow> 'k interp \<Rightarrow> 'k reply" where
  "call_cmd run c argv i =
     (if minArgc c \<noteq> 0 \<and> length argv < unat (minArgc c) then picolArityErr (hd argv) i
      else if minArgc c \<noteq> 0 \<and> length argv < unat (minArgc c) then picolArityErr (hd argv) i
      else run (cmd_func c) argv (privdata c) i)"

text \<open>The words of a missing command go to \<^verbatim>\<open>unknown\<close>, one place up in a new array.  The
  loops that free the words then run over the old array with the count of the new one.
  The word behind an array of 4, 8, 16, ... words is not in its block.\<close>

fun full_block :: "nat \<Rightarrow> bool" where
  "full_block argc = (if argc \<le> 4 then argc = 4 else even argc \<and> full_block (argc div 2))"

declare full_block.simps [simp del]

definition run_words :: "'k runner \<Rightarrow> cstr list \<Rightarrow> 'k interp \<Rightarrow> 'k reply" where
  "run_words run argv i =
     (case picolGetCommand (hd argv) i of
        Some c \<Rightarrow> call_cmd run c argv i
      | None \<Rightarrow>
          (case (if strcmp (hd argv) (cs ''unknown'') \<noteq> 0 then picolGetCommand (cs ''unknown'') i else None) of
             Some c \<Rightarrow>
               (if full_block (length argv) then None
                else call_cmd run c (cs ''unknown'' # argv) i)
           | None \<Rightarrow> do {
               errbuf \<leftarrow> snprintf_s (cs ''No such command '' @ [39] @ cs ''%s'' @ [39]) [AStr (Some (hd argv))];
               Some (PICOL_ERR, picolSetResult errbuf i) }))"

section \<open>Evaluation\<close>

text \<open>The value of a token: the text itself, a variable's value, or the result of a nested
  script.  A failure carries its return code.\<close>

definition token_value :: "'k evaluator \<Rightarrow> picolParser \<Rightarrow> 'k interp \<Rightarrow>
    ((retcode + cstr) \<times> 'k interp) option" where
  "token_value ev p i =
     (if type_p p = PT_VAR then
        (case picolGetVar (token p) i of
           None \<Rightarrow> do {
             errbuf \<leftarrow> snprintf_s (cs ''No such variable '' @ [39] @ cs ''%s'' @ [39]) [AStr (Some (token p))];
             Some (Inl PICOL_ERR, picolSetResult errbuf i) }
         | Some val \<Rightarrow> Some (Inr val, i))
      else if type_p p = PT_CMD then do {
        (rc, i) \<leftarrow> ev (token p) (cs ''[...]'') i;
        Some (if rc \<noteq> PICOL_OK then Inl rc else Inr (Result i), i) }
      else Some (Inr (token p), i))"

text \<open>A token makes a new word, or is appended to the last one.\<close>

definition add_token :: "tok \<Rightarrow> cstr \<Rightarrow> cstr list \<Rightarrow> cstr list option" where
  "add_token prevtype t argv =
     (if prevtype = PT_SEP \<or> prevtype = PT_EOL then Some (argv @ [t])
      else if argv = [] then None
      else Some (butlast argv @ [last argv @ t]))"

text \<open>What is left to read; the end of the last line counts once.\<close>

definition parser_left :: "picolParser \<Rightarrow> nat" where
  "parser_left p = 2 * length (rest_p p) + (if type_p p \<in> {PT_EOL, PT_EOF} then 0 else 1)"

lemma picolGetToken_left:
  "picolGetToken p = Some p' \<Longrightarrow> type_p p' \<noteq> PT_EOF \<Longrightarrow> parser_left p' < parser_left p"
  using picolGetToken_shorter [of p p'] by (auto simp: parser_left_def split: if_splits)

function eval_loop :: "'k evaluator \<Rightarrow> 'k runner \<Rightarrow> picolParser \<Rightarrow> cstr list \<Rightarrow> 'k interp \<Rightarrow> 'k reply" where
  "eval_loop ev run p argv i =
     (case picolGetToken p of
        None \<Rightarrow> None
      | Some p' \<Rightarrow>
          if type_p p' = PT_EOF then Some (PICOL_OK, i)
          else
            (case token_value ev p' i of
               None \<Rightarrow> None
             | Some (Inl rc, i) \<Rightarrow> Some (rc, i)
             | Some (Inr t, i) \<Rightarrow>
                 if type_p p' = PT_SEP then eval_loop ev run p' argv i
                 else if type_p p' = PT_EOL then
                   (if argv = [] then eval_loop ev run p' [] i
                    else
                      (case run_words run argv i of
                         None \<Rightarrow> None
                       | Some (rc, i) \<Rightarrow>
                           if rc \<noteq> PICOL_OK then Some (rc, i) else eval_loop ev run p' [] i))
                 else
                   (case add_token (type_p p) t argv of
                      None \<Rightarrow> None
                    | Some argv \<Rightarrow> eval_loop ev run p' argv i)))"
  by pat_completeness auto

termination
  by (relation "measure (\<lambda>(_, _, p, _). parser_left p)") (auto intro: picolGetToken_left)

declare eval_loop.simps [simp del]

definition eval_script :: "'k evaluator \<Rightarrow> 'k runner \<Rightarrow> 'k evaluator" where
  "eval_script ev run t whr i = do {
     (rc, i) \<leftarrow> eval_loop ev run (picolInitParser t) [] (picolSetResult [] i);
     Some (rc, if rc = PICOL_ERR then picolAppendResult whr (picolAppendResult (cs ''; in '') i) else i) }"

fun picolEval :: "'k ncl_os \<Rightarrow> nat \<Rightarrow> 'k evaluator" where
  "picolEval os 0 t whr i = None"
| "picolEval os (Suc n) t whr i = eval_script (picolEval os n) (run_func os n (picolEval os n)) t whr i"

section \<open>The core commands\<close>

definition core_table :: "(string \<times> byte \<times> byte \<times> picolCmdFunc) list" where
  "core_table =
     map (\<lambda>p. (p, 0, 0, Math))
       [''+'', ''-'', ''*'', ''/'', ''%'', ''>'', ''>='', ''<'', ''<='', ''=='', ''!='',
        ''bitand'', ''bitor'', ''bitxor'', ''<<'', ''>>'', ''>>>''] @
     map (\<lambda>p. (p, 3, 3, StringRelOp)) [''eq'', ''ne'', ''lt'', ''le'', ''gt'', ''ge''] @
     [(''set'', 2, 3, Set_f), (''puts'', 0, 0, Puts), (''gets'', 3, 3, Gets), (''if'', 0, 0, If_f),
      (''and'', 0, 0, And_f), (''or'', 0, 0, Or_f), (''while'', 3, 3, While_f),
      (''break'', 1, 1, RetCodes), (''continue'', 1, 1, RetCodes), (''proc'', 4, 4, Proc),
      (''return'', 1, 2, Return), (''info'', 1, 1, Info), (''foreach'', 4, 4, ForEach),
      (''eval'', 0, 0, Eval), (''catch'', 2, 3, Catch), (''list'', 0, 0, List_f),
      (''explode'', 2, 2, ExplodeCmd), (''implode'', 2, 2, ImplodeCmd), (''peek'', 2, 2, Peek),
      (''poke'', 3, 3, Poke), (''incr'', 2, 3, Incr), (''append'', 2, 0, Append),
      (''lappend'', 2, 0, ListAppend), (''llength'', 2, 2, ListLength),
      (''lindex'', 3, 3, ListRangeOrIndex), (''lrange'', 4, 4, ListRangeOrIndex),
      (''slength'', 2, 2, StringLength), (''sindex'', 3, 3, StringRangeOrIndex),
      (''srange'', 4, 4, StringRangeOrIndex), (''supper'', 2, 2, StringUpperOrLower),
      (''slower'', 2, 2, StringUpperOrLower), (''smatch'', 3, 3, StringMatchOrRegexp),
      (''sregexp'', 3, 3, StringMatchOrRegexp), (''array'', 1, 4, Array), (''split'', 2, 3, Split),
      (''join'', 2, 3, Join), (''error'', 2, 2, Error),
      (''exit'', 1, 2, Exit9), (''source'', 2, 2, Source), (''kill'', 2, 3, Kill9),
      (''9chain'', 2, 0, Chain9), (''9fork'', 0, 0, Fork9), (''9wait'', 1, 3, Wait9),
      (''9filesize'', 2, 2, FileSize9), (''9dup'', 2, 2, Dup9), (''9close'', 2, 2, Close9),
      (''9sleep'', 2, 2, Sleep9), (''9chgdir'', 3, 3, MakOrChgDir9), (''9makdir'', 3, 3, MakOrChgDir9),
      (''9open'', 3, 3, Open9), (''9create'', 4, 4, Create9), (''9delete'', 2, 2, Delete9),
      (''9read'', 3, 3, Read9)]"

definition picolRegisterCoreCommands :: "'k interp \<Rightarrow> 'k interp" where
  "picolRegisterCoreCommands i =
     foldl (\<lambda>i (name, mn, mx, f). picolRegisterCommand (cs name) mn mx f None i) i core_table"

definition initial_interp :: "'k \<Rightarrow> 'k interp" where
  "initial_interp k =
     picolSetVar (cs ''rcfile'') (cs ''/dd/sys/nclrc.tcl'') (picolRegisterCoreCommands (picolInitInterp k))"

section \<open>The main program\<close>

text \<open>A script given on the command line, with its arguments as a list in \<^verbatim>\<open>argv\<close>.\<close>

definition main_script :: "'k ncl_os \<Rightarrow> nat \<Rightarrow> cstr list \<Rightarrow> 'k interp \<Rightarrow> 'k reply" where
  "main_script os n args i = do {
     script \<leftarrow> word_at args 0;
     let i = picolSetVar (cs ''argv0'') script i;
     let i = picolSetVar (cs ''argv'') (foldl list_append [] (tl args)) i;
     picolEval os n (foldl list_append [] [cs ''source'', script]) (cs ''__main__'') i }"

text \<open>One line of the interactive loop: \<^verbatim>\<open>Inl\<close> when the loop ends.  A line that fills the
  111 bytes of the buffer is not terminated.\<close>

definition repl_line :: "'k ncl_os \<Rightarrow> nat \<Rightarrow> 'k interp \<Rightarrow> ('k interp + 'k interp) option" where
  "repl_line os n i = do {
     i \<leftarrow> Os9_print os (cs '' >NCL> '') i;
     (case o_readln os (sys i) 0 111 of
        (Inl e, k) \<Rightarrow> map_option Inl (Os9_print os (cs '' *EOF*'' @ [10]) (i\<lparr>sys := k\<rparr>))
      | (Inr bytes, k) \<Rightarrow>
          (let i = i\<lparr>sys := k\<rparr> in
           if peek bytes = ch CHR '';'' then Some (Inl i)
           else if length bytes \<ge> 111 \<and> 0 \<notin> set bytes then None
           else do {
             (e, i) \<leftarrow> picolEval os n (c_string bytes) (cs ''__repl__'') i;
             if e \<noteq> PICOL_OK then do {
               i \<leftarrow> Os9_print os (cs '' ERROR: '') i;
               code \<leftarrow> (if retcode_num e > 1 then map_option calls_text (format_calls (cs ''CODE=%d: '') [AInt (retcode_num e)])
                       else Some []);
               i \<leftarrow> print_all os code i;
               i \<leftarrow> Os9_print os (Result i) i;
               map_option Inr (Os9_print os [10] i) }
             else if Result i \<noteq> [] then do {
               i \<leftarrow> Os9_print os (Result i) i;
               map_option Inr (Os9_print os [10] i) }
             else Some (Inr i) })) }"
end
