(* ===== verification/Ncl_Sound.thy ===== *)
theory Ncl_Sound
  imports Ncl_Eval
begin

text \<open>
  Properties of the evaluator: more fuel never changes a result, evaluation keeps the frames
  of the callers, procedures see exactly their parameters, loops run as long as their
  condition holds, and the core commands are found in the table.
\<close>

section \<open>Fuel\<close>

text \<open>A reply with less fuel is missing or the same; the constructs of the commands keep
  this order.\<close>

definition opt_le :: "'a option \<Rightarrow> 'a option \<Rightarrow> bool" where
  "opt_le a b \<longleftrightarrow> a = None \<or> a = b"

named_theorems opt_le_intros

lemma opt_le_refl [opt_le_intros]: "opt_le a a"
  by (simp add: opt_le_def)

lemma opt_le_bind [opt_le_intros]:
  "opt_le a b \<Longrightarrow> (\<And>x. opt_le (f x) (g x)) \<Longrightarrow> opt_le (Option.bind a f) (Option.bind b g)"
  by (auto simp: opt_le_def Option.bind_eq_None_conv) (metis option.exhaust bind.bind_lunit)

lemma opt_le_if [opt_le_intros]:
  "opt_le a b \<Longrightarrow> opt_le c d \<Longrightarrow> opt_le (if p then a else c) (if p then b else d)"
  by simp

lemma opt_le_prod [opt_le_intros]:
  "(\<And>a b. opt_le (f a b) (g a b)) \<Longrightarrow> opt_le (case x of (a, b) \<Rightarrow> f a b) (case x of (a, b) \<Rightarrow> g a b)"
  by (cases x) simp

lemma opt_le_sum [opt_le_intros]:
  "(\<And>a. opt_le (f a) (f' a)) \<Longrightarrow> (\<And>b. opt_le (g b) (g' b)) \<Longrightarrow>
   opt_le (case x of Inl a \<Rightarrow> f a | Inr b \<Rightarrow> g b) (case x of Inl a \<Rightarrow> f' a | Inr b \<Rightarrow> g' b)"
  by (cases x) simp_all

lemma opt_le_option [opt_le_intros]:
  "opt_le f f' \<Longrightarrow> (\<And>b. opt_le (g b) (g' b)) \<Longrightarrow>
   opt_le (case x of None \<Rightarrow> f | Some b \<Rightarrow> g b) (case x of None \<Rightarrow> f' | Some b \<Rightarrow> g' b)"
  by (cases x) simp_all

lemma opt_le_case [opt_le_intros]:
  "opt_le a b \<Longrightarrow> (\<And>x. opt_le (f x) (g x)) \<Longrightarrow>
   opt_le (case a of None \<Rightarrow> None | Some x \<Rightarrow> f x) (case b of None \<Rightarrow> None | Some x \<Rightarrow> g x)"
  by (auto simp: opt_le_def split: option.splits)

definition ev_le :: "'k evaluator \<Rightarrow> 'k evaluator \<Rightarrow> bool" where
  "ev_le f g \<longleftrightarrow> (\<forall>t w i. opt_le (f t w i) (g t w i))"

definition run_le :: "'k runner \<Rightarrow> 'k runner \<Rightarrow> bool" where
  "run_le f g \<longleftrightarrow> (\<forall>c argv pd i. opt_le (f c argv pd i) (g c argv pd i))"

lemma ev_leD: "ev_le f g \<Longrightarrow> opt_le (f t w i) (g t w i)"
  unfolding ev_le_def by blast

lemma run_leD: "run_le f g \<Longrightarrow> opt_le (f c argv pd i) (g c argv pd i)"
  unfolding run_le_def by blast

lemma If_le:
  assumes le: "ev_le f g"
  shows "opt_le (picolCommandIf f argv i) (picolCommandIf g argv i)"
  unfolding picolCommandIf_def by (intro opt_le_intros ev_leD [OF le])

lemma and_loop_le:
  assumes le: "ev_le f g"
  shows "opt_le (and_loop f n as i) (and_loop g n as i)"
proof (induction as arbitrary: n i)
  case (Cons a as)
  show ?case unfolding and_loop.simps Let_def by (intro opt_le_intros ev_leD [OF le] Cons)
qed (simp add: opt_le_refl)

lemma or_loop_le:
  assumes le: "ev_le f g"
  shows "opt_le (or_loop f as i) (or_loop g as i)"
proof (induction as arbitrary: i)
  case (Cons a as)
  show ?case unfolding or_loop.simps Let_def by (intro opt_le_intros ev_leD [OF le] Cons)
qed (simp add: opt_le_refl)

lemma While_le:
  assumes le: "ev_le f g"
  shows "n \<le> m \<Longrightarrow> opt_le (picolCommandWhile n f argv i) (picolCommandWhile m g argv i)"
proof (induction n arbitrary: m i)
  case (Suc n)
  then obtain k where m: "m = Suc k" "n \<le> k" by (cases m) auto
  show ?case unfolding m(1) picolCommandWhile.simps
    by (intro opt_le_intros ev_leD [OF le] Suc.IH [OF m(2)])
qed (simp add: opt_le_def)

lemma foreach_loop_le:
  assumes le: "ev_le f g"
  shows "opt_le (foreach_loop f var body xs i) (foreach_loop g var body xs i)"
proof (induction xs arbitrary: i)
  case (Cons a xs)
  show ?case unfolding foreach_loop.simps Let_def by (intro opt_le_intros ev_leD [OF le] Cons)
qed (simp add: opt_le_refl)

lemma CallProc_le:
  assumes le: "ev_le f g"
  shows "opt_le (picolCommandCallProc f argv pd i) (picolCommandCallProc g argv pd i)"
  unfolding picolCommandCallProc_def Let_def by (intro opt_le_intros ev_leD [OF le])

lemma Source_le:
  assumes le: "ev_le f g"
  shows "opt_le (picolCommandSource os f argv i) (picolCommandSource os g argv i)"
  unfolding picolCommandSource_def Let_def by (intro opt_le_intros ev_leD [OF le])

lemma simple_le:
  assumes le: "ev_le f g"
  shows "opt_le (picolCommandForEach f argv i) (picolCommandForEach g argv i)"
  "opt_le (picolCommandCatch f argv i) (picolCommandCatch g argv i)"
  "opt_le (picolCommandEval f argv i) (picolCommandEval g argv i)"
  "opt_le (picolCommandAnd f argv i) (picolCommandAnd g argv i)"
  "opt_le (picolCommandOr f argv i) (picolCommandOr g argv i)"
  unfolding picolCommandForEach_def picolCommandCatch_def picolCommandEval_def Let_def
    picolCommandAnd_def picolCommandOr_def
  by (intro opt_le_intros ev_leD [OF le] foreach_loop_le [OF le] and_loop_le [OF le] or_loop_le [OF le])+

lemma run_func_le:
  assumes le: "ev_le f g"
  shows "n \<le> m \<Longrightarrow> run_le (run_func os n f) (run_func os m g)"
  unfolding run_le_def run_func_def
  by (intro allI) (simp add: opt_le_refl If_le [OF le] While_le [OF le] CallProc_le [OF le] Source_le [OF le] simple_le [OF le]
      split: picolCmdFunc.split)

lemma token_value_le:
  assumes le: "ev_le f g"
  shows "opt_le (token_value f p i) (token_value g p i)"
  unfolding token_value_def by (intro opt_le_intros ev_leD [OF le])

lemma run_words_le:
  assumes le: "ev_le f g"
  shows "run_le u v \<Longrightarrow> opt_le (run_words u argv i) (run_words v argv i)"
  unfolding run_words_def call_cmd_def by (intro opt_le_intros run_leD)


lemma eval_loop_le:
  assumes "ev_le f g" "run_le u v"
  shows "opt_le (eval_loop f u p argv i) (eval_loop g v p argv i)"
proof (induction "parser_left p" arbitrary: p argv i rule: less_induct)
  case less
  have IH: "opt_le (eval_loop f u p' argv i) (eval_loop g v p' argv i)"
    if "picolGetToken p = Some p'" "type_p p' \<noteq> PT_EOF" for p' argv i
    using less picolGetToken_left [OF that] by blast
  show ?case
  proof (cases "picolGetToken p")
    case None
    then show ?thesis by (simp add: eval_loop.simps [of _ _ p] opt_le_refl)
  next
    case (Some p')
    show ?thesis
    proof (cases "type_p p' = PT_EOF")
      case True
      then show ?thesis using Some by (simp add: eval_loop.simps [of _ _ p] opt_le_refl)
    next
      case False
      show ?thesis
        unfolding eval_loop.simps [of _ _ p] Some option.case if_not_P [OF False]
        by (intro opt_le_intros token_value_le [OF assms(1)] run_words_le [OF assms] IH [OF Some False])
    qed
  qed
qed

lemma picolEval_le: "n \<le> m \<Longrightarrow> ev_le (picolEval os n) (picolEval os m)"
proof (induction n arbitrary: m)
  case 0
  then show ?case by (simp add: ev_le_def opt_le_def)
next
  case (Suc n)
  then obtain k where m: "m = Suc k" "n \<le> k" by (cases m) auto
  have le: "ev_le (picolEval os n) (picolEval os k)" by (rule Suc.IH [OF m(2)])
  show ?case unfolding ev_le_def m(1) picolEval.simps eval_script_def
    by (intro allI opt_le_intros eval_loop_le le run_func_le [OF le m(2)])
qed

section \<open>Frames of the callers\<close>

definition keeps :: "'k interp \<Rightarrow> 'k interp \<Rightarrow> bool" where
  "keeps i i' \<longleftrightarrow> tl (Callframe i') = tl (Callframe i) \<and> (Callframe i \<noteq> [] \<longrightarrow> Callframe i' \<noteq> [])"

lemma keeps_trans: "keeps i j \<Longrightarrow> keeps j k \<Longrightarrow> keeps i k"
  by (simp add: keeps_def)

lemma keeps_simps [simp]:
  "keeps i i"
  "keeps i (j\<lparr>Result := x\<rparr>) \<longleftrightarrow> keeps i j"
  "keeps i (j\<lparr>sys := k\<rparr>) \<longleftrightarrow> keeps i j"
  "keeps i (j\<lparr>Arrays := a\<rparr>) \<longleftrightarrow> keeps i j"
  "keeps i (j\<lparr>Commands := c\<rparr>) \<longleftrightarrow> keeps i j"
  "keeps i (picolSetResult x j) \<longleftrightarrow> keeps i j"
  "keeps i (picolMoveToResult x j) \<longleftrightarrow> keeps i j"
  "keeps i (picolAppendResult x j) \<longleftrightarrow> keeps i j"
  "keeps (i\<lparr>sys := k\<rparr>) j \<longleftrightarrow> keeps i j"
  "keeps (i\<lparr>Result := x\<rparr>) j \<longleftrightarrow> keeps i j"
  "keeps (picolSetVar n v i) j \<longleftrightarrow> tl (Callframe j) = tl (Callframe i) \<and> Callframe j \<noteq> []"
  by (auto simp: keeps_def picolSetResult_def picolMoveToResult_def picolAppendResult_def picolSetVar_def)

lemma keeps_set [simp]: "keeps i j \<Longrightarrow> keeps i (picolSetVar n v j)"
  by (simp add: keeps_def picolSetVar_def)

lemma keeps_register [simp]: "keeps i j \<Longrightarrow> keeps i (picolRegisterCommand n mn mx f pd j)"
  by (simp add: picolRegisterCommand_def Let_def)

definition kept :: "'k interp \<Rightarrow> ('a \<times> 'k interp) option \<Rightarrow> bool" where
  "kept i m \<longleftrightarrow> (\<forall>x i'. m = Some (x, i') \<longrightarrow> keeps i i')"

named_theorems kept_intros

lemma kept_Some [simp]: "kept i (Some (x, i')) \<longleftrightarrow> keeps i i'"
  and kept_None [simp]: "kept i None"
  by (simp_all add: kept_def)

lemma kept_do [kept_intros]:
  assumes "kept i m" "\<And>x j. kept j (f x j)"
  shows "kept i (do { (x, j) \<leftarrow> m; f x j })"
  unfolding kept_def
proof (intro allI impI)
  fix y i' assume "(do { (x, j) \<leftarrow> m; f x j }) = Some (y, i')"
  then obtain x j where "m = Some (x, j)" "f x j = Some (y, i')" by (auto simp: Option.bind_eq_Some_conv)
  then show "keeps i i'" using assms keeps_trans unfolding kept_def by blast
qed

lemma kept_pure [kept_intros]: "(\<And>x. kept i (f x)) \<Longrightarrow> kept i (Option.bind m f)"
  by (auto simp: kept_def Option.bind_eq_Some_conv)

lemma kept_if [kept_intros]: "kept i a \<Longrightarrow> kept i b \<Longrightarrow> kept i (if p then a else b)"
  by simp

lemma kept_prod [kept_intros]: "(\<And>a b. kept i (f a b)) \<Longrightarrow> kept i (case x of (a, b) \<Rightarrow> f a b)"
  by (cases x) simp

lemma kept_option [kept_intros]:
  "kept i f \<Longrightarrow> (\<And>b. kept i (g b)) \<Longrightarrow> kept i (case x of None \<Rightarrow> f | Some b \<Rightarrow> g b)"
  by (cases x) simp_all

lemma kept_sum [kept_intros]:
  "(\<And>a. kept i (f a)) \<Longrightarrow> (\<And>b. kept i (g b)) \<Longrightarrow> kept i (case x of Inl a \<Rightarrow> f a | Inr b \<Rightarrow> g b)"
  by (cases x) simp_all

lemma kept_results [simp]:
  assumes "keeps i j"
  shows "kept i (ResultD x j)" "kept i (ErrorNum x j)" "kept i (EmptyOrErrorNum x j)"
    "kept i (IntOrErrorNum x y j)" "kept i (NotFound j)" "kept i (picolArityErr n j)"
    "kept i (ResultFormat fmt ap j)"
  using assms
  by (auto simp: kept_def EmptyOrErrorNum_def IntOrErrorNum_def NotFound_def picolArityErr_def ResultFormat_def
      Option.bind_eq_Some_conv split: if_splits)

lemma kept_from: "keeps i j \<Longrightarrow> kept j m \<Longrightarrow> kept i m"
  unfolding kept_def using keeps_trans by blast

lemma value_commands_kept:
  "kept i (picolCommandMath argv i)" "kept i (picolCommandStringRelOp argv i)" "kept i (picolCommandSet argv i)"
  "kept i (picolCommandRetCodes argv i)" "kept i (picolCommandProc argv i)" "kept i (picolCommandReturn argv i)"
  "kept i (picolCommandList argv i)" "kept i (picolCommandExplode argv i)" "kept i (picolCommandImplode argv i)"
  "kept i (picolCommandArray argv i)" "kept i (picolCommandSplit argv i)" "kept i (picolCommandJoin argv i)"
  "kept i (picolCommandError argv i)"
  unfolding picolCommandMath_def picolCommandStringRelOp_def picolCommandSet_def
    picolCommandRetCodes_def picolCommandProc_def picolCommandReturn_def picolCommandList_def
    picolCommandExplode_def picolCommandImplode_def 
    picolCommandArray_def picolCommandSplit_def picolCommandJoin_def
    picolCommandError_def Let_def
  by ((intro kept_intros)?; simp)+

lemma kept_make_var:
  assumes "\<And>v j. keeps i j \<Longrightarrow> kept i (f v j)"
  shows "kept i (case make_var n d i of (v, j) \<Rightarrow> f v j)"
  using assms by (auto simp: make_var_def split: option.splits)

lemma variable_commands_kept:
  "kept i (picolCommandIncr argv i)" "kept i (picolCommandAppend argv i)" "kept i (picolCommandListAppend argv i)"
  unfolding picolCommandIncr_def picolCommandAppend_def picolCommandListAppend_def Let_def
  by (rule kept_pure, rule kept_make_var, simp)+

lemma list_commands_kept:
  "kept i (picolCommandListLength argv i)" "kept i (picolCommandListRangeOrIndex argv i)"
  "kept i (picolCommandStringLength argv i)" "kept i (picolCommandStringRangeOrIndex argv i)"
  "kept i (picolCommandStringUpperOrLower argv i)" "kept i (picolCommandStringMatchOrRegexp re argv i)"
  unfolding picolCommandListLength_def picolCommandListRangeOrIndex_def
    picolCommandStringLength_def picolCommandStringRangeOrIndex_def picolCommandStringUpperOrLower_def
    picolCommandStringMatchOrRegexp_def Let_def
  by ((intro kept_intros)?; simp)+

lemma keeps_writln: "writln os fd s i = (e, j) \<Longrightarrow> keeps i j"
  by (auto simp: writln_def split: prod.splits sum.splits)

lemma kept_writln:
  assumes "\<And>e j. keeps i j \<Longrightarrow> kept j (f e j)"
  shows "kept i (case writln os fd s i of (e, j) \<Rightarrow> f e j)"
  using assms keeps_writln kept_from by (fastforce split: prod.split)

lemma Puts_kept: "kept i (picolCommandPuts os argv i)"
  unfolding picolCommandPuts_def Let_def
  by (intro kept_pure kept_if kept_writln; simp)

lemma kept_int_reply [simp]: "kept i (int_reply r i)"
  unfolding int_reply_def by (intro kept_intros; simp)

lemma system_commands_kept:
  "kept i (picolCommand9Read os argv i)" "kept i (picolCommandGets os argv i)"
  "kept i (picolCommand9Chain os argv i)" "kept i (picolCommand9Fork os argv i)"
  "kept i (picolCommand9FileSize os argv i)" "kept i (picolCommand9Wait os argv i)"
  "kept i (picolCommand9Kill os argv i)" "kept i (picolCommand9Sleep os argv i)"
  "kept i (picolCommand9Dup os argv i)" "kept i (picolCommand9Close os argv i)"
  "kept i (picolCommand9Create os argv i)" "kept i (picolCommand9Open os argv i)"
  "kept i (picolCommand9MakOrChgDir os argv i)" "kept i (picolCommand9Delete os argv i)"
  unfolding picolCommand9Read_def picolCommandGets_def picolCommand9Chain_def picolCommand9Fork_def
    picolCommand9FileSize_def picolCommand9Wait_def picolCommand9Kill_def picolCommand9Sleep_def
    picolCommand9Dup_def picolCommand9Close_def picolCommand9Create_def picolCommand9Open_def
    picolCommand9MakOrChgDir_def picolCommand9Delete_def Let_def
  by ((intro kept_intros)?; simp)+

definition ev_keeps :: "'k evaluator \<Rightarrow> bool" where
  "ev_keeps ev \<longleftrightarrow> (\<forall>t w i. kept i (ev t w i))"

lemma ev_keepsD: "ev_keeps ev \<Longrightarrow> keeps i j \<Longrightarrow> kept i (ev t w j)"
  using kept_from unfolding ev_keeps_def by blast

text \<open>Printing changes the kernel's state only.\<close>

lemma keeps_sys: "j = i\<lparr>sys := k\<rparr> \<Longrightarrow> keeps i j"
  by simp

lemma Os9_print_keeps: "Os9_print os s i = Some j \<Longrightarrow> keeps i j"
proof (induction os s i rule: Os9_print.induct)
  case (1 os s i)
  show ?case
  proof (cases "s = []")
    case False
    then obtain cc k where c: "o_writln os (sys i) 2 s = (Inr cc, k)" "\<not> (cc = 0 \<or> unat cc > length s)"
        "Os9_print os (drop (unat cc) s) (i\<lparr>sys := k\<rparr>) = Some j"
      using 1(2) by (subst (asm) Os9_print.simps) (auto split: sum.splits prod.splits if_splits)
    from 1(1) [OF False c(1) [symmetric] refl c(2) c(3)] show ?thesis by simp
  qed (use 1(2) in \<open>simp add: Os9_print.simps\<close>)
qed

lemma print_all_keeps:
  assumes "print_all os s i = Some j"
  shows "keeps i j"
proof (rule print_all.raw_induct [where P = "\<lambda>os s i j. keeps i j", OF _ assms])
  fix f :: "'a ncl_os \<Rightarrow> cstr \<Rightarrow> 'a interp \<Rightarrow> 'a interp option" and os s i j
  assume "\<And>os s i j. f os s i = Some j \<Longrightarrow> keeps i j"
    and "(if s = [] then Some i
      else case o_writln os (sys i) 1 s of
        (Inl e, k) \<Rightarrow> if e \<noteq> 0 then Some (i\<lparr>sys := k\<rparr>) else f os s (i\<lparr>sys := k\<rparr>)
      | (Inr cc, k) \<Rightarrow> if unat cc > length s then None else f os (drop (unat cc) s) (i\<lparr>sys := k\<rparr>)) = Some j"
  then show "keeps i j" by (auto split: if_splits sum.splits prod.splits) fastforce+
qed

lemma print_each_keeps: "print_each os ss i = Some j \<Longrightarrow> keeps i j"
  by (induction ss arbitrary: i) (auto simp: Option.bind_eq_Some_conv dest!: Os9_print_keeps intro: keeps_trans)

lemma print_frames_keeps: "print_frames os fs i = Some j \<Longrightarrow> keeps i j"
  by (induction fs arbitrary: i)
    (auto simp: Option.bind_eq_Some_conv simp del: print_each.simps dest!: print_each_keeps intro: keeps_trans)

lemma print_arrays_keeps: "print_arrays os as i = Some j \<Longrightarrow> keeps i j"
  by (induction as arbitrary: i)
    (auto simp: Option.bind_eq_Some_conv simp del: format_calls.simps dest!: print_all_keeps print_each_keeps intro: keeps_trans)

lemma memory_commands_kept:
  "kept i (picolCommandInfo os argv i)" "kept i (picolCommandPeek os argv i)" "kept i (picolCommandPoke os argv i)"
proof -
  have "keeps i j" if "picolCommandInfo os argv i = Some (rc, j)" for rc j
  proof -
    from that obtain a b i1 i2 i3 i4 i5 where k: "print_each os a i = Some i1" "print_each os b i1 = Some i2"
        "print_frames os (Callframe i2) i2 = Some i3" "Os9_print os (cs '' arrays:'' @ [10]) i3 = Some i4"
        "print_arrays os (Arrays i4) i4 = Some i5" "j = picolSetResult [] i5"
      by (auto simp: picolCommandInfo_def Let_def Option.bind_eq_Some_conv simp del: print_each.simps)
    have "keeps i i3"
      using print_each_keeps [OF k(1)] print_each_keeps [OF k(2)] print_frames_keeps [OF k(3)] keeps_trans by blast
    moreover have "keeps i3 i5"
      using Os9_print_keeps [OF k(4)] print_arrays_keeps [OF k(5)] keeps_trans by blast
    ultimately show "keeps i j" unfolding k(6) using keeps_trans by (simp only: keeps_simps) blast
  qed
  then show "kept i (picolCommandInfo os argv i)" by (simp add: kept_def)
  show "kept i (picolCommandPeek os argv i)" "kept i (picolCommandPoke os argv i)"
    unfolding picolCommandPeek_def picolCommandPoke_def by ((intro kept_intros)?; simp)+
qed

lemma If_kept:
  assumes ev: "ev_keeps ev"
  shows "kept i (picolCommandIf ev argv i)"
  unfolding picolCommandIf_def by (intro kept_intros ev_keepsD [OF ev]; simp)

lemma and_loop_kept:
  assumes ev: "ev_keeps ev"
  shows "kept i (and_loop ev n as i)"
proof (induction as arbitrary: n i)
  case (Cons a as)
  show ?case unfolding and_loop.simps Let_def by (intro kept_intros ev_keepsD [OF ev] Cons; simp)
qed simp

lemma or_loop_kept:
  assumes ev: "ev_keeps ev"
  shows "kept i (or_loop ev as i)"
proof (induction as arbitrary: i)
  case (Cons a as)
  show ?case unfolding or_loop.simps Let_def by (intro kept_intros ev_keepsD [OF ev] Cons; simp)
qed simp

lemma While_kept:
  assumes ev: "ev_keeps ev"
  shows "kept i (picolCommandWhile n ev argv i)"
proof (induction n arbitrary: i)
  case (Suc n)
  show ?case unfolding picolCommandWhile.simps by (intro kept_intros ev_keepsD [OF ev] Suc; simp)
qed simp

lemma foreach_loop_kept:
  assumes ev: "ev_keeps ev"
  shows "kept i (foreach_loop ev var body xs i)"
proof (induction xs arbitrary: i)
  case (Cons a xs)
  show ?case unfolding foreach_loop.simps by (intro kept_intros ev_keepsD [OF ev] Cons; simp)
qed simp

lemma Catch_kept:
  assumes ev: "ev_keeps ev"
  shows "kept i (picolCommandCatch ev argv i)"
  unfolding picolCommandCatch_def Let_def by (intro kept_intros ev_keepsD [OF ev]; simp)

lemma Source_kept:
  assumes ev: "ev_keeps ev"
  shows "kept i (picolCommandSource os ev argv i)"
  unfolding picolCommandSource_def Let_def by (intro kept_intros ev_keepsD [OF ev]; simp)

lemma bind_params_frame:
  "keeps i (bind_params v argv b i)"
proof -
  have "keeps i (foldl (\<lambda>i k. picolSetVar (v ! k) (argv ! (k + 1)) i) i ks)" for ks
    by (induction ks rule: rev_induct) simp_all
  then show ?thesis by (simp add: bind_params_def Let_def)
qed

lemma kept_drop:
  assumes "keeps (i\<lparr>Callframe := [] # Callframe i\<rparr>) j" "kept j m"
  shows "kept i (do { (e, k) \<leftarrow> m; Some (f e, picolDropCallFrame k) })"
  using assms
  by (auto simp: kept_def keeps_def picolDropCallFrame_def Option.bind_eq_Some_conv)

lemma CallProc_kept:
  assumes ev: "ev_keeps ev"
  shows "kept i (picolCommandCallProc ev argv pd i)"
proof -
  let ?i = "i\<lparr>Callframe := [] # Callframe i\<rparr>"
  have err: "kept i (do { b \<leftarrow> m; Some (PICOL_ERR, picolDropCallFrame (picolSetResult b ?i)) })" for m
    by (rule kept_pure) (simp add: picolDropCallFrame_def keeps_def picolSetResult_def)
  have body: "kept i (do { (e, j) \<leftarrow> ev body name (bind_params v argv b ?i);
      Some (if e = PICOL_RETURN then PICOL_OK else e, picolDropCallFrame j) })" for body name v b
    by (rule kept_drop [where j = "bind_params v argv b ?i"]) (simp_all add: bind_params_frame ev_keepsD [OF ev])
  show ?thesis unfolding picolCommandCallProc_def Let_def
    by (rule err | rule body | rule kept_if | rule kept_prod | rule kept_pure)+
qed

lemma run_func_kept:
  assumes ev: "ev_keeps ev"
  shows "kept i (run_func os n ev f argv pd i)"
  by (cases f) (simp_all add: run_func_def value_commands_kept variable_commands_kept list_commands_kept
    system_commands_kept Puts_kept If_kept [OF ev] and_loop_kept [OF ev] or_loop_kept [OF ev]
    While_kept [OF ev] foreach_loop_kept [OF ev] Catch_kept [OF ev] Source_kept [OF ev] CallProc_kept [OF ev]
    picolCommandAnd_def picolCommandOr_def picolCommandEval_def picolCommandForEach_def
    kept_pure ev_keepsD [OF ev] memory_commands_kept)

lemma run_words_kept:
  assumes "\<And>f argv pd i. kept i (run f argv pd i)"
  shows "kept i (run_words run argv i)"
  unfolding run_words_def call_cmd_def by (intro kept_intros assms; simp)

lemma token_value_kept: "ev_keeps ev \<Longrightarrow> kept i (token_value ev p i)"
  unfolding token_value_def by (intro kept_intros ev_keepsD; simp)

lemma eval_loop_kept:
  assumes ev: "ev_keeps ev" and run: "\<And>f argv pd i. kept i (run f argv pd i)"
  shows "kept i (eval_loop ev run p argv i)"
proof (induction "parser_left p" arbitrary: p argv i rule: less_induct)
  case less
  have IH: "kept i (eval_loop ev run p' argv i)"
    if "picolGetToken p = Some p'" "type_p p' \<noteq> PT_EOF" for p' argv i
    using less picolGetToken_left [OF that] by blast
  have go: "kept i (case m of None \<Rightarrow> None | Some (Inl rc, i) \<Rightarrow> Some (rc, i) | Some (Inr t, i) \<Rightarrow> h t i)"
    if "kept i m" "\<And>t j. kept j (h t j)" for m :: "((retcode + cstr) \<times> 'a interp) option" and h
    using that kept_from by (fastforce split: option.split sum.split simp: kept_def [of i m])
  have go2: "kept j (case m of None \<Rightarrow> None | Some (rc, i) \<Rightarrow> if rc \<noteq> PICOL_OK then Some (rc, i) else h i)"
    if "kept j m" "\<And>k. kept k (h k)" for j and m :: "'a reply" and h
    using that kept_from by (fastforce split: option.split simp: kept_def [of j m])
  show ?case
  proof (cases "picolGetToken p")
    case None
    then show ?thesis by (simp add: eval_loop.simps [of _ _ p])
  next
    case (Some p')
    show ?thesis
    proof (cases "type_p p' = PT_EOF")
      case True
      then show ?thesis using Some by (simp add: eval_loop.simps [of _ _ p])
    next
      case False
      show ?thesis
        unfolding eval_loop.simps [of _ _ p] Some option.case if_not_P [OF False]
        by (rule go [OF token_value_kept [OF ev]],
            (rule go2 | rule kept_if | rule kept_None | rule IH [OF Some False] | rule run_words_kept [OF run]
              | rule kept_option)+)
    qed
  qed
qed

lemma picolEval_kept: "ev_keeps (picolEval os n)"
proof (induction n)
  case 0
  then show ?case by (simp add: ev_keeps_def)
next
  case (Suc n)
  have loop: "kept (picolSetResult [] i) (eval_loop (picolEval os n) (run_func os n (picolEval os n)) p argv (picolSetResult [] i))" for p argv i
    by (intro eval_loop_kept run_func_kept Suc)
  show ?case unfolding ev_keeps_def picolEval.simps eval_script_def
    by (intro allI kept_intros kept_from [OF _ loop]; simp)
qed
end
