(* ===== verification/Ncl_Scripts.thy ===== *)
theory Ncl_Scripts
  imports Ncl_Sound
begin

text \<open>
  What scripts do: procedure calls bind exactly their parameters, scripts with given text are
  run by their equations, \<^verbatim>\<open>while\<close> has a rule for total correctness, results do not
  depend on fuel, callers' frames are safe, the core commands are found, and missing
  commands go to \<^verbatim>\<open>unknown\<close>.
\<close>

section \<open>Procedure calls\<close>

text \<open>The bindings of a call: the parameters in order; a last parameter \<^verbatim>\<open>args\<close> takes the
  remaining words as a list.\<close>

definition call_bindings :: "cstr list \<Rightarrow> cstr list \<Rightarrow> (cstr \<times> cstr) list option" where
  "call_bindings ps args =
     (if ps \<noteq> [] \<and> last ps = cs ''args'' then
        (if length args \<ge> length ps - 1
         then Some (zip (butlast ps) args @ [(cs ''args'', FormList (drop (length ps - 1) args))]) else None)
      else if length args = length ps then Some (zip ps args) else None)"

lemma foldl_set_zip:
  "n \<le> length v \<Longrightarrow> n \<le> length args \<Longrightarrow>
   foldl (\<lambda>i k. picolSetVar (v ! k) ((nm # args) ! (k + 1)) i) i [0 ..< n] =
   foldl (\<lambda>i b. picolSetVar (fst b) (snd b) i) i (take n (zip v args))"
  by (induction n) (simp_all add: take_Suc_conv_app_nth)

lemma take_zip_butlast: "take (length (v :: cstr list) - 1) (zip v args) = zip (butlast v) (args :: cstr list)"
proof -
  have "take n (zip xs ys) = zip (take n xs) ys" for n and xs ys :: "cstr list"
  proof (induction n arbitrary: xs ys)
    case (Suc n)
    show ?case by (cases xs; cases ys) (simp_all add: Suc)
  qed simp
  then show ?thesis by (simp add: butlast_conv_take)
qed

lemma foldl_set_frame:
  "foldl (\<lambda>i b. picolSetVar (fst b) (snd b) i) (i\<lparr>Callframe := f # fs\<rparr>) bs =
   i\<lparr>Callframe := vars.put_all f bs # fs\<rparr>"
  by (induction bs rule: rev_induct) (simp_all add: vars.put_all_def picolSetVar_def)

lemma bind_params_bindings:
  assumes "call_bindings ps args = Some bs" and "b = (ps \<noteq> [] \<and> last ps = cs ''args'')"
  shows "bind_params ps (nm # args) b (i\<lparr>Callframe := [] # Callframe i\<rparr>) =
    i\<lparr>Callframe := vars.put_all [] bs # Callframe i\<rparr>"
proof (cases b)
  case True
  then have p: "ps \<noteq> []" "last ps = cs ''args''" "length ps - 1 \<le> length args"
    "bs = zip (butlast ps) args @ [(cs ''args'', FormList (drop (length ps - 1) args))]"
    using assms by (auto simp: call_bindings_def split: if_splits)
  have d: "drop (length ps) (nm # args) = drop (length ps - 1) args" using p(1) by (cases ps) auto
  show ?thesis
    using True foldl_set_zip [of "length ps - 1" ps args nm "i\<lparr>Callframe := [] # Callframe i\<rparr>"] p(3)
      foldl_set_frame [where i = i and f = "[]" and fs = "Callframe i" and bs = bs]
    by (simp add: bind_params_def Let_def d p(4) take_zip_butlast [simplified] FormList_foldl)
next
  case False
  then have "length args = length ps" "bs = zip ps args"
    using assms by (auto simp: call_bindings_def split: if_splits)
  then show ?thesis
    using False foldl_set_zip [of "length ps" ps args nm "i\<lparr>Callframe := [] # Callframe i\<rparr>"]
    by (simp add: bind_params_def Let_def foldl_set_frame)
qed

text \<open>
  C13.  Calling a procedure: when the words fit its parameters, the body runs in a new frame
  that binds exactly the parameters (the last binding of a repeated name counts), on top of
  the caller's frames and with the rest of the state unchanged; \<^verbatim>\<open>return\<close> ends it
  normally, and the frame is dropped.  Otherwise the call fails and leaves the frames alone.
\<close>

theorem CallProc_spec:
  assumes "SplitList alist = Some ps"
  shows "case call_bindings ps args of
      Some bs \<Rightarrow> \<exists>f. (\<forall>x. picolGetVarFromRoot f x = map_of (rev bs) x) \<and>
        picolCommandCallProc ev (nm # args) (Some (alist, body)) i =
          (case ev body nm (i\<lparr>Callframe := f # Callframe i\<rparr>) of
             None \<Rightarrow> None
           | Some (rc, j) \<Rightarrow> Some (if rc = PICOL_RETURN then PICOL_OK else rc, j\<lparr>Callframe := tl (Callframe j)\<rparr>))
    | None \<Rightarrow> \<exists>msg. picolCommandCallProc ev (nm # args) (Some (alist, body)) i =
        Some (PICOL_ERR, i\<lparr>Result := msg\<rparr>)"
proof -
  let ?i = "i\<lparr>Callframe := [] # Callframe i\<rparr>"
  let ?b = "ps \<noteq> [] \<and> last ps = cs ''args''"
  have b: "(length ps \<noteq> 0 \<and> strcmp (ps ! (length ps - 1)) (cs ''args'') = 0) = ?b"
    by (auto simp: last_conv_nth)
  note call = picolCommandCallProc_def Let_def bind.bind_lunit prod.case word_at_simps(1) assms b
  show ?thesis
  proof (cases "call_bindings ps args")
    case None
    obtain msg where "snprintf_s (cs ''Proc '' @ [39] @ cs ''%s'' @ [39] @ cs '' called with wrong num args'')
        [AStr (Some nm)] = Some msg"
      using format_calls_s [of "39 # cs '' called with wrong num args''" nm "[]"]
      by (auto simp: snprintf_s_def)
    moreover have "\<not> ?b \<and> length ps \<noteq> length (nm # args) - 1 \<or> ?b \<and> length (nm # args) - 1 < length ps - 1"
      using None by (auto simp: call_bindings_def split: if_splits)
    ultimately have "picolCommandCallProc ev (nm # args) (Some (alist, body)) i = Some (PICOL_ERR, i\<lparr>Result := msg\<rparr>)"
      unfolding call if_P by (simp add: picolDropCallFrame_def picolSetResult_def)
    then show ?thesis using None by auto
  next
    case (Some bs)
    have n: "\<not> (\<not> ?b \<and> length ps \<noteq> length (nm # args) - 1 \<or> ?b \<and> length (nm # args) - 1 < length ps - 1)"
      using Some by (auto simp: call_bindings_def split: if_splits)
    have "picolGetVarFromRoot (vars.put_all [] bs) x = map_of (rev bs) x" for x
      by (simp add: vars.get_put_all split: option.split)
    moreover have "picolCommandCallProc ev (nm # args) (Some (alist, body)) i =
        (case ev body nm (i\<lparr>Callframe := vars.put_all [] bs # Callframe i\<rparr>) of
             None \<Rightarrow> None
           | Some (rc, j) \<Rightarrow> Some (if rc = PICOL_RETURN then PICOL_OK else rc, j\<lparr>Callframe := tl (Callframe j)\<rparr>))"
      unfolding call if_not_P [OF n] bind_params_bindings [OF Some refl]
      by (simp add: picolDropCallFrame_def split: option.split)
    ultimately show ?thesis using Some by auto
  qed
qed

lemma CallProc_spec_witness:
  "\<exists>f. picolGetVarFromRoot f (cs ''x'') = Some (cs ''7'') \<and>
     picolGetVarFromRoot f (cs ''args'') = Some (cs ''8 9'') \<and>
     picolCommandCallProc (\<lambda>t w i. Some (PICOL_RETURN, i)) [cs ''p'', cs ''7'', cs ''8'', cs ''9'']
       (Some (FormList [cs ''x'', cs ''args''], [])) (picolInitInterp ()) = Some (PICOL_OK, picolInitInterp ())"
proof -
  have l: "FormList [cs ''8'', cs ''9''] = cs ''8 9''"
    by (simp add: FormList_Cons list_rest_def elem_encode_def elem_special_def word_sless_eq word_sle_eq)
  have b: "call_bindings [cs ''x'', cs ''args''] [cs ''7'', cs ''8'', cs ''9''] =
      Some [(cs ''x'', cs ''7''), (cs ''args'', cs ''8 9'')]"
    unfolding call_bindings_def using l by simp
  obtain f where f: "\<forall>x. picolGetVarFromRoot f x = map_of (rev [(cs ''x'', cs ''7''), (cs ''args'', cs ''8 9'')]) x"
    "picolCommandCallProc (\<lambda>t w i. Some (PICOL_RETURN, i)) [cs ''p'', cs ''7'', cs ''8'', cs ''9'']
       (Some (FormList [cs ''x'', cs ''args''], [])) (picolInitInterp ()) = Some (PICOL_OK, picolInitInterp ())"
    using CallProc_spec [OF SplitList_FormList_id [of "[cs ''x'', cs ''args'']"], where args = "[cs ''7'', cs ''8'', cs ''9'']"
      and ev = "\<lambda>t w i. Some (PICOL_RETURN, i)" and nm = "cs ''p''" and body = "[]" and i = "picolInitInterp ()"]
    unfolding b by (auto simp: picolInitInterp_def)
  show ?thesis by (rule exI [of _ f]) (use f in simp)
qed

section \<open>Running scripts\<close>

text \<open>The equations that run a script whose text is given.\<close>

lemmas run_script =
  eval_script_def picolInitParser_def token_value_def add_token_def run_words_def call_cmd_def run_func_def
  eval_loop.simps picolGetToken.simps picolParseString_def picolParseSep_def picolParseEol_def picolParseBrace_def
  eol_char_def sep_char_def

lemma table_lookup [simp]:
  "picolGetCommand n (i\<lparr>Result := r\<rparr>) = picolGetCommand n i"
  "picolGetCommand n (picolSetVar x v i) = picolGetCommand n i"
  "picolGetVar n (i\<lparr>Result := r\<rparr>) = picolGetVar n i"
  by (simp_all add: picolGetCommand_def picolSetVar_def picolGetVar_def)

definition bound :: "'k interp \<Rightarrow> cstr \<Rightarrow> byte \<Rightarrow> byte \<Rightarrow> picolCmdFunc \<Rightarrow> bool" where
  "bound i name mn mx f \<longleftrightarrow> picolGetCommand name i =
     Some \<lparr>cmd_name = name, minArgc = mn, maxArgc = mx, cmd_func = f, privdata = None\<rparr>"

text \<open>
   Two faults compose: a blank at the end of a line takes the line break with it, so the
  next line becomes part of the command, and the words beyond \<^verbatim>\<open>maxArgc\<close> (3 for
  \<^verbatim>\<open>set\<close>) are ignored without an error.  The second assignment is silently lost; without
  the blank both are made.
\<close>

theorem trailing_blank_joins_lines:
  assumes "bound i (cs ''set'') 2 3 Set_f"
  shows "(\<exists>j. picolEval os (Suc n) (cs ''set x 5 '' @ [10] @ cs ''set y 6'') w i = Some (PICOL_OK, j) \<and>
      picolGetVar (cs ''x'') j = Some (cs ''5'') \<and> picolGetVar (cs ''y'') j = picolGetVar (cs ''y'') i) \<and>
    (\<exists>j. picolEval os (Suc n) (cs ''set x 5'' @ [10] @ cs ''set y 6'') w i = Some (PICOL_OK, j) \<and>
      picolGetVar (cs ''x'') j = Some (cs ''5'') \<and> picolGetVar (cs ''y'') j = Some (cs ''6''))"
  using assms by (simp add: run_script bound_def picolCommandSet_def picolSetResult_def)

text \<open>
  C24.  Total correctness of \<^verbatim>\<open>while\<close>: when from every state of the invariant the condition
  evaluates normally, and the body, whenever the condition is true, returns normally or by
  \<^verbatim>\<open>continue\<close> to a state of the invariant with a smaller measure, then the loop ends
  normally in a state where the condition came out false, within as many rounds as the
  measure says.
\<close>

theorem While_total:
  assumes "P i" and "m i < n"
    and cond: "\<And>i. P i \<Longrightarrow> \<exists>j. ev test (cs ''cond of while'') i = Some (PICOL_OK, j) \<and>
      (if atoi (Result j) = 0 then Q j
       else \<exists>rc k. ev body (cs ''body of while'') j = Some (rc, k) \<and>
         rc \<in> {PICOL_OK, PICOL_CONTINUE} \<and> P k \<and> m k < m i)"
  shows "\<exists>j. picolCommandWhile n ev [nm, test, body] i = Some (PICOL_OK, j) \<and> Q j"
  using assms(1,2)
proof (induction n arbitrary: i)
  case (Suc n)
  obtain j where j: "ev test (cs ''cond of while'') i = Some (PICOL_OK, j)"
    "if atoi (Result j) = 0 then Q j
     else \<exists>rc k. ev body (cs ''body of while'') j = Some (rc, k) \<and>
         rc \<in> {PICOL_OK, PICOL_CONTINUE} \<and> P k \<and> m k < m i"
    using cond [OF Suc.prems(1)] by blast
  show ?case
  proof (cases "atoi (Result j) = 0")
    case True
    then show ?thesis using j by (simp del: cs_Cons)
  next
    case False
    then obtain rc k where k: "ev body (cs ''body of while'') j = Some (rc, k)"
      "rc = PICOL_CONTINUE \<or> rc = PICOL_OK" "P k" "m k < m i"
      using j(2) by auto
    have "picolCommandWhile (Suc n) ev [nm, test, body] i = picolCommandWhile n ev [nm, test, body] k"
      using j(1) k(1,2) False by (simp del: cs_Cons)
    then show ?thesis using Suc.IH [OF k(3)] k(4) Suc.prems(2) by simp
  qed
qed simp

definition counting :: "unit interp \<Rightarrow> bool" where
  "counting i \<longleftrightarrow> bound i (cs ''set'') 2 3 Set_f \<and> bound i (cs ''incr'') 2 3 Incr \<and>
     (\<exists>c. picolGetVar (cs ''n'') i = Some (int_text c) \<and> unat c < 1000)"

definition count :: "unit interp \<Rightarrow> nat" where
  "count i = unat (atoi (the (picolGetVar (cs ''n'') i)))"

lemma counting_round:
  assumes "counting i"
  shows "\<exists>j. picolEval os (Suc n) (cs ''set n'') w i = Some (PICOL_OK, j) \<and>
      (if atoi (Result j) = 0 then atoi (Result j) = 0
       else \<exists>rc k. picolEval os (Suc n) (cs ''incr n -1'') v j = Some (rc, k) \<and>
         rc \<in> {PICOL_OK, PICOL_CONTINUE} \<and> counting k \<and> count k < count i)"
proof -
  obtain c where c: "picolGetVar (cs ''n'') i = Some (int_text c)" "unat c < 1000"
    and b: "bound i (cs ''set'') 2 3 Set_f" "bound i (cs ''incr'') 2 3 Incr"
    using assms by (auto simp: counting_def)
  have m1: "atoi (cs ''-1'') = - 1"
    by (simp add: atoi_def isspace_def srange_def)
  let ?j = "i\<lparr>Result := int_text c\<rparr>"
  have 1: "picolEval os (Suc n) (cs ''set n'') w i = Some (PICOL_OK, ?j)"
    using c b by (simp add: run_script bound_def picolCommandSet_def picolSetResult_def)
  have 2: "\<exists>k. picolEval os (Suc n) (cs ''incr n -1'') v ?j = Some (PICOL_OK, k) \<and> counting k \<and> count k < count i"
    if "c \<noteq> 0"
  proof -
    let ?k = "(picolSetVar (cs ''n'') (int_text (c - 1)) (i\<lparr>Result := []\<rparr>))\<lparr>Result := int_text (c - 1)\<rparr>"
    have "unat (c - 1) = unat c - 1" using that by (simp add: unat_minus_one)
    moreover have "0 < unat c" using that by (simp add: unat_gt_0)
    ultimately have "counting ?k" "count ?k < count i"
      using b c by (auto simp: counting_def bound_def count_def)
    moreover have "picolEval os (Suc n) (cs ''incr n -1'') v ?j = Some (PICOL_OK, ?k)"
      using c(1) b(2) m1
      by (simp add: run_script bound_def picolCommandIncr_def make_var_def picolSetResult_def Let_def)
    ultimately show ?thesis by blast
  qed
  show ?thesis using 1 2 by (cases "c = 0") auto
qed

lemma While_total_witness:
  "\<forall>os :: unit ncl_os. \<exists>i j. picolGetVar (cs ''n'') i = Some (cs ''2'') \<and>
    picolCommandWhile 3 (picolEval os 1) [cs ''while'', cs ''set n'', cs ''incr n -1''] i = Some (PICOL_OK, j) \<and>
    atoi (Result j) = 0"
proof
  fix os :: "unit ncl_os"
  let ?i = "picolSetVar (cs ''n'') (cs ''2'') (picolRegisterCommand (cs ''incr'') 2 3 Incr None
      (picolRegisterCommand (cs ''set'') 2 3 Set_f None (picolInitInterp ())))"
  have b: "bound ?i (cs ''set'') 2 3 Set_f" "bound ?i (cs ''incr'') 2 3 Incr"
    by (simp_all add: bound_def picolRegisterCommand_def picolGetCommand_def picolInitInterp_def picolSetVar_def Let_def)
  have "int_text 2 = cs ''2''"
    by (simp add: int_text_def staticQFormatSignedLong_def staticQFormatUnsignedLong.simps word_sless_alt)
  moreover from this have "atoi (cs ''2'') = 2" by (metis atoi_int_text)
  ultimately have c: "counting ?i" "count ?i < 3"
    using b by (auto simp: counting_def count_def intro!: exI [of _ 2])
  have "\<exists>j. picolCommandWhile 3 (picolEval os 1) [cs ''while'', cs ''set n'', cs ''incr n -1''] ?i = Some (PICOL_OK, j) \<and>
      atoi (Result j) = 0"
    by (rule While_total [where P = counting and m = count, OF c])
      (use counting_round [of _ os 0] in \<open>simp only: One_nat_def\<close>)
  moreover have "picolGetVar (cs ''n'') ?i = Some (cs ''2'')" by simp
  ultimately show "\<exists>i j. picolGetVar (cs ''n'') i = Some (cs ''2'') \<and>
    picolCommandWhile 3 (picolEval os 1) [cs ''while'', cs ''set n'', cs ''incr n -1''] i = Some (PICOL_OK, j) \<and>
    atoi (Result j) = 0"
    by blast
qed

section \<open>Fuel and frames\<close>

text \<open>The fuel is no part of the result: with more of it a script ends the same way.\<close>

lemma picolEval_more_fuel: "picolEval os n t w i = Some r \<Longrightarrow> n \<le> m \<Longrightarrow> picolEval os m t w i = Some r"
  using ev_leD [OF picolEval_le, of n m os t w i] by (auto simp: opt_le_def)

text \<open>
  C12.  No script changes the variables of the callers: whatever it evaluates, and however it
  ends, the frames below the current one are as they were, so every procedure call drops
  exactly its own frame.  (A \<^verbatim>\<open>poke\<close> into the data of the interpreter itself ends the model.)
\<close>

theorem picolEval_frames:
  assumes "Callframe i = f # fs" "picolEval os n t w i = Some (rc, i')"
  shows "\<exists>f'. Callframe i' = f' # fs"
proof -
  have "keeps i i'"
    using picolEval_kept [of os n] assms(2) by (auto simp: ev_keeps_def kept_def)
  then show ?thesis using assms(1) by (cases "Callframe i'") (auto simp: keeps_def)
qed

lemma run_set_script:
  assumes "bound i (cs ''set'') 2 3 Set_f"
  shows "\<exists>j. picolEval os (Suc n) (cs ''set x 5'') w i = Some (PICOL_OK, j) \<and>
    picolGetVar (cs ''x'') j = Some (cs ''5'')"
  using assms by (simp add: run_script bound_def picolCommandSet_def picolSetResult_def)

definition set_interp :: "unit interp" where
  "set_interp = picolRegisterCommand (cs ''set'') 2 3 Set_f None (picolInitInterp ())"

lemma set_interp: "bound set_interp (cs ''set'') 2 3 Set_f" "Callframe set_interp = [[]]"
  by (simp_all add: set_interp_def bound_def picolRegisterCommand_def picolGetCommand_def picolInitInterp_def)

lemma trailing_blank_joins_lines_witness:
  "\<forall>os. \<exists>j. picolEval os 1 (cs ''set x 5 '' @ [10] @ cs ''set y 6'') (cs ''main'') set_interp = Some (PICOL_OK, j) \<and>
      picolGetVar (cs ''x'') j = Some (cs ''5'') \<and>
      picolGetVar (cs ''y'') j = picolGetVar (cs ''y'') set_interp"
  using trailing_blank_joins_lines [OF set_interp(1)] unfolding One_nat_def by blast

lemma picolEval_frames_witness:
  "\<forall>os :: unit ncl_os. \<exists>j f. picolEval os 1 (cs ''set x 5'') [] (set_interp\<lparr>Callframe := [[], [(cs ''y'', cs ''1'')]]\<rparr>) = Some (PICOL_OK, j) \<and>
     Callframe j = [f, [(cs ''y'', cs ''1'')]]"
proof
  fix os :: "unit ncl_os"
  let ?i = "set_interp\<lparr>Callframe := [[], [(cs ''y'', cs ''1'')]]\<rparr>"
  have "bound ?i (cs ''set'') 2 3 Set_f"
    using set_interp(1) by (simp add: bound_def picolGetCommand_def)
  then obtain j where j: "picolEval os 1 (cs ''set x 5'') [] ?i = Some (PICOL_OK, j)"
    using run_set_script [of ?i os 0 "[]"] unfolding One_nat_def by blast
  have "Callframe ?i = [] # [[(cs ''y'', cs ''1'')]]" by simp
  from picolEval_frames [OF this j] j
  show "\<exists>j f. picolEval os 1 (cs ''set x 5'') [] ?i = Some (PICOL_OK, j) \<and> Callframe j = [f, [(cs ''y'', cs ''1'')]]" by blast
qed

section \<open>The command table\<close>

definition core_entries :: "(cstr \<times> byte \<times> byte \<times> picolCmdFunc \<times> (cstr \<times> cstr) option) list" where
  "core_entries = map (\<lambda>(name, mn, mx, f). (cs name, mn, mx, f, None)) core_table"

lemma register_core: "picolRegisterCoreCommands i = commands.put_all i core_entries"
proof -
  have "foldl (\<lambda>i (name, mn, mx, f). picolRegisterCommand (cs name) mn mx f None i) i t =
      commands.put_all i (map (\<lambda>(name, mn, mx, f). (cs name, mn, mx, f, None)) t)" for t
    by (induction t arbitrary: i) (auto simp: commands.put_all_def)
  then show ?thesis by (simp add: picolRegisterCoreCommands_def core_entries_def)
qed

lemma core_names_distinct: "distinct (map fst core_entries)"
  by (simp add: core_entries_def core_table_def)

text \<open>
   After the start every core command is found under its name with its argument bounds and
  function; defining a procedure of the same name replaces it and no other; and no other
  name is found.
\<close>

theorem core_commands_found:
  "(\<forall>(name, e) \<in> set core_entries.
      map_option cmd_entry (picolGetCommand name (initial_interp k)) = Some e) \<and>
   (name \<notin> fst ` set core_entries \<longrightarrow> picolGetCommand name (initial_interp k) = None) \<and>
   (\<exists>j. picolCommandProc [cs ''proc'', name, alist, body] (initial_interp k) = Some (PICOL_OK, j) \<and>
      (\<forall>m. map_option cmd_entry (picolGetCommand m j) =
        (if m = name then Some (0, 0, CallProc, Some (alist, body))
         else map_option cmd_entry (picolGetCommand m (initial_interp k)))))"
proof -
  have look: "map_option cmd_entry (picolGetCommand m (initial_interp k)) = map_of core_entries m" for m
  proof -
    have "map_of (rev core_entries) = map_of core_entries"
      using core_names_distinct by (subst map_of_inject_set) (simp_all add: rev_map [symmetric])
    moreover have "picolGetCommand m (picolInitInterp k) = None"
      by (simp add: picolGetCommand_def picolInitInterp_def)
    ultimately show ?thesis
      by (simp add: initial_interp_def register_core commands.get_put_all split: option.split)
  qed
  have 1: "\<forall>(n, e) \<in> set core_entries. map_option cmd_entry (picolGetCommand n (initial_interp k)) = Some e"
    using look core_names_distinct by auto
  have 2: "name \<notin> fst ` set core_entries \<longrightarrow> picolGetCommand name (initial_interp k) = None"
    using look [of name] by (auto simp: map_of_eq_None_iff [symmetric])
  have 3: "map_option cmd_entry (picolGetCommand m (picolRegisterCommand name 0 0 CallProc (Some (alist, body)) i)) =
      (if m = name then Some (0, 0, CallProc, Some (alist, body)) else map_option cmd_entry (picolGetCommand m i))"
    for m and i :: "'a interp"
    using commands.get_put [where t = i and n = name and m = m and v = "(0, 0, CallProc, Some (alist, body))"] by simp
  show ?thesis using 1 2 3 by (auto simp: picolCommandProc_def)
qed

lemma core_commands_found_witness:
  "map_option cmd_entry (picolGetCommand (cs ''while'') (initial_interp ())) = Some (3, 3, While_f, None) \<and>
   picolGetCommand (cs ''expr'') (initial_interp ()) = None"
proof -
  have w: "(cs ''while'', 3, 3, While_f, None) \<in> set core_entries" "cs ''expr'' \<notin> fst ` set core_entries"
    by (simp_all add: core_entries_def core_table_def)
  note c = core_commands_found [where name = "cs ''expr''" and k = "()"]
  show ?thesis using bspec [OF conjunct1 [OF c] w(1)] mp [OF conjunct1 [OF conjunct2 [OF c]] w(2)] by (simp only: prod.case simp_thms)
qed

text \<open>
   A command that is not defined goes to \<^verbatim>\<open>unknown\<close>, when that is defined, with all
  its words behind the name; but with 4, 8, 16, ... words the code then frees a word that
  is not in the block of its argument array.  Without \<^verbatim>\<open>unknown\<close> the script fails.
\<close>

theorem unknown_command:
  assumes "picolGetCommand (hd argv) i = None" "argv \<noteq> []" "hd argv \<noteq> cs ''unknown''"
  shows "(case picolGetCommand (cs ''unknown'') i of
      Some c \<Rightarrow>
        (if \<exists>k. length argv = 2 ^ (k + 2) then run_words run argv i = None
         else minArgc c = 0 \<longrightarrow> run_words run argv i = run (cmd_func c) (cs ''unknown'' # argv) (privdata c) i)
    | None \<Rightarrow> \<exists>msg. run_words run argv i = Some (PICOL_ERR, i\<lparr>Result := msg\<rparr>))"
proof -
  have full: "full_block n \<longleftrightarrow> (\<exists>k. n = 2 ^ (k + 2))" for n
  proof (induction n rule: full_block.induct)
    case (1 n)
    show ?case
    proof (cases "n \<le> 4")
      case True
      have "n = 4" if "n = 2 ^ (k + 2)" for k
      proof -
        have "n = 4 * 2 ^ k" "1 \<le> (2 :: nat) ^ k" using that by simp_all
        then show ?thesis using True by linarith
      qed
      moreover have "(4::nat) = 2 ^ (0 + 2)" by simp
      ultimately have "(\<exists>k. n = 2 ^ (k + 2)) \<longleftrightarrow> n = 4" by blast
      then show ?thesis using True by (simp add: full_block.simps)
    next
      case False
      have "(\<exists>k. n = 2 ^ (k + 2)) \<longleftrightarrow> even n \<and> (\<exists>k. n div 2 = 2 ^ (k + 2))"
      proof
        assume "\<exists>k. n = 2 ^ (k + 2)"
        then obtain k where k: "n = 2 ^ (k + 2)" by blast
        then have "k \<noteq> 0" using False by (cases k) auto
        then obtain j where "k = Suc j" by (cases k) auto
        then show "even n \<and> (\<exists>k. n div 2 = 2 ^ (k + 2))" using k by auto
      next
        assume "even n \<and> (\<exists>k. n div 2 = 2 ^ (k + 2))"
        then obtain k where "even n" "n div 2 = 2 ^ (k + 2)" by blast
        then have "n = 2 * 2 ^ (k + 2)" by (metis even_two_times_div_two)
        then have "n = 2 ^ (Suc k + 2)" by simp
        then show "\<exists>k. n = 2 ^ (k + 2)" by blast
      qed
      then show ?thesis using False 1 by (simp add: full_block.simps [of n])
    qed
  qed
  show ?thesis
  proof (cases "picolGetCommand (cs ''unknown'') i")
    case None
    obtain msg where "snprintf_s (cs ''No such command '' @ [39] @ cs ''%s'' @ [39]) [AStr (Some (hd argv))] = Some msg"
      using format_calls_s [of "[39]" "hd argv" "[]"] by (auto simp: snprintf_s_def)
    then have "run_words run argv i = Some (PICOL_ERR, i\<lparr>Result := msg\<rparr>)"
      unfolding run_words_def assms(1) None by (simp add: picolSetResult_def)
    then show ?thesis using None by auto
  next
    case (Some c)
    show ?thesis unfolding Some option.case full [symmetric]
      using assms(1,3) Some by (simp add: run_words_def call_cmd_def del: cs_Cons)
  qed
qed

lemma unknown_command_witness:
  "\<exists>i :: unit interp. picolGetCommand (cs ''unknown'') i \<noteq> None \<and>
    run_words (\<lambda>f argv pd i. Some (PICOL_OK, i\<lparr>Result := FormList argv\<rparr>)) [cs ''foo'', cs ''1'', cs ''2'', cs ''3''] i = None"
proof -
  let ?i = "picolRegisterCommand (cs ''unknown'') 0 0 CallProc None (picolInitInterp ())"
  have u: "picolGetCommand (cs ''unknown'') ?i = Some \<lparr>cmd_name = cs ''unknown'', minArgc = 0, maxArgc = 0,
      cmd_func = CallProc, privdata = None\<rparr>" "picolGetCommand (cs ''foo'') ?i = None"
    by (simp_all add: picolRegisterCommand_def picolGetCommand_def picolInitInterp_def Let_def)
  let ?argv = "[cs ''foo'', cs ''1'', cs ''2'', cs ''3'']"
  have ex: "\<exists>k. length ?argv = 2 ^ (k + 2)" by (rule exI [of _ 0]) simp
  have h: "picolGetCommand (hd ?argv) ?i = None" "?argv \<noteq> []" "hd ?argv \<noteq> cs ''unknown''"
    using u(2) by simp_all
  show ?thesis
    using unknown_command [OF h, where run = "\<lambda>f argv pd i. Some (PICOL_OK, i\<lparr>Result := FormList argv\<rparr>)"]
    unfolding u(1) option.case if_P [OF ex] using u(1) by (intro exI [of _ ?i]) simp
qed

end
