(* ===== verification/Ax_Screen.thy ===== *)
theory Ax_Screen
  imports Frob_Prelude
begin

text \<open>
  The boot ROM \<^verbatim>\<open>axiom41/axcore.c\<close> (gcc for the 6809: \<^verbatim>\<open>int\<close> has 16 bits,
  \<^verbatim>\<open>char\<close> is unsigned): its variables, the text screen and formatted output.  The
  variables at \<^verbatim>\<open>CASBUF\<close> are a record; the rest of memory (screen, packet buffer) is a
  map from addresses to bytes.  The tracing call \<^verbatim>\<open>PrintH\<close> of the emulator is no
  effect.
\<close>

section \<open>Variables\<close>

record ax_vars =
  v_stack :: word16
  v_main :: word16
  v_rom_sum_0 :: word16
  v_rom_sum_1 :: word16
  v_rom_sum_2 :: word16
  v_rom_sum_3 :: word16
  v_wiz_port :: word16
  v_rand_word :: word16
  v_transaction_id :: "byte list"
  v_got_dhcp :: bool
  v_got_lan :: bool
  v_use_dhcp :: bool
  v_launch :: bool
  v_hostname :: "byte list"
  v_ip_addr :: "byte list"
  v_ip_mask :: "byte list"
  v_ip_gateway :: "byte list"
  v_ip_resolver :: "byte list"
  v_ip_dhcp :: "byte list"
  v_ip_waiter :: "byte list"
  v_mask_num :: byte
  v_waiter_port :: word16
  v_vdg_addr :: word16
  v_vdg_begin :: word16
  v_vdg_end :: word16
  v_vdg_ptr :: word16
  v_lemma_loop :: word16
  v_line_ptr :: "byte list"
  v_line_buf :: "byte list"

type_synonym ax_mem = "word16 \<Rightarrow> byte"

record ax =
  vars :: ax_vars
  amem :: ax_mem

text \<open>
  \<^verbatim>\<open>line_ptr\<close> is the rest of \<^verbatim>\<open>line_buf\<close> from where it points.
\<close>

definition VDG_RAM :: word16 where "VDG_RAM = 0x400"
definition VDG_END :: word16 where "VDG_END = 0x600"

text \<open>The variables as \<^verbatim>\<open>AxiomMain\<close> clears them and places the screen, below its status line.\<close>

definition clear_vars :: "ax_mem \<Rightarrow> ax" where
  "clear_vars m =
     \<lparr>vars = \<lparr>v_stack = 0, v_main = 0, v_rom_sum_0 = 0, v_rom_sum_1 = 0, v_rom_sum_2 = 0, v_rom_sum_3 = 0,
        v_wiz_port = 0, v_rand_word = 0, v_transaction_id = replicate 4 0,
        v_got_dhcp = False, v_got_lan = False, v_use_dhcp = False, v_launch = False,
        v_hostname = replicate 8 0, v_ip_addr = replicate 4 0, v_ip_mask = replicate 4 0,
        v_ip_gateway = replicate 4 0, v_ip_resolver = replicate 4 0, v_ip_dhcp = replicate 4 0,
        v_ip_waiter = replicate 4 0, v_mask_num = 0, v_waiter_port = 0,
        v_vdg_addr = VDG_RAM, v_vdg_begin = VDG_RAM + 32, v_vdg_end = VDG_END, v_vdg_ptr = VDG_RAM + 32,
        v_lemma_loop = 0, v_line_ptr = [], v_line_buf = replicate 80 0\<rparr>,
      amem = (\<lambda>a. if VDG_RAM \<le> a \<and> a < VDG_END then 32 else m a)\<rparr>"

section \<open>The screen\<close>

text \<open>Scrolling copies upwards, byte by byte, and clears the last line.\<close>

function scroll_loop :: "word16 \<Rightarrow> word16 \<Rightarrow> ax_mem \<Rightarrow> ax_mem" where
  "scroll_loop i e m =
     (if i < e then scroll_loop (i + 1) e (m(i := (if i < e - 32 then m (i + 32) else 32))) else m)"
  by auto
termination
  by (relation "measure (\<lambda>(i, e, _). unat e - unat i)")
    (auto simp: unat_Suc_less word_less_nat_alt)

declare scroll_loop.simps [simp del]

text \<open>The end of \<^verbatim>\<open>PutChar\<close>: the cursor is drawn and its place recorded.\<close>

definition put_cursor :: "word16 \<Rightarrow> 'a ax_scheme \<Rightarrow> 'a ax_scheme" where
  "put_cursor p s = s\<lparr>amem := (amem s)(p := 0xEF), vars := (vars s)\<lparr>v_vdg_ptr := p\<rparr>\<rparr>"

text \<open>All of \<^verbatim>\<open>PutChar\<close> but the line ends.\<close>

definition put_plain :: "byte \<Rightarrow> 'a ax_scheme \<Rightarrow> 'a ax_scheme" where
  "put_plain c s =
     (let p = v_vdg_ptr (vars s); b = v_vdg_begin (vars s); e = v_vdg_end (vars s) in
      if c = 8 then
        (if p > b then put_cursor (p - 1) (s\<lparr>amem := (amem s)(p := 32)\<rparr>) else put_cursor p s)
      else if c = 1 then
        (if p > b then put_cursor p (s\<lparr>amem := (amem s)(p - 1 := xor (amem s (p - 1)) 0x40)\<rparr>)
         else put_cursor p s)
      else if c < 32 then s
      else
        let c = (if 96 \<le> c \<and> c \<le> 126 then c - 32 else c);
            s = s\<lparr>amem := (amem s)(p := and 0x3F c)\<rparr>;
            p = p + 1
        in if p \<ge> e then put_cursor (e - 32) (s\<lparr>amem := scroll_loop b e (amem s)\<rparr>)
           else put_cursor p s)"

text \<open>A line end puts blanks up to the next multiple of 32.\<close>

partial_function (option) new_line :: "'a ax_scheme \<Rightarrow> 'a ax_scheme option" where
  "new_line s =
     (let s = put_plain 32 s in
      if and (v_vdg_ptr (vars s)) 31 \<noteq> 0 then new_line s else Some s)"

definition PutChar :: "byte \<Rightarrow> 'a ax_scheme \<Rightarrow> 'a ax_scheme option" where
  "PutChar c s = (if c = 13 \<or> c = 10 then new_line s else Some (put_plain c s))"

fun PutStr :: "cstr \<Rightarrow> 'a ax_scheme \<Rightarrow> 'a ax_scheme option" where
  "PutStr [] s = Some s"
| "PutStr (c # t) s = do { s \<leftarrow> PutChar c s; PutStr t s }"

section \<open>Numbers\<close>

definition HexAlphabet :: cstr where
  "HexAlphabet = cs ''0123456789abcdef''"

function hex_digits :: "word16 \<Rightarrow> cstr" where
  "hex_digits x = (if x > 15 then hex_digits (drop_bit 4 x) else []) @ [HexAlphabet ! unat (and 15 x)]"
  by auto
termination
  by (relation "measure unat") (auto simp: word_less_nat_alt unat_div drop_bit_eq_div)

declare hex_digits.simps [simp del]

definition PutHex_ax :: "word16 \<Rightarrow> 'a ax_scheme \<Rightarrow> 'a ax_scheme option" where
  "PutHex_ax x s = PutStr (hex_digits x) s"

text \<open>Division by ten without dividing: powers of ten are taken off.\<close>

function sub_loop :: "word16 \<Rightarrow> word16 \<Rightarrow> word16 \<Rightarrow> word16 \<Rightarrow> word16 \<times> word16" where
  "sub_loop k d x q = (if k = 0 then (x, q) else if x \<ge> k then sub_loop k d (x - k) (q + d) else (x, q))"
  by auto
termination
  by (relation "measure (\<lambda>(_, _, x, _). unat x)")
    (auto intro: unat_diff_less)

declare sub_loop.simps [simp del]

definition DivMod10 :: "word16 \<Rightarrow> byte \<times> word16" where
  "DivMod10 x =
     (let (x, q) = sub_loop 10000 1000 x 0;
          (x, q) = sub_loop 1000 100 x q;
          (x, q) = sub_loop 100 10 x q;
          (x, q) = sub_loop 10 1 x q
      in (ucast x, q))"


lemma sub_loop_div_mod:
  assumes "k \<noteq> 0"
  shows "unat (fst (sub_loop k d x q)) = unat x mod unat k \<and>
    snd (sub_loop k d x q) = q + d * of_nat (unat x div unat k)"
  using assms
proof (induction k d x q rule: sub_loop.induct)
  case (1 k d x q)
  show ?case
  proof (cases "k \<noteq> 0 \<and> x \<ge> k")
    case True
    then have u: "unat (x - k) = unat x - unat k" "unat k \<le> unat x" "0 < unat k"
      by (auto simp: unat_diff_le word_le_nat_alt unat_gt_0)
    have "unat x div unat k = Suc ((unat x - unat k) div unat k)" using u by (simp add: le_div_geq)
    then show ?thesis using 1 True u by (subst (1 2) sub_loop.simps) (simp add: le_mod_geq algebra_simps)
  next
    case False
    then have "\<not> k \<le> x" "unat x < unat k" using 1(2) by (auto simp: not_le word_less_nat_alt)
    then show ?thesis by (simp add: sub_loop.simps [of k d x])
  qed
qed


lemma unat_sub_loop:
  "k \<noteq> 0 \<Longrightarrow> sub_loop k d x q = (y, r) \<Longrightarrow> unat y = unat x mod unat k \<and> r = q + d * of_nat (unat x div unat k)"
  using sub_loop_div_mod [of k d x q] by simp

lemma div10_parts:
  "1000 * (n div 10000) + 100 * (n mod 10000 div 1000) + 10 * (n mod 10000 mod 1000 div 100) +
    n mod 10000 mod 1000 mod 100 div 10 = n div (10 :: nat)"
proof -
  define e f where ef: "e = n mod 10000" "f = e mod 1000"
  define a b c r where d: "a = n div 10000" "b = e div 1000" "c = f div 100" "r = f mod 100"
  have "n = a * 10000 + e" "e = b * 1000 + f" "f = c * 100 + r"
    unfolding ef d by (simp_all only: div_mult_mod_eq)
  then have "n = 10 * (1000 * a + 100 * b + 10 * c) + r" by (simp only:) simp
  then have "n div 10 = 1000 * a + 100 * b + 10 * c + r div 10"
    by (metis div_mult_self4 zero_neq_numeral add.commute)
  then show ?thesis unfolding d ef by simp
qed

lemma DivMod10_value: "DivMod10 x = (of_nat (unat x mod 10), of_nat (unat x div 10))"
proof -
  obtain x1 q1 where 1: "sub_loop 10000 1000 x 0 = (x1, q1)" by fastforce
  obtain x2 q2 where 2: "sub_loop 1000 100 x1 q1 = (x2, q2)" by fastforce
  obtain x3 q3 where 3: "sub_loop 100 10 x2 q2 = (x3, q3)" by fastforce
  obtain x4 q4 where 4: "sub_loop 10 1 x3 q3 = (x4, q4)" by fastforce
  note u = unat_sub_loop [OF _ 1] unat_sub_loop [OF _ 2] unat_sub_loop [OF _ 3] unat_sub_loop [OF _ 4]
  let ?n = "unat x"
  have "unat x4 = ?n mod 10000 mod 1000 mod 100 mod 10" using u by simp
  also have "\<dots> = ?n mod 10" by (simp add: mod_mod_cancel)
  finally have m: "unat x4 = ?n mod 10" .
  have "q4 = of_nat (1000 * (?n div 10000) + 100 * (?n mod 10000 div 1000) +
      10 * (?n mod 10000 mod 1000 div 100) + ?n mod 10000 mod 1000 mod 100 div 10)"
    using u by simp
  also have "1000 * (?n div 10000) + 100 * (?n mod 10000 div 1000) +
      10 * (?n mod 10000 mod 1000 div 100) + ?n mod 10000 mod 1000 mod 100 div 10 = ?n div 10"
    by (rule div10_parts)
  finally have "q4 = of_nat (?n div 10)" .
  moreover have "ucast x4 = (of_nat (?n mod 10) :: byte)" using m by (metis of_nat_unat)
  ultimately show ?thesis using 1 2 3 4 by (simp add: DivMod10_def)
qed

function PutDec_text :: "word16 \<Rightarrow> cstr" where
  "PutDec_text x =
     (if x > 9 then PutDec_text (snd (DivMod10 x)) else []) @ [ch CHR ''0'' + fst (DivMod10 x)]"
  by auto
termination
  by (relation "measure unat") (auto simp: DivMod10_value word_less_nat_alt unat_of_nat intro: le_less_trans [OF mod_less_eq_dividend])

declare PutDec_text.simps [simp del]

definition PutDec :: "word16 \<Rightarrow> 'a ax_scheme \<Rightarrow> 'a ax_scheme option" where
  "PutDec x s = PutStr (PutDec_text x) s"

text \<open>\<^verbatim>\<open>Fatal\<close> prints and then loops for ever.\<close>

definition Fatal :: "cstr \<Rightarrow> word16 \<Rightarrow> 'a ax_scheme \<Rightarrow> 'b option" where
  "Fatal wut arg s = None"

definition AssertEQ :: "word16 \<Rightarrow> word16 \<Rightarrow> 'a ax_scheme \<Rightarrow> 'a ax_scheme option" where
  "AssertEQ a b s = (if a \<noteq> b then do { s \<leftarrow> PutHex_ax a s; Fatal (cs '':EQ'') b s } else Some s)"

definition AssertLE :: "word16 \<Rightarrow> word16 \<Rightarrow> 'a ax_scheme \<Rightarrow> 'a ax_scheme option" where
  "AssertLE a b s = (if a > b then do { s \<leftarrow> PutHex_ax a s; Fatal (cs '':LE'') b s } else Some s)"

section \<open>Formatted output\<close>

datatype parg = PAddr "byte list" | PWord word16 | PStr cstr

definition dotted :: "byte list \<Rightarrow> cstr" where
  "dotted x = PutDec_text (ucast (x ! 0)) @ ch CHR ''.'' # PutDec_text (ucast (x ! 1)) @
     ch CHR ''.'' # PutDec_text (ucast (x ! 2)) @ ch CHR ''.'' # PutDec_text (ucast (x ! 3))"

fun conversion :: "byte \<Rightarrow> parg list \<Rightarrow> (cstr \<times> parg list) option" where
  "conversion c args =
     (if c = ch CHR ''a'' then (case args of PAddr x # r \<Rightarrow> Some (dotted x, r) | _ \<Rightarrow> None)
      else if c = ch CHR ''x'' then (case args of PWord x # r \<Rightarrow> Some (hex_digits x, r) | _ \<Rightarrow> None)
      else if c = ch CHR ''u'' then (case args of PWord x # r \<Rightarrow> Some (PutDec_text x, r) | _ \<Rightarrow> None)
      else if c = ch CHR ''d'' then
        (case args of
           PWord x # r \<Rightarrow> Some (if x <s 0 then ch CHR ''-'' # PutDec_text (- x) else PutDec_text x, r)
         | _ \<Rightarrow> None)
      else if c = ch CHR ''s'' then (case args of PStr x # r \<Rightarrow> Some (x, r) | _ \<Rightarrow> None)
      else Some ([c], args))"

fun printf_text :: "cstr \<Rightarrow> parg list \<Rightarrow> cstr option" where
  "printf_text [] args = Some []"
| "printf_text (c # s) args =
     (if c = ch CHR ''%'' then
        (case s of
           [] \<Rightarrow> None
         | d # s' \<Rightarrow> do {
             (t, args) \<leftarrow> conversion d args;
             u \<leftarrow> printf_text s' args;
             Some (t @ u) })
      else do { u \<leftarrow> printf_text s args; Some (c # u) })"

definition PrintF :: "cstr \<Rightarrow> parg list \<Rightarrow> 'a ax_scheme \<Rightarrow> 'a ax_scheme option" where
  "PrintF format args s = do { t \<leftarrow> printf_text format args; PutStr t s }"

section \<open>The screen stays in its window\<close>

definition screen_ok :: "'a ax_scheme \<Rightarrow> bool" where
  "screen_ok s \<longleftrightarrow> v_vdg_begin (vars s) \<le> v_vdg_ptr (vars s) \<and> v_vdg_ptr (vars s) < v_vdg_end (vars s) \<and>
     unat (v_vdg_begin (vars s)) + 32 \<le> unat (v_vdg_end (vars s)) \<and> unat (v_vdg_end (vars s)) mod 32 = 0 \<and>
     unat (v_vdg_begin (vars s)) mod 32 = 0"

text \<open>What printing may change: the window and the place of the cursor.\<close>

definition in_window :: "'a ax_scheme \<Rightarrow> 'a ax_scheme \<Rightarrow> bool" where
  "in_window s s' \<longleftrightarrow> screen_ok s' \<and> (\<exists>p. vars s' = (vars s)\<lparr>v_vdg_ptr := p\<rparr>) \<and>
     ax.more s' = ax.more s \<and>
     (\<forall>a. \<not> (v_vdg_begin (vars s) \<le> a \<and> a < v_vdg_end (vars s)) \<longrightarrow> amem s' a = amem s a)"

lemma in_window_refl: "screen_ok s \<Longrightarrow> in_window s s"
  unfolding in_window_def by (intro conjI exI [of _ "v_vdg_ptr (vars s)"]) simp_all

lemma in_window_trans:
  assumes "in_window s t" "in_window t u"
  shows "in_window s u"
proof -
  obtain p q where p: "vars t = (vars s)\<lparr>v_vdg_ptr := p\<rparr>" "vars u = (vars t)\<lparr>v_vdg_ptr := q\<rparr>"
    using assms by (auto simp: in_window_def)
  have u: "vars u = (vars s)\<lparr>v_vdg_ptr := q\<rparr>" using p by simp
  have "amem u a = amem s a" if a: "\<not> (v_vdg_begin (vars s) \<le> a \<and> a < v_vdg_end (vars s))" for a
  proof -
    have "amem t a = amem s a" using assms(1) a by (simp only: in_window_def) blast
    moreover have "\<not> (v_vdg_begin (vars t) \<le> a \<and> a < v_vdg_end (vars t))" using a p(1) by simp
    then have "amem u a = amem t a" using assms(2) by (simp only: in_window_def) blast
    ultimately show ?thesis by simp
  qed
  moreover have "screen_ok u" "ax.more u = ax.more s" using assms by (simp_all add: in_window_def)
  ultimately show ?thesis unfolding in_window_def using u by (intro conjI exI [of _ q]) simp_all
qed

lemma scroll_loop_outside:
  "\<not> (b \<le> a \<and> a < e) \<Longrightarrow> b \<le> i \<Longrightarrow> scroll_loop i e m a = m a"
proof (induction i e m rule: scroll_loop.induct)
  case (1 i e m)
  show ?case
  proof (cases "i < e")
    case True
    have "b \<le> i + 1" using 1(3) unat_Suc_less [OF True] by (simp add: word_le_nat_alt)
    moreover have "a \<noteq> i" using 1(2,3) True by auto
    moreover have "scroll_loop i e m = scroll_loop (i + 1) e (m(i := (if i < e - 32 then m (i + 32) else 32)))"
      using True by (subst scroll_loop.simps) simp
    ultimately show ?thesis using 1(1) [OF True 1(2)] by (metis fun_upd_other)
  next
    case False
    then show ?thesis by (subst scroll_loop.simps) simp
  qed
qed

lemma put_cursor_window:
  assumes "screen_ok s" "v_vdg_begin (vars s) \<le> p" "p < v_vdg_end (vars s)"
    and "\<And>a. \<not> (v_vdg_begin (vars s) \<le> a \<and> a < v_vdg_end (vars s)) \<Longrightarrow> m a = amem s a"
  shows "in_window s (put_cursor p (s\<lparr>amem := m\<rparr>))"
  using assms by (auto simp: in_window_def put_cursor_def screen_ok_def)

lemma put_plain_window:
  assumes ok: "screen_ok s"
  shows "in_window s (put_plain c s)"
proof -
  let ?p = "v_vdg_ptr (vars s)" and ?b = "v_vdg_begin (vars s)" and ?e = "v_vdg_end (vars s)"
  have pb: "?b \<le> ?p" and pe: "?p < ?e" using ok by (auto simp: screen_ok_def)
  have eb: "?b \<le> ?e - 32" "?e - 32 < ?e"
    using ok by (auto simp: screen_ok_def word_le_nat_alt word_less_nat_alt unat_diff_le)
  have p1: "unat (?p + 1) = Suc (unat ?p)" using pe by (rule unat_Suc_less)
  have pm: "?b \<le> ?p - 1" "?p - 1 < ?e" if "?b < ?p"
  proof -
    have "unat (?p - 1) = unat ?p - 1" "0 < unat ?p" using that by (auto simp: unat_diff_le word_less_nat_alt word_le_nat_alt)
    then show "?b \<le> ?p - 1" "?p - 1 < ?e" using that pe by (auto simp: word_less_nat_alt word_le_nat_alt)
  qed
  note win = put_cursor_window [OF ok]
  have same: "s = s\<lparr>amem := amem s\<rparr>" by simp
  consider "c = 8" | "c = 1" | "c \<noteq> 8" "c \<noteq> 1" "c < 32" | "c \<noteq> 8" "c \<noteq> 1" "\<not> c < 32" by blast
  then show ?thesis
  proof cases
    case 1
    have "((amem s)(?p := 32)) a = amem s a" if "\<not> (?b \<le> a \<and> a < ?e)" for a using that pb pe by auto
    then have "in_window s (put_cursor (?p - 1) (s\<lparr>amem := (amem s)(?p := 32)\<rparr>))" if "?b < ?p"
      using win [OF pm [OF that]] by blast
    then show ?thesis using win [OF pb pe, of "amem s"] 1 by (simp add: put_plain_def Let_def)
  next
    case 2
    have "?p - 1 \<noteq> a" if "?b < ?p" "\<not> (?b \<le> a \<and> a < ?e)" for a using pm [OF that(1)] that(2) by auto
    then have "((amem s)(?p - 1 := xor (amem s (?p - 1)) 0x40)) a = amem s a"
      if "?b < ?p" "\<not> (?b \<le> a \<and> a < ?e)" for a using that by (metis fun_upd_other)
    then have "in_window s (put_cursor ?p (s\<lparr>amem := (amem s)(?p - 1 := xor (amem s (?p - 1)) 0x40)\<rparr>))"
      if "?b < ?p" using win [OF pb pe] that by blast
    then show ?thesis using win [OF pb pe, of "amem s"] 2 by (simp add: put_plain_def Let_def)
  next
    case 3
    then show ?thesis using in_window_refl [OF ok] by (simp add: put_plain_def Let_def)
  next
    case 4
    let ?m = "(amem s)(?p := and 0x3F (if 96 \<le> c \<and> c \<le> 126 then c - 32 else c))"
    have m: "?m a = amem s a" if "\<not> (?b \<le> a \<and> a < ?e)" for a using that pb pe by auto
    show ?thesis
    proof (cases "?p + 1 \<ge> ?e")
      case True
      have "in_window s (put_cursor (?e - 32) (s\<lparr>amem := scroll_loop ?b ?e ?m\<rparr>))"
        by (rule win [OF eb]) (use m scroll_loop_outside [of ?b _ ?e ?b ?m] in auto)
      then show ?thesis using True 4 by (simp add: put_plain_def Let_def)
    next
      case False
      have "in_window s (put_cursor (?p + 1) (s\<lparr>amem := ?m\<rparr>))"
      proof (rule win)
        show "?b \<le> ?p + 1" using p1 pb by (simp add: word_le_nat_alt)
        show "?p + 1 < ?e" using False by simp
      qed (use m in blast)
      then show ?thesis using False 4 by (simp add: put_plain_def Let_def)
    qed
  qed
qed

lemma and_31: "and (w :: word16) 31 = 0 \<longleftrightarrow> unat w mod 32 = 0"
proof -
  have "and w 31 = take_bit 5 w" by (simp add: take_bit_eq_mask mask_eq_exp_minus_1)
  moreover have "unat (take_bit 5 w) = unat w mod 32"
    unfolding unsigned_take_bit_eq by (simp add: take_bit_eq_mod)
  ultimately show ?thesis by (metis unat_eq_zero)
qed

text \<open>A blank moves the cursor by one place, or to the start of the last line.\<close>

lemma put_blank_column:
  assumes "screen_ok s"
  shows "unat (v_vdg_ptr (vars (put_plain 32 s))) mod 32 = (unat (v_vdg_ptr (vars s)) + 1) mod 32"
proof -
  let ?p = "v_vdg_ptr (vars s)" and ?e = "v_vdg_end (vars s)"
  have pe: "?p < ?e" "unat ?e mod 32 = 0" "32 \<le> ?e"
    using assms by (auto simp: screen_ok_def word_le_nat_alt)
  have p1: "unat (?p + 1) = unat ?p + 1" using unat_Suc_less [OF pe(1)] by simp
  show ?thesis
  proof (cases "?p + 1 \<ge> ?e")
    case True
    then have "unat ?p + 1 = unat ?e" using p1 pe(1) by (simp add: word_le_nat_alt word_less_nat_alt)
    moreover have "unat (?e - 32) mod 32 = 0"
      using pe(2,3) unat_diff_le [of 32 ?e] le_mod_geq [of 32 "unat ?e"] by (simp add: word_le_nat_alt)
    ultimately show ?thesis using True pe by (simp add: put_plain_def Let_def put_cursor_def)
  next
    case False
    then show ?thesis using p1 by (simp add: put_plain_def Let_def put_cursor_def)
  qed
qed

lemma mod_step:
  fixes m :: nat
  assumes "(m mod k + 1) mod k \<noteq> 0"
  shows "(m mod k + 1) mod k = m mod k + 1"
proof (cases "k = 0")
  case False
  then have "m mod k + 1 \<le> k" by (simp add: Suc_leI)
  then show ?thesis using assms by (metis le_neq_implies_less mod_less mod_self)
qed simp

lemma new_line_window:
  assumes "screen_ok s"
  shows "\<exists>s'. new_line s = Some s' \<and> in_window s s' \<and> unat (v_vdg_ptr (vars s')) mod 32 = 0"
  using assms
proof (induction "31 - unat (v_vdg_ptr (vars s)) mod 32" arbitrary: s rule: less_induct)
  case less
  let ?t = "put_plain 32 s" and ?c = "\<lambda>s. unat (v_vdg_ptr (vars s)) mod 32"
  have w: "in_window s ?t" by (rule put_plain_window [OF less(2)])
  have col: "?c ?t = (?c s + 1) mod 32" using put_blank_column [OF less(2)] by (simp add: mod_simps)
  show ?case
  proof (cases "?c ?t = 0")
    case True
    then have "new_line s = Some ?t"
      by (subst new_line.simps) (simp only: Let_def and_31 if_False not_True_eq_False simp_thms)
    then show ?thesis using w True by (intro exI [of _ ?t] conjI)
  next
    case False
    have "?c ?t = ?c s + 1" using col False mod_step [of "unat (v_vdg_ptr (vars s))" 32] by simp
    moreover have "?c ?t < 32" by simp
    ultimately have "31 - ?c ?t < 31 - ?c s" by linarith
    then obtain s' where "new_line ?t = Some s'" "in_window ?t s'" "?c s' = 0"
      using less(1) [of ?t] w unfolding in_window_def by metis
    moreover have "new_line s = new_line ?t" using False
      by (subst new_line.simps) (simp only: Let_def and_31 if_True simp_thms)
    ultimately show ?thesis using in_window_trans [OF w, of s'] by simp
  qed
qed

lemma PutStr_window: "screen_ok s \<Longrightarrow> \<exists>s'. PutStr t s = Some s' \<and> in_window s s'"
proof (induction t arbitrary: s)
  case Nil
  then show ?case by (simp add: in_window_refl)
next
  case (Cons c t)
  obtain u where u: "PutChar c s = Some u" "in_window s u"
    using new_line_window [OF Cons(2)] put_plain_window [OF Cons(2)] unfolding PutChar_def by metis
  then obtain s' where "PutStr t u = Some s'" "in_window u s'"
    using Cons(1) [of u] by (auto simp: in_window_def)
  then show ?case using u in_window_trans by fastforce
qed

text \<open>The digits printed for a number.\<close>

lemma unat_digit:
  assumes "n < 10"
  shows "unat (ch CHR ''0'' + (of_nat n :: byte)) = 48 + n"
proof -
  have "ch CHR ''0'' = (of_nat 48 :: byte)" by (simp add: of_char_def)
  then have "ch CHR ''0'' + (of_nat n :: byte) = of_nat (48 + n)" by simp
  also have "unat \<dots> = 48 + n" using assms by (subst unat_of_nat) simp
  finally show ?thesis .
qed

lemma PutDec_text_digits:
  "digits_val 10 (PutDec_text x) = unat x \<and>
   (\<forall>c \<in> set (PutDec_text x). 48 \<le> unat c \<and> unat c \<le> 57) \<and>
   PutDec_text x \<noteq> [] \<and> (0 < x \<longrightarrow> 48 < unat (hd (PutDec_text x)))"
proof (induction x rule: PutDec_text.induct)
  case (1 x)
  let ?d = "ch CHR ''0'' + fst (DivMod10 x)" and ?q = "snd (DivMod10 x)"
  have d: "unat ?d = 48 + unat x mod 10" using unat_digit [of "unat x mod 10"] by (simp add: DivMod10_value)
  have q: "unat ?q = unat x div 10"
    by (simp add: DivMod10_value unat_of_nat) (meson div_le_dividend le_less_trans mod_less unat_word16_lt)
  show ?case
  proof (cases "9 < x")
    case True
    have eq: "PutDec_text x = PutDec_text ?q @ [?d]" using True by (subst PutDec_text.simps) simp
    have "0 < unat ?q" using True q by (simp add: word_less_nat_alt div_greater_zero_iff)
    then have "0 < ?q" by (simp add: word_less_nat_alt)
    then show ?thesis using 1 [OF True] d q unfolding eq digits_val_snoc by (auto simp: hd_append)
  next
    case False
    then have eq: "PutDec_text x = [?d]" by (subst PutDec_text.simps) simp
    have "unat x < 10" using False by (simp add: word_less_nat_alt)
    then show ?thesis using d unfolding eq by (auto simp: digits_val_def word_less_nat_alt)
  qed
qed

section \<open>Properties\<close>

text \<open>
  C33. Printing is safe: on a well-formed screen every format string whose arguments are
  there prints and returns; the cursor stays in the window, no variable but the cursor
  and no byte of memory outside the window changes.
\<close>
theorem PrintF_safe:
  assumes "screen_ok s" "printf_text format args = Some t"
  shows "\<exists>s'. PrintF format args s = Some s' \<and> in_window s s'"
  using PutStr_window [OF assms(1), of t] assms(2) by (auto simp: PrintF_def)

theorem PrintF_safe_witness:
  "\<exists>s'. PrintF (cs ''%u%%'') [PWord 65535] (clear_vars (\<lambda>_. 0)) = Some s' \<and>
    in_window (clear_vars (\<lambda>_. 0)) s'"
proof (rule PrintF_safe)
  show "screen_ok (clear_vars (\<lambda>_. 0))"
    by (simp add: screen_ok_def clear_vars_def VDG_RAM_def VDG_END_def word_le_nat_alt word_less_nat_alt)
  show "printf_text (cs ''%u%%'') [PWord 65535] = Some (PutDec_text 65535 @ cs ''%'')"
    by simp
qed

text \<open>
  \<^verbatim>\<open>DivMod10\<close> divides by ten without a division instruction, and \<^verbatim>\<open>PutDec\<close> prints the
  decimal digits of its argument, for every 16-bit word, without a leading zero.
\<close>
theorem PutDec_decimal:
  "DivMod10 x = (of_nat (unat x mod 10), of_nat (unat x div 10)) \<and>
   digits_val 10 (PutDec_text x) = unat x \<and>
   (\<forall>c \<in> set (PutDec_text x). 48 \<le> unat c \<and> unat c \<le> 57) \<and>
   (x = 0 \<or> 48 < unat (hd (PutDec_text x)))"
  using DivMod10_value [of x] PutDec_text_digits [of x] by (auto simp: word_less_nat_alt unat_gt_0)

theorem PutDec_decimal_witness:
  "DivMod10 40321 = (1, 4032) \<and> digits_val 10 (PutDec_text 40321) = 40321"
  using PutDec_decimal [of 40321] by simp

end
