(* ===== verification/Ax_Memory.thy ===== *)
theory Ax_Memory
  imports Ax_Screen
begin

text \<open>
  Memory in \<^verbatim>\<open>axiom41/axcore.c\<close>: the C library routines the ROM brings along, the checksum
  of a region, and the variables at \<^verbatim>\<open>CASBUF\<close> as the bytes they occupy.  Addresses wrap
  at 16 bits, as pointers do.
\<close>

section \<open>Blocks of memory\<close>

fun fetch :: "ax_mem \<Rightarrow> word16 \<Rightarrow> nat \<Rightarrow> byte list" where
  "fetch m a 0 = []"
| "fetch m a (Suc n) = m a # fetch m (a + 1) n"

fun store :: "word16 \<Rightarrow> byte list \<Rightarrow> ax_mem \<Rightarrow> ax_mem" where
  "store a [] m = m"
| "store a (b # bs) m = store (a + 1) bs (m(a := b))"

definition fetch2 :: "ax_mem \<Rightarrow> word16 \<Rightarrow> word16" where
  "fetch2 m a = hilo (m a) (m (a + 1))"

section \<open>The C library of the ROM\<close>

fun memcpy_loop :: "nat \<Rightarrow> word16 \<Rightarrow> word16 \<Rightarrow> ax_mem \<Rightarrow> ax_mem" where
  "memcpy_loop 0 d s m = m"
| "memcpy_loop (Suc n) d s m = memcpy_loop n (d + 1) (s + 1) (m(d := m s))"

definition memcpy :: "word16 \<Rightarrow> word16 \<Rightarrow> word16 \<Rightarrow> ax_mem \<Rightarrow> ax_mem" where
  "memcpy dest src n m = memcpy_loop (unat n) dest src m"

fun memset_loop :: "nat \<Rightarrow> word16 \<Rightarrow> byte \<Rightarrow> ax_mem \<Rightarrow> ax_mem" where
  "memset_loop 0 d c m = m"
| "memset_loop (Suc n) d c m = memset_loop n (d + 1) c (m(d := c))"

definition memset :: "word16 \<Rightarrow> word16 \<Rightarrow> word16 \<Rightarrow> ax_mem \<Rightarrow> ax_mem" where
  "memset s c n m = memset_loop (unat n) s (lo c) m"

text \<open>The copies of strings stop before the NUL and do not write one.\<close>

partial_function (option) strcpy :: "word16 \<Rightarrow> word16 \<Rightarrow> ax_mem \<Rightarrow> ax_mem option" where
  "strcpy dest src m =
     (if m src \<noteq> 0 then strcpy (dest + 1) (src + 1) (m(dest := m src)) else Some m)"

declare strcpy.simps [code]

function strncpy_loop :: "word16 \<Rightarrow> word16 \<Rightarrow> word16 \<Rightarrow> word16 \<Rightarrow> ax_mem \<Rightarrow> ax_mem" where
  "strncpy_loop i n dest src m =
     (if m src \<noteq> 0 then
        (let m' = m(dest := m src); i = i + 1 in
         if i \<ge> n then m' else strncpy_loop i n (dest + 1) (src + 1) m')
      else m)"
  by auto
termination
proof (relation "measure (\<lambda>(i, n, _). unat n - unat (i + 1))")
  fix i n dest src :: word16 and m m' :: ax_mem and i'
  assume "i' = i + 1" "\<not> n \<le> i'"
  then show "((i', n, dest + 1, src + 1, m'), i, n, dest, src, m) \<in> measure (\<lambda>(i, n, _). unat n - unat (i + 1))"
    using unat_Suc_less [of "i + 1" n] by (auto simp: not_le word_less_nat_alt)
qed simp

declare strncpy_loop.simps [simp del]

definition strncpy :: "word16 \<Rightarrow> word16 \<Rightarrow> word16 \<Rightarrow> ax_mem \<Rightarrow> ax_mem" where
  "strncpy dest src n m = strncpy_loop 0 n dest src m"

partial_function (option) strlen_loop :: "word16 \<Rightarrow> word16 \<Rightarrow> ax_mem \<Rightarrow> word16 option" where
  "strlen_loop s p m = (if m p \<noteq> 0 then strlen_loop s (p + 1) m else Some (p - s))"

declare strlen_loop.simps [code]

definition strlen :: "word16 \<Rightarrow> ax_mem \<Rightarrow> word16 option" where
  "strlen s m = strlen_loop s s m"

function strnlen_loop :: "word16 \<Rightarrow> word16 \<Rightarrow> word16 \<Rightarrow> ax_mem \<Rightarrow> word16" where
  "strnlen_loop s k lim m = (if m (s + k) \<noteq> 0 \<and> k < lim then strnlen_loop s (k + 1) lim m else k)"
  by auto
termination
  by (relation "measure (\<lambda>(s, k, lim, m). unat lim - unat k)") (auto simp: unat_Suc_less word_less_nat_alt)

declare strnlen_loop.simps [simp del]

definition strnlen :: "word16 \<Rightarrow> word16 \<Rightarrow> ax_mem \<Rightarrow> word16" where
  "strnlen s lim m = strnlen_loop s 0 lim m"

section \<open>The checksum of the ROMs\<close>

text \<open>With an end of \<^verbatim>\<open>0xFFFF\<close> the address wraps and the loop need not end.\<close>

partial_function (option) sum_loop :: "word16 \<Rightarrow> word16 \<Rightarrow> word16 \<Rightarrow> ax_mem \<Rightarrow> word16 option" where
  "sum_loop b e acc m = (if b < e then sum_loop (b + 2) e (acc + fetch2 m b) m else Some acc)"

declare sum_loop.simps [code]

definition CheckSum16 :: "word16 \<Rightarrow> word16 \<Rightarrow> ax_mem \<Rightarrow> word16 option" where
  "CheckSum16 b e m = sum_loop b e 0 m"

definition ComputeRomSums :: "'a ax_scheme \<Rightarrow> 'a ax_scheme option" where
  "ComputeRomSums s = do {
     a \<leftarrow> CheckSum16 0x8000 0xA000 (amem s);
     b \<leftarrow> CheckSum16 0xA000 0xC000 (amem s);
     c \<leftarrow> CheckSum16 0xC100 0xC800 (amem s);
     d \<leftarrow> CheckSum16 0xE000 0xF000 (amem s);
     Some (s\<lparr>vars := (vars s)\<lparr>v_rom_sum_0 := a, v_rom_sum_1 := b, v_rom_sum_2 := c, v_rom_sum_3 := d\<rparr>\<rparr>) }"

section \<open>The variables as bytes\<close>

definition CASBUF :: word16 where "CASBUF = 0x1DA"

definition word_bytes :: "word16 \<Rightarrow> byte list" where
  "word_bytes w = [hi w, lo w]"

definition bool_byte :: "bool \<Rightarrow> byte" where
  "bool_byte b = (if b then 1 else 0)"

text \<open>\<^verbatim>\<open>line_buf\<close> lies 71 bytes behind the start; \<^verbatim>\<open>line_ptr\<close> points into it.\<close>

definition line_address :: "ax_vars \<Rightarrow> word16" where
  "line_address v = CASBUF + 71 + of_nat (length (v_line_buf v) - length (v_line_ptr v))"

definition vars_bytes :: "ax_vars \<Rightarrow> byte list" where
  "vars_bytes v =
     word_bytes (v_stack v) @ word_bytes (v_main v) @ word_bytes (v_rom_sum_0 v) @
     word_bytes (v_rom_sum_1 v) @ word_bytes (v_rom_sum_2 v) @ word_bytes (v_rom_sum_3 v) @
     word_bytes (v_wiz_port v) @ word_bytes (v_rand_word v) @ v_transaction_id v @
     [bool_byte (v_got_dhcp v), bool_byte (v_got_lan v), bool_byte (v_use_dhcp v), bool_byte (v_launch v)] @
     v_hostname v @ v_ip_addr v @ v_ip_mask v @ v_ip_gateway v @ v_ip_resolver v @ v_ip_dhcp v @
     v_ip_waiter v @ [v_mask_num v] @ word_bytes (v_waiter_port v) @
     word_bytes (v_vdg_addr v) @ word_bytes (v_vdg_begin v) @ word_bytes (v_vdg_end v) @
     word_bytes (v_vdg_ptr v) @ word_bytes (v_lemma_loop v) @ word_bytes (line_address v) @ v_line_buf v"

definition vars_size :: nat where "vars_size = 151"

text \<open>Memory as a load sees it: the variables lie over it.\<close>

definition mem_view :: "'a ax_scheme \<Rightarrow> ax_mem" where
  "mem_view s a =
     (let i = unat (a - CASBUF) in if i < vars_size then vars_bytes (vars s) ! i else amem s a)"

text \<open>A store of bytes from outside; one that hits the variables is outside of this model.\<close>

fun hits_vars :: "word16 \<Rightarrow> nat \<Rightarrow> bool" where
  "hits_vars a 0 = False"
| "hits_vars a (Suc n) = (unat (a - CASBUF) < vars_size \<or> hits_vars (a + 1) n)"

definition poke_bytes :: "word16 \<Rightarrow> byte list \<Rightarrow> 'a ax_scheme \<Rightarrow> 'a ax_scheme option" where
  "poke_bytes a bs s =
     (if hits_vars a (length bs) then None else Some (s\<lparr>amem := store a bs (amem s)\<rparr>))"

definition vars_wf :: "ax_vars \<Rightarrow> bool" where
  "vars_wf v \<longleftrightarrow> length (v_transaction_id v) = 4 \<and> length (v_hostname v) = 8 \<and> length (v_ip_addr v) = 4 \<and>
     length (v_ip_mask v) = 4 \<and> length (v_ip_gateway v) = 4 \<and> length (v_ip_resolver v) = 4 \<and>
     length (v_ip_dhcp v) = 4 \<and> length (v_ip_waiter v) = 4 \<and> length (v_line_buf v) = 80"

lemma vars_bytes_size: "vars_wf v \<Longrightarrow> length (vars_bytes v) = vars_size"
  by (simp add: vars_wf_def vars_bytes_def vars_size_def word_bytes_def)

section \<open>Lemmas\<close>

lemma length_fetch [simp]: "length (fetch m a n) = n"
  by (induction n arbitrary: a) auto

lemma fetch_nth: "i < n \<Longrightarrow> fetch m a n ! i = m (a + of_nat i)"
proof (induction n arbitrary: a i)
  case (Suc n)
  then show ?case by (cases i) (auto simp: algebra_simps)
qed simp

text \<open>Offsets below \<^verbatim>\<open>2^16\<close> are different addresses.\<close>

lemma offset_inj:
  assumes "i < 65536" "j < 65536" "(a :: word16) + of_nat i = a + of_nat j"
  shows "i = j"
proof -
  have "(of_nat i :: word16) = of_nat j" using assms(3) by simp
  then have "unat (of_nat i :: word16) = unat (of_nat j :: word16)" by simp
  then show ?thesis using assms(1,2) by (simp add: unat_of_nat)
qed

lemma store_at:
  "length bs \<le> 65536 \<Longrightarrow> store a bs m x =
    (if \<exists>i < length bs. x = a + of_nat i then bs ! unat (x - a) else m x)"
proof (induction bs arbitrary: a m)
  case (Cons b bs)
  have IH: "store (a + 1) bs (m(a := b)) x =
    (if \<exists>i < length bs. x = a + 1 + of_nat i then bs ! unat (x - (a + 1)) else (m(a := b)) x)"
    by (rule Cons(1)) (use Cons(2) in simp)
  show ?case
  proof (cases "\<exists>i < length bs. x = a + 1 + of_nat i")
    case True
    then obtain i where i: "i < length bs" "x = a + 1 + of_nat i" by blast
    have "x - a = of_nat (Suc i)" "x - (a + 1) = of_nat i" using i by simp_all
    then have "unat (x - a) = Suc i" "unat (x - (a + 1)) = i"
      using i(1) Cons(2) by (simp_all only: unat_of_nat) simp_all
    moreover have "\<exists>i < length (b # bs). x = a + of_nat i"
      using i by (intro exI [of _ "Suc i"]) simp
    ultimately show ?thesis using IH True by simp
  next
    case False
    have "(\<exists>i < length (b # bs). x = a + of_nat i) \<longleftrightarrow> x = a"
    proof
      assume "\<exists>i < length (b # bs). x = a + of_nat i"
      then obtain i where i: "i < length (b # bs)" "x = a + of_nat i" by blast
      then show "x = a" using False by (cases i) (auto simp: algebra_simps)
    next
      assume "x = a"
      then show "\<exists>i < length (b # bs). x = a + of_nat i" by (intro exI [of _ 0]) simp
    qed
    then show ?thesis using IH False by simp
  qed
qed simp

lemma fetch_store: "length bs \<le> 65536 \<Longrightarrow> fetch (store a bs m) a (length bs) = bs"
proof (rule nth_equalityI)
  fix i
  assume l: "length bs \<le> 65536" and "i < length (fetch (store a bs m) a (length bs))"
  then have i: "i < length bs" by simp
  have u: "unat (a + of_nat i - a) = i" using i l by (simp add: unat_of_nat)
  show "fetch (store a bs m) a (length bs) ! i = bs ! i"
    unfolding fetch_nth [OF i] store_at [OF l] u using i by auto
qed simp

text \<open>The checksum loop over a whole number of words.\<close>

lemma sum_loop_words:
  "unat b + 2 * n < 65536 \<Longrightarrow>
   sum_loop b (b + of_nat (2 * n)) acc m = Some (acc + (\<Sum>i<n. fetch2 m (b + of_nat (2 * i))))"
proof (induction n arbitrary: b acc)
  case 0
  show ?case by (subst sum_loop.simps) simp
next
  case (Suc n)
  have u: "unat (b + of_nat (2 * Suc n)) = unat b + 2 * Suc n" "unat (b + 2) = unat b + 2"
    using Suc(2) by (simp_all add: unat_word_ariths unat_of_nat)
  then have lt: "b < b + of_nat (2 * Suc n)" by (simp add: word_less_nat_alt)
  have e: "b + of_nat (2 * Suc n) = (b + 2) + of_nat (2 * n)" by simp
  have "sum_loop b (b + of_nat (2 * Suc n)) acc m =
      sum_loop (b + 2) (b + 2 + of_nat (2 * n)) (acc + fetch2 m b) m"
    using lt unfolding e by (subst sum_loop.simps) simp
  also have "\<dots> = Some (acc + fetch2 m b + (\<Sum>i<n. fetch2 m (b + 2 + of_nat (2 * i))))"
    by (rule Suc(1)) (use u Suc(2) in simp)
  also have "(\<Sum>i<n. fetch2 m (b + 2 + of_nat (2 * i))) = (\<Sum>i<n. fetch2 m (b + of_nat (2 * Suc i)))"
    by (rule sum.cong) (simp_all add: algebra_simps)
  also have "acc + fetch2 m b + \<dots> = acc + (\<Sum>i<Suc n. fetch2 m (b + of_nat (2 * i)))"
    by (subst sum.lessThan_Suc_shift) (simp add: algebra_simps)
  finally show ?case .
qed

text \<open>
  \<^verbatim>\<open>CheckSum16\<close> returns for every region of a whole number of words that does not reach
  the end of memory, with the sum of its big-endian words modulo \<^verbatim>\<open>2^16\<close>; so the four
  sums over the ROMs are always computed.
\<close>
theorem CheckSum16_sums:
  assumes "unat b + 2 * n < 65536"
  shows "CheckSum16 b (b + of_nat (2 * n)) m = Some (\<Sum>i<n. fetch2 m (b + of_nat (2 * i)))"
  using sum_loop_words [OF assms, where acc = 0 and m = m] by (simp add: CheckSum16_def)

theorem CheckSum16_sums_witness:
  "CheckSum16 0x8000 0xA000 (\<lambda>_. 1) = Some (\<Sum>i<4096. fetch2 (\<lambda>_. 1) (0x8000 + of_nat (2 * i)))"
  using CheckSum16_sums [where b = "0x8000" and n = 4096 and m = "\<lambda>_. 1"] by simp

end
