(* ===== verification/Ax_Wiz.thy ===== *)
theory Ax_Wiz
  imports Ax_Memory
begin

text \<open>
  The W5100S network chip as \<^verbatim>\<open>axiom41/axcore.c\<close> drives it.  The chip is a parameter: a
  state \<^verbatim>\<open>'w\<close> and what a read and a write of its four ports do to it (0 the mode
  register, 1 and 2 the address, 3 the data at the address).  A 16-bit store to the
  address port writes the high byte first.  The \<^verbatim>\<open>Delay\<close> loops have no effect.
  A loop that polls the chip need not end and is then \<^verbatim>\<open>None\<close>.
\<close>

section \<open>The ports\<close>

record 'w port =
  pread :: "nat \<Rightarrow> 'w \<Rightarrow> byte \<times> 'w"
  pwrite :: "nat \<Rightarrow> byte \<Rightarrow> 'w \<Rightarrow> 'w"

definition set_addr :: "'w port \<Rightarrow> word16 \<Rightarrow> 'w \<Rightarrow> 'w" where
  "set_addr P reg w = pwrite P 2 (lo reg) (pwrite P 1 (hi reg) w)"

fun get_data :: "'w port \<Rightarrow> nat \<Rightarrow> 'w \<Rightarrow> byte list \<times> 'w" where
  "get_data P 0 w = ([], w)"
| "get_data P (Suc n) w =
     (let (b, w) = pread P 3 w; (bs, w) = get_data P n w in (b # bs, w))"

fun put_data :: "'w port \<Rightarrow> byte list \<Rightarrow> 'w \<Rightarrow> 'w" where
  "put_data P [] w = w"
| "put_data P (b # bs) w = put_data P bs (pwrite P 3 b w)"

definition WizGet1 :: "'w port \<Rightarrow> word16 \<Rightarrow> 'w \<Rightarrow> byte \<times> 'w" where
  "WizGet1 P reg w = pread P 3 (set_addr P reg w)"

definition WizGet2 :: "'w port \<Rightarrow> word16 \<Rightarrow> 'w \<Rightarrow> word16 \<times> 'w" where
  "WizGet2 P reg w =
     (let w = set_addr P reg w; (z_hi, w) = pread P 3 w; (z_lo, w) = pread P 3 w
      in (push_bit 8 (ucast z_hi) + ucast z_lo, w))"

definition WizGetN :: "'w port \<Rightarrow> word16 \<Rightarrow> word16 \<Rightarrow> 'w \<Rightarrow> byte list \<times> 'w" where
  "WizGetN P reg n w = get_data P (unat n) (set_addr P reg w)"

definition WizPut1 :: "'w port \<Rightarrow> word16 \<Rightarrow> byte \<Rightarrow> 'w \<Rightarrow> 'w" where
  "WizPut1 P reg v w = pwrite P 3 v (set_addr P reg w)"

definition WizPut2 :: "'w port \<Rightarrow> word16 \<Rightarrow> word16 \<Rightarrow> 'w \<Rightarrow> 'w" where
  "WizPut2 P reg v w = pwrite P 3 (lo v) (pwrite P 3 (hi v) (set_addr P reg w))"

definition WizPutN :: "'w port \<Rightarrow> word16 \<Rightarrow> byte list \<Rightarrow> 'w \<Rightarrow> 'w" where
  "WizPutN P reg bs w = put_data P bs (set_addr P reg w)"

definition WizTicks :: "'w port \<Rightarrow> 'w \<Rightarrow> word16 \<times> 'w" where
  "WizTicks P w = WizGet2 P 0x0082 w"

definition WizTocks :: "'w port \<Rightarrow> 'w \<Rightarrow> byte \<times> 'w" where
  "WizTocks P w = WizGet1 P 0x0082 w"

section \<open>Registers and sockets\<close>

definition RTR0 :: word16 where "RTR0 = 0x17"
definition RCR :: word16 where "RCR = 0x19"
definition SK_MR :: word16 where "SK_MR = 0"
definition SK_MR_TCP :: byte where "SK_MR_TCP = 1"
definition SK_MR_UDP :: byte where "SK_MR_UDP = 2"
definition SK_MR_ND :: byte where "SK_MR_ND = 0x20"
definition SK_CR :: word16 where "SK_CR = 1"
definition SK_CR_OPEN :: byte where "SK_CR_OPEN = 1"
definition SK_CR_CONN :: byte where "SK_CR_CONN = 4"
definition SK_CR_SEND :: byte where "SK_CR_SEND = 0x20"
definition SK_CR_RECV :: byte where "SK_CR_RECV = 0x40"
definition SK_IR :: word16 where "SK_IR = 2"
definition SK_IR_CON :: byte where "SK_IR_CON = 1"
definition SK_IR_DISC :: byte where "SK_IR_DISC = 2"
definition SK_IR_TOUT :: byte where "SK_IR_TOUT = 8"
definition SK_SR :: word16 where "SK_SR = 3"
definition SK_SR_INIT :: byte where "SK_SR_INIT = 0x13"
definition SK_SR_SYNS :: byte where "SK_SR_SYNS = 0x15"
definition SK_SR_ESTB :: byte where "SK_SR_ESTB = 0x17"
definition SK_SR_UDP :: byte where "SK_SR_UDP = 0x22"
definition SK_PORTR0 :: word16 where "SK_PORTR0 = 4"
definition SK_DIPR0 :: word16 where "SK_DIPR0 = 0x0C"
definition SK_DPORTR0 :: word16 where "SK_DPORTR0 = 0x10"
definition SK_TX_FSR0 :: word16 where "SK_TX_FSR0 = 0x20"
definition SK_TX_WR0 :: word16 where "SK_TX_WR0 = 0x24"
definition SK_RX_RSR0 :: word16 where "SK_RX_RSR0 = 0x26"
definition SK_RX_RD0 :: word16 where "SK_RX_RD0 = 0x28"
definition SK_MR2 :: word16 where "SK_MR2 = 0x2F"

lemmas wiz_regs = SK_CR_def SK_IR_def SK_SR_def SK_MR_def SK_MR2_def SK_TX_FSR0_def SK_TX_WR0_def
  SK_RX_RSR0_def SK_RX_RD0_def SK_DIPR0_def SK_DPORTR0_def SK_PORTR0_def

definition RING_SIZE :: word16 where "RING_SIZE = 2048"
definition RING_MASK :: word16 where "RING_MASK = RING_SIZE - 1"
definition TCP_CHUNK_SIZE :: nat where "TCP_CHUNK_SIZE = 1024"

record sock =
  sbase :: word16
  tx_ring :: word16
  rx_ring :: word16

definition Socks :: "sock list" where
  "Socks = [\<lparr>sbase = 0x400, tx_ring = 0x4000, rx_ring = 0x6000\<rparr>,
            \<lparr>sbase = 0x500, tx_ring = 0x4800, rx_ring = 0x6800\<rparr>]"

definition SOCK0 :: sock where "SOCK0 = Socks ! 0"
definition SOCK1 :: sock where "SOCK1 = Socks ! 1"

record proto =
  open_mode :: byte
  open_status :: byte
  is_broadcast :: bool
  send_command :: byte

definition TcpProto :: proto where
  "TcpProto = \<lparr>open_mode = SK_MR_TCP + SK_MR_ND, open_status = SK_SR_INIT, is_broadcast = False,
     send_command = SK_CR_SEND\<rparr>"

definition UdpProto :: proto where
  "UdpProto = \<lparr>open_mode = SK_MR_UDP, open_status = SK_SR_UDP, is_broadcast = False,
     send_command = SK_CR_SEND\<rparr>"

definition BroadcastUdpProto :: proto where
  "BroadcastUdpProto = \<lparr>open_mode = SK_MR_UDP, open_status = SK_SR_UDP, is_broadcast = True,
     send_command = SK_CR_SEND + 1\<rparr>"

definition SixFFs :: "byte list" where "SixFFs = replicate 6 0xFF"

type_synonym errnum = byte

definition OKAY :: errnum where "OKAY = 0"
definition NOTYET :: errnum where "NOTYET = 1"

section \<open>Chip operations\<close>

definition WizReset :: "'w port \<Rightarrow> 'w \<Rightarrow> 'w" where
  "WizReset P w = WizPut1 P RCR 10 (WizPut2 P RTR0 10000 (pwrite P 0 3 (pwrite P 0 128 w)))"

definition WizConfigure :: "'w port \<Rightarrow> ax_vars \<Rightarrow> byte list \<Rightarrow> 'w \<Rightarrow> 'w" where
  "WizConfigure P v rom_mac_tail w =
     (let w = WizPutN P 0x0001 (v_ip_gateway v) w;
          w = WizPutN P 0x0005 (v_ip_mask v) w;
          w = WizPutN P 0x000f (v_ip_addr v) w;
          w = WizPut1 P 0x0009 0x02 w
      in WizPutN P 0x000A rom_mac_tail w)"

text \<open>0, or the number of the test that failed.\<close>

definition ValidateWizPort :: "'w port \<Rightarrow> 'w \<Rightarrow> byte \<times> 'w" where
  "ValidateWizPort P w =
     (let (status, w) = pread P 0 w in
      if status \<noteq> 3 then (11, w)
      else
        let w = set_addr P 0x0080 w; (version, w) = pread P 3 w in
        if version \<noteq> 0x51 then (12, w)
        else
          let w = put_data P [0xA1, 0xB2, 0xC3] (set_addr P 0x0009 w);
              w = set_addr P 0x0009 w;
              (x, w) = pread P 3 w; (y, w) = pread P 3 w; (z, w) = pread P 3 w
          in if x \<noteq> 0xA1 \<or> y \<noteq> 0xB2 \<or> z \<noteq> 0xC3 then (13, w) else (0, w))"

partial_function (option) cr_loop :: "'w port \<Rightarrow> sock \<Rightarrow> 'w \<Rightarrow> 'w option" where
  "cr_loop P k w =
     (let (c, w) = WizGet1 P (sbase k + SK_CR) w in if c \<noteq> 0 then cr_loop P k w else Some w)"

declare cr_loop.simps [code]

definition WizIssueCommand :: "'w port \<Rightarrow> sock \<Rightarrow> byte \<Rightarrow> 'w \<Rightarrow> 'w option" where
  "WizIssueCommand P k cmd w = cr_loop P k (WizPut1 P (sbase k + SK_CR) cmd w)"

text \<open>\<^verbatim>\<open>Fatal\<close> (that is \<^verbatim>\<open>None\<close>) at the 200th reading, whatever it is.\<close>

fun status_loop :: "'w port \<Rightarrow> sock \<Rightarrow> byte \<Rightarrow> nat \<Rightarrow> 'w \<Rightarrow> 'w option" where
  "status_loop P k want 0 w = None"
| "status_loop P k want (Suc stuck) w =
     (let (status, w) = WizGet1 P (sbase k + SK_SR) w in
      if stuck = 0 then None
      else if status \<noteq> want then status_loop P k want stuck w else Some w)"

definition WizWaitStatus :: "'w port \<Rightarrow> sock \<Rightarrow> byte \<Rightarrow> 'w \<Rightarrow> 'w option" where
  "WizWaitStatus P k want w = status_loop P k want 200 w"

definition WizOpen :: "'w port \<Rightarrow> sock \<Rightarrow> proto \<Rightarrow> word16 \<Rightarrow> 'w \<Rightarrow> 'w option" where
  "WizOpen P k pr local_port w =
     (let w = WizPut1 P (sbase k + SK_MR) (open_mode pr) w;
          w = WizPut2 P (sbase k + SK_PORTR0) local_port w;
          w = WizPut1 P (sbase k + SK_IR) 0xFF w
      in do { w \<leftarrow> WizIssueCommand P k SK_CR_OPEN w; WizWaitStatus P k (open_status pr) w })"

definition TcpDial :: "'w port \<Rightarrow> sock \<Rightarrow> byte list \<Rightarrow> word16 \<Rightarrow> 'w \<Rightarrow> 'w option" where
  "TcpDial P k host port w =
     (let w = WizPut2 P (sbase k + SK_TX_WR0) (tx_ring k) w;
          w = WizPutN P (sbase k + SK_DIPR0) host w;
          w = WizPut2 P (sbase k + SK_DPORTR0) port w;
          w = WizPut1 P (sbase k + SK_IR) 0xFF w
      in WizIssueCommand P k SK_CR_CONN w)"

definition UdpDial :: "'w port \<Rightarrow> sock \<Rightarrow> proto \<Rightarrow> byte list \<Rightarrow> word16 \<Rightarrow> 'w \<Rightarrow> 'w" where
  "UdpDial P k pr dest_ip dest_port w =
     (let w = (if is_broadcast pr
               then WizPutN P (sbase k + SK_DIPR0) (take 4 SixFFs) (WizPutN P (sbase k + 6) SixFFs w)
               else WizPutN P (sbase k + SK_DIPR0) dest_ip w)
      in WizPut2 P (sbase k + SK_DPORTR0) dest_port w)"

definition WizClose :: "'w port \<Rightarrow> sock \<Rightarrow> 'w \<Rightarrow> 'w option" where
  "WizClose P k w = do {
     w \<leftarrow> WizIssueCommand P k 0x10 w;
     Some (WizPut1 P (sbase k + 2) 0x1F (WizPut1 P (sbase k + SK_MR) 0x00 w)) }"

section \<open>Receiving\<close>

definition WizCheck :: "'w port \<Rightarrow> sock \<Rightarrow> 'w \<Rightarrow> errnum \<times> 'w" where
  "WizCheck P k w =
     (let (ir, w) = WizGet1 P (sbase k + SK_IR) w in
      if and ir SK_IR_TOUT \<noteq> 0 then (SK_IR_TOUT, w)
      else if and ir SK_IR_DISC \<noteq> 0 then (SK_IR_DISC, w)
      else (OKAY, w))"

definition WizRecvGetBytesWaiting :: "'w port \<Rightarrow> sock \<Rightarrow> 'w \<Rightarrow> (errnum \<times> word16) \<times> 'w" where
  "WizRecvGetBytesWaiting P k w =
     (let (e, w) = WizCheck P k w in
      if e \<noteq> OKAY then ((e, 0), w)
      else let (n, w) = WizGet2 P (sbase k + SK_RX_RSR0) w in ((OKAY, n), w))"

text \<open>The bytes received come as a result; the caller stores them in its buffer.\<close>

definition WizRecvChunkTry :: "'w port \<Rightarrow> sock \<Rightarrow> word16 \<Rightarrow> 'w \<Rightarrow> ((errnum \<times> byte list) \<times> 'w) option" where
  "WizRecvChunkTry P k n w =
     (let ((e, bytes_waiting), w) = WizRecvGetBytesWaiting P k w in
      if e \<noteq> OKAY then Some ((e, []), w)
      else if bytes_waiting < n then Some ((NOTYET, []), w)
      else
        let (rd, w) = WizGet2 P (sbase k + SK_RX_RD0) w;
            begin = and rd RING_MASK;
            fin = begin + n;
            (bs, w) =
              (if fin \<ge> RING_SIZE then
                 let first_n = RING_SIZE - begin;
                     second_n = n - first_n;
                     (xs, w) = WizGetN P (rx_ring k + begin) first_n w;
                     (ys, w) = WizGetN P (rx_ring k) second_n w
                 in (xs @ ys, w)
               else WizGetN P (rx_ring k + begin) n w);
            w = WizPut2 P (sbase k + SK_RX_RD0) (rd + n) w
        in do { w \<leftarrow> WizIssueCommand P k SK_CR_RECV w; Some ((OKAY, bs), w) })"

partial_function (option) WizRecvChunk ::
  "'w port \<Rightarrow> sock \<Rightarrow> word16 \<Rightarrow> 'w \<Rightarrow> ((errnum \<times> byte list) \<times> 'w) option" where
  "WizRecvChunk P k n w =
     Option.bind (WizRecvChunkTry P k n w) (\<lambda>((e, bs), w).
       if e = NOTYET then WizRecvChunk P k n w else Some ((e, bs), w))"

declare WizRecvChunk.simps [code]

text \<open>What had come before an error stays in the buffer, so it is part of the result.\<close>

function TcpRecv :: "'w port \<Rightarrow> sock \<Rightarrow> nat \<Rightarrow> 'w \<Rightarrow> ((errnum \<times> byte list) \<times> 'w) option" where
  "TcpRecv P k n w =
     (if n = 0 then Some ((OKAY, []), w)
      else
        let chunk = (if n < TCP_CHUNK_SIZE then n else TCP_CHUNK_SIZE) in do {
          ((e, bs), w) \<leftarrow> WizRecvChunk P k (of_nat chunk) w;
          if e \<noteq> OKAY then Some ((e, []), w)
          else do {
            ((e, cs), w) \<leftarrow> TcpRecv P k (n - chunk) w;
            Some ((e, bs @ cs), w) } })"
  by auto
termination by (relation "measure (\<lambda>(_, _, n, _). n)") (auto simp: TCP_CHUNK_SIZE_def)

declare TcpRecv.simps [simp del]

section \<open>Sending\<close>

partial_function (option) reserve_loop :: "'w port \<Rightarrow> sock \<Rightarrow> word16 \<Rightarrow> 'w \<Rightarrow> 'w option" where
  "reserve_loop P k n w =
     (let (free_size, w) = WizGet2 P (sbase k + SK_TX_FSR0) w in
      if free_size < n then reserve_loop P k n w else Some w)"

declare reserve_loop.simps [code]

definition WizReserveToSend :: "'w port \<Rightarrow> sock \<Rightarrow> word16 \<Rightarrow> 'w \<Rightarrow> (word16 \<times> 'w) option" where
  "WizReserveToSend P k n w = do {
     w \<leftarrow> reserve_loop P k n w;
     let (wr, w) = WizGet2 P (sbase k + SK_TX_WR0) w in Some (and wr RING_MASK, w) }"

definition WizDataToSend :: "'w port \<Rightarrow> sock \<Rightarrow> word16 \<Rightarrow> byte list \<Rightarrow> 'w \<Rightarrow> word16 \<times> 'w" where
  "WizDataToSend P k tx_ptr bs w =
     (let begin = tx_ptr;
          n = of_nat (length bs);
          fin = begin + n;
          w = (if fin \<ge> RING_SIZE then
                 let first_n = unat (RING_SIZE - begin)
                 in WizPutN P (tx_ring k) (drop first_n bs)
                      (WizPutN P (tx_ring k + begin) (take first_n bs) w)
               else WizPutN P (tx_ring k + begin) bs w)
      in (and (n + tx_ptr) RING_MASK, w))"

definition WizFinalizeSend :: "'w port \<Rightarrow> sock \<Rightarrow> proto \<Rightarrow> word16 \<Rightarrow> 'w \<Rightarrow> 'w option" where
  "WizFinalizeSend P k pr n w =
     (let (tx_wr, w) = WizGet2 P (sbase k + SK_TX_WR0) w;
          w = WizPut2 P (sbase k + SK_TX_WR0) (tx_wr + n) w
      in WizIssueCommand P k (send_command pr) w)"

definition WizSendChunk :: "'w port \<Rightarrow> sock \<Rightarrow> proto \<Rightarrow> byte list \<Rightarrow> 'w \<Rightarrow> (errnum \<times> 'w) option" where
  "WizSendChunk P k pr bs w =
     (let (e, w) = WizCheck P k w in
      if e \<noteq> OKAY then Some (e, w)
      else do {
        (tx_ptr, w) \<leftarrow> WizReserveToSend P k (of_nat (length bs)) w;
        let (_, w) = WizDataToSend P k tx_ptr bs w in do {
          w \<leftarrow> WizFinalizeSend P k pr (of_nat (length bs)) w;
          Some (OKAY, w) } })"

function TcpSend :: "'w port \<Rightarrow> sock \<Rightarrow> byte list \<Rightarrow> 'w \<Rightarrow> (errnum \<times> 'w) option" where
  "TcpSend P k p w =
     (if p = [] then Some (OKAY, w)
      else
        let chunk = (if length p < TCP_CHUNK_SIZE then length p else TCP_CHUNK_SIZE) in do {
          (e, w) \<leftarrow> WizSendChunk P k TcpProto (take chunk p) w;
          if e \<noteq> OKAY then Some (e, w) else TcpSend P k (drop chunk p) w })"
  by auto
termination by (relation "measure (\<lambda>(_, _, p, _). length p)") (auto simp: TCP_CHUNK_SIZE_def)

declare TcpSend.simps [simp del]

end
