(* ===== verification/Ax_Commands.thy ===== *)
theory Ax_Commands
  imports Ax_Wiz
begin

text \<open>
  The command line of \<^verbatim>\<open>axiom41/axcore.c\<close>.  The state of the machine is that of
  \<^verbatim>\<open>Ax_Screen\<close> with the keyboard (the results of the coming \<^verbatim>\<open>PolCat\<close> polls) and the
  network chip.  \<^verbatim>\<open>PTR\<close> is the rest of \<^verbatim>\<open>line_buf\<close>; reading at its end, behind the
  buffer, is \<^verbatim>\<open>None\<close>, and so is waiting for a key that never comes.
\<close>

section \<open>The machine\<close>

record 'w axw = ax +
  keys :: "byte list"
  chip :: 'w

text \<open>What is not RAM: a chip at each port address, the processor, the emulator's mark and
  the code a \<^verbatim>\<open>CMD_JSR\<close> calls.\<close>

record 'w board =
  ports :: "word16 \<Rightarrow> 'w port"
  is_6309 :: bool
  is_gomar :: bool
  jsr :: "word16 \<Rightarrow> 'w axw \<Rightarrow> 'w axw option"

definition WIZ :: "'w board \<Rightarrow> 'w axw \<Rightarrow> 'w port" where
  "WIZ H s = ports H (v_wiz_port (vars s))"

text \<open>One poll of the keyboard.\<close>

fun PolCat :: "'w axw \<Rightarrow> (byte \<times> 'w axw) option" where
  "PolCat s = (case keys s of [] \<Rightarrow> None | k # ks \<Rightarrow> Some (k, s\<lparr>keys := ks\<rparr>))"

section \<open>Typing a line\<close>

definition to_upper :: "byte \<Rightarrow> byte" where
  "to_upper c = (if ch CHR ''a'' \<le> c \<and> c \<le> ch CHR ''z'' then c - 32 else c)"

fun key_loop :: "byte list \<Rightarrow> byte list \<Rightarrow> 'w axw \<Rightarrow> (byte list \<times> 'w axw) option" where
  "key_loop typed [] s = None"
| "key_loop typed (c # ks) s =
     (let s = s\<lparr>keys := ks\<rparr> in
      if c = 0 then key_loop typed ks s
      else if c = 13 then Some (typed, s)
      else if c = 8 then
        (if typed \<noteq> [] then do { s \<leftarrow> PutChar 8 s; key_loop (butlast typed) ks s }
         else key_loop typed ks s)
      else if c < 32 \<or> c > 126 then key_loop typed ks s
      else
        (if length typed < 80 - 2 then do {
           s \<leftarrow> PutChar (to_upper c) s;
           key_loop (typed @ [to_upper c]) ks s }
         else key_loop typed ks s))"

definition GetUpperCaseLine :: "byte \<Rightarrow> 'w axw \<Rightarrow> 'w axw option" where
  "GetUpperCaseLine initialChar s = do {
     (typed, s) \<leftarrow>
       (if 33 \<le> initialChar \<and> initialChar \<le> 126
        then do { s \<leftarrow> PutChar initialChar s; key_loop [initialChar] (keys s) s }
        else key_loop [] (keys s) s);
     PutChar 13 (s\<lparr>vars := (vars s)\<lparr>v_line_buf := typed @ replicate (80 - length typed) 0\<rparr>\<rparr>) }"

section \<open>Scanning the line\<close>

definition is_white :: "byte \<Rightarrow> bool" where
  "is_white c \<longleftrightarrow> c \<in> {ch CHR '' '', ch CHR ''.'', ch CHR ''/'', ch CHR '':''}"

fun SkipWhite :: "byte list \<Rightarrow> byte list option" where
  "SkipWhite [] = None"
| "SkipWhite (c # p) = (if is_white c then SkipWhite p else Some (c # p))"

fun hex_num :: "byte list \<Rightarrow> bool \<Rightarrow> word16 \<Rightarrow> ((bool \<times> word16) \<times> byte list) option" where
  "hex_num [] got x = None"
| "hex_num (c # p) got x =
     (if urange CHR ''0'' CHR ''9'' c \<or> urange CHR ''A'' CHR ''F'' c then
        hex_num p True
          (if c \<le> ch CHR ''9'' then x * 16 + ucast (c - ch CHR ''0'')
           else x * 16 + ucast (c - ch CHR ''A'' + 10))
      else Some ((got, x), c # p))"

fun decimal_num :: "byte list \<Rightarrow> bool \<Rightarrow> word16 \<Rightarrow> ((bool \<times> word16) \<times> byte list) option" where
  "decimal_num [] got x = None"
| "decimal_num (c # p) got x =
     (if urange CHR ''0'' CHR ''9'' c then decimal_num p True (x * 10 + ucast (c - ch CHR ''0''))
      else Some ((got, x), c # p))"

definition GetNum2Bytes :: "byte list \<Rightarrow> ((bool \<times> word16) \<times> byte list) option" where
  "GetNum2Bytes p =
     (case SkipWhite p of
        None \<Rightarrow> None
      | Some p \<Rightarrow> if hd p = ch CHR ''$'' then hex_num (tl p) False 0 else decimal_num p False 0)"

definition GetNum1Byte :: "byte list \<Rightarrow> ((bool \<times> byte) \<times> byte list) option" where
  "GetNum1Byte p = do { ((b, x), p) \<leftarrow> GetNum2Bytes p; Some ((b, lo x), p) }"

text \<open>The address of four numbers, and whether they were all there.\<close>

fun addy_loop :: "nat \<Rightarrow> byte list \<Rightarrow> ((bool \<times> byte list) \<times> byte list) option" where
  "addy_loop 0 p = Some ((True, []), p)"
| "addy_loop (Suc n) p = do {
     ((got, b), p) \<leftarrow> GetNum1Byte p;
     if got then do { ((ok, bs), p) \<leftarrow> addy_loop n p; Some ((ok, b # bs), p) }
     else Some ((False, b # replicate n 0), p) }"

definition set_ptr :: "byte list \<Rightarrow> 'w axw \<Rightarrow> 'w axw" where
  "set_ptr p s = s\<lparr>vars := (vars s)\<lparr>v_line_ptr := p\<rparr>\<rparr>"

definition GetAddyInXid :: "'w axw \<Rightarrow> (bool \<times> 'w axw) option" where
  "GetAddyInXid s = do {
     ((ok, xid), p) \<leftarrow> addy_loop 4 (v_line_ptr (vars s));
     Some (ok, set_ptr p (s\<lparr>vars := (vars s)\<lparr>v_transaction_id := xid\<rparr>\<rparr>)) }"

section \<open>Masks and random addresses\<close>

function mask_loop :: "int \<Rightarrow> byte \<Rightarrow> byte" where
  "mask_loop n z = (if n > 0 then mask_loop (n - 1) (or (drop_bit 1 z) 0x80) else z)"
  by auto
termination by (relation "measure (\<lambda>(n, _). nat n)") auto

declare mask_loop.simps [simp del]

definition MaskBits :: "int \<Rightarrow> byte" where
  "MaskBits n = mask_loop n 0"

definition SetMask :: "byte \<Rightarrow> ax_vars \<Rightarrow> ax_vars" where
  "SetMask width v =
     (let width = (if width = 0 then 24 else width) in
      v\<lparr>v_mask_num := width,
        v_ip_mask := [MaskBits (uint width), MaskBits (uint width - 8),
                      MaskBits (uint width - 16), MaskBits (uint width - 24)]\<rparr>)"

function sub_above :: "word16 \<Rightarrow> word16 \<Rightarrow> word16" where
  "sub_above k x = (if x > k \<and> k \<noteq> 0 then sub_above k (x - k) else x)"
  by auto
termination by (relation "measure (\<lambda>(_, x). unat x)") (auto intro: unat_diff_less)

declare sub_above.simps [simp del]

definition Mod200 :: "word16 \<Rightarrow> byte" where
  "Mod200 x = lo (sub_above 200 (sub_above 2000 x))"

text \<open>The address tail is drawn from the clock of the chip when the line does not give it.\<close>

definition DoNetwork :: "'w board \<Rightarrow> byte \<Rightarrow> byte \<Rightarrow> 'w axw \<Rightarrow> 'w axw option" where
  "DoNetwork H a b s = do {
     ((got, t), p) \<leftarrow> GetNum1Byte (v_line_ptr (vars s));
     let (tail, w) =
           (if got then (t, chip s)
            else let (ticks, w) = WizTicks (WIZ H s) (chip s) in (30 + Mod200 ticks, w));
         s = set_ptr p (s\<lparr>chip := w\<rparr>)
     in Some (s\<lparr>vars := SetMask 24 ((vars s)
          \<lparr>v_ip_addr := [a, b, 23, tail], v_ip_gateway := [a, b, 23, 1], v_ip_waiter := [a, b, 23, 23]\<rparr>)\<rparr>) }"

section \<open>The commands\<close>

definition V41_DEFAULT_WAITER_TCP_PORT :: word16 where
  "V41_DEFAULT_WAITER_TCP_PORT = 2321"

definition ShowNetwork :: "'a ax_scheme \<Rightarrow> 'a ax_scheme option" where
  "ShowNetwork s = do {
     s \<leftarrow>
       (if v_use_dhcp (vars s) then PrintF (cs ''d'' @ [1, 10]) [] s
        else PrintF (cs ''i'' @ [1] @ cs '' %a/%d %a'' @ [10])
          [PAddr (v_ip_addr (vars s)), PWord (ucast (v_mask_num (vars s))), PAddr (v_ip_gateway (vars s))] s);
     PrintF (cs ''w'' @ [1] @ cs '' %a:%d'' @ [10])
       [PAddr (v_ip_waiter (vars s)), PWord (v_waiter_port (vars s))] s }"

fun peek_loop :: "nat \<Rightarrow> word16 \<Rightarrow> 'a ax_scheme \<Rightarrow> 'a ax_scheme option" where
  "peek_loop 0 a s = Some s"
| "peek_loop (Suc n) a s = do {
     s \<leftarrow> PrintF (cs '' %x'') [PWord (ucast (mem_view s a))] s;
     peek_loop n (a + 1) s }"

definition help_text :: "(cstr \<times> parg list) list" where
  "help_text =
     [(cs ''U'' @ [1] @ cs '' :upper wiznet port $FF78'' @ [10], []),
      (cs ''Q'' @ [1] @ cs '' :quick: poke 1 to $FFD9'' @ [10], []),
      (cs ''N'' @ [1] @ cs '' :native mode for H6309'' @ [10], []),
      (cs ''D'' @ [1] @ cs '' :use DHCP'' @ [10], []),
      (cs ''I'' @ [1] @ cs '' 1.2.3.4/24 5.6.7.8'' @ [10], []),
      (cs ''  :Set IP addr, mask, gateway'' @ [10], []),
      (cs ''W'' @ [1] @ cs '' 3.4.5.6:%d :set waiter'' @ [10], [PWord V41_DEFAULT_WAITER_TCP_PORT]),
      (cs ''A'' @ [1] @ cs '' :preset 10.23.23.*'' @ [10], []),
      (cs ''B'' @ [1] @ cs '' :preset 176.23.23.*'' @ [10], []),
      (cs ''C'' @ [1] @ cs '' :preset 192.168.23.*'' @ [10], []),
      (cs ''S'' @ [1] @ cs '' :show settings'' @ [10], []),
      (cs ''Finally:  @'' @ [1] @ cs '' : launch!'' @ [10], [])]"

fun print_lines :: "(cstr \<times> parg list) list \<Rightarrow> 'a ax_scheme \<Rightarrow> 'a ax_scheme option" where
  "print_lines [] s = Some s"
| "print_lines ((f, args) # r) s = do { s \<leftarrow> PrintF f args s; print_lines r s }"

definition cmd_I :: "'w axw \<Rightarrow> (word16 \<times> 'w axw) option" where
  "cmd_I s = do {
     (ok, s) \<leftarrow> GetAddyInXid s;
     if \<not> ok then Some (11, s)
     else do {
       let s = s\<lparr>vars := (vars s)\<lparr>v_ip_addr := v_transaction_id (vars s), v_ip_gateway := replicate 4 0\<rparr>\<rparr>;
       ((got, width), p) \<leftarrow> GetNum1Byte (v_line_ptr (vars s));
       let s = set_ptr p s;
       s \<leftarrow>
         (if got then do {
            (ok, s) \<leftarrow> GetAddyInXid s;
            Some (if ok then s\<lparr>vars := (vars s)\<lparr>v_ip_gateway := v_transaction_id (vars s)\<rparr>\<rparr> else s) }
          else Some s);
       Some (0, s\<lparr>vars := SetMask width (vars s)\<rparr>) } }"

definition cmd_W :: "'w axw \<Rightarrow> (word16 \<times> 'w axw) option" where
  "cmd_W s = do {
     (ok, s) \<leftarrow> GetAddyInXid s;
     if \<not> ok then Some (12, s)
     else do {
       let s = s\<lparr>vars := (vars s)\<lparr>v_ip_waiter := v_transaction_id (vars s)\<rparr>\<rparr>;
       ((got, port), p) \<leftarrow> GetNum2Bytes (v_line_ptr (vars s));
       Some (0, set_ptr p (s\<lparr>vars := (vars s)
         \<lparr>v_waiter_port := (if got then port else V41_DEFAULT_WAITER_TCP_PORT)\<rparr>\<rparr>)) } }"

definition cmd_peek :: "'w axw \<Rightarrow> 'w axw option" where
  "cmd_peek s = do {
     ((got, x), p) \<leftarrow> GetNum2Bytes (v_line_ptr (vars s));
     let peek_addr = (if got then x else 0);
     s \<leftarrow> PrintF (cs ''%x: '') [PWord peek_addr] (set_ptr p s);
     s \<leftarrow> peek_loop 8 peek_addr s;
     PutChar 13 s }"

definition cmd_poke :: "'w axw \<Rightarrow> 'w axw option" where
  "cmd_poke s = do {
     ((got, a), p) \<leftarrow> GetNum2Bytes (v_line_ptr (vars s));
     if got then do {
       ((got, b), p) \<leftarrow> GetNum1Byte p;
       if got then poke_bytes a [b] (set_ptr p s) else PrintF (cs ''?'' @ [10]) [] (set_ptr p s) }
     else PrintF (cs ''?'' @ [10]) [] (set_ptr p s) }"

text \<open>The result of a command: the error number to print, 0 for none.\<close>

definition run_command :: "'w board \<Rightarrow> byte \<Rightarrow> 'w axw \<Rightarrow> (word16 \<times> 'w axw) option" where
  "run_command H cmd s =
     (let fine = map_option (\<lambda>s. (0, s)) in
      if cmd = ch CHR ''U'' then Some (0, s\<lparr>vars := (vars s)\<lparr>v_wiz_port := 0xFF78\<rparr>\<rparr>)
      else if cmd = ch CHR ''D'' then Some (0, s\<lparr>vars := (vars s)\<lparr>v_use_dhcp := True\<rparr>\<rparr>)
      else if cmd = ch CHR ''I'' then cmd_I s
      else if cmd = ch CHR ''W'' then cmd_W s
      else if cmd = ch CHR ''S'' then fine (ShowNetwork s)
      else if cmd = ch CHR ''A'' then fine (DoNetwork H 10 23 s)
      else if cmd = ch CHR ''B'' then fine (DoNetwork H 176 23 s)
      else if cmd = ch CHR ''C'' then fine (DoNetwork H 192 168 s)
      else if cmd = ch CHR ''@'' then Some (0, s\<lparr>vars := (vars s)\<lparr>v_launch := True\<rparr>\<rparr>)
      else if cmd = ch CHR ''Q'' then Some (0, s\<lparr>amem := (amem s)(0xFFD9 := 1)\<rparr>)
      else if cmd = ch CHR ''N'' then Some (0, s)
      else if cmd = ch CHR ''<'' then fine (cmd_peek s)
      else if cmd = ch CHR ''>'' then fine (cmd_poke s)
      else if cmd = 0 \<or> cmd = ch CHR '';'' then Some (0, s)
      else fine (print_lines help_text s))"

definition DoOneCommand :: "'w board \<Rightarrow> 'w axw \<Rightarrow> 'w axw option" where
  "DoOneCommand H s = do {
     p \<leftarrow> SkipWhite (v_line_ptr (vars s));
     (e, s) \<leftarrow> run_command H (hd p) (set_ptr (tl p) s);
     if e \<noteq> 0 then PrintF (cs ''*** error %d'' @ [10]) [PWord e] s else Some s }"

fun echo_loop :: "byte list \<Rightarrow> 'a ax_scheme \<Rightarrow> 'a ax_scheme option" where
  "echo_loop [] s = None"
| "echo_loop (c # p) s =
     (if c \<noteq> 0 \<and> c \<noteq> ch CHR '';'' then do { s \<leftarrow> PutChar c s; echo_loop p s } else Some s)"

partial_function (option) line_loop :: "'w board \<Rightarrow> bool \<Rightarrow> 'w axw \<Rightarrow> 'w axw option" where
  "line_loop H echo s = do {
     s \<leftarrow>
       (if echo then do {
          s \<leftarrow> PutChar (ch CHR ''['') s;
          s \<leftarrow> echo_loop (v_line_ptr (vars s)) s;
          s \<leftarrow> PutChar (ch CHR '']'') s;
          PutChar 10 s }
        else Some s);
     s \<leftarrow> DoOneCommand H s;
     p \<leftarrow> SkipWhite (v_line_ptr (vars s));
     if hd p \<noteq> 0 then line_loop H echo (set_ptr p s) else Some (set_ptr p s) }"

declare line_loop.simps [code]

definition DoLineBufCommands :: "'w board \<Rightarrow> bool \<Rightarrow> 'w axw \<Rightarrow> 'w axw option" where
  "DoLineBufCommands H echo s = line_loop H echo (set_ptr (v_line_buf (vars s)) s)"

partial_function (option) keyboard_loop :: "'w board \<Rightarrow> byte \<Rightarrow> 'w axw \<Rightarrow> 'w axw option" where
  "keyboard_loop H initial_char s = do {
     s \<leftarrow> PrintF (cs ''>axiom> '') [] s;
     s \<leftarrow> GetUpperCaseLine initial_char s;
     s \<leftarrow> DoLineBufCommands H False s;
     if v_launch (vars s) then Some s else keyboard_loop H 0 s }"

declare keyboard_loop.simps [code]

definition DoKeyboardCommands :: "'w board \<Rightarrow> byte \<Rightarrow> 'w axw \<Rightarrow> 'w axw option" where
  "DoKeyboardCommands H initial_char s = do {
     s \<leftarrow> PrintF (cs ''Enter H'' @ [1] @ cs '' for HELP.'' @ [10]) [] (s\<lparr>vars := SetMask 24 (vars s)\<rparr>);
     keyboard_loop H initial_char s }"

end
