(* ===== verification/Ax_Line.thy ===== *)
theory Ax_Line
  imports Ax_Commands
begin

text \<open>
  The command line of the boot ROM: masks and random tails as numbers, addresses read back
  as they are printed, and a typed line that is never read behind its end.
\<close>

section \<open>Masks\<close>

lemma mask_loop_bit:
  "j < 8 \<Longrightarrow> bit (mask_loop (int n) z) j \<longleftrightarrow> 7 - j < n \<or> bit z (j + n)"
proof (induction n arbitrary: z)
  case 0
  show ?case by (subst mask_loop.simps) simp
next
  case (Suc n)
  let ?z = "or (drop_bit 1 z) 0x80 :: byte"
  have b: "bit ?z i \<longleftrightarrow> bit z (Suc i) \<or> i = 7" for i
  proof -
    have e: "(0x80 :: byte) = 2 ^ 7" by simp
    show ?thesis unfolding e bit_or_iff bit_drop_bit_eq bit_exp_iff by auto
  qed
  have "mask_loop (int (Suc n)) z = mask_loop (int n) ?z" by (subst mask_loop.simps) simp
  then show ?case using Suc b by auto
qed

lemma MaskBits_bit: "j < 8 \<Longrightarrow> bit (MaskBits n) j \<longleftrightarrow> int (7 - j) < n"
proof (cases "0 \<le> n")
  case True
  assume "j < 8"
  then show ?thesis using mask_loop_bit [of j "nat n" 0] True by (auto simp: MaskBits_def)
next
  case False
  then show ?thesis by (simp add: MaskBits_def) (subst mask_loop.simps, simp)
qed

section \<open>Remainders by subtraction\<close>

lemma sub_above_value:
  "k \<noteq> 0 \<Longrightarrow> 0 < unat x \<Longrightarrow> unat (sub_above k x) = (unat x - 1) mod unat k + 1"
proof (induction k x rule: sub_above.induct)
  case (1 k x)
  have k: "0 < unat k" using 1(2) by (simp add: unat_gt_0)
  show ?case
  proof (cases "x > k")
    case True
    then have u: "unat (x - k) = unat x - unat k" "unat k < unat x"
      using unat_diff_le [OF less_imp_le [OF True]] by (simp_all add: word_less_nat_alt)
    have "sub_above k x = sub_above k (x - k)" using True 1(2) by (subst sub_above.simps) simp
    moreover have "unat (sub_above k (x - k)) = (unat x - unat k - 1) mod unat k + 1"
      using 1 True u by simp
    moreover have "(unat x - 1) mod unat k = (unat x - 1 - unat k) mod unat k"
      using u by (intro le_mod_geq) simp
    ultimately show ?thesis by (simp add: diff_right_commute)
  next
    case False
    then have "unat x \<le> unat k" by (simp add: word_le_nat_alt not_less)
    then have "(unat x - 1) mod unat k = unat x - 1" using 1(3) by simp
    then show ?thesis using False 1(3) by (subst sub_above.simps) simp
  qed
qed

lemma Mod200_value: "unat (Mod200 x) = (if x = 0 then 0 else (unat x - 1) mod 200 + 1)"
proof (cases "x = 0")
  case True
  then show ?thesis by (simp add: Mod200_def sub_above.simps lo_def)
next
  case False
  let ?y = "sub_above 2000 x" and ?z = "sub_above 200 (sub_above 2000 x)"
  have y: "unat ?y = (unat x - 1) mod 2000 + 1"
    using sub_above_value [of 2000 x] False by (simp add: unat_gt_0)
  then have z: "unat ?z = (unat x - 1) mod 2000 mod 200 + 1" using sub_above_value [of 200 ?y] by simp
  then have z: "unat ?z = (unat x - 1) mod 200 + 1" by (simp add: mod_mod_cancel)
  have "(unat x - 1) mod 200 < 200" by simp
  then have "unat (lo ?z) = unat ?z" using z by (simp add: lo_def unsigned_ucast_eq take_bit_eq_mod)
  then show ?thesis using z False by (simp add: Mod200_def)
qed

section \<open>Reading addresses back\<close>

definition ends_number :: "byte list \<Rightarrow> bool" where
  "ends_number p \<longleftrightarrow> p \<noteq> [] \<and> \<not> urange CHR ''0'' CHR ''9'' (hd p)"

lemma urange_digit: "urange CHR ''0'' CHR ''9'' c \<longleftrightarrow> 48 \<le> unat c \<and> unat c \<le> 57"
  by (simp add: urange_def word_le_nat_alt)

lemma decimal_num_digits:
  assumes "\<forall>c \<in> set ds. 48 \<le> unat c \<and> unat c \<le> 57" "ends_number p"
  shows "decimal_num (ds @ p) got x =
    Some ((got \<or> ds \<noteq> [], foldl (\<lambda>x c. x * 10 + ucast (c - 48)) x ds), p)"
  using assms(1)
proof (induction ds arbitrary: got x)
  case Nil
  then show ?case using assms(2) by (cases p) (auto simp: ends_number_def)
next
  case (Cons c ds)
  then have "urange CHR ''0'' CHR ''9'' c" by (simp add: urange_digit)
  then show ?case using Cons by simp
qed

lemma foldl_digits:
  "\<forall>c \<in> set ds. 48 \<le> unat (c :: byte) \<Longrightarrow>
   foldl (\<lambda>x c. x * 10 + ucast (c - 48)) (of_nat n :: word16) ds = of_nat (foldl (\<lambda>n c. 10 * n + (unat c - 48)) n ds)"
proof (induction ds arbitrary: n)
  case (Cons c ds)
  have "unat (c - 48) = unat c - 48" using Cons(2) unat_diff_le [of 48 c] by (simp add: word_le_nat_alt)
  then have "(ucast (c - 48) :: word16) = of_nat (unat c - 48)" by (metis of_nat_unat)
  then have "(of_nat n :: word16) * 10 + ucast (c - 48) = of_nat (10 * n + (unat c - 48))" by simp
  moreover have "\<forall>c \<in> set ds. 48 \<le> unat c" using Cons(2) by simp
  ultimately show ?case using Cons(1) [of "10 * n + (unat c - 48)"] by (simp only: foldl_Cons)
qed simp

text \<open>A printed number is read back, whatever stands in front of and behind it.\<close>

lemma GetNum2Bytes_PutDec:
  assumes "\<forall>c \<in> set ws. is_white c" "ends_number p"
  shows "GetNum2Bytes (ws @ PutDec_text x @ p) = Some ((True, x), p)"
proof -
  note d = PutDec_text_digits [of x]
  obtain c ds where c: "PutDec_text x = c # ds" using d by (cases "PutDec_text x") auto
  have "48 \<le> unat c" "unat c \<le> 57" using d c by auto
  then have nw: "\<not> is_white c" "c \<noteq> ch CHR ''$''" by (auto simp: is_white_def)
  have skip: "SkipWhite (ws @ PutDec_text x @ p) = Some (PutDec_text x @ p)"
    using assms(1)
  proof (induction ws)
    case Nil
    then show ?case using c nw by simp
  qed simp
  have "foldl (\<lambda>x c. x * 10 + ucast (c - 48)) 0 (PutDec_text x) = x"
    using foldl_digits [of "PutDec_text x" 0] d by (simp add: digits_val_def)
  then show ?thesis
    using skip c nw d decimal_num_digits [OF _ assms(2), of "PutDec_text x" False 0]
    by (simp add: GetNum2Bytes_def)
qed

lemma lo_ucast [simp]: "lo (ucast (b :: byte)) = b"
  unfolding lo_def by (rule bit_word_eqI) (auto simp: bit_simps)

lemma GetNum1Byte_PutDec:
  assumes "\<forall>c \<in> set ws. is_white c" "ends_number p"
  shows "GetNum1Byte (ws @ PutDec_text (ucast b) @ p) = Some ((True, b), p)"
  using GetNum2Bytes_PutDec [OF assms, of "ucast b"] by (simp add: GetNum1Byte_def)

lemma addy_dotted:
  assumes "length a = 4" "\<forall>c \<in> set ws. is_white c" "ends_number p"
  shows "addy_loop 4 (ws @ dotted a @ p) = Some ((True, a), p)"
proof -
  obtain a0 a1 a2 a3 where a: "a = [a0, a1, a2, a3]"
    using assms(1) by (auto simp: numeral_eq_Suc length_Suc_conv)
  let ?dot = "[ch CHR ''.'']"
  have w: "\<forall>c \<in> set ?dot. is_white c" by (simp add: is_white_def)
  have e: "ends_number (?dot @ x)" for x by (simp add: ends_number_def urange_digit)
  have l: "ws @ dotted a @ p = ws @ PutDec_text (ucast a0) @ ?dot @ PutDec_text (ucast a1) @
      ?dot @ PutDec_text (ucast a2) @ ?dot @ PutDec_text (ucast a3) @ p"
    by (simp add: dotted_def a)
  have four: "(4 :: nat) = Suc (Suc (Suc (Suc 0)))" by simp
  show ?thesis
    unfolding l unfolding a four
    by (simp only: addy_loop.simps GetNum1Byte_PutDec [OF assms(2) e]
        GetNum1Byte_PutDec [OF w e] GetNum1Byte_PutDec [OF w assms(3)] Option.bind.simps case_prod_conv if_True)
qed

section \<open>A line with two NULs behind it\<close>

text \<open>The rest of a line without a poke command.\<close>

definition line_ok :: "byte list \<Rightarrow> bool" where
  "line_ok p \<longleftrightarrow> ch CHR ''>'' \<notin> set p \<and> (\<exists>xs zs. 0 \<notin> set xs \<and> p = xs @ 0 # 0 # zs)"

definition rest_of :: "byte list \<Rightarrow> byte list \<Rightarrow> bool" where
  "rest_of p p' \<longleftrightarrow> line_ok p' \<and> length p' \<le> length p"

lemma rest_of_refl: "line_ok p \<Longrightarrow> rest_of p p"
  by (simp add: rest_of_def)

lemma rest_of_trans: "rest_of p q \<Longrightarrow> rest_of q r \<Longrightarrow> rest_of p r"
  by (auto simp: rest_of_def)

lemma line_ok_Cons: "line_ok (c # p) \<Longrightarrow> c \<noteq> 0 \<Longrightarrow> line_ok p"
  by (fastforce simp: line_ok_def Cons_eq_append_conv)

lemma line_ok_not_Nil: "line_ok p \<Longrightarrow> p \<noteq> []"
  by (auto simp: line_ok_def)

lemma rest_of_Cons: "line_ok (c # p) \<Longrightarrow> c \<noteq> 0 \<Longrightarrow> rest_of p q \<Longrightarrow> rest_of (c # p) q"
  by (auto simp: rest_of_def)

lemma SkipWhite_rest: "line_ok p \<Longrightarrow> \<exists>p'. SkipWhite p = Some p' \<and> rest_of p p'"
proof (induction p)
  case (Cons c p)
  show ?case
  proof (cases "is_white c")
    case True
    then have "c \<noteq> 0" by (auto simp: is_white_def)
    then show ?thesis using True Cons line_ok_Cons [of c p] rest_of_Cons [of c p] by auto
  qed (use Cons(2) rest_of_refl in auto)
qed (simp add: line_ok_def)

lemma hex_num_rest: "line_ok p \<Longrightarrow> \<exists>r p'. hex_num p got x = Some (r, p') \<and> rest_of p p'"
proof (induction p arbitrary: got x)
  case (Cons c p)
  show ?case
  proof (cases "urange CHR ''0'' CHR ''9'' c \<or> urange CHR ''A'' CHR ''F'' c")
    case True
    then have "c \<noteq> 0" by (auto simp: urange_def word_le_nat_alt)
    then show ?thesis using True Cons line_ok_Cons [of c p] rest_of_Cons [of c p] by (simp add: Let_def) metis
  qed (use Cons(2) rest_of_refl in auto)
qed (simp add: line_ok_def)

lemma decimal_num_rest: "line_ok p \<Longrightarrow> \<exists>r p'. decimal_num p got x = Some (r, p') \<and> rest_of p p'"
proof (induction p arbitrary: got x)
  case (Cons c p)
  show ?case
  proof (cases "urange CHR ''0'' CHR ''9'' c")
    case True
    then have "c \<noteq> 0" by (auto simp: urange_def word_le_nat_alt)
    then show ?thesis using True Cons line_ok_Cons [of c p] rest_of_Cons [of c p] by simp metis
  qed (use Cons(2) rest_of_refl in auto)
qed (simp add: line_ok_def)

lemma GetNum2Bytes_rest: "line_ok p \<Longrightarrow> \<exists>r p'. GetNum2Bytes p = Some (r, p') \<and> rest_of p p'"
proof -
  assume "line_ok p"
  then obtain q where q: "SkipWhite p = Some q" "rest_of p q" using SkipWhite_rest by blast
  show ?thesis
  proof (cases "hd q = ch CHR ''$''")
    case True
    obtain c q' where c: "q = c # q'" using q(2) line_ok_not_Nil by (cases q) (auto simp: rest_of_def)
    then have "c \<noteq> 0" "line_ok q" using True q(2) by (auto simp: rest_of_def)
    then have "line_ok q'" using c line_ok_Cons by blast
    then obtain r p' where "hex_num q' False 0 = Some (r, p')" "rest_of q' p'" using hex_num_rest by blast
    then show ?thesis using True q c by (auto simp: GetNum2Bytes_def rest_of_def)
  next
    case False
    have "line_ok q" using q(2) by (simp add: rest_of_def)
    then obtain r p' where "decimal_num q False 0 = Some (r, p')" "rest_of q p'" using decimal_num_rest by blast
    then show ?thesis using False q rest_of_trans by (auto simp: GetNum2Bytes_def)
  qed
qed

lemma GetNum1Byte_rest: "line_ok p \<Longrightarrow> \<exists>r p'. GetNum1Byte p = Some (r, p') \<and> rest_of p p'"
  using GetNum2Bytes_rest [of p] by (auto simp: GetNum1Byte_def)

lemma addy_loop_rest: "line_ok p \<Longrightarrow> \<exists>r p'. addy_loop n p = Some (r, p') \<and> rest_of p p'"
proof (induction n arbitrary: p)
  case (Suc n)
  obtain got b q where q: "GetNum1Byte p = Some ((got, b), q)" "rest_of p q"
    using GetNum1Byte_rest [OF Suc(2)] by auto
  then obtain r p' where "addy_loop n q = Some (r, p')" "rest_of q p'"
    using Suc(1) [of q] by (auto simp: rest_of_def)
  then show ?case using q rest_of_trans [OF q(2)] by (cases r) (auto split: if_splits)
qed (auto simp: rest_of_refl)

section \<open>Commands on such a line\<close>

text \<open>The machine between commands: a good screen, and \<^verbatim>\<open>PTR\<close> on a good line of at most \<^verbatim>\<open>n\<close> bytes.\<close>

definition machine_ok :: "nat \<Rightarrow> 'w axw \<Rightarrow> bool" where
  "machine_ok n s \<longleftrightarrow> screen_ok s \<and> line_ok (v_line_ptr (vars s)) \<and> length (v_line_ptr (vars s)) \<le> n"

definition goes_on :: "nat \<Rightarrow> 'w axw option \<Rightarrow> bool" where
  "goes_on n r \<longleftrightarrow> (\<exists>s. r = Some s \<and> machine_ok n s)"

lemma goes_on_Some [simp]: "goes_on n (Some s) \<longleftrightarrow> machine_ok n s"
  by (simp add: goes_on_def)

lemma goes_on_bind: "goes_on n r \<Longrightarrow> (\<And>s. machine_ok n s \<Longrightarrow> goes_on n (f s)) \<Longrightarrow> goes_on n (r \<bind> f)"
  by (auto simp: goes_on_def)

lemma machine_window: "machine_ok n s \<Longrightarrow> in_window s s' \<Longrightarrow> machine_ok n s'"
proof -
  assume m: "machine_ok n s" and "in_window s s'"
  then obtain p where "screen_ok s'" "vars s' = (vars s)\<lparr>v_vdg_ptr := p\<rparr>" unfolding in_window_def by blast
  then show ?thesis using m by (simp add: machine_ok_def)
qed

lemma goes_on_PutStr: "machine_ok n s \<Longrightarrow> goes_on n (PutStr t s)"
proof -
  assume m: "machine_ok n s"
  then obtain s' where "PutStr t s = Some s'" "in_window s s'"
    using PutStr_window [of s t] unfolding machine_ok_def by blast
  then show ?thesis using machine_window [OF m] by simp
qed

lemma goes_on_PutChar: "machine_ok n s \<Longrightarrow> goes_on n (PutChar c s)"
  using goes_on_PutStr [of n s "[c]"] by (auto simp: goes_on_def bind_eq_Some_conv)

lemma goes_on_PrintF: "machine_ok n s \<Longrightarrow> printf_text f args = Some t \<Longrightarrow> goes_on n (PrintF f args s)"
  by (simp add: PrintF_def goes_on_PutStr)

lemma screen_ok_vars [simp]:
  "screen_ok (s\<lparr>vars := (vars s)\<lparr>v_line_ptr := p\<rparr>\<rparr>) = screen_ok s"
  "screen_ok (s\<lparr>vars := (vars s)\<lparr>v_transaction_id := a\<rparr>\<rparr>) = screen_ok s"
  "screen_ok (s\<lparr>amem := m\<rparr>) = screen_ok s"
  "screen_ok (s\<lparr>chip := w\<rparr>) = screen_ok s"
  by (simp_all add: screen_ok_def)

lemma machine_set_ptr: "machine_ok n s \<Longrightarrow> rest_of (v_line_ptr (vars s)) p \<Longrightarrow> machine_ok n (set_ptr p s)"
  by (simp add: machine_ok_def set_ptr_def rest_of_def)

lemma machine_ptr: "machine_ok n s \<Longrightarrow> line_ok (v_line_ptr (vars s))"
  by (simp add: machine_ok_def)

text \<open>Updates of other variables than the screen's and \<^verbatim>\<open>PTR\<close>.\<close>

lemma machine_update:
  assumes "machine_ok n s" "v_line_ptr v = v_line_ptr (vars s)" "v_vdg_ptr v = v_vdg_ptr (vars s)"
    "v_vdg_begin v = v_vdg_begin (vars s)" "v_vdg_end v = v_vdg_end (vars s)"
  shows "machine_ok n (s\<lparr>vars := v\<rparr>)"
  using assms by (simp add: machine_ok_def screen_ok_def)

lemma machine_chip: "machine_ok n s \<Longrightarrow> machine_ok n (s\<lparr>chip := w\<rparr>)"
  by (simp add: machine_ok_def screen_ok_def)

lemma machine_amem: "machine_ok n s \<Longrightarrow> machine_ok n (s\<lparr>amem := m\<rparr>)"
  by (simp add: machine_ok_def screen_ok_def)

lemma GetAddyInXid_ok:
  assumes "machine_ok n s"
  shows "\<exists>ok s'. GetAddyInXid s = Some (ok, s') \<and> machine_ok n s'"
proof -
  obtain ok xid p where p: "addy_loop 4 (v_line_ptr (vars s)) = Some ((ok, xid), p)" "rest_of (v_line_ptr (vars s)) p"
    using addy_loop_rest [OF machine_ptr [OF assms], of 4] by auto
  have "machine_ok n (s\<lparr>vars := (vars s)\<lparr>v_transaction_id := xid\<rparr>\<rparr>)" by (rule machine_update [OF assms]) simp_all
  then have "machine_ok n (set_ptr p (s\<lparr>vars := (vars s)\<lparr>v_transaction_id := xid\<rparr>\<rparr>))"
    using p(2) by (intro machine_set_ptr) simp_all
  then show ?thesis using p(1) by (simp add: GetAddyInXid_def)
qed

lemma SetMask_fields [simp]:
  "v_line_ptr (SetMask w v) = v_line_ptr v" "v_vdg_ptr (SetMask w v) = v_vdg_ptr v"
  "v_vdg_begin (SetMask w v) = v_vdg_begin v" "v_vdg_end (SetMask w v) = v_vdg_end v"
  "v_line_buf (SetMask w v) = v_line_buf v" "v_mask_num (SetMask w v) = (if w = 0 then 24 else w)"
  "v_ip_addr (SetMask w v) = v_ip_addr v" "v_ip_gateway (SetMask w v) = v_ip_gateway v"
  by (simp_all add: SetMask_def Let_def)

lemma DoNetwork_ok: "machine_ok n s \<Longrightarrow> goes_on n (DoNetwork H a b s)"
proof -
  assume m: "machine_ok n s"
  obtain got t p where p: "GetNum1Byte (v_line_ptr (vars s)) = Some ((got, t), p)" "rest_of (v_line_ptr (vars s)) p"
    using GetNum1Byte_rest [OF machine_ptr [OF m]] by auto
  have k: "machine_ok n (set_ptr p (s\<lparr>chip := w\<rparr>))" for w
    by (intro machine_set_ptr machine_chip m) (simp add: p(2))
  have u: "machine_ok n ((set_ptr p (s\<lparr>chip := w\<rparr>))\<lparr>vars := SetMask 24
      ((vars (set_ptr p (s\<lparr>chip := w\<rparr>)))\<lparr>v_ip_addr := x, v_ip_gateway := y, v_ip_waiter := z\<rparr>)\<rparr>)" for w x y z
    by (rule machine_update [OF k]) simp_all
  show ?thesis
  proof (cases got)
    case True
    have "s\<lparr>chip := chip s\<rparr> = s" by simp
    then show ?thesis using p(1) True u [where w = "chip s"] by (simp add: DoNetwork_def Let_def)
  next
    case False
    obtain ticks w where w: "WizTicks (WIZ H s) (chip s) = (ticks, w)" by fastforce
    then show ?thesis using p(1) False u by (simp add: DoNetwork_def Let_def)
  qed
qed

lemma goes_on_print_lines:
  "machine_ok n s \<Longrightarrow> \<forall>(f, args) \<in> set ls. printf_text f args \<noteq> None \<Longrightarrow> goes_on n (print_lines ls s)"
proof (induction ls arbitrary: s)
  case (Cons l ls)
  obtain f args t where l: "l = (f, args)" "printf_text f args = Some t" using Cons(3) by (cases l) auto
  show ?case unfolding l(1) print_lines.simps
    by (rule goes_on_bind [OF goes_on_PrintF [OF Cons(2) l(2)]]) (use Cons in auto)
qed simp

lemma help_text_prints: "\<forall>(f, args) \<in> set help_text. printf_text f args \<noteq> None"
  by (simp add: help_text_def)

lemma ShowNetwork_ok: "machine_ok n s \<Longrightarrow> goes_on n (ShowNetwork s)"
  unfolding ShowNetwork_def
  by (intro goes_on_bind) (auto intro!: goes_on_PrintF)

lemma peek_loop_ok: "machine_ok n s \<Longrightarrow> goes_on n (peek_loop k a s)"
proof (induction k arbitrary: a s)
  case (Suc k)
  show ?case unfolding peek_loop.simps
    by (rule goes_on_bind [OF goes_on_PrintF [OF Suc(2)]]) (use Suc(1) in auto)
qed simp

lemma cmd_I_ok: "machine_ok n s \<Longrightarrow> \<exists>e s'. cmd_I s = Some (e, s') \<and> machine_ok n s'"
proof -
  assume m: "machine_ok n s"
  obtain ok t where t: "GetAddyInXid s = Some (ok, t)" "machine_ok n t" using GetAddyInXid_ok [OF m] by blast
  show ?thesis
  proof (cases ok)
    case True
    let ?u = "t\<lparr>vars := (vars t)\<lparr>v_ip_addr := v_transaction_id (vars t), v_ip_gateway := replicate 4 0\<rparr>\<rparr>"
    have u: "machine_ok n ?u" by (rule machine_update [OF t(2)]) simp_all
    obtain got w p where p: "GetNum1Byte (v_line_ptr (vars ?u)) = Some ((got, w), p)"
        "rest_of (v_line_ptr (vars ?u)) p"
      using GetNum1Byte_rest [OF machine_ptr [OF u]] by (metis surj_pair)
    have x: "machine_ok n (set_ptr p ?u)" by (rule machine_set_ptr [OF u p(2)])
    obtain ok2 y where y: "GetAddyInXid (set_ptr p ?u) = Some (ok2, y)" "machine_ok n y"
      using GetAddyInXid_ok [OF x] by blast
    define z where "z = (if got then if ok2 then y\<lparr>vars := (vars y)\<lparr>v_ip_gateway := v_transaction_id (vars y)\<rparr>\<rparr> else y
      else set_ptr p ?u)"
    have "machine_ok n z" unfolding z_def using x y(2) by (auto intro!: machine_update [OF y(2)])
    then have "machine_ok n (z\<lparr>vars := SetMask w (vars z)\<rparr>)" by (rule machine_update) simp_all
    moreover have "cmd_I s = Some (0, z\<lparr>vars := SetMask w (vars z)\<rparr>)"
      using t(1) True p(1) y(1) by (simp add: cmd_I_def z_def Let_def)
    ultimately show ?thesis by blast
  next
    case False
    then show ?thesis using t by (simp add: cmd_I_def)
  qed
qed

lemma cmd_W_ok: "machine_ok n s \<Longrightarrow> \<exists>e s'. cmd_W s = Some (e, s') \<and> machine_ok n s'"
proof -
  assume m: "machine_ok n s"
  obtain ok t where t: "GetAddyInXid s = Some (ok, t)" "machine_ok n t" using GetAddyInXid_ok [OF m] by blast
  show ?thesis
  proof (cases ok)
    case True
    let ?u = "t\<lparr>vars := (vars t)\<lparr>v_ip_waiter := v_transaction_id (vars t)\<rparr>\<rparr>"
    have u: "machine_ok n ?u" by (rule machine_update [OF t(2)]) simp_all
    obtain got x p where p: "GetNum2Bytes (v_line_ptr (vars ?u)) = Some ((got, x), p)"
        "rest_of (v_line_ptr (vars ?u)) p"
      using GetNum2Bytes_rest [OF machine_ptr [OF u]] by (metis surj_pair)
    let ?v = "?u\<lparr>vars := (vars ?u)\<lparr>v_waiter_port := (if got then x else V41_DEFAULT_WAITER_TCP_PORT)\<rparr>\<rparr>"
    have "machine_ok n ?v" by (rule machine_update [OF u]) simp_all
    then have "machine_ok n (set_ptr p ?v)" by (rule machine_set_ptr) (use p(2) in simp)
    moreover have "cmd_W s = Some (0, set_ptr p ?v)" using t(1) True p(1) by (simp add: cmd_W_def)
    ultimately show ?thesis by blast
  next
    case False
    then show ?thesis using t by (simp add: cmd_W_def)
  qed
qed

lemma cmd_peek_ok: "machine_ok n s \<Longrightarrow> goes_on n (cmd_peek s)"
proof -
  assume m: "machine_ok n s"
  obtain got x p where p: "GetNum2Bytes (v_line_ptr (vars s)) = Some ((got, x), p)" "rest_of (v_line_ptr (vars s)) p"
    using GetNum2Bytes_rest [OF machine_ptr [OF m]] by (metis surj_pair)
  have "goes_on n (PrintF (cs ''%x: '') [PWord a] (set_ptr p s) \<bind> (\<lambda>s. peek_loop 8 a s \<bind> PutChar 13))" for a
    by (intro goes_on_bind goes_on_PrintF [where t = "hex_digits a @ cs '': ''"] machine_set_ptr [OF m p(2)]
        peek_loop_ok goes_on_PutChar) simp_all
  then show ?thesis using p(1) by (simp add: cmd_peek_def)
qed

lemma run_command_ok:
  assumes m: "machine_ok n s" and c: "cmd \<noteq> ch CHR ''>''"
  shows "\<exists>e s'. run_command H cmd s = Some (e, s') \<and> machine_ok n s'"
proof -
  have upd: "machine_ok n (s\<lparr>vars := (vars s)\<lparr>v_wiz_port := 0xFF78\<rparr>\<rparr>)"
    "machine_ok n (s\<lparr>vars := (vars s)\<lparr>v_use_dhcp := True\<rparr>\<rparr>)"
    "machine_ok n (s\<lparr>vars := (vars s)\<lparr>v_launch := True\<rparr>\<rparr>)"
    by (rule machine_update [OF m]; simp)+
  have fine: "\<exists>e s'. map_option (\<lambda>s. (0 :: word16, s)) r = Some (e, s') \<and> machine_ok n s'" if "goes_on n r" for r
    using that by (auto simp: goes_on_def)
  note cases = upd machine_amem [OF m] cmd_I_ok [OF m] cmd_W_ok [OF m] fine [OF ShowNetwork_ok [OF m]]
    fine [OF DoNetwork_ok [OF m]] fine [OF cmd_peek_ok [OF m]]
    fine [OF goes_on_print_lines [OF m help_text_prints]]
  show ?thesis using cases m c unfolding run_command_def Let_def by (simp split: if_split)
qed

lemma DoOneCommand_ok:
  assumes m: "machine_ok (length (v_line_ptr (vars s))) s"
  shows "\<exists>s'. DoOneCommand H s = Some s' \<and> screen_ok s' \<and>
    (machine_ok (length (v_line_ptr (vars s)) - 1) s' \<or> (\<exists>p. v_line_ptr (vars s') = 0 # p))"
proof -
  let ?p = "v_line_ptr (vars s)"
  obtain q where q: "SkipWhite ?p = Some q" "rest_of ?p q" using SkipWhite_rest [OF machine_ptr [OF m]] by blast
  then obtain c r where c: "q = c # r" using line_ok_not_Nil by (cases q) (auto simp: rest_of_def)
  have lq: "line_ok (c # r)" "length r < length ?p" using q(2) c by (auto simp: rest_of_def)
  have scr: "screen_ok (set_ptr r s)" using m by (simp add: machine_ok_def set_ptr_def)
  show ?thesis
  proof (cases "c = 0")
    case True
    obtain zs where "r = 0 # zs"
      using lq(1) True by (auto simp: line_ok_def Cons_eq_append_conv)
    moreover have "run_command H 0 (set_ptr r s) = Some (0, set_ptr r s)"
      by (simp add: run_command_def)
    ultimately show ?thesis using q(1) c True scr by (simp add: DoOneCommand_def set_ptr_def)
  next
    case False
    let ?n = "length ?p - 1"
    have ok: "machine_ok ?n (set_ptr r s)"
      using scr line_ok_Cons [OF lq(1) False] lq(2) by (simp add: machine_ok_def set_ptr_def)
    have "c \<noteq> ch CHR ''>''" using lq(1) by (auto simp: line_ok_def)
    then obtain e t where t: "run_command H c (set_ptr r s) = Some (e, t)" "machine_ok ?n t"
      using run_command_ok [OF ok] by blast
    have "goes_on ?n (if e \<noteq> 0 then PrintF (cs ''*** error %d'' @ [10]) [PWord e] t else Some t)"
      using t(2) by (auto intro!: goes_on_PrintF)
    then show ?thesis using q(1) c t(1) by (auto simp: DoOneCommand_def goes_on_def machine_ok_def)
  qed
qed

lemma echo_loop_ok: "machine_ok n s \<Longrightarrow> line_ok p \<Longrightarrow> goes_on n (echo_loop p s)"
proof (induction p arbitrary: s)
  case (Cons c p)
  then show ?case using line_ok_Cons [of c p] by (auto intro!: goes_on_bind [OF goes_on_PutChar])
qed (simp add: line_ok_def)

definition echo_line :: "bool \<Rightarrow> 'w axw \<Rightarrow> 'w axw option" where
  "echo_line echo s =
    (if echo then do {
       s \<leftarrow> PutChar (ch CHR ''['') s;
       s \<leftarrow> echo_loop (v_line_ptr (vars s)) s;
       s \<leftarrow> PutChar (ch CHR '']'') s;
       PutChar 10 s }
     else Some s)"

lemma echo_line_ok: "machine_ok n s \<Longrightarrow> goes_on n (echo_line echo s)"
  unfolding echo_line_def
  by (cases echo) (auto intro!: goes_on_bind goes_on_PutChar echo_loop_ok dest: machine_ptr)

lemma line_loop_ok: "machine_ok n s \<Longrightarrow> \<exists>s'. line_loop H echo s = Some s' \<and> screen_ok s'"
proof (induction n arbitrary: s rule: less_induct)
  case (less n)
  obtain t where t: "echo_line echo s = Some t" "machine_ok n t"
    using echo_line_ok [OF less(2)] by (auto simp: goes_on_def)
  let ?k = "length (v_line_ptr (vars t))"
  have k: "machine_ok ?k t" "?k \<le> n" "0 < ?k"
    using t(2) line_ok_not_Nil by (auto simp: machine_ok_def)
  obtain u where u: "DoOneCommand H t = Some u" "screen_ok u"
      "machine_ok (?k - 1) u \<or> (\<exists>p. v_line_ptr (vars u) = 0 # p)"
    using DoOneCommand_ok [OF k(1)] by blast
  have step: "line_loop H echo s = SkipWhite (v_line_ptr (vars u)) \<bind> (\<lambda>p.
      if hd p \<noteq> 0 then line_loop H echo (set_ptr p u) else Some (set_ptr p u))"
    using t(1) u(1) by (subst line_loop.simps) (simp add: echo_line_def)
  have scr: "screen_ok (set_ptr p u)" for p using u(2) by (simp add: set_ptr_def)
  from u(3) show ?case
  proof
    assume m: "machine_ok (?k - 1) u"
    obtain p where p: "SkipWhite (v_line_ptr (vars u)) = Some p" "rest_of (v_line_ptr (vars u)) p"
      using SkipWhite_rest [OF machine_ptr [OF m]] by blast
    have "machine_ok (?k - 1) (set_ptr p u)" by (rule machine_set_ptr [OF m p(2)])
    moreover have "?k - 1 < n" using k by linarith
    ultimately have "\<exists>s'. line_loop H echo (set_ptr p u) = Some s' \<and> screen_ok s'"
      using less(1) by blast
    then show ?case using step p(1) scr by simp
  next
    assume "\<exists>p. v_line_ptr (vars u) = 0 # p"
    then show ?case using step scr by (auto simp: is_white_def)
  qed
qed

text \<open>What the keyboard leaves in the buffer.\<close>

lemma to_upper_range: "32 \<le> c \<Longrightarrow> c \<le> 126 \<Longrightarrow> to_upper c \<noteq> 0"
proof -
  assume "32 \<le> c" "c \<le> 126"
  then have "unat (c - 32) = unat c - 32" "32 \<le> unat c" by (simp_all add: unat_diff_le word_le_nat_alt)
  then show ?thesis by (auto simp: to_upper_def word_le_nat_alt)
qed

lemma PutChar_screen: "screen_ok s \<Longrightarrow> PutChar c s = Some s' \<Longrightarrow> in_window s s'"
  using PutStr_window [of s "[c]"] by auto

lemma key_loop_typed:
  "key_loop typed ks s = Some (t, s') \<Longrightarrow> 0 \<notin> set typed \<Longrightarrow> length typed \<le> 78 \<Longrightarrow> screen_ok s \<Longrightarrow>
   0 \<notin> set t \<and> length t \<le> 78 \<and> screen_ok s'"
proof (induction typed ks s rule: key_loop.induct)
  case (2 typed c ks s)
  note s = "2.prems" and IH = "2.IH"
  let ?s = "s\<lparr>keys := ks\<rparr>"
  have k: "screen_ok ?s" using s(4) by (simp add: screen_ok_def)
  have put: "screen_ok y" if "PutChar d ?s = Some y" for d y
    using PutChar_screen [OF k that] unfolding in_window_def by blast
  consider "c = 0" | "c = 13" | "c = 8" "typed \<noteq> []" | "c = 8" "typed = []"
    | "c \<noteq> 0" "c \<noteq> 13" "c \<noteq> 8" "c < 32 \<or> c > 126"
    | "c \<noteq> 0" "c \<noteq> 13" "c \<noteq> 8" "\<not> (c < 32 \<or> c > 126)" "length typed < 78"
    | "c \<noteq> 0" "c \<noteq> 13" "c \<noteq> 8" "\<not> (c < 32 \<or> c > 126)" "\<not> length typed < 78" by blast
  then show ?case
  proof cases
    case 1 then show ?thesis using s k IH(1) [OF refl] by simp
  next
    case 2 then show ?thesis using s k by simp
  next
    case 3
    have "0 \<notin> set (butlast typed)" "length (butlast typed) \<le> 78" using s(2,3) by (auto dest: in_set_butlastD)
    moreover obtain y where "PutChar 8 ?s = Some y" "key_loop (butlast typed) ks y = Some (t, s')"
      using 3 s(1) by (auto simp: bind_eq_Some_conv)
    ultimately show ?thesis using 3 put IH(2) [OF refl] by simp
  next
    case 4 then show ?thesis using s k IH(3) [OF refl] by simp
  next
    case 5 then show ?thesis using s k IH(4) [OF refl] by simp
  next
    case 6
    then have "to_upper c \<noteq> 0" by (intro to_upper_range) auto
    moreover obtain y where "PutChar (to_upper c) ?s = Some y" "key_loop (typed @ [to_upper c]) ks y = Some (t, s')"
      using 6 s(1) by (auto simp: bind_eq_Some_conv)
    ultimately show ?thesis using 6 s(2) put IH(5) [OF refl] by simp
  next
    case 7 then show ?thesis using s k IH(6) [OF refl] by simp
  qed
qed simp

lemma GetUpperCaseLine_buf:
  assumes "screen_ok s" "GetUpperCaseLine c s = Some s'"
  shows "\<exists>typed. v_line_buf (vars s') = typed @ replicate (80 - length typed) 0 \<and>
    0 \<notin> set typed \<and> length typed \<le> 78 \<and> screen_ok s'"
proof -
  obtain typed t where t: "(if 33 \<le> c \<and> c \<le> 126
        then do { s \<leftarrow> PutChar c s; key_loop [c] (keys s) s } else key_loop [] (keys s) s) = Some (typed, t)"
      and put: "PutChar 13 (t\<lparr>vars := (vars t)\<lparr>v_line_buf := typed @ replicate (80 - length typed) 0\<rparr>\<rparr>) = Some s'"
    using assms(2) by (auto simp: GetUpperCaseLine_def bind_eq_Some_conv)
  have ok: "0 \<notin> set typed \<and> length typed \<le> 78 \<and> screen_ok t"
  proof (cases "33 \<le> c \<and> c \<le> 126")
    case True
    then obtain u where u: "PutChar c s = Some u" "key_loop [c] (keys u) u = Some (typed, t)"
      using t by (auto simp: bind_eq_Some_conv)
    have "screen_ok u" using PutChar_screen [OF assms(1) u(1)] unfolding in_window_def by blast
    moreover have "0 \<notin> set [c]" using True by auto
    ultimately show ?thesis using key_loop_typed [OF u(2)] by simp
  next
    case False
    then have "key_loop [] (keys s) s = Some (typed, t)" using t by (simp only: if_False)
    then show ?thesis using key_loop_typed [of "[]" "keys s" s typed t] assms(1) by simp
  qed
  let ?t = "t\<lparr>vars := (vars t)\<lparr>v_line_buf := typed @ replicate (80 - length typed) 0\<rparr>\<rparr>"
  have "screen_ok ?t" using ok by (simp add: screen_ok_def)
  then obtain p where "screen_ok s'" "vars s' = (vars ?t)\<lparr>v_vdg_ptr := p\<rparr>"
    using PutChar_screen [OF _ put] unfolding in_window_def by blast
  then show ?thesis using ok by auto
qed

lemma less_diff_int: "(int m < u - int q) \<longleftrightarrow> int (q + m) < u"
  by (simp add: algebra_simps)

section \<open>Properties\<close>

text \<open>
  C36. \<^verbatim>\<open>SetMask\<close> computes the netmask: of the 32 bits of \<^verbatim>\<open>ip_mask\<close>, from the first byte's top
  bit down, exactly the first \<^verbatim>\<open>width\<close> are set (all of them when the width is above 32); a
  width of 0 means 24.
\<close>
theorem SetMask_netmask:
  assumes "i < 32"
  shows "bit (v_ip_mask (SetMask width v) ! (i div 8)) (7 - i mod 8) \<longleftrightarrow>
    i < unat (if width = 0 then 24 else width)"
proof -
  let ?w = "if width = 0 then 24 else width"
  have "i div 8 < 4" using assms by simp
  then consider "i div 8 = 0" | "i div 8 = 1" | "i div 8 = 2" | "i div 8 = 3" by linarith
  then have "v_ip_mask (SetMask width v) ! (i div 8) = MaskBits (uint ?w - int (8 * (i div 8)))"
    by cases (simp_all add: SetMask_def)
  then have "bit (v_ip_mask (SetMask width v) ! (i div 8)) (7 - i mod 8) \<longleftrightarrow>
      int (7 - (7 - i mod 8)) < uint ?w - int (8 * (i div 8))"
    by (simp only:) (rule MaskBits_bit, simp)
  also have "7 - (7 - i mod 8) = i mod 8"
  proof (rule diff_diff_cancel)
    have "i mod 8 < Suc 7" by simp
    then show "i mod 8 \<le> 7" by (simp only: less_Suc_eq_le)
  qed
  also have "(int (i mod 8) < uint ?w - int (8 * (i div 8))) \<longleftrightarrow> int (8 * (i div 8) + i mod 8) < uint ?w"
    by (rule less_diff_int)
  also have "8 * (i div 8) + i mod 8 = i" by simp
  also have "int i < uint ?w \<longleftrightarrow> i < unat ?w" by (metis int_unat_uint of_nat_less_iff)
  finally show ?thesis .
qed

theorem SetMask_netmask_witness:
  "\<not> bit (v_ip_mask (SetMask 20 (vars (clear_vars (\<lambda>_. 0)))) ! 2) 3"
  using SetMask_netmask [of 20 20 "vars (clear_vars (\<lambda>_. 0))"] by simp

text \<open>
  The random tail of an address: \<^verbatim>\<open>Mod200\<close> is 0 only for 0 and otherwise the remainder by
  200 in the range 1 to 200, so the tail \<^verbatim>\<open>30 + Mod200\<close> lies between 30 and 230 and never wraps.
\<close>
theorem Mod200_range:
  "unat (Mod200 x) = (if x = 0 then 0 else (unat x - 1) mod 200 + 1) \<and>
   30 \<le> unat (30 + Mod200 x) \<and> unat (30 + Mod200 x) \<le> 230"
proof -
  have m: "unat (Mod200 x) \<le> 200" using Mod200_value [of x] by (auto simp: Suc_le_eq)
  then have "unat (30 + Mod200 x) = 30 + unat (Mod200 x)" by (simp add: unat_word_ariths)
  then show ?thesis using m Mod200_value [of x] by simp
qed

text \<open>
  C35. The \<^verbatim>\<open>I\<close> command reads back what \<^verbatim>\<open>ShowNetwork\<close> prints: address, mask width and
  gateway, in dotted decimal with any separators of the command line, end up in the
  variables, for all values.
\<close>
theorem cmd_I_reads_back:
  assumes "length a = 4" "length g = 4" "ends_number p"
    and "v_line_ptr (vars s) =
      cs '' '' @ dotted a @ cs ''/'' @ PutDec_text (ucast width) @ cs '' '' @ dotted g @ p"
  shows "\<exists>s'. cmd_I s = Some (0, s') \<and> v_ip_addr (vars s') = a \<and> v_ip_gateway (vars s') = g \<and>
    v_mask_num (vars s') = (if width = 0 then 24 else width) \<and> v_line_ptr (vars s') = p"
proof -
  let ?r = "cs '' '' @ dotted g @ p"
  have w: "\<forall>c \<in> set (cs '' ''). is_white c" "\<forall>c \<in> set (cs ''/''). is_white c" by (simp_all add: is_white_def)
  have e: "ends_number (cs ''/'' @ x)" "ends_number (cs '' '' @ x)" for x
    by (simp_all add: ends_number_def urange_digit)
  have 1: "addy_loop 4 (v_line_ptr (vars s)) = Some ((True, a), cs ''/'' @ PutDec_text (ucast width) @ ?r)"
    unfolding assms(4) by (rule addy_dotted [OF assms(1) w(1) e(1)])
  have 2: "GetNum1Byte (cs ''/'' @ PutDec_text (ucast width) @ ?r) = Some ((True, width), ?r)"
    by (rule GetNum1Byte_PutDec [OF w(2) e(2)])
  have 3: "addy_loop 4 ?r = Some ((True, g), p)" by (rule addy_dotted [OF assms(2) w(1) assms(3)])
  show ?thesis using 1 2 3
    by (simp add: cmd_I_def GetAddyInXid_def set_ptr_def Let_def del: cs_Cons)
qed

theorem cmd_I_reads_back_witness:
  "\<exists>s'. cmd_I \<lparr>vars = (vars (clear_vars (\<lambda>_. 0)))\<lparr>v_line_ptr :=
        cs '' '' @ dotted [10, 23, 23, 7] @ cs ''/'' @ PutDec_text (ucast (24 :: byte)) @ cs '' '' @
        dotted [10, 23, 23, 1] @ [0]\<rparr>, amem = (\<lambda>_. 0), keys = [], chip = ()\<rparr> = Some (0, s') \<and>
      v_ip_addr (vars s') = [10, 23, 23, 7]"
  using cmd_I_reads_back [of "[10, 23, 23, 7]" "[10, 23, 23, 1]" "[0]"
      "\<lparr>vars = (vars (clear_vars (\<lambda>_. 0)))\<lparr>v_line_ptr :=
        cs '' '' @ dotted [10, 23, 23, 7] @ cs ''/'' @ PutDec_text (ucast (24 :: byte)) @ cs '' '' @
        dotted [10, 23, 23, 1] @ [0]\<rparr>, amem = (\<lambda>_. 0), keys = [], chip = ()\<rparr>" 24]
  by (fastforce simp: ends_number_def urange_digit)

text \<open>
  C16. A typed line is safe: whatever is typed at the prompt, without a poke command, is
  carried out to its end.  The loop over the commands of the line ends, the text pointer
  never leaves the 80 bytes of \<^verbatim>\<open>line_buf\<close>, and the screen stays well formed, although the
  command of an empty line steps over its NUL.
\<close>
theorem typed_line_safe:
  assumes "screen_ok s" "GetUpperCaseLine c s = Some t" "ch CHR ''>'' \<notin> set (v_line_buf (vars t))"
  shows "\<exists>u. DoLineBufCommands H echo t = Some u \<and> screen_ok u"
proof -
  obtain typed where typed: "v_line_buf (vars t) = typed @ replicate (80 - length typed) 0"
      "0 \<notin> set typed" "length typed \<le> 78" "screen_ok t"
    using GetUpperCaseLine_buf [OF assms(1,2)] by blast
  have "80 - length typed = Suc (Suc (78 - length typed))" using typed(3) by simp
  then have "line_ok (v_line_buf (vars t))" using typed(1,2) assms(3) unfolding line_ok_def by auto
  then have "machine_ok (length (v_line_buf (vars t))) (set_ptr (v_line_buf (vars t)) t)"
    using typed(4) by (simp add: machine_ok_def set_ptr_def)
  then show ?thesis using line_loop_ok by (simp add: DoLineBufCommands_def)
qed

definition demo_machine :: "unit axw" where
  "demo_machine = \<lparr>vars = vars (clear_vars (\<lambda>_. 0)), amem = (\<lambda>_. 0), keys = [13], chip = ()\<rparr>"

theorem typed_line_safe_witness:
  "\<exists>t u. GetUpperCaseLine 0 demo_machine = Some t \<and>
    DoLineBufCommands \<lparr>ports = undefined, is_6309 = False, is_gomar = False, jsr = undefined\<rparr> False t = Some u \<and>
    screen_ok u"
proof -
  let ?s = "demo_machine\<lparr>keys := []\<rparr>"
  let ?t = "?s\<lparr>vars := (vars ?s)\<lparr>v_line_buf := replicate 80 0\<rparr>\<rparr>"
  have scr: "screen_ok demo_machine" "screen_ok ?t"
    by (simp_all add: demo_machine_def screen_ok_def clear_vars_def VDG_RAM_def VDG_END_def
        word_le_nat_alt word_less_nat_alt)
  obtain t where t: "PutStr [13] ?t = Some t" "in_window ?t t" using PutStr_window [OF scr(2)] by blast
  then have "PutChar 13 ?t = Some t" by (auto simp: bind_eq_Some_conv)
  then have line: "GetUpperCaseLine 0 demo_machine = Some t"
    by (simp add: GetUpperCaseLine_def demo_machine_def)
  have "v_line_buf (vars t) = replicate 80 0" using t(2) by (auto simp: in_window_def)
  then have "ch CHR ''>'' \<notin> set (v_line_buf (vars t))" by simp
  then show ?thesis using typed_line_safe [OF scr(1) line] line by blast
qed

end
