(* ===== verification/Ax_Boot.thy ===== *)
theory Ax_Boot
  imports Ax_Commands
begin

text \<open>
  Discovery, DHCP, the remote commands of the waiter and the start of the boot ROM
  \<^verbatim>\<open>axiom41/axcore.c\<close> (built for the W5100S, that is without \<^verbatim>\<open>FOR_COPICO\<close>).  Messages are
  built in and read from the packet buffer in memory, as the code does.  Sound, colours
  and delays have no effect; the code a \<^verbatim>\<open>CMD_JSR\<close> calls is a parameter.
\<close>

section \<open>Packets\<close>

definition PACKET_BUF :: word16 where "PACKET_BUF = 0x600"
definition PACKET_MAX :: nat where "PACKET_MAX = 256"

definition ROM_WAITER_PORT :: word16 where "ROM_WAITER_PORT = 0xDFCE"
definition ROM_WAITER :: word16 where "ROM_WAITER = 0xDFD0"
definition ROM_HOSTNAME :: word16 where "ROM_HOSTNAME = 0xDFE0"
definition ROM_MAC_TAIL :: word16 where "ROM_MAC_TAIL = 0xDFEB"

definition LAN_CLIENT_PORT :: word16 where "LAN_CLIENT_PORT = 12113"
definition LAN_SERVER_PORT :: word16 where "LAN_SERVER_PORT = 12114"
definition DHCP_CLIENT_PORT :: word16 where "DHCP_CLIENT_PORT = 68"
definition DHCP_SERVER_PORT :: word16 where "DHCP_SERVER_PORT = 67"

text \<open>The packet buffer cleared and then filled from its start.\<close>

definition fill_packet :: "byte list \<Rightarrow> 'a ax_scheme \<Rightarrow> 'a ax_scheme" where
  "fill_packet bs s = s\<lparr>amem := store PACKET_BUF bs (store PACKET_BUF (replicate PACKET_MAX 0) (amem s))\<rparr>"

text \<open>Reserve, write the pieces one behind the other, send.\<close>

definition reserve :: "'w board \<Rightarrow> sock \<Rightarrow> nat \<Rightarrow> 'w axw \<Rightarrow> (word16 \<times> 'w axw) option" where
  "reserve H k n s = do {
     (p, w) \<leftarrow> WizReserveToSend (WIZ H s) k (of_nat n) (chip s);
     Some (p, s\<lparr>chip := w\<rparr>) }"

definition tx_bytes :: "'w board \<Rightarrow> sock \<Rightarrow> word16 \<Rightarrow> byte list \<Rightarrow> 'w axw \<Rightarrow> word16 \<times> 'w axw" where
  "tx_bytes H k tx_ptr bs s =
     (let (p, w) = WizDataToSend (WIZ H s) k tx_ptr bs (chip s) in (p, s\<lparr>chip := w\<rparr>))"

definition finalize :: "'w board \<Rightarrow> sock \<Rightarrow> proto \<Rightarrow> nat \<Rightarrow> 'w axw \<Rightarrow> 'w axw option" where
  "finalize H k pr n s = do {
     w \<leftarrow> WizFinalizeSend (WIZ H s) k pr (of_nat n) (chip s);
     Some (s\<lparr>chip := w\<rparr>) }"

text \<open>A chunk received into memory at \<^verbatim>\<open>a\<close>.\<close>

definition recv_to :: "'w board \<Rightarrow> sock \<Rightarrow> word16 \<Rightarrow> word16 \<Rightarrow> 'w axw \<Rightarrow> (errnum \<times> 'w axw) option" where
  "recv_to H k a n s = do {
     ((e, bs), w) \<leftarrow> WizRecvChunk (WIZ H s) k n (chip s);
     s \<leftarrow> poke_bytes a bs (s\<lparr>chip := w\<rparr>);
     Some (e, s) }"

text \<open>A try at a short record on the stack.\<close>

definition recv_try :: "'w board \<Rightarrow> sock \<Rightarrow> word16 \<Rightarrow> 'w axw \<Rightarrow> ((errnum \<times> byte list) \<times> 'w axw) option" where
  "recv_try H k n s = do {
     (r, w) \<leftarrow> WizRecvChunkTry (WIZ H s) k n (chip s);
     Some (r, s\<lparr>chip := w\<rparr>) }"

definition send_chunk :: "'w board \<Rightarrow> sock \<Rightarrow> byte list \<Rightarrow> 'w axw \<Rightarrow> (errnum \<times> 'w axw) option" where
  "send_chunk H k bs s = do {
     (e, w) \<leftarrow> WizSendChunk (WIZ H s) k TcpProto bs (chip s);
     Some (e, s\<lparr>chip := w\<rparr>) }"

text \<open>The length in the header the chip puts before each UDP packet.\<close>

definition hdr_len :: "byte list \<Rightarrow> word16" where
  "hdr_len h = hilo (h ! 6) (h ! 7)"

section \<open>Waiting for the waiter on the local net\<close>

definition lan_request :: "'w board \<Rightarrow> 'w axw \<Rightarrow> byte list" where
  "lan_request H s =
     [ch CHR ''Q'', 0, 0, 0] @ v_transaction_id (vars s) @
     [or (if is_6309 H then 0x01 else 0) (if is_gomar H then 0x80 else 0), 0, 0, 0, 0, 0, 0, 0] @
     word_bytes (v_stack (vars s)) @ word_bytes (v_main (vars s)) @ word_bytes (v_rom_sum_0 (vars s)) @
     word_bytes (v_rom_sum_1 (vars s)) @ word_bytes (v_rom_sum_2 (vars s)) @ word_bytes (v_rom_sum_3 (vars s)) @
     fetch (amem s) ROM_MAC_TAIL 5 @ fetch (amem s) ROM_HOSTNAME 8"

definition SendLanRequest :: "'w board \<Rightarrow> sock \<Rightarrow> 'w axw \<Rightarrow> 'w axw option" where
  "SendLanRequest H k s =
     (let q = lan_request H s; s = fill_packet q s in do {
        (tx_ptr, s) \<leftarrow> reserve H k 41 s;
        let (tx_ptr, s) = tx_bytes H k tx_ptr (fetch (amem s) PACKET_BUF 41) s in
        finalize H k BroadcastUdpProto 41 s })"

definition RecvLanReply :: "'w board \<Rightarrow> sock \<Rightarrow> word16 \<Rightarrow> 'w axw \<Rightarrow> (errnum \<times> 'w axw) option" where
  "RecvLanReply H k plen s = do {
     (e, s) \<leftarrow> recv_to H k PACKET_BUF plen s;
     if e \<noteq> OKAY then Some (e, s)
     else Some (OKAY, s\<lparr>vars := (vars s)\<lparr>v_line_buf := fetch (amem s) (PACKET_BUF + 16) 80\<rparr>\<rparr>) }"

section \<open>DHCP\<close>

definition dhcp_header :: "bool \<Rightarrow> 'w axw \<Rightarrow> byte list" where
  "dhcp_header second s =
     [1, 1, 6, 0] @ v_transaction_id (vars s) @ [0, 0, 0x80, 0x00] @ replicate 4 0 @
     (if second then v_ip_addr (vars s) else replicate 4 0) @ replicate 4 0 @ replicate 4 0 @
     [2] @ fetch (amem s) ROM_MAC_TAIL 5 @ replicate 10 0 @ replicate 64 0 @ replicate 128 0"

definition dhcp_options :: "bool \<Rightarrow> 'w axw \<Rightarrow> byte list" where
  "dhcp_options second s =
     [99, 130, 83, 99, 53, 1, if second then 3 else 1, 12, 8] @ fetch (amem s) ROM_HOSTNAME 8 @
     (if second then [50, 4] @ v_ip_addr (vars s) @ [255, 0] else [255, 0])"

definition SendDhcpRequest :: "'w board \<Rightarrow> sock \<Rightarrow> bool \<Rightarrow> 'w axw \<Rightarrow> 'w axw option" where
  "SendDhcpRequest H k second s =
     (let plen = 236 + (if second then 25 else 19) in do {
        (tx_ptr, s) \<leftarrow> reserve H k plen s;
        let s = fill_packet (dhcp_header second s) s;
            (tx_ptr, s) = tx_bytes H k tx_ptr (fetch (amem s) PACKET_BUF 236) s;
            s = fill_packet (dhcp_options second s) s;
            (tx_ptr, s) = tx_bytes H k tx_ptr (fetch (amem s) PACKET_BUF (plen - 236)) s
        in finalize H k BroadcastUdpProto plen s })"

definition dhcp_magic :: "byte list" where
  "dhcp_magic = [99, 130, 83, 99]"

text \<open>The four bytes of transaction id and magic cookie, compared in turns.\<close>

fun check_reply :: "nat \<Rightarrow> byte list \<Rightarrow> 'w axw \<Rightarrow> (errnum \<times> 'w axw) option" where
  "check_reply 0 got_xid s = Some (OKAY, s)"
| "check_reply (Suc n) got_xid s =
     (let i = 4 - Suc n; want = v_transaction_id (vars s) ! i; opt = mem_view s (PACKET_BUF + of_nat i) in
      if got_xid ! i \<noteq> want then do {
        s \<leftarrow> PrintF (cs '' (xid%x %x vs %x) '') [PWord (of_nat i), PWord (ucast (got_xid ! i)), PWord (ucast want)] s;
        Some (10, s) }
      else if opt \<noteq> dhcp_magic ! i then do {
        s \<leftarrow> PrintF (cs '' (opt%x %x vs %x) '') [PWord (of_nat i), PWord (ucast opt), PWord (ucast (dhcp_magic ! i))] s;
        Some (9, s) }
      else check_reply n got_xid s)"

partial_function (option) option_loop ::
  "bool \<Rightarrow> word16 \<Rightarrow> word16 \<Rightarrow> 'w axw \<Rightarrow> (errnum \<times> 'w axw) option" where
  "option_loop second opt fin s =
     (if opt < fin then
        let o0 = mem_view s opt; o2 = mem_view s (opt + 2); four = fetch (mem_view s) (opt + 2) 4;
            next = opt + (2 + ucast (mem_view s (opt + 1))) in
        if o0 = 1 then
          (let s = s\<lparr>vars := (vars s)\<lparr>v_ip_mask := four\<rparr>\<rparr> in option_loop second next fin s)
        else if o0 = 3 then
          (let s = s\<lparr>vars := (vars s)\<lparr>v_ip_gateway := four\<rparr>\<rparr> in option_loop second next fin s)
        else if o0 = 6 then
          (let s = s\<lparr>vars := (vars s)\<lparr>v_ip_resolver := four\<rparr>\<rparr> in option_loop second next fin s)
        else if o0 = 53 \<and> o2 \<noteq> (if second then 5 else 2) then
          Option.bind (PrintF (cs ''>%x< '') [PWord (ucast o2)] s) (\<lambda>s. Some (1, s))
        else if o0 = 255 then
          Option.bind (PrintF (cs '' [[ DHCP: %a ]] '') [PAddr (v_ip_addr (vars s))] s) (\<lambda>s. Some (OKAY, s))
        else option_loop second next fin s
      else Some (5, s))"

declare option_loop.simps [code]

text \<open>The address is taken from the reply before its transaction id is looked at.\<close>

definition RecvDhcpReply :: "'w board \<Rightarrow> sock \<Rightarrow> word16 \<Rightarrow> bool \<Rightarrow> 'w axw \<Rightarrow> (errnum \<times> 'w axw) option" where
  "RecvDhcpReply H k plen second s = do {
     (e, s) \<leftarrow> recv_to H k PACKET_BUF 236 s;
     if e \<noteq> OKAY then Some (e, s)
     else do {
       let got_xid = fetch (amem s) (PACKET_BUF + 4) 4;
       let s = s\<lparr>vars := (vars s)\<lparr>v_ip_addr := fetch (amem s) (PACKET_BUF + 16) 4\<rparr>\<rparr>;
       (e, s) \<leftarrow> recv_to H k PACKET_BUF (plen - 236) s;
       if e \<noteq> OKAY then Some (e, s)
       else do {
         (e, s) \<leftarrow> check_reply 4 got_xid s;
         if e \<noteq> OKAY then Some (e, s)
         else option_loop second (PACKET_BUF + 4) (PACKET_BUF + plen - 236) s } } }"

section \<open>Discovery\<close>

definition OpenDiscoverySockets :: "'w board \<Rightarrow> 'w axw \<Rightarrow> 'w axw option" where
  "OpenDiscoverySockets H s =
     (let P = WIZ H s in do {
        w \<leftarrow> WizOpen P SOCK1 BroadcastUdpProto DHCP_CLIENT_PORT (chip s);
        let w = UdpDial P SOCK1 BroadcastUdpProto SixFFs DHCP_SERVER_PORT w in do {
          w \<leftarrow> WizOpen P SOCK0 BroadcastUdpProto LAN_CLIENT_PORT w;
          Some (s\<lparr>chip := UdpDial P SOCK0 BroadcastUdpProto SixFFs LAN_SERVER_PORT w\<rparr>) } })"

definition until_nul :: "byte list \<Rightarrow> cstr" where
  "until_nul bs = takeWhile (\<lambda>c. c \<noteq> 0) bs"

definition try_lan :: "'w board \<Rightarrow> 'w axw \<Rightarrow> 'w axw option" where
  "try_lan H s = do {
     ((e, hdr), s) \<leftarrow> recv_try H SOCK0 8 s;
     if e \<noteq> OKAY then Some s
     else do {
       (e, s) \<leftarrow> RecvLanReply H SOCK0 (hdr_len hdr) s;
       if e \<noteq> OKAY then Some s
       else do {
         s \<leftarrow> PutStr (cs '' [[ LAN: '') (s\<lparr>vars := (vars s)\<lparr>v_got_lan := True\<rparr>\<rparr>);
         s \<leftarrow> (if 0 \<in> set (v_line_buf (vars s)) then PutStr (until_nul (v_line_buf (vars s))) s else None);
         PutStr (cs '' ]] '') s } } }"

definition try_dhcp :: "'w board \<Rightarrow> 'w axw \<Rightarrow> 'w axw option" where
  "try_dhcp H s = do {
     ((e, hdr), s) \<leftarrow> recv_try H SOCK1 8 s;
     if e \<noteq> OKAY then Some s
     else do {
       (e, s) \<leftarrow> RecvDhcpReply H SOCK1 (hdr_len hdr) False s;
       Some (if e = OKAY then s\<lparr>vars := (vars s)\<lparr>v_got_dhcp := True\<rparr>\<rparr> else s) } }"

definition OneDiscoveryRound :: "'w board \<Rightarrow> 'w axw \<Rightarrow> (errnum \<times> 'w axw) option" where
  "OneDiscoveryRound H s = do {
     s \<leftarrow> (if \<not> v_got_lan (vars s) then try_lan H s else Some s);
     s \<leftarrow> (if \<not> v_got_dhcp (vars s) then try_dhcp H s else Some s);
     s \<leftarrow> (if \<not> v_got_lan (vars s) then SendLanRequest H SOCK0 s else Some s);
     s \<leftarrow> (if \<not> v_got_dhcp (vars s) then SendDhcpRequest H SOCK1 False s else Some s);
     Some (if v_got_lan (vars s) \<and> v_got_dhcp (vars s) then OKAY else NOTYET, s) }"

fun phase_two_loop :: "'w board \<Rightarrow> nat \<Rightarrow> 'w axw \<Rightarrow> (errnum \<times> 'w axw) option" where
  "phase_two_loop H 0 s = Some (2, s)"
| "phase_two_loop H (Suc n) s = do {
     s \<leftarrow> PrintF (cs '' *%d* '') [PWord (of_nat (10 - Suc n))] s;
     s \<leftarrow> SendDhcpRequest H SOCK1 True s;
     ((e, hdr), s) \<leftarrow> recv_try H SOCK1 8 s;
     if e \<noteq> OKAY then phase_two_loop H n s
     else do {
       (e, s) \<leftarrow> RecvDhcpReply H SOCK1 (hdr_len hdr) True s;
       if e = OKAY then Some (0, s) else phase_two_loop H n s } }"

definition DhcpPhaseTwo :: "'w board \<Rightarrow> 'w axw \<Rightarrow> (errnum \<times> 'w axw) option" where
  "DhcpPhaseTwo H s = phase_two_loop H 10 s"

text \<open>Five rounds of about a second each; a key ends the countdown.\<close>

definition TOCKS_PER_SECOND :: byte where "TOCKS_PER_SECOND = 39"

partial_function (option) wait_key :: "'w board \<Rightarrow> byte \<Rightarrow> 'w axw \<Rightarrow> (byte \<times> 'w axw) option" where
  "wait_key H t s =
     (let (now, w) = WizTocks (WIZ H s) (chip s); s = s\<lparr>chip := w\<rparr> in
      if now - t > TOCKS_PER_SECOND then Some (0, s)
      else
        Option.bind (PolCat s) (\<lambda>(c, s).
          if c \<noteq> 0 then Some (c, s)
          else if is_gomar H then Some (0, s)
          else wait_key H t s))"

declare wait_key.simps [code]

fun countdown_loop :: "'w board \<Rightarrow> nat \<Rightarrow> 'w axw \<Rightarrow> (byte \<times> 'w axw) option" where
  "countdown_loop H 0 s = do { s \<leftarrow> PrintF (cs ''0.'' @ [10]) [] s; Some (0, s) }"
| "countdown_loop H (Suc n) s =
     (let (t, w) = WizTocks (WIZ H s) (chip s) in do {
        s \<leftarrow> PrintF (cs ''%d... '') [PWord (of_nat (Suc n))] (s\<lparr>chip := w\<rparr>);
        (e, s) \<leftarrow> OneDiscoveryRound H s;
        if 5 - Suc n > 1 \<and> e = OKAY then Some (0, s)
        else do {
          (c, s) \<leftarrow> wait_key H t s;
          if c \<noteq> 0 then Some (c, s) else countdown_loop H n s } })"

definition CountdownOrInitialChar :: "'w board \<Rightarrow> 'w axw \<Rightarrow> (byte \<times> 'w axw) option" where
  "CountdownOrInitialChar H s = do {
     s \<leftarrow> PrintF ([10, 10] @ cs ''To take control, hit space bar.'' @ [10, 10]) [] s;
     s \<leftarrow> OpenDiscoverySockets H s;
     countdown_loop H 5 s }"

section \<open>Serving the waiter\<close>

definition CMD_POKE :: byte where "CMD_POKE = 0"
definition CMD_HELLO :: byte where "CMD_HELLO = 1"
definition CMD_GETCHAR :: byte where "CMD_GETCHAR = 192"
definition CMD_KEYBOARD :: byte where "CMD_KEYBOARD = 193"
definition CMD_SUM :: byte where "CMD_SUM = 194"
definition CMD_INKEY :: byte where "CMD_INKEY = 201"
definition CMD_PUTCHAR :: byte where "CMD_PUTCHAR = 202"
definition CMD_PEEK :: byte where "CMD_PEEK = 203"
definition CMD_DATA :: byte where "CMD_DATA = 204"
definition CMD_JSR :: byte where "CMD_JSR = 255"

definition quint :: "byte \<Rightarrow> word16 \<Rightarrow> word16 \<Rightarrow> byte list" where
  "quint c n p = c # word_bytes n @ word_bytes p"

text \<open>Chunks sent one after the other until one fails.\<close>

fun send_chunks :: "'w board \<Rightarrow> byte list list \<Rightarrow> 'w axw \<Rightarrow> (errnum \<times> 'w axw) option" where
  "send_chunks H [] s = Some (OKAY, s)"
| "send_chunks H (bs # r) s = do {
     (e, s) \<leftarrow> send_chunk H SOCK1 bs s;
     if e \<noteq> OKAY then Some (e, s) else send_chunks H r s }"

definition ClientSaysHello :: "'w board \<Rightarrow> 'w axw \<Rightarrow> (errnum \<times> 'w axw) option" where
  "ClientSaysHello H s =
     send_chunks H
       [quint CMD_HELLO 0x80 CASBUF, fetch (mem_view s) CASBUF 0x80,
        quint CMD_HELLO 0xF4 0xDF00, fetch (mem_view s) 0xDF00 0xF4,
        quint CMD_HELLO 0 0] s"

text \<open>The rows of the keyboard for each probe; \<^verbatim>\<open>keyboard\<close> is its wiring.\<close>

definition ScanKeyboard :: "(byte \<Rightarrow> byte) \<Rightarrow> byte list" where
  "ScanKeyboard keyboard =
     map (\<lambda>bit. not (keyboard (not bit))) [0x80, 0x40, 0x20, 0x10, 0x08, 0x04, 0x02, 0x01]"

partial_function (option) key_reply :: "'w board \<Rightarrow> byte \<Rightarrow> 'w axw \<Rightarrow> (errnum \<times> 'w axw) option" where
  "key_reply H cmd s =
     Option.bind (PolCat s) (\<lambda>(poll, s).
       if poll \<noteq> 0 \<or> cmd = CMD_INKEY then send_chunk H SOCK1 [cmd, 0, 0, 0, poll] s
       else key_reply H cmd s)"

declare key_reply.simps [code]

text \<open>One command of the waiter; the errors of most replies are not looked at.\<close>

definition serve :: "'w board \<Rightarrow> (byte \<Rightarrow> byte) \<Rightarrow> byte \<Rightarrow> word16 \<Rightarrow> word16 \<Rightarrow> 'w axw \<Rightarrow> (errnum \<times> 'w axw) option" where
  "serve H keyboard cmd n p s =
     (if cmd = CMD_GETCHAR \<or> cmd = CMD_INKEY then key_reply H cmd s
      else if cmd = CMD_POKE then do {
        ((_, bs), w) \<leftarrow> TcpRecv (WIZ H s) SOCK1 (unat n) (chip s);
        s \<leftarrow> poke_bytes p bs (s\<lparr>chip := w\<rparr>);
        Some (OKAY, s) }
      else if cmd = CMD_PUTCHAR then do { s \<leftarrow> PutChar (lo p) s; Some (OKAY, s) }
      else if cmd = CMD_KEYBOARD then do {
        (_, s) \<leftarrow> send_chunk H SOCK1 (quint cmd 8 p) s;
        send_chunk H SOCK1 (ScanKeyboard keyboard) s }
      else if cmd = CMD_SUM then do {
        c \<leftarrow> CheckSum16 p (p + n) (mem_view s);
        (_, s) \<leftarrow> send_chunk H SOCK1 (quint cmd 0 c) s;
        Some (OKAY, s) }
      else if cmd = CMD_PEEK then do {
        (_, s) \<leftarrow> send_chunk H SOCK1 (quint CMD_DATA n p) s;
        (_, w) \<leftarrow> TcpSend (WIZ H s) SOCK1 (fetch (mem_view s) p (unat n)) (chip s);
        Some (OKAY, s\<lparr>chip := w\<rparr>) }
      else if cmd = CMD_JSR then do { s \<leftarrow> jsr H p s; Some (OKAY, s) }
      else Fatal (cs ''WUT?'') (ucast cmd) s)"

definition LemmaClientS1 :: "'w board \<Rightarrow> (byte \<Rightarrow> byte) \<Rightarrow> 'w axw \<Rightarrow> (errnum \<times> 'w axw) option" where
  "LemmaClientS1 H keyboard s = do {
     ((e, q), s) \<leftarrow> recv_try H SOCK1 5 s;
     (e, s) \<leftarrow>
       (if e = OKAY then serve H keyboard (q ! 0) (hilo (q ! 1) (q ! 2)) (hilo (q ! 3) (q ! 4)) s
        else Some (e, s));
     Some (if e = NOTYET then OKAY else e, s) }"

text \<open>The loop that serves the waiter, as steps; any error is fatal.\<close>

inductive lemma_steps :: "'w board \<Rightarrow> (byte \<Rightarrow> byte) \<Rightarrow> 'w axw \<Rightarrow> 'w axw \<Rightarrow> bool" for H keyboard where
  lemma_start: "lemma_steps H keyboard s s"
| lemma_step: "lemma_steps H keyboard s t \<Longrightarrow> LemmaClientS1 H keyboard t = Some (OKAY, u) \<Longrightarrow>
    lemma_steps H keyboard s u"

section \<open>The start\<close>

partial_function (option) WaitForLink_loop :: "'w board \<Rightarrow> 'w axw \<Rightarrow> 'w axw option" where
  "WaitForLink_loop H s =
     (let (phys, w) = WizGet1 (WIZ H s) 0x003C (chip s); s = s\<lparr>chip := w\<rparr> in
      if and phys 1 = 1 then PrintF (cs ''UP=%x '') [PWord (ucast phys)] s
      else Option.bind (PrintF (cs ''down=%x '') [PWord (ucast phys)] s) (WaitForLink_loop H))"

declare WaitForLink_loop.simps [code]

definition WaitForLink :: "'w board \<Rightarrow> 'w axw \<Rightarrow> 'w axw option" where
  "WaitForLink H s = do { s \<leftarrow> PrintF (cs ''Link: '') [] s; WaitForLink_loop H s }"

text \<open>\<^verbatim>\<open>+\<close> is printed for every look at the status; at the 250th look it is fatal.\<close>

fun establish_loop :: "'w board \<Rightarrow> sock \<Rightarrow> nat \<Rightarrow> 'w axw \<Rightarrow> 'w axw option" where
  "establish_loop H k 0 s = None"
| "establish_loop H k (Suc stuck) s = do {
     s \<leftarrow> PutChar (ch CHR ''+'') s;
     let (status, w) = WizGet1 (WIZ H s) (sbase k + SK_SR) (chip s); s = s\<lparr>chip := w\<rparr> in
     if stuck = 0 then Fatal (cs ''TEZ'') (ucast status) s
     else if status = SK_SR_ESTB then Some s
     else if status = SK_SR_INIT \<or> status = SK_SR_SYNS then establish_loop H k stuck s
     else Fatal (cs ''TE'') (ucast status) s }"

definition TcpEstablish :: "'w board \<Rightarrow> sock \<Rightarrow> 'w axw \<Rightarrow> 'w axw option" where
  "TcpEstablish H k s = do {
     s \<leftarrow> establish_loop H k 250 s;
     let w = WizPut1 (WIZ H s) (sbase k + SK_IR) SK_IR_CON (chip s);
         w = WizPut1 (WIZ H s) (sbase k + SK_MR2) 0x02 w
     in Some (s\<lparr>chip := w\<rparr>) }"

fun print_identity :: "byte list \<Rightarrow> 'a ax_scheme \<Rightarrow> 'a ax_scheme option" where
  "print_identity [] s = Some s"
| "print_identity (c # r) s = do {
     s \<leftarrow> (if ch CHR '' '' \<le> c \<and> c \<le> ch CHR ''~'' then PutChar c s else Some s);
     print_identity r s }"

text \<open>Finding the chip at one of its two ports.\<close>

definition find_wiz :: "'w board \<Rightarrow> 'w axw \<Rightarrow> 'w axw option" where
  "find_wiz H s =
     (let (e, w) = ValidateWizPort (ports H 0xFF68) (chip s) in
      if e = OKAY then Some (s\<lparr>chip := w, vars := (vars s)\<lparr>v_wiz_port := 0xFF68\<rparr>\<rparr>)
      else
        let (e, w) = ValidateWizPort (ports H 0xFF78) w in
        if e = OKAY then Some (s\<lparr>chip := w, vars := (vars s)\<lparr>v_wiz_port := 0xFF78\<rparr>\<rparr>)
        else Fatal (cs ''nowiz'') 9 s)"

definition configure :: "'w board \<Rightarrow> 'w axw \<Rightarrow> 'w axw" where
  "configure H s = s\<lparr>chip := WizConfigure (WIZ H s) (vars s) (fetch (amem s) ROM_MAC_TAIL 5) (chip s)\<rparr>"

text \<open>The first part of \<^verbatim>\<open>AxiomMain\<close>, up to the names and ports taken from the ROM.\<close>

definition boot_identity :: "'w board \<Rightarrow> 'w axw \<Rightarrow> 'w axw option" where
  "boot_identity H s = do {
     s \<leftarrow> find_wiz H s;
     s \<leftarrow> PrintF (cs ''Wiznet found at %x'' @ [10]) [PWord (v_wiz_port (vars s))] s;
     let (ticks, w) = WizTicks (WIZ H s) (chip s);
         xid = fetch (amem s) (ROM_MAC_TAIL + 1) 4;
         x = hilo (xid ! 0) (xid ! 1) + ticks;
         s = s\<lparr>chip := w, vars := (vars s)\<lparr>v_rand_word := ticks, v_hostname := fetch (amem s) ROM_HOSTNAME 8,
           v_transaction_id := [hi x, lo x, xid ! 2, xid ! 3]\<rparr>\<rparr> in do {
     s \<leftarrow> ComputeRomSums s;
     s \<leftarrow> PrintF (if is_6309 H then cs ''HITACHI '' else cs ''MOTOROLA '') [] s;
     s \<leftarrow> PrintF (cs ''NAME=\"'') [] s;
     s \<leftarrow> print_identity (v_hostname (vars s)) s;
     s \<leftarrow> PrintF (cs ''\" '') [] s;
     let port = fetch2 (amem s) ROM_WAITER_PORT in
     Some (s\<lparr>vars := (vars s)\<lparr>v_waiter_port :=
       (if port \<noteq> 0 \<and> port \<noteq> 0xFFFF then port else V41_DEFAULT_WAITER_TCP_PORT)\<rparr>\<rparr>) } }"

definition boot_human :: "'w board \<Rightarrow> 'w axw \<Rightarrow> 'w axw option" where
  "boot_human H s =
     (let s = s\<lparr>vars := (vars s)\<lparr>v_ip_waiter := fetch (amem s) ROM_WAITER 4\<rparr>\<rparr>;
          s = s\<lparr>chip := WizReset (WIZ H s) (chip s)\<rparr> in do {
      s \<leftarrow> WaitForLink H s;
      (initial_char, s) \<leftarrow> CountdownOrInitialChar H (configure H s);
      s \<leftarrow>
        (if initial_char = 0 \<and> v_got_lan (vars s) then PrintF (cs ''USE LAN;'') [] s
         else if initial_char = 0 \<and> v_got_dhcp (vars s) then do {
           s \<leftarrow> PrintF (cs ''USE DHCP;'') [] s;
           Some (s\<lparr>vars := (vars s)\<lparr>v_use_dhcp := True\<rparr>\<rparr>) }
         else Some s);
      s \<leftarrow>
        (if initial_char = 0 \<and> v_got_lan (vars s) then DoLineBufCommands H True s
         else if \<not> v_use_dhcp (vars s) then DoKeyboardCommands H initial_char s
         else Some s);
      if v_use_dhcp (vars s) then do {
        (e, s) \<leftarrow> DhcpPhaseTwo H s;
        if e \<noteq> OKAY then Fatal (cs ''Dhcp2'') (ucast e) s else Some s }
      else Some s })"

definition boot_network :: "'w board \<Rightarrow> 'w axw \<Rightarrow> 'w axw option" where
  "boot_network H s =
     (if is_gomar H then
        Some (s\<lparr>vars := (vars s)\<lparr>v_ip_addr := [127, 0, 0, 1], v_ip_waiter := [127, 0, 0, 1],
          v_ip_mask := [255, 255, 255, 0], v_use_dhcp := False\<rparr>\<rparr>)
      else boot_human H s)"

text \<open>From the entry to the loop that serves the waiter.\<close>

definition AxiomMain :: "'w board \<Rightarrow> word16 \<Rightarrow> word16 \<Rightarrow> word16 \<Rightarrow> 'w axw \<Rightarrow> 'w axw option" where
  "AxiomMain H sp main_addr loop_addr s0 =
     (let b = clear_vars (amem s0);
          s = s0\<lparr>vars := (vars b)\<lparr>v_stack := sp, v_main := main_addr\<rparr>,
                amem := store (VDG_RAM + 22) (cs ''AXIOM'' @ [104, 116, 113] @ cs ''C'' @ [105]) (amem b)\<rparr>
      in do {
      s \<leftarrow> boot_identity H s;
      s \<leftarrow> boot_network H s;
      let s = configure H (s\<lparr>chip := WizReset (WIZ H s) (chip s)\<rparr>);
      w \<leftarrow> WizOpen (WIZ H s) SOCK1 TcpProto (v_rand_word (vars s)) (chip s);
      let s = s\<lparr>chip := w, vars := (vars s)\<lparr>v_use_dhcp := False\<rparr>\<rparr>;
      s \<leftarrow> ShowNetwork s;
      s \<leftarrow> PrintF (cs ''tcp dial %a:%u; '') [PAddr (v_ip_waiter (vars s)), PWord (v_waiter_port (vars s))] s;
      w \<leftarrow> TcpDial (WIZ H s) SOCK1 (v_ip_waiter (vars s)) (v_waiter_port (vars s)) (chip s);
      s \<leftarrow> TcpEstablish H SOCK1 (s\<lparr>chip := w\<rparr>);
      s \<leftarrow> PrintF (cs '' CONN; '') [] s;
      (e, s) \<leftarrow> ClientSaysHello H s;
      if e \<noteq> OKAY then Fatal (cs ''Hello'') (ucast e) s
      else Some (s\<lparr>vars := (vars s)\<lparr>v_lemma_loop := loop_addr\<rparr>\<rparr>) })"

end
