(* ===== verification/Ax_Ring.thy ===== *)
theory Ax_Ring
  imports Ax_Wiz
begin

text \<open>
  The ring buffers of the chip.  \<^verbatim>\<open>quiet_chip\<close> states what the data sheet promises of the
  four ports while nothing happens on the net: the address counts up by one at each access
  to the data port; the socket registers and buffers (at \<^verbatim>\<open>0x400\<close> and above) are memory; a
  command register reads 0 once the command is taken, and taking it changes neither the
  buffers nor the pointers the host owns.  \<^verbatim>\<open>ram_port\<close> is a chip that does this.
\<close>

section \<open>A chip while the net is quiet\<close>

definition command_reg :: "word16 \<Rightarrow> bool" where
  "command_reg a \<longleftrightarrow> a \<in> {0x401, 0x501, 0x601, 0x701}"

definition interrupt_reg :: "word16 \<Rightarrow> bool" where
  "interrupt_reg a \<longleftrightarrow> a \<in> {0x402, 0x502, 0x602, 0x702}"

definition host_owned :: "word16 \<Rightarrow> bool" where
  "host_owned a \<longleftrightarrow> 0x400 \<le> a \<and> (0x4000 \<le> a \<or> lo a \<in> {0x24, 0x25, 0x28, 0x29})"

definition quiet_chip :: "'w port \<Rightarrow> ('w \<Rightarrow> ax_mem) \<Rightarrow> ('w \<Rightarrow> word16) \<Rightarrow> bool" where
  "quiet_chip P regs cur \<longleftrightarrow>
     (\<forall>b w. cur (pwrite P 1 b w) = hilo b (lo (cur w)) \<and> regs (pwrite P 1 b w) = regs w) \<and>
     (\<forall>b w. cur (pwrite P 2 b w) = hilo (hi (cur w)) b \<and> regs (pwrite P 2 b w) = regs w) \<and>
     (\<forall>w. cur (snd (pread P 3 w)) = cur w + 1 \<and> regs (snd (pread P 3 w)) = regs w) \<and>
     (\<forall>w. 0x400 \<le> cur w \<longrightarrow> fst (pread P 3 w) = regs w (cur w)) \<and>
     (\<forall>b w. cur (pwrite P 3 b w) = cur w + 1) \<and>
     (\<forall>b w. 0x400 \<le> cur w \<longrightarrow> \<not> command_reg (cur w) \<longrightarrow> \<not> interrupt_reg (cur w) \<longrightarrow>
        regs (pwrite P 3 b w) = (regs w)(cur w := b)) \<and>
     (\<forall>b w. command_reg (cur w) \<longrightarrow>
        regs (pwrite P 3 b w) (cur w) = 0 \<and>
        (\<forall>a. host_owned a \<longrightarrow> regs (pwrite P 3 b w) a = regs w a))"

definition ram_port :: "(word16 \<times> ax_mem) port" where
  "ram_port =
     \<lparr>pread = (\<lambda>i (a, m). if i = 3 then (m a, (a + 1, m)) else (3, (a, m))),
      pwrite = (\<lambda>i b (a, m).
        if i = 1 then (hilo b (lo a), m)
        else if i = 2 then (hilo (hi a) b, m)
        else if i = 3 then (a + 1, m(a := if command_reg a then 0 else b))
        else (a, m))\<rparr>"

lemma command_reg_not_host: "command_reg a \<Longrightarrow> \<not> host_owned a"
  by (auto simp: command_reg_def host_owned_def lo_def)

lemma ram_port_quiet: "quiet_chip ram_port snd fst"
  unfolding quiet_chip_def ram_port_def using command_reg_not_host by fastforce

definition reg2 :: "ax_mem \<Rightarrow> word16 \<Rightarrow> word16" where
  "reg2 m a = hilo (m a) (m (a + 1))"

section \<open>Single accesses\<close>

named_theorems quiet \<open>what an access to a quiet chip does\<close>

lemma quiet_set_addr [quiet]:
  assumes "quiet_chip P regs cur"
  shows "cur (set_addr P a w) = a" "regs (set_addr P a w) = regs w"
  using assms by (simp_all add: quiet_chip_def set_addr_def)

lemma hilo_sum: "push_bit 8 (ucast h) + ucast l = hilo h l"
  unfolding hilo_def by (rule disjunctive_add) (auto simp: bit_simps dest: bit_imp_le_length)

lemma quiet_read [quiet]:
  assumes "quiet_chip P regs cur"
  shows "cur (snd (pread P 3 w)) = cur w + 1" "regs (snd (pread P 3 w)) = regs w"
    "0x400 \<le> cur w \<Longrightarrow> fst (pread P 3 w) = regs w (cur w)"
  using assms by (simp_all add: quiet_chip_def)

lemma quiet_write [quiet]:
  assumes "quiet_chip P regs cur"
  shows "cur (pwrite P 3 b w) = cur w + 1"
    "\<lbrakk>0x400 \<le> cur w; \<not> command_reg (cur w); \<not> interrupt_reg (cur w)\<rbrakk> \<Longrightarrow>
      regs (pwrite P 3 b w) = (regs w)(cur w := b)"
  using assms by (simp_all add: quiet_chip_def)

lemma quiet_get1:
  assumes "quiet_chip P regs cur" "0x400 \<le> a" "WizGet1 P a w = (v, w')"
  shows "v = regs w a" "regs w' = regs w"
proof -
  have "v = fst (pread P 3 (set_addr P a w))" "w' = snd (pread P 3 (set_addr P a w))"
    using assms(3) by (simp_all add: WizGet1_def)
  then show "v = regs w a" "regs w' = regs w" using quiet [OF assms(1)] assms(2) by simp_all
qed

lemma quiet_get2:
  assumes "quiet_chip P regs cur" "0x400 \<le> a" "0x400 \<le> a + 1" "WizGet2 P a w = (v, w')"
  shows "v = reg2 (regs w) a" "regs w' = regs w"
proof -
  obtain b u where 1: "pread P 3 (set_addr P a w) = (b, u)" by fastforce
  obtain c x where 2: "pread P 3 u = (c, x)" by fastforce
  have u: "b = regs w a" "cur u = a + 1" "regs u = regs w"
    using quiet [OF assms(1)] assms(2) 1 by (metis fst_conv, metis snd_conv, metis snd_conv)
  have x: "c = regs w (a + 1)" "regs x = regs w"
    using quiet [OF assms(1)] assms(3) u 2 by (metis fst_conv, metis snd_conv)
  show "v = reg2 (regs w) a" "regs w' = regs w"
    using assms(4) 1 2 u x by (simp_all add: WizGet2_def Let_def reg2_def hilo_sum)
qed

text \<open>Addresses of the buffers and pointers, where stores are plain.\<close>

definition plain_reg :: "word16 \<Rightarrow> bool" where
  "plain_reg a \<longleftrightarrow> 0x400 \<le> a \<and> \<not> command_reg a \<and> \<not> interrupt_reg a"

lemma quiet_put2:
  assumes "quiet_chip P regs cur" "plain_reg a" "plain_reg (a + 1)"
  shows "regs (WizPut2 P a v w) = (regs w)(a := hi v, a + 1 := lo v)"
  using quiet [OF assms(1)] assms(2,3) by (simp add: WizPut2_def plain_reg_def)

lemma quiet_get_data:
  assumes "quiet_chip P regs cur" "\<forall>i < n. 0x400 \<le> cur w + of_nat i" "get_data P n w = (bs, w')"
  shows "bs = fetch (regs w) (cur w) n \<and> regs w' = regs w"
  using assms(2,3)
proof (induction n arbitrary: w bs w')
  case (Suc n)
  obtain b u where 1: "pread P 3 w = (b, u)" by fastforce
  obtain cs x where 2: "get_data P n u = (cs, x)" by fastforce
  have "0x400 \<le> cur w" using Suc(2) [rule_format, of 0] by simp
  then have u: "b = regs w (cur w)" "cur u = cur w + 1" "regs u = regs w"
    using quiet [OF assms(1)] 1 by (metis fst_conv, metis snd_conv, metis snd_conv)
  have "\<forall>i < n. 0x400 \<le> cur u + of_nat i"
  proof (intro allI impI)
    fix i assume "i < n"
    then show "0x400 \<le> cur u + of_nat i" using Suc(2) [rule_format, of "Suc i"] u(2) by (simp add: algebra_simps)
  qed
  then show ?case using Suc(1) [OF _ 2] Suc(3) 1 2 u by auto
qed simp

lemma quiet_put_data:
  assumes "quiet_chip P regs cur" "\<forall>i < length bs. plain_reg (cur w + of_nat i)"
  shows "regs (put_data P bs w) = store (cur w) bs (regs w)"
  using assms(2)
proof (induction bs arbitrary: w)
  case (Cons b bs)
  have "plain_reg (cur w)" using Cons(2) [rule_format, of 0] by simp
  then have u: "regs (pwrite P 3 b w) = (regs w)(cur w := b)" "cur (pwrite P 3 b w) = cur w + 1"
    using quiet [OF assms(1)] by (simp_all add: plain_reg_def)
  have "\<forall>i < length bs. plain_reg (cur (pwrite P 3 b w) + of_nat i)"
  proof (intro allI impI)
    fix i assume "i < length bs"
    then show "plain_reg (cur (pwrite P 3 b w) + of_nat i)"
      using Cons(2) [rule_format, of "Suc i"] u(2) by (simp add: algebra_simps)
  qed
  then have "regs (put_data P bs (pwrite P 3 b w)) = store (cur w + 1) bs ((regs w)(cur w := b))"
    using Cons(1) u by metis
  then show ?case by (simp only: put_data.simps store.simps)
qed simp

lemma quiet_putN:
  assumes "quiet_chip P regs cur" "\<forall>i < length bs. plain_reg (a + of_nat i)"
  shows "regs (WizPutN P a bs w) = store a bs (regs w)"
  using quiet_put_data [OF assms(1), of bs "set_addr P a w"] assms quiet(1,2) [OF assms(1)]
  by (simp add: WizPutN_def)

lemma quiet_getN:
  assumes "quiet_chip P regs cur" "\<forall>i < unat n. 0x400 \<le> a + of_nat i" "WizGetN P a n w = (bs, w')"
  shows "bs = fetch (regs w) a (unat n) \<and> regs w' = regs w"
  using quiet_get_data [OF assms(1), of "unat n" "set_addr P a w"] assms quiet(1,2) [OF assms(1)]
  by (simp add: WizGetN_def)

lemma quiet_command:
  assumes q: "quiet_chip P regs cur" and a: "command_reg (sbase k + SK_CR)"
  shows "\<exists>w'. WizIssueCommand P k cmd w = Some w' \<and> (\<forall>a. host_owned a \<longrightarrow> regs w' a = regs w a)"
proof -
  let ?a = "sbase k + SK_CR" and ?u = "WizPut1 P (sbase k + SK_CR) cmd w"
  have u: "regs ?u ?a = 0" "\<forall>a. host_owned a \<longrightarrow> regs ?u a = regs w a"
    using q quiet(1,2) [OF q, of ?a w] a unfolding WizPut1_def quiet_chip_def by (metis, metis)
  have a4: "0x400 \<le> ?a" using a by (auto simp: command_reg_def)
  obtain c w' where g: "WizGet1 P ?a ?u = (c, w')" by fastforce
  have "c = 0" "regs w' = regs ?u" using quiet_get1 [OF q a4 g] u by simp_all
  then have "WizIssueCommand P k cmd w = Some w'"
    unfolding WizIssueCommand_def by (subst cr_loop.simps) (simp add: g)
  then show ?thesis using u \<open>regs w' = regs ?u\<close> by auto
qed

section \<open>Stores into a ring\<close>

lemma Socks_cases:
  assumes "k \<in> set Socks"
  obtains "sbase k = 0x400" "tx_ring k = 0x4000" "rx_ring k = 0x6000"
    | "sbase k = 0x500" "tx_ring k = 0x4800" "rx_ring k = 0x6800"
  using assms unfolding Socks_def by auto

lemma Socks_rings:
  assumes "k \<in> set Socks"
  shows "0x4000 \<le> tx_ring k" "unat (tx_ring k) \<le> 0x7800" "0x4000 \<le> rx_ring k" "unat (rx_ring k) \<le> 0x7800"
  by (rule Socks_cases [OF assms]; simp)+

lemma unat_offset: "unat (a :: word16) + i < 65536 \<Longrightarrow> unat (a + of_nat i) = unat a + i"
  by (simp add: unat_word_ariths unat_of_nat)

lemma buffer_plain:
  assumes "0x4000 \<le> (a :: word16)" "unat a + i < 65536"
  shows "plain_reg (a + of_nat i)" "0x400 \<le> a + of_nat i"
proof -
  have "0x4000 \<le> unat (a + of_nat i)" using assms unat_offset [OF assms(2)] by (simp add: word_le_nat_alt)
  then show "plain_reg (a + of_nat i)" "0x400 \<le> a + of_nat i"
    by (auto simp: plain_reg_def command_reg_def interrupt_reg_def word_le_nat_alt)
qed

lemma unat_RING_MASK: "unat (and w RING_MASK) = unat w mod 2048"
proof -
  have "and w RING_MASK = take_bit 11 w"
    by (simp add: RING_MASK_def RING_SIZE_def take_bit_eq_mask mask_eq_exp_minus_1)
  then show ?thesis unfolding \<open>and w RING_MASK = _\<close> unsigned_take_bit_eq by (simp add: take_bit_eq_mod)
qed

text \<open>Every address is an offset of the start of the ring; a store seen from that offset.\<close>

lemma offset_of: "(x :: word16) = a + of_nat (unat (x - a))"
  by simp

lemma store_offset:
  assumes "b + length bs \<le> 65536" "j < 65536"
  shows "store (a + of_nat b) bs m (a + of_nat j) =
    (if b \<le> j \<and> j < b + length bs then bs ! (j - b) else m (a + of_nat j))"
proof -
  have iff: "(\<exists>i < length bs. a + of_nat j = a + of_nat b + of_nat i) \<longleftrightarrow> b \<le> j \<and> j < b + length bs"
  proof
    assume "\<exists>i < length bs. a + of_nat j = a + of_nat b + of_nat i"
    then obtain i where i: "i < length bs" "a + of_nat j = a + of_nat (b + i)" by (auto simp: add.assoc)
    then have "j = b + i" using offset_inj [of j "b + i" a] assms by simp
    then show "b \<le> j \<and> j < b + length bs" using i by simp
  next
    assume r: "b \<le> j \<and> j < b + length bs"
    then have "(of_nat j :: word16) = of_nat b + of_nat (j - b)" by (metis le_add_diff_inverse of_nat_add)
    then show "\<exists>i < length bs. a + of_nat j = a + of_nat b + of_nat i"
      using r by (intro exI [of _ "j - b"]) auto
  qed
  have u: "unat (a + of_nat j - (a + of_nat b)) = j - b" if "b \<le> j"
  proof -
    have "a + of_nat j - (a + of_nat b) = (of_nat (j - b) :: word16)" using that by (simp add: of_nat_diff)
    moreover have "(j - b) mod 65536 = j - b" using assms by simp
    ultimately show ?thesis by (simp only: unat_of_nat) simp
  qed
  have l: "length bs \<le> 65536" using assms by simp
  show ?thesis unfolding store_at [OF l] iff using u by (cases "b \<le> j") simp_all
qed

text \<open>Where the bytes of a message lie in a ring of 2048 bytes at \<^verbatim>\<open>a\<close>.\<close>

definition ring_at :: "word16 \<Rightarrow> nat \<Rightarrow> nat \<Rightarrow> word16" where
  "ring_at a b i = a + of_nat ((b + i) mod 2048)"

definition ring_has :: "word16 \<Rightarrow> nat \<Rightarrow> byte list \<Rightarrow> ax_mem \<Rightarrow> ax_mem \<Rightarrow> bool" where
  "ring_has a b bs m m' \<longleftrightarrow>
     (\<forall>i < length bs. m' (ring_at a b i) = bs ! i) \<and>
     (\<forall>x. (\<forall>i < length bs. x \<noteq> ring_at a b i) \<longrightarrow> m' x = m x)"

lemma mod_ring: "i < 4096 \<Longrightarrow> i mod 2048 = (if i < 2048 then i else i - (2048 :: nat))"
  by (simp add: mod_if)

lemma ring_hasI:
  assumes b: "b < 2048" and n: "length bs \<le> 2048"
    and at: "\<And>j. j < 65536 \<Longrightarrow> m' (a + of_nat j) =
      (if b \<le> j \<and> j < b + length bs \<and> j < 2048 then bs ! (j - b)
       else if j + 2048 < b + length bs then bs ! (j + 2048 - b) else m (a + of_nat j))"
  shows "ring_has a b bs m m'"
  unfolding ring_has_def
proof (intro conjI allI impI)
  fix i assume i: "i < length bs"
  show "m' (ring_at a b i) = bs ! i"
    using at [of "(b + i) mod 2048"] i b n by (auto simp: ring_at_def mod_ring split: if_splits)
next
  fix x assume x: "\<forall>i < length bs. x \<noteq> ring_at a b i"
  define j where "j = unat (x - a)"
  have j: "x = a + of_nat j" "j < 65536" unfolding j_def by simp_all
  have 1: "\<not> (b \<le> j \<and> j < b + length bs \<and> j < 2048)"
  proof
    assume l: "b \<le> j \<and> j < b + length bs \<and> j < 2048"
    then have "j - b < length bs" by linarith
    then show False using x [rule_format, of "j - b"] j(1) l by (simp add: ring_at_def)
  qed
  have 2: "\<not> j + 2048 < b + length bs"
  proof
    assume l: "j + 2048 < b + length bs"
    then have "(b + (j + 2048 - b)) mod 2048 = j" using b n by (simp add: mod_ring)
    moreover have "j + 2048 - b < length bs" using l b by linarith
    ultimately show False using x [rule_format, of "j + 2048 - b"] j(1) by (simp add: ring_at_def)
  qed
  show "m' x = m x" using at [OF j(2)] 1 2 by (simp add: j(1))
qed

section \<open>Sending and receiving\<close>

lemma WizDataToSend_quiet:
  assumes q: "quiet_chip P regs cur" and k: "k \<in> set Socks" and p: "unat p < 2048"
    and n: "length bs \<le> 2048" and d: "WizDataToSend P k p bs w = (p', w')"
  shows "ring_has (tx_ring k) (unat p) bs (regs w) (regs w')"
    "unat p' = (unat p + length bs) mod 2048"
proof -
  let ?T = "tx_ring k" and ?b = "unat p" and ?n = "of_nat (length bs) :: word16"
  note T = Socks_rings(1,2) [OF k]
  have un: "unat ?n = length bs" using n by (simp add: unat_of_nat)
  have uf: "unat (p + ?n) = ?b + length bs" using un p n by (simp add: unat_word_ariths)
  have pl: "plain_reg (?T + of_nat i)" if "i < 4096" for i
    using buffer_plain(1) [OF T(1), of i] T(2) that by simp
  have plb: "plain_reg (?T + of_nat ?b + of_nat i)" if "i < 2048" for i
    using pl [of "?b + i"] p that by (simp add: add.assoc)
  show "unat p' = (?b + length bs) mod 2048"
    using d uf by (auto simp: WizDataToSend_def Let_def unat_RING_MASK add.commute)
  have Tp: "?T + p = ?T + of_nat ?b" by simp
  show "ring_has ?T ?b bs (regs w) (regs w')"
  proof (rule ring_hasI [OF p n])
    fix j :: nat assume j: "j < 65536"
    show "regs w' (?T + of_nat j) =
      (if ?b \<le> j \<and> j < ?b + length bs \<and> j < 2048 then bs ! (j - ?b)
       else if j + 2048 < ?b + length bs then bs ! (j + 2048 - ?b) else regs w (?T + of_nat j))"
    proof (cases "RING_SIZE \<le> p + ?n")
      case True
      let ?f = "unat (RING_SIZE - p)"
      have f: "?f = 2048 - ?b" using p by (simp add: RING_SIZE_def unat_diff_le word_le_nat_alt)
      have l: "2048 \<le> ?b + length bs" using True uf by (simp add: RING_SIZE_def word_le_nat_alt)
      have w': "w' = WizPutN P ?T (drop ?f bs) (WizPutN P (?T + of_nat ?b) (take ?f bs) w)"
        using d True by (simp add: WizDataToSend_def Let_def)
      have "regs w' = store ?T (drop ?f bs) (store (?T + of_nat ?b) (take ?f bs) (regs w))"
        unfolding w' by (subst quiet_putN [OF q], use pl n in force, subst quiet_putN [OF q])
          (use plb n in force, rule refl)
      then show ?thesis
        using store_offset [of 0 "drop ?f bs" j ?T] store_offset [of ?b "take ?f bs" j ?T "regs w"] j n l f p
        by (auto simp: min_def add.commute)
    next
      case False
      have "w' = WizPutN P (?T + of_nat ?b) bs w"
        using d False by (simp add: WizDataToSend_def Let_def)
      then have "regs w' = store (?T + of_nat ?b) bs (regs w)"
        using quiet_putN [OF q, of bs "?T + of_nat ?b" w] plb False uf
        by (simp add: RING_SIZE_def word_le_nat_alt)
      moreover have "?b + length bs < 2048"
        using False uf by (simp add: RING_SIZE_def word_le_nat_alt)
      ultimately show ?thesis using store_offset [of ?b bs j ?T "regs w"] j by auto
    qed
  qed
qed

lemma fetch_append: "fetch m a (i + j) = fetch m a i @ fetch m (a + of_nat i) j"
  by (induction i arbitrary: a) (auto simp: algebra_simps)

lemma fetch_ring:
  assumes "b < 2048" "n \<le> 2048"
  shows "map (\<lambda>i. m (ring_at a b i)) [0..<n] =
    (if 2048 \<le> b + n then fetch m (a + of_nat b) (2048 - b) @ fetch m a (b + n - 2048)
     else fetch m (a + of_nat b) n)"
proof (rule nth_equalityI)
  fix i assume "i < length (map (\<lambda>i. m (ring_at a b i)) [0..<n])"
  then have "i < n" by simp
  then show "map (\<lambda>i. m (ring_at a b i)) [0..<n] ! i =
    (if 2048 \<le> b + n then fetch m (a + of_nat b) (2048 - b) @ fetch m a (b + n - 2048)
     else fetch m (a + of_nat b) n) ! i"
    using assms by (auto simp: nth_append fetch_nth ring_at_def mod_ring of_nat_diff algebra_simps)
qed (use assms in auto)

text \<open>The registers of a socket that a transfer reads and writes.\<close>

lemma Socks_regs:
  assumes "k \<in> set Socks"
  shows "command_reg (sbase k + SK_CR)" "0x400 \<le> sbase k + SK_IR"
    "0x400 \<le> sbase k + SK_TX_FSR0" "0x400 \<le> sbase k + SK_TX_FSR0 + 1"
    "0x400 \<le> sbase k + SK_TX_WR0" "0x400 \<le> sbase k + SK_TX_WR0 + 1"
    "0x400 \<le> sbase k + SK_RX_RSR0" "0x400 \<le> sbase k + SK_RX_RSR0 + 1"
    "0x400 \<le> sbase k + SK_RX_RD0" "0x400 \<le> sbase k + SK_RX_RD0 + 1"
    "plain_reg (sbase k + SK_TX_WR0)" "plain_reg (sbase k + SK_TX_WR0 + 1)"
    "plain_reg (sbase k + SK_RX_RD0)" "plain_reg (sbase k + SK_RX_RD0 + 1)"
    "host_owned (sbase k + SK_TX_WR0)" "host_owned (sbase k + SK_TX_WR0 + 1)"
    "host_owned (sbase k + SK_RX_RD0)" "host_owned (sbase k + SK_RX_RD0 + 1)"
    "sbase k + SK_TX_WR0 < 0x4000" "sbase k + SK_TX_WR0 + 1 < 0x4000"
    "sbase k + SK_RX_RD0 < 0x4000" "sbase k + SK_RX_RD0 + 1 < 0x4000"
  by (rule Socks_cases [OF assms];
      simp add: wiz_regs command_reg_def plain_reg_def interrupt_reg_def host_owned_def lo_def)+

text \<open>A store to a pointer leaves the buffers alone.\<close>

lemma put_pointer:
  assumes q: "quiet_chip P regs cur" and a: "plain_reg a" "plain_reg (a + 1)" "a < 0x4000" "a + 1 < 0x4000"
  shows "reg2 (regs (WizPut2 P a v w)) a = v"
    "\<And>x. 0x4000 \<le> x \<Longrightarrow> regs (WizPut2 P a v w) x = regs w x"
proof -
  have "a \<noteq> a + 1" by simp
  then show "reg2 (regs (WizPut2 P a v w)) a = v"
    unfolding quiet_put2 [OF q a(1,2)] reg2_def by simp
  fix x :: word16 assume "0x4000 \<le> x"
  then have "x \<noteq> a" "x \<noteq> a + 1" using a by auto
  then show "regs (WizPut2 P a v w) x = regs w x" unfolding quiet_put2 [OF q a(1,2)] by simp
qed

lemma WizCheck_quiet:
  assumes "quiet_chip P regs cur" "k \<in> set Socks"
    and "and (regs w (sbase k + SK_IR)) SK_IR_TOUT = 0" "and (regs w (sbase k + SK_IR)) SK_IR_DISC = 0"
  shows "\<exists>w'. WizCheck P k w = (OKAY, w') \<and> regs w' = regs w"
proof -
  obtain v w' where g: "WizGet1 P (sbase k + SK_IR) w = (v, w')" by fastforce
  have "v = regs w (sbase k + SK_IR)" "regs w' = regs w"
    using quiet_get1 [OF assms(1) Socks_regs(2) [OF assms(2)] g] by auto
  then show ?thesis using assms(3,4) g by (simp add: WizCheck_def)
qed

lemma get2_quiet:
  assumes "quiet_chip P regs cur" "0x400 \<le> a" "0x400 \<le> a + 1"
  shows "\<exists>w'. WizGet2 P a w = (reg2 (regs w) a, w') \<and> regs w' = regs w"
  using quiet_get2 [OF assms] by (metis surj_pair)

lemma WizFinalizeSend_quiet:
  assumes q: "quiet_chip P regs cur" and k: "k \<in> set Socks"
  shows "\<exists>w'. WizFinalizeSend P k pr n w = Some w' \<and>
    reg2 (regs w') (sbase k + SK_TX_WR0) = reg2 (regs w) (sbase k + SK_TX_WR0) + n \<and>
    (\<forall>x. 0x4000 \<le> x \<longrightarrow> regs w' x = regs w x)"
proof -
  let ?a = "sbase k + SK_TX_WR0"
  note r = Socks_regs [OF k]
  obtain u where u: "WizGet2 P ?a w = (reg2 (regs w) ?a, u)" "regs u = regs w"
    using get2_quiet [OF q r(5,6)] by blast
  let ?v = "reg2 (regs w) ?a + n" and ?x = "WizPut2 P ?a (reg2 (regs w) ?a + n) u"
  obtain w' where w': "WizIssueCommand P k (send_command pr) ?x = Some w'"
      "\<forall>a. host_owned a \<longrightarrow> regs w' a = regs ?x a"
    using quiet_command [OF q r(1)] by blast
  have "reg2 (regs w') ?a = ?v"
    using w'(2) r(15,16) put_pointer(1) [OF q r(11,12,19,20)] by (metis reg2_def)
  moreover have "regs w' x = regs w x" if "0x4000 \<le> x" for x
  proof -
    have "host_owned x" using that by (auto simp: host_owned_def word_le_nat_alt)
    then show ?thesis using w'(2) put_pointer(2) [OF q r(11,12,19,20) that] u(2) by metis
  qed
  ultimately show ?thesis using w'(1) u(1) by (auto simp: WizFinalizeSend_def)
qed

lemma buffer_ring:
  assumes "0x4000 \<le> a" "unat a \<le> 0x7800"
  shows "0x4000 \<le> ring_at a b i"
proof -
  have "(b + i) mod 2048 < 2048" by simp
  then have "unat (ring_at a b i) = unat a + (b + i) mod 2048"
    unfolding ring_at_def using assms(2) by (intro unat_offset) linarith
  then show ?thesis using assms(1) by (simp add: word_le_nat_alt)
qed

lemma ring_has_cong:
  assumes "ring_has a b bs m m'" "\<And>x. 0x4000 \<le> x \<Longrightarrow> m'' x = m' x" "0x4000 \<le> a" "unat a \<le> 0x7800"
  shows "(\<forall>i < length bs. m'' (ring_at a b i) = bs ! i) \<and>
   (\<forall>x \<ge> 0x4000. (\<forall>i < length bs. x \<noteq> ring_at a b i) \<longrightarrow> m'' x = m x)"
  using assms buffer_ring [OF assms(3,4)] by (simp add: ring_has_def)

lemma read_ring:
  assumes q: "quiet_chip P regs cur" and R: "0x4000 \<le> R" "unat R \<le> 0x7800" and b: "unat b < 2048"
    and n: "unat n \<le> 2048" and w: "regs w = m" and c: "c = unat b"
  shows "\<exists>w'. (if b + n \<ge> RING_SIZE then
        (let (xs, w) = WizGetN P (R + b) (RING_SIZE - b) w;
             (ys, w) = WizGetN P R (n - (RING_SIZE - b)) w in (xs @ ys, w))
      else WizGetN P (R + b) n w) = (map (\<lambda>i. m (ring_at R c i)) [0..<unat n], w') \<and> regs w' = m"
proof -
  have uf: "unat (b + n) = unat b + unat n" using b n by (simp add: unat_word_ariths)
  have pl: "0x400 \<le> R + of_nat i" if "i < 4096" for i
    using buffer_plain(2) [OF R(1), of i] R(2) that by simp
  have plb: "0x400 \<le> R + b + of_nat i" if "i < 2048" for i
    using pl [of "unat b + i"] b that by (simp add: add.assoc)
  note fr = fetch_ring [OF b n, of m R]
  show ?thesis
  proof (cases "b + n \<ge> RING_SIZE")
    case True
    have l: "2048 \<le> unat b + unat n" using True uf by (simp add: RING_SIZE_def word_le_nat_alt)
    have f: "unat (RING_SIZE - b) = 2048 - unat b" using b by (simp add: RING_SIZE_def unat_diff_le word_le_nat_alt)
    then have g: "unat (n - (RING_SIZE - b)) = unat b + unat n - 2048"
      using l b by (subst unat_diff_le) (simp_all add: word_le_nat_alt)
    obtain xs u where 1: "WizGetN P (R + b) (RING_SIZE - b) w = (xs, u)" by fastforce
    obtain ys x where 2: "WizGetN P R (n - (RING_SIZE - b)) u = (ys, x)" by fastforce
    have "xs = fetch m (R + b) (2048 - unat b) \<and> regs u = m"
      using quiet_getN [OF q _ 1] plb f w by simp
    moreover have "ys = fetch (regs u) R (unat b + unat n - 2048) \<and> regs x = regs u"
      using quiet_getN [OF q _ 2] pl g n b by simp
    ultimately show ?thesis using True 1 2 fr l c by simp
  next
    case False
    have l: "\<not> 2048 \<le> unat b + unat n" using False uf by (simp add: RING_SIZE_def word_le_nat_alt)
    obtain xs u where 1: "WizGetN P (R + b) n w = (xs, u)" by fastforce
    have "xs = fetch m (R + b) (unat n) \<and> regs u = m" using quiet_getN [OF q _ 1] plb l w by simp
    then show ?thesis using False 1 fr l c by simp
  qed
qed

lemma recv_try_ring:
  assumes q: "quiet_chip P regs cur" and k: "k \<in> set Socks"
    and ok: "and (regs w (sbase k + SK_IR)) SK_IR_TOUT = 0" "and (regs w (sbase k + SK_IR)) SK_IR_DISC = 0"
    and n: "n \<le> 2048" and waiting: "n \<le> reg2 (regs w) (sbase k + SK_RX_RSR0)"
  shows "\<exists>w'. WizRecvChunkTry P k n w =
      Some ((OKAY, map (\<lambda>i. regs w (ring_at (rx_ring k) (unat (reg2 (regs w) (sbase k + SK_RX_RD0)) mod 2048) i))
        [0..<unat n]), w') \<and>
    reg2 (regs w') (sbase k + SK_RX_RD0) = reg2 (regs w) (sbase k + SK_RX_RD0) + n \<and>
    (\<forall>x \<ge> 0x4000. regs w' x = regs w x)"
proof -
  note r = Socks_regs [OF k] and R = Socks_rings(3,4) [OF k]
  let ?a = "sbase k + SK_RX_RD0" and ?R = "rx_ring k"
  let ?rd = "reg2 (regs w) ?a" and ?b = "and (reg2 (regs w) ?a) RING_MASK"
  have b: "unat ?b = unat ?rd mod 2048" "unat ?b < 2048" by (simp_all add: unat_RING_MASK)
  have un: "unat n \<le> 2048" using n by (simp add: word_le_nat_alt)
  obtain w1 where 1: "WizCheck P k w = (OKAY, w1)" "regs w1 = regs w" using WizCheck_quiet [OF q k ok] by blast
  obtain w2 where 2: "WizGet2 P (sbase k + SK_RX_RSR0) w1 = (reg2 (regs w1) (sbase k + SK_RX_RSR0), w2)"
      "regs w2 = regs w1" using get2_quiet [OF q r(7,8)] by blast
  obtain w3 where 3: "WizGet2 P ?a w2 = (reg2 (regs w2) ?a, w3)" "regs w3 = regs w2"
    using get2_quiet [OF q r(9,10)] by blast
  let ?xs = "map (\<lambda>i. regs w (ring_at ?R (unat ?rd mod 2048) i)) [0..<unat n]"
  have "\<exists>w4. (if ?b + n \<ge> RING_SIZE then
        (let (xs, w) = WizGetN P (?R + ?b) (RING_SIZE - ?b) w3;
             (ys, w) = WizGetN P ?R (n - (RING_SIZE - ?b)) w in (xs @ ys, w))
      else WizGetN P (?R + ?b) n w3) = (?xs, w4) \<and> regs w4 = regs w"
    by (rule read_ring [OF q R b(2) un]) (use 1 2 3 b in auto)
  then obtain w4 where 4: "(if ?b + n \<ge> RING_SIZE then
        (let (xs, w) = WizGetN P (?R + ?b) (RING_SIZE - ?b) w3;
             (ys, w) = WizGetN P ?R (n - (RING_SIZE - ?b)) w in (xs @ ys, w))
      else WizGetN P (?R + ?b) n w3) = (?xs, w4)" "regs w4 = regs w" by blast
  let ?x = "WizPut2 P ?a (?rd + n) w4"
  obtain w5 where w5: "WizIssueCommand P k SK_CR_RECV ?x = Some w5" "\<forall>a. host_owned a \<longrightarrow> regs w5 a = regs ?x a"
    using quiet_command [OF q r(1)] by blast
  have "reg2 (regs w5) ?a = ?rd + n"
    using w5(2) r(17,18) put_pointer(1) [OF q r(13,14,21,22)] by (metis reg2_def)
  moreover have "regs w5 x = regs w x" if "0x4000 \<le> x" for x
  proof -
    have "host_owned x" using that by (auto simp: host_owned_def word_le_nat_alt)
    then show ?thesis using w5(2) put_pointer(2) [OF q r(13,14,21,22) that] 4(2) by metis
  qed
  moreover have "WizRecvChunkTry P k n w = Some ((OKAY, ?xs), w5)"
    using 1 2 3 4(1) w5(1) waiting
    by (simp add: WizRecvChunkTry_def WizRecvGetBytesWaiting_def Let_def not_less [symmetric] del: not_less
        split: if_splits prod.splits)
  ultimately show ?thesis by blast
qed

section \<open>Properties\<close>

text \<open>
  C9. Sending puts a message into the ring of the socket: with the net quiet, no error
  pending and room for the message (at most the 2048 bytes of the ring), \<^verbatim>\<open>WizSendChunk\<close>
  returns \<^verbatim>\<open>OKAY\<close>; the bytes lie in order from the write pointer on, going round at the
  end of the ring; the write pointer has moved by the length of the message, and no
  other byte of any buffer has changed.
\<close>
theorem WizSendChunk_ring:
  assumes q: "quiet_chip P regs cur" and k: "k \<in> set Socks"
    and ok: "and (regs w (sbase k + SK_IR)) SK_IR_TOUT = 0" "and (regs w (sbase k + SK_IR)) SK_IR_DISC = 0"
    and n: "length bs \<le> 2048" and room: "of_nat (length bs) \<le> reg2 (regs w) (sbase k + SK_TX_FSR0)"
  shows "\<exists>w'. WizSendChunk P k pr bs w = Some (OKAY, w') \<and>
    (\<forall>i < length bs.
      regs w' (ring_at (tx_ring k) (unat (reg2 (regs w) (sbase k + SK_TX_WR0)) mod 2048) i) = bs ! i) \<and>
    (\<forall>x \<ge> 0x4000.
      (\<forall>i < length bs. x \<noteq> ring_at (tx_ring k) (unat (reg2 (regs w) (sbase k + SK_TX_WR0)) mod 2048) i) \<longrightarrow>
      regs w' x = regs w x) \<and>
    reg2 (regs w') (sbase k + SK_TX_WR0) = reg2 (regs w) (sbase k + SK_TX_WR0) + of_nat (length bs)"
proof -
  note r = Socks_regs [OF k]
  let ?a = "sbase k + SK_TX_WR0" and ?T = "tx_ring k"
  let ?p = "and (reg2 (regs w) ?a) RING_MASK"
  have p: "unat ?p = unat (reg2 (regs w) ?a) mod 2048" "unat ?p < 2048" by (simp_all add: unat_RING_MASK)
  obtain w1 where 1: "WizCheck P k w = (OKAY, w1)" "regs w1 = regs w" using WizCheck_quiet [OF q k ok] by blast
  obtain w2 where 2: "WizGet2 P (sbase k + SK_TX_FSR0) w1 = (reg2 (regs w1) (sbase k + SK_TX_FSR0), w2)"
      "regs w2 = regs w1" using get2_quiet [OF q r(3,4)] by blast
  obtain w3 where 3: "WizGet2 P ?a w2 = (reg2 (regs w2) ?a, w3)" "regs w3 = regs w2"
    using get2_quiet [OF q r(5,6)] by blast
  have "reserve_loop P k (of_nat (length bs)) w1 = Some w2"
    using 1 2 room by (subst reserve_loop.simps) (simp add: not_less [symmetric] del: not_less)
  then have res: "WizReserveToSend P k (of_nat (length bs)) w1 = Some (?p, w3)"
    using 1 2 3 by (simp add: WizReserveToSend_def)
  obtain p4 w4 where 4: "WizDataToSend P k ?p bs w3 = (p4, w4)" by fastforce
  have has: "ring_has ?T (unat ?p) bs (regs w) (regs w4)"
    using WizDataToSend_quiet(1) [OF q k p(2) n 4] 1 2 3 by simp
  obtain w5 where 5: "WizFinalizeSend P k pr (of_nat (length bs)) w4 = Some w5"
      "reg2 (regs w5) ?a = reg2 (regs w4) ?a + of_nat (length bs)"
      "\<And>x. 0x4000 \<le> x \<Longrightarrow> regs w5 x = regs w4 x"
    using WizFinalizeSend_quiet [OF q k] by blast
  have low: "regs w4 x = regs w x" if "x < 0x4000" for x
  proof -
    have "x \<noteq> ring_at ?T (unat ?p) i" for i
      using buffer_ring [OF Socks_rings(1,2) [OF k]] that by (metis leD)
    then show ?thesis using has by (simp add: ring_has_def)
  qed
  have "reg2 (regs w4) ?a = reg2 (regs w) ?a" using low r(19,20) by (simp add: reg2_def)
  moreover have "WizSendChunk P k pr bs w = Some (OKAY, w5)"
    using 1 res 4 5 by (simp add: WizSendChunk_def)
  ultimately show ?thesis
    using ring_has_cong [OF has 5(3) Socks_rings(1) [OF k]] Socks_rings(2) [OF k] 5(2) p(1) by simp
qed

definition demo_ring :: ax_mem where
  "demo_ring a =
     (if a = 0x520 then 8 else if a = 0x524 then 7 else if a = 0x525 then 0xFF
      else if a = 0x526 then 8 else if a = 0x528 then 7 else if a = 0x529 then 0xFE
      else if a = 0x6FFE then 65 else if a = 0x6FFF then 66 else if a = 0x6800 then 67 else 0)"

theorem WizSendChunk_ring_witness:
  "\<exists>w'. WizSendChunk ram_port SOCK1 TcpProto [1, 2, 3] (0, demo_ring) = Some (OKAY, w') \<and>
    snd w' 0x4FFF = 1 \<and> snd w' 0x4800 = 2 \<and> snd w' 0x4801 = 3 \<and> reg2 (snd w') 0x524 = 0x802"
proof -
  have k: "SOCK1 \<in> set Socks" "sbase SOCK1 = 0x500" "tx_ring SOCK1 = 0x4800" by (simp_all add: SOCK1_def Socks_def)
  have wr: "reg2 demo_ring 0x524 = 0x7FF" by (simp add: reg2_def demo_ring_def hilo_def)
  obtain w' where w': "WizSendChunk ram_port SOCK1 TcpProto [1, 2, 3] (0, demo_ring) = Some (OKAY, w')"
      "\<forall>i < 3. snd w' (ring_at 0x4800 2047 i) = [1, 2, 3] ! i" "reg2 (snd w') 0x524 = 0x7FF + 3"
    using WizSendChunk_ring [OF ram_port_quiet k(1), of "(0, demo_ring)" "[1, 2, 3]" TcpProto] wr
    by (auto simp: k wiz_regs SK_IR_TOUT_def SK_IR_DISC_def reg2_def demo_ring_def hilo_def)
  then show ?thesis
    using w'(2) [rule_format, of 0] w'(2) [rule_format, of 1] w'(2) [rule_format, of 2]
    by (auto simp: ring_at_def)
qed

text \<open>
  C10. Receiving takes a message out of the ring of the socket: with the net quiet, no
  error pending and at least \<^verbatim>\<open>n\<close> bytes waiting, \<^verbatim>\<open>WizRecvChunkTry\<close> returns the \<^verbatim>\<open>n\<close> bytes from the
  read pointer on, going round at the end of the ring, and moves the read pointer by
  \<^verbatim>\<open>n\<close>; it changes no byte of the buffers.
\<close>
theorem WizRecvChunkTry_ring:
  assumes q: "quiet_chip P regs cur" and k: "k \<in> set Socks"
    and ok: "and (regs w (sbase k + SK_IR)) SK_IR_TOUT = 0" "and (regs w (sbase k + SK_IR)) SK_IR_DISC = 0"
    and n: "n \<le> 2048" and waiting: "n \<le> reg2 (regs w) (sbase k + SK_RX_RSR0)"
  shows "\<exists>w'. WizRecvChunkTry P k n w =
      Some ((OKAY, map (\<lambda>i. regs w (ring_at (rx_ring k) (unat (reg2 (regs w) (sbase k + SK_RX_RD0)) mod 2048) i))
        [0..<unat n]), w') \<and>
    reg2 (regs w') (sbase k + SK_RX_RD0) = reg2 (regs w) (sbase k + SK_RX_RD0) + n \<and>
    (\<forall>x \<ge> 0x4000. regs w' x = regs w x)"
  by (rule recv_try_ring [OF assms])

theorem WizRecvChunkTry_ring_witness:
  "\<exists>w'. WizRecvChunkTry ram_port SOCK1 3 (0, demo_ring) = Some ((OKAY, [65, 66, 67]), w') \<and>
    reg2 (snd w') 0x528 = 0x801"
proof -
  have k: "SOCK1 \<in> set Socks" "sbase SOCK1 = 0x500" "rx_ring SOCK1 = 0x6800" by (simp_all add: SOCK1_def Socks_def)
  have rd: "reg2 demo_ring 0x528 = 0x7FE" by (simp add: reg2_def demo_ring_def hilo_def)
  have "[0..<3::nat] = [0, 1, 2]" by (simp add: upt_rec)
  then have "map (\<lambda>i. demo_ring (ring_at 0x6800 2046 i)) [0..<3] = [65, 66, 67]"
    by (simp add: ring_at_def demo_ring_def)
  then show ?thesis
    using WizRecvChunkTry_ring [OF ram_port_quiet k(1), of "(0, demo_ring)" 3] rd
    by (auto simp: k wiz_regs SK_IR_TOUT_def SK_IR_DISC_def reg2_def demo_ring_def hilo_def)
qed

end
