(* ===== verification/Ax_Dhcp.thy ===== *)
theory Ax_Dhcp
  imports Ax_Boot Ax_Ring
begin

text \<open>
  DHCP in the boot ROM: the options of a reply are read as the sequence of codes, lengths
  and values they are, and what happens with a reply to somebody else's request.
\<close>

section \<open>Options\<close>

definition option_text :: "(byte \<times> byte list) list \<Rightarrow> byte list" where
  "option_text opts = concat (map (\<lambda>(c, v). c # of_nat (length v) # v) opts) @ [255]"

text \<open>What a good option does to the variables.\<close>

definition apply_option :: "byte \<times> byte list \<Rightarrow> ax_vars \<Rightarrow> ax_vars" where
  "apply_option opt vs = (let (c, v) = opt in
     if c = 1 then vs\<lparr>v_ip_mask := take 4 v\<rparr>
     else if c = 3 then vs\<lparr>v_ip_gateway := take 4 v\<rparr>
     else if c = 6 then vs\<lparr>v_ip_resolver := take 4 v\<rparr>
     else vs)"

definition good_option :: "bool \<Rightarrow> byte \<times> byte list \<Rightarrow> bool" where
  "good_option second opt \<longleftrightarrow> (let (c, v) = opt in
     c \<noteq> 255 \<and> length v < 256 \<and> (c \<in> {1, 3, 6} \<longrightarrow> 4 \<le> length v) \<and>
     (c = 53 \<longrightarrow> v \<noteq> [] \<and> hd v = (if second then 5 else 2)))"

lemma mem_view_high: "0x600 \<le> a \<Longrightarrow> mem_view s a = amem s a"
proof -
  assume "0x600 \<le> a"
  then have "unat (a - CASBUF) = unat a - 0x1DA" "0x600 \<le> unat a"
    by (simp_all add: CASBUF_def unat_diff_le word_le_nat_alt)
  then have "\<not> unat (a - CASBUF) < vars_size" by (simp add: vars_size_def)
  then show ?thesis by (simp only: mem_view_def Let_def if_False)
qed

lemma high_offset:
  assumes "0x600 \<le> (a :: word16)" "unat a + i < 65536"
  shows "0x600 \<le> a + of_nat i"
  using assms unat_offset [OF assms(2)] by (simp add: word_le_nat_alt)

lemma fetch_cong: "(\<And>i. i < n \<Longrightarrow> m (a + of_nat i) = m' (a + of_nat i)) \<Longrightarrow> fetch m a n = fetch m' a n"
  by (rule nth_equalityI) (simp_all add: fetch_nth)

lemma fetch_view:
  assumes "0x600 \<le> a" "unat a + n \<le> 65536"
  shows "fetch (mem_view s) a n = fetch (amem s) a n"
proof (rule fetch_cong)
  fix i assume "i < n"
  then have "0x600 \<le> a + of_nat i" using assms by (intro high_offset) auto
  then show "mem_view s (a + of_nat i) = amem s (a + of_nat i)" by (rule mem_view_high)
qed

lemma fetch_take: "k \<le> n \<Longrightarrow> fetch m a k = take k (fetch m a n)"
  by (rule nth_equalityI) (simp_all add: fetch_nth)

lemma fetch_drop: "k \<le> n \<Longrightarrow> fetch m (a + of_nat k) (n - k) = drop k (fetch m a n)"
  by (rule nth_equalityI) (simp_all add: fetch_nth add.assoc)

lemma option_text_Cons: "option_text ((c, v) # r) = c # of_nat (length v) # v @ option_text r"
  by (simp add: option_text_def)

lemma option_text_not_Nil: "0 < length (option_text r)"
  by (simp add: option_text_def)

lemma option_loop_step:
  assumes t: "fetch (amem s) a (length (option_text ((c, v) # r))) = option_text ((c, v) # r)"
    and a: "0x600 \<le> a" and fin: "unat a + length (option_text ((c, v) # r)) \<le> unat fin"
    and good: "good_option second (c, v)"
  defines "u \<equiv> s\<lparr>vars := apply_option (c, v) (vars s)\<rparr>" and "b \<equiv> a + of_nat (2 + length v)"
  shows "option_loop second a fin s = option_loop second b fin u"
    and "fetch (amem u) b (length (option_text r)) = option_text r"
    and "0x600 \<le> b" and "unat b + length (option_text r) \<le> unat fin"
proof -
  let ?n = "length (option_text ((c, v) # r))"
  have n: "?n = 2 + length v + length (option_text r)" by (simp add: option_text_Cons)
  have fl: "unat fin < 65536" by simp
  have at: "amem s (a + of_nat i) = option_text ((c, v) # r) ! i" if "i < ?n" for i
    using arg_cong [OF t, of "\<lambda>l. l ! i"] that by (simp add: fetch_nth)
  have hi: "mem_view s (a + of_nat i) = option_text ((c, v) # r) ! i" if "i < ?n" for i
  proof -
    have "unat a + i < 65536" using that fin fl by linarith
    then show ?thesis using at [OF that] high_offset [OF a] mem_view_high [of "a + of_nat i" s] by simp
  qed
  have o0: "mem_view s a = c" using hi [of 0] n by (simp add: option_text_Cons)
  have o1: "mem_view s (a + 1) = of_nat (length v)" using hi [of 1] n by (simp add: option_text_Cons)
  have o2: "mem_view s (a + 2) = hd v" if "v \<noteq> []"
    using hi [of 2] n that by (cases v) (simp_all add: option_text_Cons)
  have four: "fetch (mem_view s) (a + 2) 4 = take 4 v" if "4 \<le> length v"
  proof (rule nth_equalityI)
    fix i assume "i < length (fetch (mem_view s) (a + 2) 4)"
    then have i: "i < 4" by simp
    have "mem_view s (a + of_nat (i + 2)) = option_text ((c, v) # r) ! (i + 2)"
      by (rule hi) (use i that n in simp)
    moreover have "a + of_nat (i + 2) = a + 2 + of_nat i" by (simp add: algebra_simps)
    moreover have "option_text ((c, v) # r) ! (i + 2) = v ! i"
      using i that by (simp add: option_text_Cons nth_append)
    ultimately show "fetch (mem_view s) (a + 2) 4 ! i = take 4 v ! i"
      using i by (simp only: fetch_nth nth_take)
  qed (use that in simp)
  have len: "length v < 256" using good by (simp add: good_option_def)
  have "(ucast (of_nat (length v) :: byte) :: word16) = of_nat (length v)"
    using len by (simp add: unsigned_ucast_eq word_unat_eq_iff unat_of_nat take_bit_eq_mod)
  then have next1: "a + (2 + ucast (mem_view s (a + 1))) = b" unfolding b_def o1 by simp
  have lt: "a < fin" using fin n by (simp add: word_less_nat_alt)
  show "option_loop second a fin s = option_loop second b fin u"
    using good lt next1 o0 o2 four unfolding u_def
    by (subst option_loop.simps) (auto simp: Let_def apply_option_def good_option_def)
  have ub: "unat b = unat a + (2 + length v)" unfolding b_def using fin n fl by (intro unat_offset) linarith
  then show "unat b + length (option_text r) \<le> unat fin" using fin n by simp
  show "0x600 \<le> b" unfolding b_def using fin n fl by (intro high_offset a) linarith
  have "fetch (amem s) b (?n - (2 + length v)) = drop (2 + length v) (fetch (amem s) a ?n)"
    unfolding b_def by (rule fetch_drop) (simp add: n)
  also have "\<dots> = option_text r" unfolding t by (simp add: option_text_Cons)
  finally show "fetch (amem u) b (length (option_text r)) = option_text r" by (simp add: u_def n)
qed

lemma apply_option_screen [simp]:
  "v_vdg_ptr (apply_option opt vs) = v_vdg_ptr vs" "v_vdg_begin (apply_option opt vs) = v_vdg_begin vs"
  "v_vdg_end (apply_option opt vs) = v_vdg_end vs" "v_ip_addr (apply_option opt vs) = v_ip_addr vs"
  by (auto simp: apply_option_def Let_def split: prod.split)

lemma in_windowD: "in_window s s' \<Longrightarrow> \<exists>p. vars s' = (vars s)\<lparr>v_vdg_ptr := p\<rparr>"
  by (simp add: in_window_def)

lemma in_window_screen: "in_window s s' \<Longrightarrow> screen_ok s'"
  by (simp add: in_window_def)

lemma screen_ok_update:
  assumes "screen_ok s" "v_vdg_ptr v = v_vdg_ptr (vars s)" "v_vdg_begin v = v_vdg_begin (vars s)"
    "v_vdg_end v = v_vdg_end (vars s)"
  shows "screen_ok (s\<lparr>vars := v\<rparr>)"
  using assms by (simp add: screen_ok_def)

lemma PrintF_window:
  assumes "screen_ok s" "printf_text f args = Some t"
  shows "\<exists>s'. PrintF f args s = Some s' \<and> in_window s s'"
  using PutStr_window [OF assms(1), of t] assms(2) by (simp add: PrintF_def)

lemma option_loop_options:
  "\<lbrakk>fetch (amem s) a (length (option_text opts)) = option_text opts; 0x600 \<le> a;
    unat a + length (option_text opts) \<le> unat fin; \<forall>opt \<in> set opts. good_option second opt; screen_ok s\<rbrakk> \<Longrightarrow>
   \<exists>s' p. option_loop second a fin s = Some (OKAY, s') \<and>
     vars s' = (fold apply_option opts (vars s))\<lparr>v_vdg_ptr := p\<rparr>"
proof (induction opts arbitrary: s a)
  case Nil
  have "0 < length (option_text [])" by (rule option_text_not_Nil)
  then have lt: "a < fin" using Nil(3) by (simp only: word_less_nat_alt)
  have "amem s a = 255" using Nil(1) by (simp add: option_text_def)
  then have o0: "mem_view s a = 255" using mem_view_high [OF Nil(2), of s] by simp
  obtain s' where s': "PrintF (cs '' [[ DHCP: %a ]] '') [PAddr (v_ip_addr (vars s))] s = Some s'" "in_window s s'"
    using PrintF_window [OF Nil(5), of "cs '' [[ DHCP: %a ]] ''" "[PAddr (v_ip_addr (vars s))]"] by auto
  have "option_loop second a fin s = Some (OKAY, s')"
    using lt o0 s'(1) by (subst option_loop.simps) (simp add: Let_def)
  then show ?case using in_windowD [OF s'(2)] by simp
next
  case (Cons opt opts)
  obtain c v where opt: "opt = (c, v)" by fastforce
  let ?u = "s\<lparr>vars := apply_option (c, v) (vars s)\<rparr>" and ?b = "a + of_nat (2 + length v)"
  have good: "good_option second (c, v)" using Cons(5) opt by simp
  note step = option_loop_step [OF Cons(2-4) [unfolded opt] good]
  have "screen_ok ?u" by (rule screen_ok_update [OF Cons(6)]) simp_all
  moreover have "\<forall>opt \<in> set opts. good_option second opt" using Cons(5) by simp
  ultimately obtain s' p where "option_loop second ?b fin ?u = Some (OKAY, s')"
      "vars s' = (fold apply_option opts (vars ?u))\<lparr>v_vdg_ptr := p\<rparr>"
    using Cons(1) [OF step(2-4)] by blast
  then show ?case using step(1) opt by (intro exI [of _ s'] exI [of _ p]) simp
qed

section \<open>Properties\<close>

text \<open>
  C17. The options of a DHCP reply: whatever sequence of code, length and value fields lies
  in the packet buffer before the end mark, of any number and order and including unknown
  codes, the loop over them ends, accepts the reply and leaves in \<^verbatim>\<open>ip_mask\<close>, \<^verbatim>\<open>ip_gateway\<close> and
  \<^verbatim>\<open>ip_resolver\<close> the first four bytes of the last mask, router and server option, if there
  was one; no other variable but the cursor changes.
\<close>
theorem dhcp_options_applied:
  assumes "fetch (amem s) a (length (option_text opts)) = option_text opts" "0x600 \<le> a"
    "unat a + length (option_text opts) \<le> unat fin" "\<forall>opt \<in> set opts. good_option second opt" "screen_ok s"
  shows "\<exists>s' p. option_loop second a fin s = Some (OKAY, s') \<and>
     vars s' = (fold apply_option opts (vars s))\<lparr>v_vdg_ptr := p\<rparr>"
  by (rule option_loop_options [OF assms])

definition demo_packet :: "byte list \<Rightarrow> unit axw" where
  "demo_packet bs = \<lparr>vars = vars (clear_vars (\<lambda>_. 0)), amem = store 0x604 bs (\<lambda>_. 0), keys = [], chip = ()\<rparr>"

theorem dhcp_options_applied_witness:
  "\<exists>s'. option_loop False 0x604 0x700 (demo_packet (option_text [(53, [2]), (77, []), (1, [255, 255, 255, 0])])) =
      Some (OKAY, s') \<and> v_ip_mask (vars s') = [255, 255, 255, 0]"
proof -
  let ?o = "[(53, [2]), (77, []), (1, [255, 255, 255, 0])] :: (byte \<times> byte list) list"
  have "screen_ok (demo_packet (option_text ?o))"
    by (simp add: demo_packet_def screen_ok_def clear_vars_def VDG_RAM_def VDG_END_def
        word_le_nat_alt word_less_nat_alt)
  moreover have "fetch (amem (demo_packet (option_text ?o))) 0x604 (length (option_text ?o)) = option_text ?o"
    unfolding demo_packet_def ax.simps by (rule fetch_store) (simp add: option_text_def)
  ultimately obtain s' p where "option_loop False 0x604 0x700 (demo_packet (option_text ?o)) = Some (OKAY, s')"
      "vars s' = (fold apply_option ?o (vars (demo_packet (option_text ?o))))\<lparr>v_vdg_ptr := p\<rparr>"
    using dhcp_options_applied [where s = "demo_packet (option_text ?o)" and a = "0x604" and opts = ?o
        and fin = "0x700" and second = False]
    by (auto simp: good_option_def option_text_def)
  then show ?thesis by (simp add: apply_option_def)
qed

text \<open>The packet buffer and the 2048 bytes that fit through the chip lie above the variables.\<close>

lemma hits_vars_high: "0x600 \<le> a \<Longrightarrow> unat a + n \<le> 65536 \<Longrightarrow> \<not> hits_vars a n"
proof (induction n arbitrary: a)
  case (Suc n)
  have "unat (a - CASBUF) = unat a - 0x1DA" "0x600 \<le> unat a"
    using Suc(2) by (simp_all add: CASBUF_def unat_diff_le word_le_nat_alt)
  then have h: "\<not> unat (a - CASBUF) < vars_size" by (simp add: vars_size_def)
  show ?case
  proof (cases n)
    case 0
    then show ?thesis using h by simp
  next
    case (Suc k)
    then have "unat (a + 1) = unat a + 1" using Suc.prems unat_offset [of a 1] by simp
    then have "\<not> hits_vars (a + 1) n" using Suc.prems by (intro Suc.IH) (simp_all add: word_le_nat_alt)
    then show ?thesis using h by simp
  qed
qed simp

lemma store_before:
  assumes "unat a + length bs \<le> 65536" "i < length bs"
  shows "store a bs m (a + of_nat i) = bs ! i"
  using fetch_store [of bs a m] assms fetch_nth [OF assms(2), of "store a bs m" a] by simp

lemma fetch_store_part:
  assumes "unat a + length bs \<le> 65536" "i + n \<le> length bs"
  shows "fetch (store a bs m) (a + of_nat i) n = take n (drop i bs)"
proof (rule nth_equalityI)
  fix j assume "j < length (fetch (store a bs m) (a + of_nat i) n)"
  then have j: "j < n" by simp
  have "store a bs m (a + of_nat (i + j)) = bs ! (i + j)" using assms j by (intro store_before) auto
  then show "fetch (store a bs m) (a + of_nat i) n ! j = take n (drop i bs) ! j"
    using j assms by (simp add: fetch_nth add.assoc)
qed (use assms in simp)

lemma check_reply_foreign:
  assumes "screen_ok t" "g ! 0 \<noteq> v_transaction_id (vars t) ! 0"
  shows "\<exists>s'. check_reply 4 g t = Some (10, s') \<and> in_window t s'"
proof -
  let ?args = "[PWord 0, PWord (ucast (g ! 0)), PWord (ucast (v_transaction_id (vars t) ! 0))]"
  have four: "(4 :: nat) = Suc 3" by simp
  have "check_reply 4 g t = Option.bind (PrintF (cs '' (xid%x %x vs %x) '') ?args t) (\<lambda>s. Some (10, s))"
    using assms(2) by (subst four, subst check_reply.simps(2)) (simp add: Let_def del: cs_Cons)
  moreover have "printf_text (cs '' (xid%x %x vs %x) '') ?args \<noteq> None" by simp
  ultimately show ?thesis using PrintF_window [OF assms(1)] by fastforce
qed

text \<open>Accesses to the memory chip, computed.\<close>

lemma ram_set_addr: "set_addr ram_port r (a, m) = (r, m)"
  by (simp add: set_addr_def ram_port_def)

lemma ram_get_data: "get_data ram_port n (a, m) = (fetch m a n, (a + of_nat n, m))"
  by (induction n arbitrary: a) (simp_all add: ram_port_def algebra_simps)

lemma ram_gets:
  "WizGet1 ram_port r (a, m) = (m r, (r + 1, m))"
  "WizGet2 ram_port r (a, m) = (reg2 m r, (r + 2, m))"
  "WizGetN ram_port r n (a, m) = (fetch m r (unat n), (r + n, m))"
  by (simp_all add: WizGet1_def WizGet2_def WizGetN_def ram_set_addr ram_get_data reg2_def hilo_sum Let_def)
    (simp_all add: ram_port_def hilo_sum)

lemma ram_puts:
  "WizPut1 ram_port r v (a, m) = (r + 1, m(r := if command_reg r then 0 else v))"
  "\<not> command_reg r \<Longrightarrow> \<not> command_reg (r + 1) \<Longrightarrow>
    WizPut2 ram_port r x (a, m) = (r + 2, m(r := hi x, r + 1 := lo x))"
  by (simp_all add: WizPut1_def WizPut2_def ram_set_addr) (simp_all add: ram_port_def)

text \<open>A chip whose socket 1 has 2048 zero bytes waiting.\<close>

definition zero_chip :: "word16 \<Rightarrow> ax_mem" where
  "zero_chip rd = (\<lambda>_. 0)(0x526 := 8, 0x528 := hi rd, 0x529 := lo rd)"

lemma zero_chip_recv:
  assumes "n \<le> 2048" "unat (and rd RING_MASK) + unat n < 2048"
  shows "\<exists>a. WizRecvChunk ram_port SOCK1 n (b, zero_chip rd) = Some ((OKAY, replicate (unat n) 0), (a, zero_chip (rd + n)))"
proof -
  have k: "sbase SOCK1 = 0x500" "rx_ring SOCK1 = 0x6800" by (simp_all add: SOCK1_def Socks_def)
  let ?b = "and rd RING_MASK"
  have "unat (?b + n) = unat ?b + unat n" using assms(2) by (simp add: unat_word_ariths)
  then have fin: "\<not> RING_SIZE \<le> ?b + n" using assms(2) by (simp add: RING_SIZE_def word_le_nat_alt)
  have z: "fetch (zero_chip rd) (0x6800 + ?b) (unat n) = replicate (unat n) 0"
  proof (rule nth_equalityI)
    fix i assume "i < length (fetch (zero_chip rd) (0x6800 + ?b) (unat n))"
    then have i: "i < unat n" by simp
    have ne: "y \<noteq> c" if "0x6800 \<le> unat y" "unat c < 0x6800" for y c :: word16 using that by auto
    have "unat (0x6800 + of_nat (unat ?b + i) :: word16) = 0x6800 + (unat ?b + i)"
      by (subst unat_offset) (use i assms(2) in simp_all)
    then have g: "0x6800 \<le> unat (0x6800 + ?b + of_nat i)" by (simp add: add.assoc)
    have "0x6800 + ?b + of_nat i \<noteq> 0x526" "0x6800 + ?b + of_nat i \<noteq> 0x528" "0x6800 + ?b + of_nat i \<noteq> 0x529"
      by (rule ne [OF g], simp)+
    then show "fetch (zero_chip rd) (0x6800 + ?b) (unat n) ! i = replicate (unat n) 0 ! i"
      using i by (simp add: fetch_nth zero_chip_def)
  qed simp
  have rsr: "reg2 (zero_chip rd) 0x526 = 0x800" "reg2 (zero_chip rd) 0x528 = rd" "zero_chip rd 0x502 = 0"
    "zero_chip rd 0x501 = 0" for rd by (simp_all add: reg2_def zero_chip_def hilo_def hilo_hi_lo [unfolded hilo_def])
  have upd: "(zero_chip rd)(0x528 := hi (rd + n), 0x529 := lo (rd + n)) = zero_chip (rd + n)"
    by (auto simp: zero_chip_def)
  have cmd: "(zero_chip rd)(0x501 := 0) = zero_chip rd" for rd by (auto simp: zero_chip_def)
  have "\<exists>a. WizRecvChunkTry ram_port SOCK1 n (b, zero_chip rd) =
      Some ((OKAY, replicate (unat n) 0), (a, zero_chip (rd + n)))"
    using assms(1) fin z rsr upd cmd
    by (simp add: WizRecvChunkTry_def WizRecvGetBytesWaiting_def WizCheck_def WizIssueCommand_def k wiz_regs
        ram_gets ram_puts command_reg_def OKAY_def Let_def not_less [symmetric] del: not_less)
      (subst cr_loop.simps, simp add: k wiz_regs ram_gets rsr)
  then show ?thesis by (subst WizRecvChunk.simps) (auto simp: OKAY_def NOTYET_def)
qed

text \<open>
  C34. A reply to somebody else's request changes our address: when two well-formed parts of
  a DHCP reply come in whose transaction id differs in its first byte, \<^verbatim>\<open>RecvDhcpReply\<close>
  returns 10 as it should, but \<^verbatim>\<open>ip_addr\<close> has already been overwritten with the address
  the reply offers; \<^verbatim>\<open>DhcpPhaseTwo\<close> then asks for that address.
\<close>
theorem foreign_reply_takes_address:
  assumes one: "WizRecvChunk (WIZ H s) k 236 (chip s) = Some ((OKAY, header), w1)" "length header = 236"
    and two: "WizRecvChunk (WIZ H s) k (plen - 236) w1 = Some ((OKAY, opts), w2)" "length opts \<le> 2048"
    and xid: "header ! 4 \<noteq> v_transaction_id (vars s) ! 0" and ok: "screen_ok s"
  shows "\<exists>s'. RecvDhcpReply H k plen second s = Some (10, s') \<and> v_ip_addr (vars s') = take 4 (drop 16 header)"
proof -
  let ?s1 = "s\<lparr>chip := w1, amem := store PACKET_BUF header (amem s)\<rparr>"
  let ?s2 = "?s1\<lparr>vars := (vars s)\<lparr>v_ip_addr := take 4 (drop 16 header)\<rparr>\<rparr>"
  let ?s3 = "?s2\<lparr>chip := w2, amem := store PACKET_BUF opts (amem ?s2)\<rparr>"
  have pb: "PACKET_BUF = 0x600" "unat PACKET_BUF = 0x600" by (simp_all add: PACKET_BUF_def)
  have "\<not> hits_vars PACKET_BUF (length header)" "\<not> hits_vars PACKET_BUF (length opts)"
    using one(2) two(2) hits_vars_high [of PACKET_BUF] by (simp_all add: pb)
  then have r1: "recv_to H k PACKET_BUF 236 s = Some (OKAY, ?s1)"
    and r2: "recv_to H k PACKET_BUF (plen - 236) ?s2 = Some (OKAY, ?s3)"
    using one(1) two(1) by (simp_all add: recv_to_def poke_bytes_def WIZ_def)
  have ip: "fetch (amem ?s1) (PACKET_BUF + 16) 4 = take 4 (drop 16 header)"
    using fetch_store_part [of PACKET_BUF header 16 4 "amem s"] one(2) pb by simp
  have "fetch (amem ?s1) (PACKET_BUF + 4) 4 = take 4 (drop 4 header)"
    using fetch_store_part [of PACKET_BUF header 4 4 "amem s"] one(2) pb by simp
  then have x: "fetch (amem ?s1) (PACKET_BUF + 4) 4 ! 0 = header ! 4" using one(2) by (simp)
  have "screen_ok ?s3" using ok by (simp add: screen_ok_def)
  moreover have "fetch (amem ?s1) (PACKET_BUF + 4) 4 ! 0 \<noteq> v_transaction_id (vars ?s3) ! 0" using x xid by simp
  ultimately have "\<exists>s'. check_reply 4 (fetch (amem ?s1) (PACKET_BUF + 4) 4) ?s3 = Some (10, s') \<and> in_window ?s3 s'"
    by (rule check_reply_foreign)
  then obtain s' where s': "check_reply 4 (fetch (amem ?s1) (PACKET_BUF + 4) 4) ?s3 = Some (10, s')" "in_window ?s3 s'"
    by blast
  have "v_ip_addr (vars s') = take 4 (drop 16 header)" using in_windowD [OF s'(2)] by auto
  moreover have "RecvDhcpReply H k plen second s = Some (10, s')"
    using r1 r2 s'(1) ip by (simp add: RecvDhcpReply_def Let_def OKAY_def)
  ultimately show ?thesis by blast
qed

definition demo_board :: "(word16 \<times> ax_mem) board" where
  "demo_board = \<lparr>ports = (\<lambda>_. ram_port), is_6309 = False, is_gomar = False, jsr = (\<lambda>_ _. None)\<rparr>"

definition demo_dhcp :: "(word16 \<times> ax_mem) axw" where
  "demo_dhcp = \<lparr>vars = (vars (clear_vars (\<lambda>_. 0)))\<lparr>v_transaction_id := [1, 0, 0, 0], v_ip_addr := [9, 9, 9, 9]\<rparr>,
     amem = (\<lambda>_. 0), keys = [], chip = (0, zero_chip 0)\<rparr>"

theorem foreign_reply_takes_address_witness:
  "\<exists>s'. RecvDhcpReply demo_board SOCK1 240 True demo_dhcp = Some (10, s') \<and>
    v_ip_addr (vars demo_dhcp) = [9, 9, 9, 9] \<and> v_ip_addr (vars s') = [0, 0, 0, 0]"
proof -
  have W: "WIZ demo_board demo_dhcp = ram_port" "chip demo_dhcp = (0, zero_chip 0)"
    by (simp_all add: WIZ_def demo_board_def demo_dhcp_def)
  have mask: "unat (and (0 :: word16) RING_MASK) = 0" "unat (and (236 :: word16) RING_MASK) = 236"
    by (simp_all only: unat_RING_MASK) simp_all
  obtain a where one: "WizRecvChunk ram_port SOCK1 236 (0, zero_chip 0) = Some ((OKAY, replicate 236 0), (a, zero_chip 236))"
    using zero_chip_recv [of 236 0 0] mask(1) by auto
  obtain b where two: "WizRecvChunk ram_port SOCK1 (240 - 236) (a, zero_chip 236) = Some ((OKAY, replicate 4 0), (b, zero_chip 240))"
    using zero_chip_recv [of 4 236 a] mask(2) by auto
  have "screen_ok demo_dhcp"
    by (simp add: demo_dhcp_def screen_ok_def clear_vars_def VDG_RAM_def VDG_END_def word_le_nat_alt word_less_nat_alt)
  then obtain s' where "RecvDhcpReply demo_board SOCK1 240 True demo_dhcp = Some (10, s')"
      "v_ip_addr (vars s') = take 4 (drop 16 (replicate 236 0))"
    using foreign_reply_takes_address [of demo_board demo_dhcp SOCK1 "replicate 236 0" "(a, zero_chip 236)" 240
        "replicate 4 0" "(b, zero_chip 240)" True] one two W
    by (auto simp: demo_dhcp_def)
  moreover have "take 4 (drop 16 (replicate 236 (0 :: byte))) = [0, 0, 0, 0]"
    by (simp add: numeral_eq_Suc)
  ultimately show ?thesis by (simp add: demo_dhcp_def)
qed

end
