(* ===== verification/Net_Dns.thy ===== *)
theory Net_Dns
  imports Frob_Prelude
begin

text \<open>
  The DNS client \<^verbatim>\<open>net-cmds/f-dig.c\<close> (CMOC): the request it builds and the printing of the
  reply.  The packet is the global array of 1550 bytes, a pointer into it an offset; an
  access outside of it, a failed \<^verbatim>\<open>Assert\<close> and \<^verbatim>\<open>LogFatal\<close> are \<^verbatim>\<open>None\<close>.  The output is the
  list of calls of \<^verbatim>\<open>putchar\<close> and \<^verbatim>\<open>printf\<close> of the compiler's library.
\<close>

section \<open>The packet\<close>

definition PACKET_SIZE :: nat where "PACKET_SIZE = 1550"

definition get1 :: "byte list \<Rightarrow> nat \<Rightarrow> byte option" where
  "get1 pk i = (if i < length pk then Some (pk ! i) else None)"

definition get2 :: "byte list \<Rightarrow> nat \<Rightarrow> word16 option" where
  "get2 pk i = do { h \<leftarrow> get1 pk i; l \<leftarrow> get1 pk (i + 1); Some (hilo h l) }"

definition get4 :: "byte list \<Rightarrow> nat \<Rightarrow> quad option" where
  "get4 pk i = do { h \<leftarrow> get2 pk i; l \<leftarrow> get2 pk (i + 2); Some (push_bit 16 (ucast h) OR ucast l) }"

definition put1 :: "byte list \<Rightarrow> nat \<Rightarrow> byte \<Rightarrow> byte list option" where
  "put1 pk i b = (if i < length pk then Some (pk[i := b]) else None)"

definition put2 :: "byte list \<Rightarrow> nat \<Rightarrow> word16 \<Rightarrow> byte list option" where
  "put2 pk i w = do { pk \<leftarrow> put1 pk i (hi w); put1 pk (i + 1) (lo w) }"

section \<open>The request\<close>

text \<open>
  The first test of \<^verbatim>\<open>encode_name\<close> for a trailing dot looks at the output \<^verbatim>\<open>p\<close>, not at the
  input; the result is the packet and the offset behind the name.
\<close>

function encode_loop :: "byte list \<Rightarrow> nat \<Rightarrow> nat \<Rightarrow> cstr \<Rightarrow> (byte list \<times> nat) option" where
  "encode_loop pk sizep p s =
     (if s = [] \<or> hd s = ch CHR ''.'' then do {
        p0 \<leftarrow> get1 pk p;
        skip \<leftarrow> (if p0 = ch CHR ''.'' then map_option (\<lambda>p1. p1 = 0) (get1 pk (p + 1)) else Some False);
        if skip \<and> s = [] then None
        else
          let s1 = (if skip then tl s else s); len = p - sizep - 1 in
          if \<not> len < 64 then None
          else do {
            pk \<leftarrow> put1 pk sizep (of_nat len);
            let s2 = (if s1 \<noteq> [] then tl s1 else s1) in
            if s2 = [] then do { pk \<leftarrow> put1 pk p 0; Some (pk, p + 1) }
            else encode_loop pk p (p + 1) s2 } }
      else do {
        pk \<leftarrow> put1 pk p (hd s);
        encode_loop pk sizep (p + 1) (tl s) })"
  by auto
termination
  by (relation "measure (\<lambda>(_, _, _, s). length s)") (auto simp: neq_Nil_conv split: if_splits)

declare encode_loop.simps [simp del]

definition encode_name :: "byte list \<Rightarrow> nat \<Rightarrow> cstr \<Rightarrow> (byte list \<times> nat) option" where
  "encode_name pk buf s = encode_loop pk buf (buf + 1) s"

definition HEADER_SIZE :: nat where "HEADER_SIZE = 12"
definition QR_OPCODE_QUERY :: byte where "QR_OPCODE_QUERY = 0x01"

text \<open>The packet of a request and its size; it starts as zeros.\<close>

definition build_request :: "word16 \<Rightarrow> cstr \<Rightarrow> word16 \<Rightarrow> byte list \<Rightarrow> (byte list \<times> nat) option" where
  "build_request ticks query type pk =
     (if \<not> (0 < length query \<and> length query < 256) then None
      else do {
        pk \<leftarrow> put2 pk 0 ticks;
        pk \<leftarrow> put1 pk 2 QR_OPCODE_QUERY;
        pk \<leftarrow> put2 pk 4 1;
        (pk, p) \<leftarrow> encode_name pk HEADER_SIZE query;
        pk \<leftarrow> put2 pk p type;
        pk \<leftarrow> put2 pk (p + 2) 1;
        Some (pk, p + 4) })"

section \<open>Printing the reply\<close>

datatype dns_out = PutC byte | Fmt cstr "int list"

definition name_char :: "byte \<Rightarrow> dns_out" where
  "name_char c =
     (if c = ch CHR ''-'' \<or> urange CHR ''/'' CHR ''z'' c then PutC c
      else Fmt ([92] @ cs ''x%02x'') [uint c])"

text \<open>At most 63 fields; the offset behind the name is that of the last pointer followed.\<close>

fun name_loop :: "nat \<Rightarrow> byte list \<Rightarrow> nat \<Rightarrow> nat option \<Rightarrow> (dns_out list \<times> nat) option" where
  "name_loop 0 pk p override_result = None"
| "name_loop (Suc patience) pk p override_result = do {
     first \<leftarrow> get1 pk p;
     if first = 0 then
       Some ([], case override_result of Some q \<Rightarrow> q | None \<Rightarrow> p + 1)
     else if first < 64 then do {
       bs \<leftarrow> sub_bytes pk (p + 1) (unat first);
       (out, q) \<leftarrow> name_loop patience pk (p + 1 + unat first) override_result;
       Some (map name_char bs @ PutC (ch CHR ''.'') # out, q) }
     else if first \<ge> 192 then do {
       l \<leftarrow> get1 pk (p + 1);
       name_loop patience pk (unat (push_bit 8 (ucast (first - 192)) + ucast l :: word16)) (Some (p + 2)) }
     else None }"

definition print_name :: "byte list \<Rightarrow> nat \<Rightarrow> (dns_out list \<times> nat) option" where
  "print_name pk p = name_loop 63 pk p None"

definition print_dns_cls_name :: "word16 \<Rightarrow> dns_out" where
  "print_dns_cls_name cls = (if cls = 1 then Fmt (cs '' IN '') [] else Fmt (cs '' %d '') [sint cls])"

definition print_dns_type_name :: "word16 \<Rightarrow> dns_out" where
  "print_dns_type_name t =
     (if t = 1 then Fmt (cs '' A '') []
      else if t = 2 then Fmt (cs '' NS '') []
      else if t = 5 then Fmt (cs '' CNAME '') []
      else if t = 6 then Fmt (cs '' SOA '') []
      else if t = 12 then Fmt (cs '' PTR '') []
      else if t = 15 then Fmt (cs '' MX '') []
      else if t = 16 then Fmt (cs '' TXT '') []
      else if t = 28 then Fmt (cs '' AAAA '') []
      else Fmt (cs '' %d '') [sint t])"

fun joined_bytes :: "dns_out \<Rightarrow> cstr \<Rightarrow> byte list \<Rightarrow> dns_out list" where
  "joined_bytes sep f [] = []"
| "joined_bytes sep f [b] = [Fmt f [uint b]]"
| "joined_bytes sep f (b # bs) = Fmt f [uint b] # sep # joined_bytes sep f bs"

text \<open>The characters of a TXT record: from 1 on, below the length in the first byte.\<close>

fun txt_loop :: "nat \<Rightarrow> byte list \<Rightarrow> nat \<Rightarrow> nat \<Rightarrow> word16 \<Rightarrow> dns_out list option" where
  "txt_loop 0 pk p i len = Some []"
| "txt_loop (Suc n) pk p i len =
     (if i < unat len then do {
        p0 \<leftarrow> get1 pk p;
        if i < unat p0 \<and> i < 100 then do {
          c \<leftarrow> get1 pk (p + i);
          out \<leftarrow> txt_loop n pk p (i + 1) len;
          Some ((if 32 \<le> c \<and> c < 127 \<and> c \<noteq> 34 then PutC c else Fmt ([92] @ cs ''x%02x'') [uint c]) # out) }
        else Some [] }
      else Some [])"

definition print_rdata :: "byte list \<Rightarrow> nat \<Rightarrow> word16 \<Rightarrow> word16 \<Rightarrow> word16 \<Rightarrow> dns_out list option" where
  "print_rdata pk p cls type len =
     (if cls = 1 \<and> type = 1 then map_option (joined_bytes (PutC (ch CHR ''.'')) (cs ''%d'')) (sub_bytes pk p (unat len))
      else if cls = 1 \<and> type = 28 then
        map_option (joined_bytes (PutC (ch CHR '':'')) (cs ''%02x'')) (sub_bytes pk p (unat len))
      else if cls = 1 \<and> (type = 2 \<or> type = 5 \<or> type = 12) then map_option fst (print_name pk p)
      else if cls = 1 \<and> type = 15 then do {
        pref \<leftarrow> get2 pk p;
        (out, _) \<leftarrow> print_name pk (p + 2);
        Some (Fmt (cs '' %u '') [uint pref] # out) }
      else if cls = 1 \<and> type = 6 then do {
        (out1, s) \<leftarrow> print_name pk p;
        (out2, s) \<leftarrow> print_name pk s;
        q0 \<leftarrow> get4 pk s; q1 \<leftarrow> get4 pk (s + 4); q2 \<leftarrow> get4 pk (s + 8); q3 \<leftarrow> get4 pk (s + 12);
        Some (out1 @ Fmt (cs ''  '') [] # out2 @
          [Fmt (cs ''  %ld  %ld  %ld  %ld'') [sint q0, sint q1, sint q2, sint q3]]) }
      else if cls = 1 \<and> (type = 16 \<or> type = 10) then do {
        out \<leftarrow> txt_loop 100 pk p 1 len;
        Some (PutC 34 # out @ [PutC 34]) }
      else do {
        bs \<leftarrow> sub_bytes pk p (min (unat len) 40);
        Some (Fmt (cs '' (len=%d) '') [sint len] # map (\<lambda>b. Fmt (cs ''%02x '') [uint b]) bs @
          map (\<lambda>c. Fmt (cs ''%c'') [if 32 \<le> c \<and> c < 127 then uint c else 126]) bs) })"

text \<open>The inner \<^verbatim>\<open>None\<close> is \<^verbatim>\<open>exit(0)\<close>, after a message, for a name that is neither label nor pointer.\<close>

definition print_record_dns :: "byte list \<Rightarrow> nat \<Rightarrow> bool \<Rightarrow> (dns_out list \<times> nat option) option" where
  "print_record_dns pk p is_question = do {
     b \<leftarrow> get1 pk p;
     if 64 \<le> b \<and> b < 192 then Some ([Fmt (cs ''... dns extensions?'' @ [10]) []], None)
     else do {
       (name, p) \<leftarrow> print_name pk p;
       type \<leftarrow> get2 pk p;
       cls \<leftarrow> get2 pk (p + 2);
       if is_question then
         Some (name @ [print_dns_cls_name cls, print_dns_type_name type, Fmt [10] []], Some (p + 4))
       else do {
         ttl \<leftarrow> get4 pk (p + 4);
         len \<leftarrow> get2 pk (p + 8);
         let p = p + 10 in do {
         rd \<leftarrow> print_rdata pk p cls type len;
         Some (name @ Fmt (cs '' %8ld '') [sint ttl] # print_dns_cls_name cls # print_dns_type_name type #
           rd @ [Fmt [10] []], Some (p + unat len)) } } } }"

fun print_records :: "nat \<Rightarrow> byte list \<Rightarrow> nat \<Rightarrow> bool \<Rightarrow> (dns_out list \<times> nat option) option" where
  "print_records 0 pk p is_question = Some ([], Some p)"
| "print_records (Suc n) pk p is_question = do {
     (out, q) \<leftarrow> print_record_dns pk p is_question;
     case q of
       None \<Rightarrow> Some (out, None)
     | Some p \<Rightarrow> do {
         (out', q) \<leftarrow> print_records n pk p is_question;
         Some (out @ out', q) } }"

text \<open>One section of the reply, with its title if it is not empty.\<close>

definition print_section :: "byte list \<Rightarrow> cstr \<Rightarrow> nat \<Rightarrow> bool \<Rightarrow> nat option \<Rightarrow> (dns_out list \<times> nat option) option" where
  "print_section pk title i is_question q =
     (case q of
        None \<Rightarrow> Some ([], None)
      | Some p \<Rightarrow> do {
          n \<leftarrow> get2 pk i;
          (out, q) \<leftarrow> print_records (unat n) pk p is_question;
          Some (if 0 < n then Fmt (cs '';; '' @ title @ cs '':'' @ [10]) [] # out else out, q) })"

definition show_reply :: "byte list \<Rightarrow> dns_out list option" where
  "show_reply pk = do {
     qid \<leftarrow> get2 pk 0; op \<leftarrow> get1 pk 2; rc \<leftarrow> get1 pk 3;
     qd \<leftarrow> get2 pk 4; an \<leftarrow> get2 pk 6; ns \<leftarrow> get2 pk 8; ar \<leftarrow> get2 pk 10;
     (o1, q) \<leftarrow> print_section pk (cs ''QUESTION'') 4 True (Some HEADER_SIZE);
     (o2, q) \<leftarrow> print_section pk (cs ''ANSWER'') 6 False q;
     (o3, q) \<leftarrow> print_section pk (cs ''AUTHORITY'') 8 False q;
     (o4, q) \<leftarrow> print_section pk (cs ''ADDITIONAL'') 10 False q;
     Some (Fmt (cs '';; id %x qr_opcode %x rcode %x'' @ [10]) [uint qid, uint op, uint rc] #
       (if qd = 0 then [Fmt (cs '';; %x questions, %x answers, %x authorities, %x additionals'' @ [10])
          [uint qd, uint an, uint ns, uint ar]] else []) @ o1 @ o2 @ o3 @ o4) }"

section \<open>Names as labels\<close>

text \<open>The text of a name, its encoding as labels, and what is printed of it.\<close>

fun name_text :: "cstr list \<Rightarrow> cstr" where
  "name_text [] = []"
| "name_text [l] = l"
| "name_text (l # ls) = l @ ch CHR ''.'' # name_text ls"

definition name_labels :: "cstr list \<Rightarrow> byte list" where
  "name_labels ls = concat (map (\<lambda>l. of_nat (length l) # l) ls)"

definition name_wire :: "cstr list \<Rightarrow> byte list" where
  "name_wire ls = name_labels ls @ [0]"

definition name_printed :: "cstr list \<Rightarrow> dns_out list" where
  "name_printed ls = concat (map (\<lambda>l. map name_char l @ [PutC (ch CHR ''.'')]) ls)"

definition label_ok :: "cstr \<Rightarrow> bool" where
  "label_ok l \<longleftrightarrow> l \<noteq> [] \<and> length l < 64 \<and> ch CHR ''.'' \<notin> set l"

text \<open>The bytes \<^verbatim>\<open>bs\<close> lie in the packet from offset \<^verbatim>\<open>p\<close> on.\<close>

fun lies :: "byte list \<Rightarrow> nat \<Rightarrow> byte list \<Rightarrow> bool" where
  "lies pk p [] \<longleftrightarrow> p \<le> length pk"
| "lies pk p (b # bs) \<longleftrightarrow> get1 pk p = Some b \<and> lies pk (p + 1) bs"

lemma name_parts [simp]:
  "name_labels [] = []" "name_labels (l # ls) = of_nat (length l) # l @ name_labels ls"
  "name_printed [] = []" "name_printed (l # ls) = map name_char l @ PutC (ch CHR ''.'') # name_printed ls"
  by (simp_all add: name_labels_def name_printed_def)

lemma name_printed_append: "name_printed (ls @ ms) = name_printed ls @ name_printed ms"
  by (simp add: name_printed_def)

lemma lies_append: "lies pk p (xs @ ys) \<longleftrightarrow> lies pk p xs \<and> lies pk (p + length xs) ys"
proof (induction xs arbitrary: p)
  case Nil
  have "lies pk p ys \<Longrightarrow> p \<le> length pk"
    by (cases ys) (auto simp: get1_def split: if_splits)
  then show ?case by auto
qed (simp add: add.assoc)

lemma lies_here: "lies (pre @ bs @ post) (length pre) bs"
proof (induction bs arbitrary: pre)
  case (Cons b bs)
  from Cons.IH [of "pre @ [b]"] show ?case by (simp add: get1_def nth_append)
qed simp

lemma lies_slice: "lies pk p bs \<Longrightarrow> sub_bytes pk p (length bs) = Some bs"
proof (induction bs arbitrary: p)
  case (Cons b bs)
  then have "p < length pk" "pk ! p = b" by (auto simp: get1_def split: if_splits)
  then have d: "drop p pk = b # drop (Suc p) pk" by (metis Cons_nth_drop_Suc)
  from Cons.IH [of "Suc p"] Cons.prems have "Suc (p + length bs) \<le> length pk" "take (length bs) (drop (Suc p) pk) = bs"
    by (auto simp: sub_bytes_def split: if_splits)
  with d show ?case by (simp add: sub_bytes_def)
qed (simp add: sub_bytes_def)

lemma label_size:
  assumes "label_ok l"
  shows "unat (of_nat (length l) :: byte) = length l" "(of_nat (length l) :: byte) \<noteq> 0"
    "(of_nat (length l) :: byte) < 64"
proof -
  have b: "length l < 64" "0 < length l" using assms by (auto simp: label_ok_def)
  then show u: "unat (of_nat (length l) :: byte) = length l"
    by (simp add: unat_of_nat)
  then show "(of_nat (length l) :: byte) \<noteq> 0" using b by (metis less_numeral_extra(3) unat_0)
  show "(of_nat (length l) :: byte) < 64" using u b by (simp add: word_less_nat_alt)
qed

section \<open>Encoding\<close>

lemma encode_label:
  assumes "ch CHR ''.'' \<notin> set l"
  shows "encode_loop (pre @ z # don @ replicate (length l + k) 0) (length pre) (length pre + 1 + length don) (l @ s) =
    encode_loop (pre @ z # (don @ l) @ replicate k 0) (length pre) (length pre + 1 + length (don @ l)) s"
  using assms
proof (induction l arbitrary: don)
  case (Cons c l)
  have "encode_loop (pre @ z # don @ replicate (length (c # l) + k) 0) (length pre) (length pre + 1 + length don) ((c # l) @ s)
    = encode_loop (pre @ z # (don @ [c]) @ replicate (length l + k) 0) (length pre) (length pre + 1 + length (don @ [c])) (l @ s)"
    using Cons.prems
    by (subst encode_loop.simps) (simp add: put1_def nth_append list_update_append)
  with Cons.IH [of "don @ [c]"] Cons.prems show ?case by simp
qed simp

lemma encode_dot:
  assumes "length l < 64" "s \<noteq> []"
  shows "encode_loop (pre @ z # l @ replicate (Suc k) 0) (length pre) (length pre + 1 + length l) (ch CHR ''.'' # s) =
    encode_loop ((pre @ of_nat (length l) # l) @ 0 # [] @ replicate k 0) (length (pre @ of_nat (length l) # l))
      (length (pre @ of_nat (length l) # l) + 1 + length []) s"
  using assms
  by (subst encode_loop.simps) (simp add: put1_def get1_def nth_append list_update_append Let_def)

lemma encode_end:
  assumes "length l < 64" "s = [] \<or> s = [ch CHR ''.'']"
  shows "encode_loop (pre @ z # l @ replicate (Suc k) 0) (length pre) (length pre + 1 + length l) s =
    Some (pre @ of_nat (length l) # l @ 0 # replicate k 0, length pre + length l + 2)"
  using assms
  by (subst encode_loop.simps) (auto simp: put1_def get1_def nth_append list_update_append Let_def)

lemma encode_name_wire:
  assumes "ls \<noteq> []" "\<forall>l \<in> set ls. label_ok l" "t = [] \<or> t = [ch CHR ''.'']"
  shows "encode_name (pre @ replicate (length (name_wire ls) + k) 0) (length pre) (name_text ls @ t) =
    Some (pre @ name_wire ls @ replicate k 0, length pre + length (name_wire ls))"
  using assms
proof (induction ls arbitrary: pre rule: name_text.induct)
  case (2 l)
  then have l: "ch CHR ''.'' \<notin> set l" "length l < 64" by (auto simp: label_ok_def)
  show ?case
    using encode_label [OF l(1), of pre 0 "[]" "Suc k" t] encode_end [OF l(2) "2.prems"(3), of pre 0 k]
    by (simp add: encode_name_def name_wire_def)
next
  case (3 l m ls)
  then have l: "ch CHR ''.'' \<notin> set l" "length l < 64" "label_ok m" by (auto simp: label_ok_def)
  let ?s = "name_text (m # ls) @ t" and ?k = "length (name_wire (m # ls)) + k"
  have ne: "?s \<noteq> []" using l(3) by (cases ls) (auto simp: label_ok_def)
  have r: "replicate (length (name_wire (l # m # ls)) + k) 0 = (0 :: byte) # [] @ replicate (length l + ?k) 0"
    by (simp add: name_wire_def flip: replicate_Suc)
  have "encode_name (pre @ replicate (length (name_wire (l # m # ls)) + k) 0) (length pre) (name_text (l # m # ls) @ t)
      = encode_loop (pre @ 0 # l @ replicate ?k 0) (length pre) (length pre + 1 + length l) (ch CHR ''.'' # ?s)"
    using encode_label [OF l(1), of pre 0 "[]" ?k "ch CHR ''.'' # ?s"]
    unfolding encode_name_def r by simp
  also have "\<dots> = encode_name ((pre @ of_nat (length l) # l) @ replicate ?k 0) (length (pre @ of_nat (length l) # l)) ?s"
    using encode_dot [OF l(2) ne, of pre 0 "?k - 1"] by (simp add: encode_name_def name_wire_def)
  also have "\<dots> = Some ((pre @ of_nat (length l) # l) @ name_wire (m # ls) @ replicate k 0,
      length (pre @ of_nat (length l) # l) + length (name_wire (m # ls)))"
    by (rule "3.IH") (use "3.prems" in simp_all)
  finally show ?case by (simp add: name_wire_def)
qed simp

section \<open>Printing names\<close>

lemma name_loop_labels:
  assumes "lies pk p (name_labels ls)" "\<forall>l \<in> set ls. label_ok l"
  shows "name_loop (length ls + n) pk p v =
    map_option (\<lambda>(out, q). (name_printed ls @ out, q)) (name_loop n pk (p + length (name_labels ls)) v)"
  using assms
proof (induction ls arbitrary: p)
  case Nil
  show ?case by (simp add: option.map_ident map_option_case split: option.split)
next
  case (Cons l ls)
  then have l: "label_ok l" and g: "get1 pk p = Some (of_nat (length l))"
    and r: "lies pk (p + 1) l" "lies pk (p + 1 + length l) (name_labels ls)"
    by (auto simp: lies_append)
  have ls: "\<forall>l \<in> set ls. label_ok l" using Cons.prems(2) by simp
  have sl: "sub_bytes pk (p + 1) (unat (of_nat (length l) :: byte)) = Some l"
    using lies_slice [OF r(1)] label_size [OF l] by simp
  have "name_loop (length (l # ls) + n) pk p v =
      map_option (\<lambda>(out, q). (map name_char l @ PutC (ch CHR ''.'') # out, q))
        (name_loop (length ls + n) pk (p + 1 + length l) v)"
    using g sl label_size [OF l] by (simp add: map_option_case split: option.split)
  also have "\<dots> = map_option (\<lambda>(out, q). (name_printed (l # ls) @ out, q))
      (name_loop n pk (p + 1 + length l + length (name_labels ls)) v)"
    unfolding Cons.IH [OF r(2) ls] by (simp add: option.map_comp o_def case_prod_unfold)
  finally show ?case by (simp add: add.assoc)
qed

text \<open>A name in a packet: runs of labels, all but the last ended by a compression pointer.\<close>

fun name_at :: "byte list \<Rightarrow> nat \<Rightarrow> (cstr list \<times> word16) list \<Rightarrow> cstr list \<Rightarrow> bool" where
  "name_at pk p [] ls \<longleftrightarrow> lies pk p (name_wire ls)"
| "name_at pk p ((ms, t) # run) ls \<longleftrightarrow>
     lies pk p (name_labels ms @ [hi t + 192, lo t]) \<and> t < 0x4000 \<and> name_at pk (unat t) run ls"

definition all_labels :: "(cstr list \<times> word16) list \<Rightarrow> cstr list \<Rightarrow> cstr list" where
  "all_labels run ls = concat (map fst run) @ ls"

text \<open>Where the code takes the name to end: behind the last pointer, or behind the final zero.\<close>

fun code_end :: "nat \<Rightarrow> (cstr list \<times> word16) list \<Rightarrow> cstr list \<Rightarrow> nat" where
  "code_end p [] ls = p + length (name_wire ls)"
| "code_end p [(ms, t)] ls = p + length (name_labels ms) + 2"
| "code_end p ((ms, t) # run) ls = code_end (unat t) run ls"

lemma pointer_word:
  assumes "t < 0x4000"
  shows "192 \<le> hi t + 192" "push_bit 8 (ucast (hi t)) + ucast (lo t) = t"
    "hi t + 192 \<noteq> 0" "\<not> hi t + 192 < 64"
proof -
  have "unat (hi t) = take_bit 8 (drop_bit 8 (unat t))"
    unfolding hi_def by (simp only: unsigned_ucast_eq unat_drop_bit_eq) simp
  then have "unat (hi t) = unat t div 256"
    using unat_word16_lt [of t] by (simp add: take_bit_eq_mod drop_bit_eq_div)
  then have h: "unat (hi t) < 64" using assms by (simp add: word_less_nat_alt)
  then have u: "unat (hi t + 192) = unat (hi t) + 192" by (simp add: unat_word_ariths)
  then show "192 \<le> hi t + 192" "hi t + 192 \<noteq> 0" "\<not> hi t + 192 < 64"
    by (auto simp: word_le_nat_alt word_less_nat_alt)
  have "push_bit 8 (ucast (hi t)) + ucast (lo t) = hilo (hi t) (lo t)"
    unfolding hilo_def by (rule disjunctive_add) (auto simp: bit_simps dest: bit_imp_le_length)
  then show "push_bit 8 (ucast (hi t)) + ucast (lo t) = t" by simp
qed

lemma name_loop_at:
  assumes "name_at pk p run ls" "\<forall>l \<in> set (all_labels run ls). label_ok l"
    "length (all_labels run ls) + length run < n"
  shows "name_loop n pk p v = Some (name_printed (all_labels run ls),
    if run = [] then (case v of Some q \<Rightarrow> q | None \<Rightarrow> code_end p [] ls) else code_end p run ls)"
  using assms
proof (induction run arbitrary: p n v)
  case Nil
  then obtain k where n: "n = length ls + Suc k"
    by (metis add_Suc_right all_labels_def append_Nil concat.simps(1) less_iff_Suc_add list.map(1) list.size(3) add.right_neutral)
  from Nil have l: "lies pk p (name_labels ls)" "get1 pk (p + length (name_labels ls)) = Some 0"
    by (simp_all add: name_wire_def lies_append)
  then have "name_loop (Suc k) pk (p + length (name_labels ls)) v =
      Some ([], case v of Some q \<Rightarrow> q | None \<Rightarrow> code_end p [] ls)"
    by (simp add: name_wire_def split: option.split)
  with name_loop_labels [of pk p ls "Suc k" v] Nil n l(1) show ?case
    by (simp add: all_labels_def del: name_loop.simps add_Suc_right)
next
  case (Cons r run)
  obtain ms t where r: "r = (ms, t)" by (cases r)
  let ?q = "p + length (name_labels ms)"
  from Cons.prems r have l: "lies pk p (name_labels ms)" "get1 pk ?q = Some (hi t + 192)"
      "get1 pk (?q + 1) = Some (lo t)" "t < 0x4000" "name_at pk (unat t) run ls"
    by (simp_all add: lies_append)
  obtain k where n: "n = length ms + Suc k" and k: "length (all_labels run ls) + length run < k"
    using Cons.prems(3) r by (intro that [of "n - length ms - 1"]) (simp_all add: all_labels_def)
  have "name_loop (Suc k) pk ?q v = name_loop k pk (unat t) (Some (?q + 2))"
    using l pointer_word [OF l(4)] by simp
  also have "\<dots> = Some (name_printed (all_labels run ls), if run = [] then ?q + 2 else code_end (unat t) run ls)"
    using Cons.IH [OF l(5) _ k, of "Some (?q + 2)"] Cons.prems(2) by (simp add: r all_labels_def)
  finally show ?case
    using name_loop_labels [OF l(1), of "Suc k" v] Cons.prems(2) n r
    by (cases run) (simp_all add: all_labels_def name_printed_append del: name_loop.simps add_Suc_right)
qed

text \<open>Where the name ends in the record: behind its own first pointer, or behind the zero.\<close>

definition name_end :: "nat \<Rightarrow> (cstr list \<times> word16) list \<Rightarrow> cstr list \<Rightarrow> nat" where
  "name_end p run ls =
     (case run of [] \<Rightarrow> p + length (name_wire ls) | (ms, t) # _ \<Rightarrow> p + length (name_labels ms) + 2)"

text \<open>
  C27.  Printing a name of a packet follows its compression pointers and prints every label,
  for names of up to 62 labels and pointers.  It goes on behind the last pointer it followed,
  which is behind the name when there is at most one.
\<close>

theorem print_name_follows:
  assumes "name_at pk p run ls" "\<forall>l \<in> set (all_labels run ls). label_ok l"
    "length (all_labels run ls) + length run \<le> 62"
  shows "print_name pk p = Some (name_printed (all_labels run ls), code_end p run ls) \<and>
    (length run \<le> 1 \<longrightarrow> code_end p run ls = name_end p run ls)"
proof
  show "print_name pk p = Some (name_printed (all_labels run ls), code_end p run ls)"
    using name_loop_at [OF assms(1,2), of 63 None] assms(3) by (auto simp: print_name_def)
  show "length run \<le> 1 \<longrightarrow> code_end p run ls = name_end p run ls"
    by (cases "(p, run, ls)" rule: code_end.cases) (auto simp: name_end_def)
qed

definition nested_packet :: "byte list" where
  "nested_packet = [1, 97, 0, 1, 98, 0xC0, 0, 1, 99, 0xC0, 3]"

lemma print_name_follows_witness:
  "print_name nested_packet 7 = Some (name_printed [[99], [98], [97]], 7) \<and>
   name_end 7 [([[99]], 3), ([[98]], 0)] [[97]] = 11"
proof -
  have "name_at nested_packet 7 [([[99]], 3), ([[98]], 0)] [[97]]"
    by (simp add: nested_packet_def get1_def hi_def lo_def name_wire_def name_labels_def)
  moreover have "\<forall>l \<in> set (all_labels [([[99]], 3), ([[98]], 0)] [[97]]). label_ok l"
    by (simp add: all_labels_def label_ok_def)
  ultimately show ?thesis
    using print_name_follows [where pk = nested_packet and p = 7 and run = "[([[99]], 3), ([[98]], 0)]" and ls = "[[97]]"]
    by (simp add: all_labels_def name_end_def)
qed

section \<open>A request read back\<close>

lemma length_name_wire: "ls \<noteq> [] \<Longrightarrow> length (name_wire ls) = length (name_text ls) + 2"
  by (induction ls rule: name_text.induct) (simp_all add: name_wire_def)

lemma put2_here: "put2 (pre @ replicate (Suc (Suc k)) 0) (length pre) w = Some ((pre @ [hi w, lo w]) @ replicate k 0)"
  by (simp add: put2_def put1_def list_update_append)

definition request_head :: "word16 \<Rightarrow> byte list" where
  "request_head ticks = [hi ticks, lo ticks, 1, 0, 0, 1, 0, 0, 0, 0, 0, 0]"

definition question :: "cstr list \<Rightarrow> word16 \<Rightarrow> byte list" where
  "question ls type = name_wire ls @ [hi type, lo type, 0, 1]"

lemma build_request_packet:
  assumes "ls \<noteq> []" "\<forall>l \<in> set ls. label_ok l" "t = [] \<or> t = [ch CHR ''.'']"
    "length (name_text ls @ t) < 256"
  shows "build_request ticks (name_text ls @ t) type (replicate PACKET_SIZE 0) =
    Some (request_head ticks @ question ls type @ replicate (1532 - length (name_text ls)) 0, 18 + length (name_text ls))"
proof -
  let ?n = "length (name_text ls)" and ?k = "1532 - length (name_text ls)"
  have k: "1536 - ?n = Suc (Suc (Suc (Suc ?k)))" using assms(4) by simp
  have h: "length (request_head ticks) = 12" by (simp add: request_head_def)
  have split: "replicate PACKET_SIZE (0 :: byte) = replicate 12 0 @ replicate (length (name_wire ls) + Suc (Suc (Suc (Suc ?k)))) 0"
    using assms(4) by (simp add: PACKET_SIZE_def length_name_wire [OF assms(1)] flip: replicate_add replicate_Suc)
  have ne: "name_text ls @ t \<noteq> []"
    using assms(1,2) by (cases ls rule: name_text.cases) (auto simp: label_ok_def)
  let ?R = "replicate (length (name_wire ls) + Suc (Suc (Suc (Suc ?k)))) 0 :: byte list"
  have z: "replicate 12 (0 :: byte) = [0, 0, 0, 0, 0, 0, 0, 0, 0, 0, 0, 0]" by (simp add: eval_nat_numeral)
  have p1: "put2 (replicate 12 0 @ ?R) 0 ticks = Some ([hi ticks, lo ticks, 0, 0, 0, 0, 0, 0, 0, 0, 0, 0] @ ?R)"
    by (simp add: z put2_def put1_def)
  have p2: "put1 ([hi ticks, lo ticks, 0, 0, 0, 0, 0, 0, 0, 0, 0, 0] @ ?R) 2 QR_OPCODE_QUERY =
      Some ([hi ticks, lo ticks, 1, 0, 0, 0, 0, 0, 0, 0, 0, 0] @ ?R)"
    by (simp add: put1_def QR_OPCODE_QUERY_def numeral_2_eq_2)
  have p3: "put2 ([hi ticks, lo ticks, 1, 0, 0, 0, 0, 0, 0, 0, 0, 0] @ ?R) 4 1 = Some (request_head ticks @ ?R)"
    by (simp add: put2_def put1_def request_head_def hi_def lo_def eval_nat_numeral)
  have p4: "encode_name (request_head ticks @ ?R) HEADER_SIZE (name_text ls @ t) =
      Some ((request_head ticks @ name_wire ls) @ replicate (Suc (Suc (Suc (Suc ?k)))) 0, 12 + length (name_wire ls))"
    using encode_name_wire [OF assms(1-3), of "request_head ticks" "Suc (Suc (Suc (Suc ?k)))"] h
    by (simp add: HEADER_SIZE_def)
  have p5: "put2 ((request_head ticks @ name_wire ls) @ replicate (Suc (Suc (Suc (Suc ?k)))) 0) (12 + length (name_wire ls)) type =
      Some ((request_head ticks @ name_wire ls @ [hi type, lo type]) @ replicate (Suc (Suc ?k)) 0)"
    using put2_here [of "request_head ticks @ name_wire ls" "Suc (Suc ?k)" type] h by simp
  have p6: "put2 ((request_head ticks @ name_wire ls @ [hi type, lo type]) @ replicate (Suc (Suc ?k)) 0)
      (12 + length (name_wire ls) + 2) 1 = Some (request_head ticks @ question ls type @ replicate ?k 0)"
    using put2_here [of "request_head ticks @ name_wire ls @ [hi type, lo type]" "?k" 1] h
    by (simp add: question_def hi_def lo_def)
  have c: "(\<not> (0 < length (name_text ls @ t) \<and> length (name_text ls @ t) < 256)) = False"
    using ne assms(4) by simp
  show ?thesis
    by (simp only: build_request_def split c if_False p1 p2 p3 p4 p5 p6 Option.bind.bind_lunit prod.case)
      (simp add: length_name_wire [OF assms(1)])
qed

lemma get2_at: "i = length pre \<Longrightarrow> get2 (pre @ h # l # post) i = Some (hilo h l)"
  by (simp add: get2_def get1_def nth_append)

lemma get2_head:
  "get2 (request_head ticks @ r) 0 = Some ticks" "get1 (request_head ticks @ r) 2 = Some 1"
  "get1 (request_head ticks @ r) 3 = Some 0" "get2 (request_head ticks @ r) 4 = Some 1"
  "get2 (request_head ticks @ r) 6 = Some 0" "get2 (request_head ticks @ r) 8 = Some 0"
  "get2 (request_head ticks @ r) 10 = Some 0"
  by (simp_all add: get2_def get1_def request_head_def eval_nat_numeral) (simp_all add: hilo_def)

lemma print_question:
  assumes "ls \<noteq> []" "\<forall>l \<in> set ls. label_ok l" "length ls \<le> 62"
  shows "print_record_dns (pre @ question ls type @ post) (length pre) True =
    Some (name_printed ls @ [print_dns_cls_name 1, print_dns_type_name type, Fmt [10] []],
      Some (length pre + length (name_wire ls) + 4))"
proof -
  let ?pk = "pre @ question ls type @ post" and ?q = "length pre + length (name_wire ls)"
  obtain l ls' where ls: "ls = l # ls'" and l: "label_ok l" using assms(1,2) by (cases ls) auto
  have "get1 ?pk (length pre) = Some (of_nat (length l))"
    by (simp add: ls question_def name_wire_def get1_def nth_append)
  moreover have "\<not> (64 \<le> (of_nat (length l) :: byte) \<and> (of_nat (length l) :: byte) < 192)"
    using label_size(3) [OF l] by (simp add: not_le)
  moreover have "name_at ?pk (length pre) [] ls"
    using lies_here [of pre "name_wire ls" "hi type # lo type # 0 # 1 # post"] by (simp add: question_def)
  then have "print_name ?pk (length pre) = Some (name_printed ls, ?q)"
    using name_loop_at [of ?pk "length pre" "[]" ls 63 None] assms(2,3) by (simp add: print_name_def all_labels_def)
  moreover have "get2 ?pk ?q = Some type"
    using get2_at [of ?q "pre @ name_wire ls" "hi type" "lo type" "0 # 1 # post"] by (simp add: question_def)
  moreover have "get2 ?pk (?q + 2) = Some 1"
    using get2_at [of "?q + 2" "pre @ name_wire ls @ [hi type, lo type]" 0 1 post] by (simp add: question_def hilo_def)
  ultimately show ?thesis unfolding print_record_dns_def by simp
qed

text \<open>
  C26.  The request for a host name has the size of its header, name and question, and its
  question reads back: the printer of replies shows the name with its labels in order and the
  type asked for, also when the name was given with a trailing dot.
\<close>

theorem request_reads_back:
  assumes "ls \<noteq> []" "\<forall>l \<in> set ls. label_ok l" "length ls \<le> 62" "t = [] \<or> t = [ch CHR ''.'']"
    "length (name_text ls @ t) < 256"
  shows "\<exists>pk. build_request ticks (name_text ls @ t) type (replicate PACKET_SIZE 0) = Some (pk, 18 + length (name_text ls)) \<and>
    show_reply pk = Some (Fmt (cs '';; id %x qr_opcode %x rcode %x'' @ [10]) [uint ticks, 1, 0] #
      Fmt (cs '';; QUESTION:'' @ [10]) [] # name_printed ls @
      [print_dns_cls_name 1, print_dns_type_name type, Fmt [10] []])"
proof (intro exI conjI)
  let ?pk = "request_head ticks @ question ls type @ replicate (1532 - length (name_text ls)) 0"
  show "build_request ticks (name_text ls @ t) type (replicate PACKET_SIZE 0) = Some (?pk, 18 + length (name_text ls))"
    by (rule build_request_packet [OF assms(1,2,4,5)])
  have h: "length (request_head ticks) = 12" by (simp add: request_head_def)
  have "print_section ?pk (cs ''QUESTION'') 4 True (Some HEADER_SIZE) = Some (Fmt (cs '';; QUESTION:'' @ [10]) [] #
      name_printed ls @ [print_dns_cls_name 1, print_dns_type_name type, Fmt [10] []],
      Some (12 + length (name_wire ls) + 4))"
    using print_question [OF assms(1-3), of "request_head ticks" type "replicate (1532 - length (name_text ls)) 0"] h
    by (simp add: print_section_def get2_head HEADER_SIZE_def)
  then show "show_reply ?pk = Some (Fmt (cs '';; id %x qr_opcode %x rcode %x'' @ [10]) [uint ticks, 1, 0] #
      Fmt (cs '';; QUESTION:'' @ [10]) [] # name_printed ls @
      [print_dns_cls_name 1, print_dns_type_name type, Fmt [10] []])"
    by (simp add: show_reply_def get2_head print_section_def)
qed

lemma request_reads_back_witness:
  "\<exists>pk. build_request 7 (cs ''a.bc.'') 1 (replicate PACKET_SIZE 0) = Some (pk, 22) \<and>
    show_reply pk = Some ([Fmt (cs '';; id %x qr_opcode %x rcode %x'' @ [10]) [7, 1, 0], Fmt (cs '';; QUESTION:'' @ [10]) [],
      PutC 97, PutC 46, PutC 98, PutC 99, PutC 46, Fmt (cs '' IN '') [], Fmt (cs '' A '') [], Fmt [10] []])"
  using request_reads_back [of "[[97], [98, 99]]" "[46]" 7 1]
  by (simp add: label_ok_def print_dns_cls_name_def print_dns_type_name_def name_char_def urange_def)

section \<open>Text records\<close>

definition txt_char :: "byte \<Rightarrow> dns_out" where
  "txt_char c = (if 32 \<le> c \<and> c < 127 \<and> c \<noteq> 34 then PutC c else Fmt ([92] @ cs ''x%02x'') [uint c])"

lemma unat_length_byte: "Suc n < 256 \<Longrightarrow> unat (of_nat (Suc n) :: byte) = Suc n"
  by (simp add: unat_of_nat del: of_nat_Suc)

lemma txt_loop_chars:
  assumes "lies pk p (of_nat (Suc (length don + length s)) # don @ s @ [c])" "length don + length s < 99"
    "length s \<le> n" "Suc (length don + length s) < unat len"
  shows "txt_loop (Suc n) pk p (Suc (length don)) len = Some (map txt_char s)"
  using assms
proof (induction s arbitrary: don n)
  case Nil
  have "unat (of_nat (Suc (length don)) :: byte) = Suc (length don)"
    using Nil by (intro unat_length_byte) simp
  with Nil show ?case by (simp del: of_nat_Suc)
next
  case (Cons b s)
  then obtain m where n: "n = Suc m" by (cases n) auto
  have "txt_loop (Suc m) pk p (Suc (length (don @ [b]))) len = Some (map txt_char s)"
    using Cons.IH [of "don @ [b]" m] Cons.prems n by simp
  moreover have "get1 pk (p + Suc (length don)) = Some b" "get1 pk p = Some (of_nat (Suc (length don + length (b # s))))"
    using Cons.prems(1) by (simp_all add: lies_append)
  moreover have "unat (of_nat (Suc (length don + length (b # s))) :: byte) = Suc (length don + length (b # s))"
    using Cons.prems(2) by (intro unat_length_byte) simp
  ultimately show ?case using Cons.prems(2,4) unfolding n txt_loop.simps(2) [of "Suc m"]
    by (simp add: txt_char_def del: txt_loop.simps of_nat_Suc)
qed

text \<open>
   A text record of one string is printed between quotes without its last character: the
  loop that begins behind the length byte stops below the length.
\<close>

theorem print_txt_drops_last:
  assumes "lies pk p (of_nat (length s) # s)" "s \<noteq> []" "length s \<le> 99"
  shows "print_rdata pk p 1 16 (of_nat (Suc (length s))) = Some (PutC 34 # map txt_char (butlast s) @ [PutC 34])"
proof -
  let ?len = "of_nat (Suc (length s)) :: word16"
  have len: "unat ?len = Suc (length s)" using assms(3) by (simp add: unat_of_nat del: of_nat_Suc)
  obtain b c where s: "s = b @ [c]" using assms(2) by (metis append_butlast_last_id)
  have "txt_loop 100 pk p 1 ?len = Some (map txt_char b)"
    using txt_loop_chars [of pk p "[]" b c 99 ?len] assms(1,3) len by (simp add: s)
  then show ?thesis by (simp add: print_rdata_def s)
qed

lemma print_txt_drops_last_witness:
  "print_rdata [3, 97, 34, 99] 0 1 16 4 = Some [PutC 34, PutC 97, Fmt ([92] @ cs ''x%02x'') [34], PutC 34]"
  using print_txt_drops_last [of "[3, 97, 34, 99]" 0 "[97, 34, 99]"]
  by (simp add: get1_def txt_char_def)

end
