(* ===== verification/Net_Wiz.thy ===== *)
theory Net_Wiz
  imports Ax_Wiz
begin

text \<open>
  The driver of the W5100S chip for programs under NitrOS9, \<^verbatim>\<open>wiz/wiz5100s.c\<close> (CMOC), with the
  interface \<^verbatim>\<open>frobnet.h\<close>.  The chip is the same parameter as for the boot ROM: a state \<^verbatim>\<open>'w\<close> and
  what a read and a write of its four ports do.  Beside it the state has the depth to which
  interrupts are disabled and the sequence number of the next ping.  A loop that polls the chip
  need not end, and is then \<^verbatim>\<open>None\<close>, as is \<^verbatim>\<open>LogFatal\<close> and a failed \<^verbatim>\<open>Assert\<close>.  \<^verbatim>\<open>WizDelay\<close> has no
  effect, the debugging messages are compiled out, \<^verbatim>\<open>LogError\<close> only prints, \<^verbatim>\<open>Verbosity\<close> is below
  9 and the depth is far from the 128 at which the counter stops the program.  Bytes that a
  function stores for its caller are part of its result.  The chip stores the high byte first,
  as the processor does.
\<close>

section \<open>State and ports\<close>

datatype prob = GOOD | NotYet | Problem string

record 'w net =
  chip :: 'w
  irq_depth :: int
  ping_sequence :: word16

definition DisableIrqsCounting :: "'w net \<Rightarrow> 'w net" where
  "DisableIrqsCounting s = s\<lparr>irq_depth := irq_depth s + 1\<rparr>"

definition EnableIrqsCounting :: "'w net \<Rightarrow> 'w net" where
  "EnableIrqsCounting s = s\<lparr>irq_depth := irq_depth s - 1\<rparr>"

definition set_reg :: "'w port \<Rightarrow> word16 \<Rightarrow> 'w net \<Rightarrow> 'w net" where
  "set_reg W reg s = s\<lparr>chip := pwrite W 2 (lo reg) (pwrite W 1 (hi reg) (chip s))\<rparr>"

definition get3 :: "'w port \<Rightarrow> 'w net \<Rightarrow> byte \<times> 'w net" where
  "get3 W s = (let (b, c) = pread W 3 (chip s) in (b, s\<lparr>chip := c\<rparr>))"

definition put3 :: "'w port \<Rightarrow> byte \<Rightarrow> 'w net \<Rightarrow> 'w net" where
  "put3 W b s = s\<lparr>chip := pwrite W 3 b (chip s)\<rparr>"

fun get3_n :: "'w port \<Rightarrow> nat \<Rightarrow> 'w net \<Rightarrow> byte list \<times> 'w net" where
  "get3_n W 0 s = ([], s)"
| "get3_n W (Suc n) s = (let (b, s) = get3 W s; (bs, s) = get3_n W n s in (b # bs, s))"

fun get3_until :: "'w port \<Rightarrow> nat \<Rightarrow> byte \<Rightarrow> 'w net \<Rightarrow> byte list \<times> 'w net" where
  "get3_until W 0 until s = ([], s)"
| "get3_until W (Suc n) until s =
     (let (b, s) = get3 W s in
      if b = until then ([b], s) else let (bs, s) = get3_until W n until s in (b # bs, s))"

fun put3_n :: "'w port \<Rightarrow> byte list \<Rightarrow> 'w net \<Rightarrow> 'w net" where
  "put3_n W [] s = s"
| "put3_n W (b # bs) s = put3_n W bs (put3 W b s)"

definition Get1 :: "'w port \<Rightarrow> word16 \<Rightarrow> 'w net \<Rightarrow> byte \<times> 'w net" where
  "Get1 W reg s =
     (let (z, s) = get3 W (set_reg W reg (DisableIrqsCounting s)) in (z, EnableIrqsCounting s))"

definition Get2 :: "'w port \<Rightarrow> word16 \<Rightarrow> 'w net \<Rightarrow> word16 \<times> 'w net" where
  "Get2 W reg s =
     (let s = set_reg W reg (DisableIrqsCounting s); (z_hi, s) = get3 W s; (z_lo, s) = get3 W s
      in (push_bit 8 (ucast z_hi) + ucast z_lo, EnableIrqsCounting s))"

definition GetN :: "'w port \<Rightarrow> word16 \<Rightarrow> word16 \<Rightarrow> 'w net \<Rightarrow> byte list \<times> 'w net" where
  "GetN W reg n s =
     (let (bs, s) = get3_n W (unat n) (set_reg W reg (DisableIrqsCounting s)) in (bs, EnableIrqsCounting s))"

definition GetNUntil :: "'w port \<Rightarrow> word16 \<Rightarrow> word16 \<Rightarrow> byte \<Rightarrow> 'w net \<Rightarrow> byte list \<times> 'w net" where
  "GetNUntil W reg n until s =
     (let (bs, s) = get3_until W (unat n) until (set_reg W reg (DisableIrqsCounting s))
      in (bs, EnableIrqsCounting s))"

definition Put1 :: "'w port \<Rightarrow> word16 \<Rightarrow> byte \<Rightarrow> 'w net \<Rightarrow> 'w net" where
  "Put1 W reg v s = EnableIrqsCounting (put3 W v (set_reg W reg (DisableIrqsCounting s)))"

definition Put2 :: "'w port \<Rightarrow> word16 \<Rightarrow> word16 \<Rightarrow> 'w net \<Rightarrow> 'w net" where
  "Put2 W reg v s =
     EnableIrqsCounting (put3 W (lo v) (put3 W (hi v) (set_reg W reg (DisableIrqsCounting s))))"

definition PutN :: "'w port \<Rightarrow> word16 \<Rightarrow> byte list \<Rightarrow> 'w net \<Rightarrow> 'w net" where
  "PutN W reg bs s = EnableIrqsCounting (put3_n W bs (set_reg W reg (DisableIrqsCounting s)))"

section \<open>Time\<close>

definition Ticks :: "'w port \<Rightarrow> 'w net \<Rightarrow> word16 \<times> 'w net" where
  "Ticks W s = Get2 W 0x0082 s"

definition Wiz__before :: "'w port \<Rightarrow> word16 \<Rightarrow> 'w net \<Rightarrow> bool \<times> 'w net" where
  "Wiz__before W limit s = (let (t, s) = Get2 W 0x0082 s in (((limit - t) AND 0x8000) = 0, s))"

partial_function (option) wait_loop ::
  "'w port \<Rightarrow> word16 \<Rightarrow> byte \<Rightarrow> word16 \<Rightarrow> 'w net \<Rightarrow> (prob \<times> 'w net) option" where
  "wait_loop W reg val limit s =
     (let (more, s) = Wiz__before W limit s in
      if more then
        let (v, s) = Get1 W reg s in if v = val then Some (GOOD, s) else wait_loop W reg val limit s
      else Some (Problem ''Timeout'', s))"

declare wait_loop.simps [code]

definition Wiz__wait :: "'w port \<Rightarrow> word16 \<Rightarrow> byte \<Rightarrow> word16 \<Rightarrow> 'w net \<Rightarrow> (prob \<times> 'w net) option" where
  "Wiz__wait W reg val millisecs_max s =
     (let (start, s) = Get2 W 0x0082 s in wait_loop W reg val (10 * millisecs_max + start) s)"

section \<open>Set-up\<close>

definition set_raw :: "'w port \<Rightarrow> nat \<Rightarrow> byte \<Rightarrow> 'w net \<Rightarrow> 'w net" where
  "set_raw W i b s = s\<lparr>chip := pwrite W i b (chip s)\<rparr>"

definition quad_bytes :: "quad \<Rightarrow> byte list" where
  "quad_bytes q = [ucast (drop_bit 24 q), ucast (drop_bit 16 q), ucast (drop_bit 8 q), ucast q]"

definition sock_base :: "byte \<Rightarrow> word16" where
  "sock_base socknum = push_bit 8 (ucast socknum + 4)"

definition TX_BUF :: "byte \<Rightarrow> word16" where "TX_BUF n = 0x4000 + push_bit 11 (ucast n)"
definition RX_BUF :: "byte \<Rightarrow> word16" where "RX_BUF n = 0x6000 + push_bit 11 (ucast n)"
definition RX_MASK :: word16 where "RX_MASK = 2048 - 1"
definition TX_MASK :: word16 where "TX_MASK = 2048 - 1"
definition SockDestIp :: word16 where "SockDestIp = 0x0C"
definition TxReadPtr :: word16 where "TxReadPtr = 0x22"

definition WizReset_lib :: "'w port \<Rightarrow> 'w net \<Rightarrow> 'w net" where
  "WizReset_lib W s = EnableIrqsCounting (set_raw W 0 3 (set_raw W 0 128 (DisableIrqsCounting s)))"

definition close_socket :: "'w port \<Rightarrow> word16 \<Rightarrow> 'w net \<Rightarrow> 'w net option" where
  "close_socket W base s = do {
     (_, s) \<leftarrow> Wiz__wait W (base + SK_CR) 0 500 (Put1 W (base + SK_CR) 0x10 s);
     Some (Put1 W (base + SK_MR) 0x00 s) }"

fun close_all :: "'w port \<Rightarrow> byte list \<Rightarrow> 'w net \<Rightarrow> 'w net option" where
  "close_all W [] s = Some s"
| "close_all W (socknum # ks) s = do {
     let base = sock_base socknum;
     s \<leftarrow> close_socket W base s;
     close_all W ks (Put1 W (base + 0x001f) 2 (Put1 W (base + 0x001e) 2 s)) }"

definition put_addresses :: "'w port \<Rightarrow> quad \<Rightarrow> quad \<Rightarrow> quad \<Rightarrow> 'w net \<Rightarrow> 'w net" where
  "put_addresses W ip netmask gateway s =
     (let s = set_raw W 2 1 (set_raw W 1 0 s);
          s = PutN W 0x0001 (quad_bytes gateway) s;
          s = PutN W 0x0005 (quad_bytes netmask) s
      in PutN W 0x000f (quad_bytes ip) s)"

definition WizConfigure_lib :: "'w port \<Rightarrow> quad \<Rightarrow> quad \<Rightarrow> quad \<Rightarrow> 'w net \<Rightarrow> 'w net option" where
  "WizConfigure_lib W ip netmask gateway s = do {
     let s = put_addresses W ip netmask gateway (DisableIrqsCounting s);
     let s = PutN W 0x0009 ([2, 0] @ quad_bytes ip) s;
     let s = Put1 W 0x001b 0x55 (Put1 W 0x001a 0x55 s);
     s \<leftarrow> close_all W [0, 1, 2, 3] s;
     Some (EnableIrqsCounting s) }"

definition WizReconfigureForDhcp :: "'w port \<Rightarrow> quad \<Rightarrow> quad \<Rightarrow> quad \<Rightarrow> 'w net \<Rightarrow> 'w net" where
  "WizReconfigureForDhcp W ip netmask gateway s = put_addresses W ip netmask gateway s"

text \<open>\<^verbatim>\<open>strncpy\<close> pads a short name with NULs.\<close>

definition wiz_configure_for_DHCP :: "'w port \<Rightarrow> cstr \<Rightarrow> 'w net \<Rightarrow> (byte list \<times> 'w net) option" where
  "wiz_configure_for_DHCP W name4 s = do {
     s \<leftarrow> WizConfigure_lib W 0 0xFFFFFF00 0 s;
     let mac_addr = [2, 32] @ take 4 (name4 @ replicate 4 0);
     Some (mac_addr, PutN W 0x0009 mac_addr s) }"

section \<open>Commands without a socket\<close>

definition get_hw :: "'w port \<Rightarrow> 'w net \<Rightarrow> byte list \<times> 'w net" where
  "get_hw W s =
     (let (m1, s) = Get1 W 0x0054 s; (m2, s) = Get1 W 0x0055 s; (m3, s) = Get1 W 0x0056 s;
          (m4, s) = Get1 W 0x0057 s; (m5, s) = Get1 W 0x0058 s; (m6, s) = Get1 W 0x0059 s
      in ([m1, m2, m3, m4, m5, m6], s))"

definition socketless :: "'w port \<Rightarrow> quad \<Rightarrow> 'w net \<Rightarrow> 'w net" where
  "socketless W dest_ip s =
     PutN W 0x0050 (quad_bytes dest_ip) (Put1 W 0x005f 7 (Put1 W 0x005e 0 (Put1 W 0x004c 0 s)))"

partial_function (option) arp_loop :: "'w port \<Rightarrow> 'w net \<Rightarrow> ((byte \<times> byte list) \<times> 'w net) option" where
  "arp_loop W s =
     (let s = Put1 W 0x005f 0 s; (x, s) = Get1 W 0x005f s; (mac, s) = get_hw W s in
      if x = 0 then arp_loop W s else Some ((x, mac), s))"

declare arp_loop.simps [code]

definition WizArp :: "'w port \<Rightarrow> quad \<Rightarrow> 'w net \<Rightarrow> ((prob \<times> byte list) \<times> 'w net) option" where
  "WizArp W dest_ip s = do {
     ((x, mac), s) \<leftarrow> arp_loop W (Put1 W 0x004c 2 (socketless W dest_ip (DisableIrqsCounting s)));
     Some ((if and x 2 \<noteq> 0 then GOOD else Problem ''NoAck'', mac), EnableIrqsCounting s) }"

partial_function (option) ping_loop :: "'w port \<Rightarrow> 'w net \<Rightarrow> (byte \<times> 'w net) option" where
  "ping_loop W s =
     (let (x, s) = Get1 W 0x005f s; (_, s) = get_hw W s in
      if x = 0 then ping_loop W s else Some (x, s))"

declare ping_loop.simps [code]

definition WizPing :: "'w port \<Rightarrow> quad \<Rightarrow> 'w net \<Rightarrow> (prob \<times> 'w net) option" where
  "WizPing W dest_ip s = do {
     let s = socketless W dest_ip (DisableIrqsCounting s);
     let s = Put2 W 0x005A (ping_sequence s) (s\<lparr>ping_sequence := ping_sequence s + 1\<rparr>);
     (x, s) \<leftarrow> ping_loop W (Put1 W 0x004c 1 s);
     Some (if and x 1 \<noteq> 0 then GOOD else Problem ''NoAck'', EnableIrqsCounting s) }"

definition suggest_client_port :: "'w port \<Rightarrow> 'w net \<Rightarrow> word16 \<times> 'w net" where
  "suggest_client_port W s = (let (t, s) = Ticks W s in (and 0x7fff t + 0x4000, s))"

section \<open>Sockets\<close>

text \<open>The number of the first socket that is closed, 4 when there is none, and its registers.\<close>

fun find_from :: "'w port \<Rightarrow> nat \<Rightarrow> byte \<Rightarrow> word16 \<Rightarrow> 'w net \<Rightarrow> (byte \<times> word16) \<times> 'w net" where
  "find_from W 0 socknum base s = ((socknum, base), s)"
| "find_from W (Suc n) socknum base s =
     (let (st, s) = Get1 W (base + SK_SR) s in
      if st = 0 then ((socknum, base), s) else find_from W n (socknum + 1) (base + 0x0100) s)"

definition find_available_socket :: "'w port \<Rightarrow> 'w net \<Rightarrow> (byte \<times> word16) \<times> 'w net" where
  "find_available_socket W s = find_from W 4 0 0x0400 s"

text \<open>After the command to open: wait for the chip, then empty both rings.\<close>

definition finish_open :: "'w port \<Rightarrow> word16 \<Rightarrow> byte \<Rightarrow> 'w net \<Rightarrow> (prob \<times> 'w net) option" where
  "finish_open W base status s = do {
     (err, s) \<leftarrow> Wiz__wait W (base + SK_CR) 0 500 s;
     if err \<noteq> GOOD then Some (err, s)
     else do {
       (err, s) \<leftarrow> Wiz__wait W (base + SK_SR) status 500 s;
       if err \<noteq> GOOD then Some (err, s)
       else
         let (tx_r, s) = Get2 W (base + TxReadPtr) s;
             s = Put2 W (base + SK_TX_WR0) tx_r s;
             (rx_w, s) = Get2 W (base + 0x002A) s
         in Some (GOOD, Put2 W (base + SK_RX_RD0) rx_w s) } }"

definition UdpClose :: "'w port \<Rightarrow> byte \<Rightarrow> 'w net \<Rightarrow> (prob \<times> 'w net) option" where
  "UdpClose W socknum s =
     (if socknum > 3 then Some (Problem ''NoAvailableSocket'', s)
      else do {
        let base = sock_base socknum;
        s \<leftarrow> close_socket W base (Put1 W (base + SK_IR) 0x1F s);
        Some (GOOD, s) })"

section \<open>Raw packets\<close>

definition MacRawOpen :: "'w port \<Rightarrow> 'w net \<Rightarrow> ((prob \<times> byte) \<times> 'w net) option" where
  "MacRawOpen W s =
     (let ((socknum, base), s) = find_available_socket W (DisableIrqsCounting s) in
      if socknum > 0 then Some ((Problem ''NoAvailableSocket'', socknum), s)
      else do {
        let s = Put1 W base 0x44 s;
        let s = Put1 W (base + 0x002F) 0x70 s;
        let s = Put1 W (base + SK_CR) 1 s;
        (err, s) \<leftarrow> finish_open W base 0x42 s;
        Some ((err, socknum), EnableIrqsCounting s) })"

definition MacRawClose :: "'w port \<Rightarrow> byte \<Rightarrow> 'w net \<Rightarrow> (prob \<times> 'w net) option" where
  "MacRawClose W socknum s =
     (if socknum > 3 then Some (Problem ''BadSockNum'', s)
      else do { s \<leftarrow> close_socket W (sock_base socknum) s; Some (GOOD, s) })"

partial_function (option) recv_wait :: "'w port \<Rightarrow> word16 \<Rightarrow> bool \<Rightarrow> 'w net \<Rightarrow> (prob \<times> 'w net) option" where
  "recv_wait W base wait s =
     (let (irq, s) = Get1 W (base + SK_IR) s in
      if irq \<noteq> 0 then
        let s = Put1 W (base + SK_IR) 0x1f s in
        Some (if irq \<noteq> 0x04 then Problem ''BadRecv'' else GOOD, s)
      else if \<not> wait then Some (NotYet, s)
      else recv_wait W base wait s)"

declare recv_wait.simps [code]

text \<open>\<^verbatim>\<open>n\<close> bytes of the ring from the pointer on, and the pointer behind them.\<close>

fun ring_bytes :: "'w port \<Rightarrow> word16 \<Rightarrow> word16 \<Rightarrow> nat \<Rightarrow> 'w net \<Rightarrow> (byte list \<times> word16) \<times> 'w net" where
  "ring_bytes W buf ptr 0 s = (([], ptr), s)"
| "ring_bytes W buf ptr (Suc n) s =
     (let (b, s) = Get1 W (buf + ptr) s;
          ((bs, ptr), s) = ring_bytes W buf (and (ptr + 1) RX_MASK) n s
      in ((b # bs, ptr), s))"

definition start_recv :: "'w port \<Rightarrow> word16 \<Rightarrow> 'w net \<Rightarrow> 'w net option" where
  "start_recv W base s = do {
     let s = Put1 W (base + SK_IR) 0x1f s;
     let s = Put1 W (base + SK_CR) 0x40 s;
     (_, s) \<leftarrow> Wiz__wait W (base + SK_CR) 0 500 s;
     Some s }"

definition MacRawRecv ::
  "'w port \<Rightarrow> byte \<Rightarrow> word16 \<Rightarrow> 'w net \<Rightarrow> ((prob \<times> byte list) \<times> 'w net) option" where
  "MacRawRecv W socknum buffer_size s =
     (if socknum > 3 then Some ((Problem ''BadSockNum'', []), s)
      else
        let base = sock_base socknum; (status, s) = Get1 W (base + SK_SR) s in
        if status \<noteq> 0x42 then Some ((Problem ''BadStatus'', []), s)
        else do {
          s \<leftarrow> start_recv W base s;
          (err, s) \<leftarrow> recv_wait W base True s;
          if err \<noteq> GOOD then Some ((err, []), s)
          else
            let (recv_size, s) = Get2 W (base + SK_RX_RSR0) s;
                (rx_rd, s) = Get2 W (base + SK_RX_RD0) s;
                (_, s) = Get2 W (base + 0x002A) s;
                ((bs, _), s) =
                  ring_bytes W (RX_BUF socknum) (and rx_rd RX_MASK) (min (unat recv_size) (unat buffer_size)) s
            in Some ((GOOD, bs), Put2 W (base + SK_RX_RD0) (rx_rd + recv_size) s) })"

section \<open>Datagrams\<close>

definition UdpOpen :: "'w port \<Rightarrow> word16 \<Rightarrow> 'w net \<Rightarrow> ((prob \<times> byte) \<times> 'w net) option" where
  "UdpOpen W src_port s =
     (let ((socknum, base), s) = find_available_socket W (DisableIrqsCounting s) in
      if socknum > 3 then Some ((Problem ''NoAvailableSocket'', socknum), EnableIrqsCounting s)
      else do {
        let s = Put1 W (base + SK_MR) 2 s;
        let s = Put2 W (base + SK_PORTR0) src_port s;
        let s = Put1 W (base + SK_IR) 0x1F s;
        let s = Put1 W (base + 0x002c) 0xFF s;
        let s = Put2 W (base + 0x002d) 0 s;
        let s = Put1 W (base + 0x002f) 0x00 s;
        let s = Put1 W (base + SK_CR) 1 s;
        (err, s) \<leftarrow> finish_open W base 0x22 s;
        Some ((err, socknum), EnableIrqsCounting s) })"

partial_function (option) sent_loop :: "'w port \<Rightarrow> word16 \<Rightarrow> 'w net \<Rightarrow> 'w net option" where
  "sent_loop W base s =
     (let (irq, s) = Get1 W (base + SK_IR) s in
      if and irq 0x10 \<noteq> 0 then Some s else sent_loop W base s)"

declare sent_loop.simps [code]

definition put_split :: "'w port \<Rightarrow> word16 \<Rightarrow> word16 \<Rightarrow> byte list \<Rightarrow> 'w net \<Rightarrow> 'w net" where
  "put_split W buf offset payload s =
     (if offset + of_nat (length payload) \<ge> 2048 then
        let size1 = unat (2048 - offset)
        in PutN W buf (drop size1 payload) (PutN W (buf + offset) (take size1 payload) s)
      else PutN W (buf + offset) payload s)"

definition UdpSend ::
  "'w port \<Rightarrow> byte \<Rightarrow> byte list \<Rightarrow> quad \<Rightarrow> word16 \<Rightarrow> 'w net \<Rightarrow> (prob \<times> 'w net) option" where
  "UdpSend W socknum payload dest_ip dest_port s =
     (if socknum > 3 then Some (Problem ''NoAvailableSocket'', s)
      else
        let base = sock_base socknum; size = of_nat (length payload);
            (status, s) = Get1 W (base + SK_SR) s in
        if status \<noteq> 0x22 then Some (Problem ''NotReady'', s)
        else
          let s = PutN W (base + SockDestIp) (quad_bytes dest_ip) s;
              s = Put2 W (base + SK_DPORTR0) dest_port s;
              broadcast = (dest_ip = 0xFFFFFFFF);
              s = (if broadcast then PutN W (base + 6) SixFFs s else s);
              (_, s) = Get2 W (base + TxReadPtr) s;
              (_, s) = Get2 W (base + SK_TX_WR0) s;
              (free, s) = Get2 W (base + SK_TX_FSR0) s in
          if free < size then Some (NotYet, s)
          else
            let (tx_r, s) = Get2 W (base + TxReadPtr) s;
                s = put_split W (TX_BUF socknum) (and TX_MASK tx_r) payload s;
                (tx_w, s) = Get2 W (base + SK_TX_WR0) s;
                s = Put2 W (base + SK_TX_WR0) (tx_w + size) s;
                s = Put1 W (base + SK_IR) 0x1f s;
                s = Put1 W (base + SK_CR) (if broadcast then 0x21 else 0x20) s
            in do {
              (_, s) \<leftarrow> Wiz__wait W (base + SK_CR) 0 500 s;
              s \<leftarrow> sent_loop W base s;
              Some (GOOD, Put1 W (base + SK_IR) 0x10 s) })"

record datagram =
  from_addr :: quad
  from_port :: word16
  payload_bytes :: "byte list"

text \<open>The header that the chip puts in front of a datagram: address, port and length.\<close>

record UdpRecvHeader =
  hdr_addr :: quad
  hdr_port :: word16
  udp_len :: word16

definition udp_header :: "byte list \<Rightarrow> UdpRecvHeader" where
  "udp_header h =
     \<lparr>hdr_addr = word_rcat (take 4 h), hdr_port = hilo (h ! 4) (h ! 5), udp_len = hilo (h ! 6) (h ! 7)\<rparr>"

definition take_datagram ::
  "'w port \<Rightarrow> byte \<Rightarrow> word16 \<Rightarrow> 'w net \<Rightarrow> (prob \<times> datagram option) \<times> 'w net" where
  "take_datagram W socknum size_in s =
     (let base = sock_base socknum;
          (recv_size, s) = Get2 W (base + SK_RX_RSR0) s;
          (rx_rd, s) = Get2 W (base + SK_RX_RD0) s;
          (_, s) = Get2 W (base + 0x002A) s;
          ((h, ptr), s) = ring_bytes W (RX_BUF socknum) (and rx_rd RX_MASK) 8 s;
          hdr = udp_header h in
      if udp_len hdr > size_in then ((Problem ''TooBig'', None), s)
      else
        let ((bs, _), s) = ring_bytes W (RX_BUF socknum) ptr (unat (udp_len hdr)) s
        in ((GOOD, Some \<lparr>from_addr = hdr_addr hdr, from_port = hdr_port hdr, payload_bytes = bs\<rparr>),
            Put2 W (base + SK_RX_RD0) (and RX_MASK (rx_rd + recv_size)) s))"

definition UdpRecvCommon ::
  "'w port \<Rightarrow> byte \<Rightarrow> word16 \<Rightarrow> bool \<Rightarrow> 'w net \<Rightarrow> ((prob \<times> datagram option) \<times> 'w net) option" where
  "UdpRecvCommon W socknum size_in wait s =
     (if socknum > 3 then Some ((Problem ''NoAvailableSocket'', None), s)
      else
        let base = sock_base socknum; (status, s) = Get1 W (base + SK_SR) s in
        if status \<noteq> 0x22 then Some ((Problem ''NotReady'', None), s)
        else do {
          let s = Put2 W (base + 0x0010) 0 (Put2 W (base + 0x000e) 0 (Put2 W (base + 0x000c) 0 s));
          s \<leftarrow> start_recv W base s;
          (err, s) \<leftarrow> recv_wait W base wait s;
          if err \<noteq> GOOD then Some ((err, None), s) else Some (take_datagram W socknum size_in s) })"

definition UdpRecv ::
  "'w port \<Rightarrow> byte \<Rightarrow> word16 \<Rightarrow> 'w net \<Rightarrow> ((prob \<times> datagram option) \<times> 'w net) option" where
  "UdpRecv W socknum size_in s = UdpRecvCommon W socknum size_in True s"

definition UdpRecvNotYet ::
  "'w port \<Rightarrow> byte \<Rightarrow> word16 \<Rightarrow> 'w net \<Rightarrow> ((prob \<times> datagram option) \<times> 'w net) option" where
  "UdpRecvNotYet W socknum size_in s = UdpRecvCommon W socknum size_in False s"

end
