(* ===== verification/Net_Ntp.thy ===== *)
theory Net_Ntp
  imports Net_Wiz
begin

text \<open>
  The time client \<^verbatim>\<open>net-cmds/f-ntp.c\<close>: the request, the reply, and the calendar by which the
  seconds of the reply become a date.  \<^verbatim>\<open>None\<close> is \<^verbatim>\<open>LogFatal\<close>, a failed \<^verbatim>\<open>Assert\<close> or a loop that does not
  end.  Setting the clock is a call of the kernel, a parameter.  The theorem compares the date
  with the Gregorian calendar, which is defined here for this purpose alone.
\<close>

section \<open>The date\<close>

definition dpm :: "byte list" where
  "dpm = [255, 31, 28, 31, 30, 31, 30, 31, 31, 30, 31, 30, 31]"

text \<open>\<^verbatim>\<open>t0\<close> tells that a subtraction went below 0.\<close>

partial_function (option) year_loop :: "quad \<Rightarrow> quad \<Rightarrow> word16 \<Rightarrow> (quad \<times> word16) option" where
  "year_loop t0 t year =
     (let t_next = t - 31536000;
          t_next = (if and year 3 = 0 then t_next - 86400 else t_next) in
      if t_next > t0 then Some (t, year) else year_loop t0 t_next (year + 1))"

declare year_loop.simps [code]

definition month_len :: "word16 \<Rightarrow> byte \<Rightarrow> byte" where
  "month_len year month = (if month = 2 \<and> and year 3 = 0 then dpm ! unat month + 1 else dpm ! unat month)"

text \<open>The month and what is left of the seconds; 13 when no month is left.\<close>

fun month_loop :: "quad \<Rightarrow> word16 \<Rightarrow> byte list \<Rightarrow> quad \<Rightarrow> byte \<times> quad" where
  "month_loop t0 year [] t = (13, t)"
| "month_loop t0 year (month # months) t =
     (let t_next = t - 86400 * ucast (month_len year month) in
      if t_next > t0 then (month, t) else month_loop t0 year months t_next)"

record date =
  d_year :: word16
  d_month :: byte
  d_day :: byte
  d_hour :: byte
  d_min :: byte
  d_sec :: byte

definition date_of :: "quad \<Rightarrow> date option" where
  "date_of xmit_ts = do {
     let t0 = xmit_ts - 3786825600;
     (t, year) \<leftarrow> year_loop t0 t0 2020;
     let (month, t) = month_loop t0 year [1, 2, 3, 4, 5, 6, 7, 8, 9, 10, 11, 12] t;
     if \<not> month < 13 then None
     else
       let day = 1 + ucast (t div 86400); t = t mod 86400;
           hour = ucast (t div 3600); t = t mod 3600;
           minute = ucast (t div 60); t = t mod 60 in
       if \<not> t < 60 then None
       else Some \<lparr>d_year = year, d_month = month, d_day = day, d_hour = hour, d_min = minute, d_sec = ucast t\<rparr> }"

section \<open>The exchange\<close>

definition OpenLocalSocket :: "'w port \<Rightarrow> 'w net \<Rightarrow> (byte \<times> 'w net) option" where
  "OpenLocalSocket W s = do {
     let (client_port, s) = suggest_client_port W s;
     ((ps, socknum), s) \<leftarrow> UdpOpen W client_port s;
     if ps \<noteq> GOOD then None else Some (socknum, s) }"

definition ntp_request :: "byte list" where
  "ntp_request = 0xE3 # replicate 47 0"

definition SendRequest_ntp :: "'w port \<Rightarrow> byte \<Rightarrow> quad \<Rightarrow> word16 \<Rightarrow> 'w net \<Rightarrow> 'w net option" where
  "SendRequest_ntp W socknum host port s = do {
     (ps, s) \<leftarrow> UdpSend W socknum ntp_request host port s;
     if ps \<noteq> GOOD then None else Some s }"

definition time_pack :: "date \<Rightarrow> byte list" where
  "time_pack d = [ucast (d_year d - 1900), d_month d, d_day d, d_hour d, d_min d, d_sec d]"

text \<open>The date is printed; with \<^verbatim>\<open>set_time\<close> the kernel is told, which may refuse.\<close>

definition SNTP ::
  "'w port \<Rightarrow> (byte list \<Rightarrow> 'k \<Rightarrow> byte \<times> 'k) \<Rightarrow> bool \<Rightarrow> byte \<Rightarrow> quad \<Rightarrow> word16 \<Rightarrow> 'w net \<times> 'k \<Rightarrow>
    (date \<times> 'w net \<times> 'k) option" where
  "SNTP W Os9STime set_time socknum server_host server_port = (\<lambda>(s, k). do {
     s \<leftarrow> SendRequest_ntp W socknum server_host server_port s;
     ((ps, d), s) \<leftarrow> UdpRecv W socknum 2000 s;
     d \<leftarrow> (if ps \<noteq> GOOD then None else d);
     let packet = payload_bytes d;
     if length packet < 48 then None
     else do {
       (ps, s) \<leftarrow> UdpClose W socknum s;
       if ps \<noteq> GOOD then None
       else do {
         d \<leftarrow> date_of (word_rcat (take 4 (drop 40 packet)));
         if set_time then
           let (err, k) = Os9STime (time_pack d) k in if err \<noteq> 0 then None else Some (d, s, k)
         else Some (d, s, k) } } })"

section \<open>The Gregorian calendar\<close>

definition leap :: "nat \<Rightarrow> bool" where
  "leap y \<longleftrightarrow> 4 dvd y \<and> (\<not> 100 dvd y \<or> 400 dvd y)"

definition year_days :: "nat \<Rightarrow> nat" where
  "year_days y = (if leap y then 366 else 365)"

definition month_days :: "nat \<Rightarrow> nat \<Rightarrow> nat" where
  "month_days y m =
     (if m = 2 then if leap y then 29 else 28 else if m \<in> {4, 6, 9, 11} then 30 else 31)"

text \<open>The seconds from the start of 1900 to a date.\<close>

definition seconds :: "date \<Rightarrow> nat" where
  "seconds d =
     86400 * (sum_list (map year_days [1900..<unat (d_year d)]) +
       sum_list (map (month_days (unat (d_year d))) [1..<unat (d_month d)]) + (unat (d_day d) - 1)) +
     3600 * unat (d_hour d) + 60 * unat (d_min d) + unat (d_sec d)"

definition valid_date :: "date \<Rightarrow> bool" where
  "valid_date d \<longleftrightarrow> unat (d_month d) \<in> {1..12} \<and>
     unat (d_day d) \<in> {1..month_days (unat (d_year d)) (unat (d_month d))} \<and>
     unat (d_hour d) < 24 \<and> unat (d_min d) < 60 \<and> unat (d_sec d) < 60"

section \<open>The loops\<close>

text \<open>Intervals of years are not to be unfolded.\<close>

declare upt_rec_numeral [simp del]

lemma below_zero:
  assumes "unat t \<le> unat t0" "unat (t0 :: quad) + unat k < 4294967296"
  shows "t - k > t0 \<longleftrightarrow> unat t < unat k" "\<not> unat t < unat k \<Longrightarrow> unat (t - k) = unat t - unat k"
  using assms by (auto simp: word_less_nat_alt unat_sub_if')

lemma and_3: "and (y :: word16) 3 = 0 \<longleftrightarrow> 4 dvd unat y"
proof -
  have "and y 3 = take_bit 2 y" by (simp add: take_bit_eq_mask mask_eq_exp_minus_1)
  then have "unat (and y 3) = unat y mod 4" unfolding \<open>and y 3 = _\<close> unsigned_take_bit_eq by (simp add: take_bit_eq_mod)
  then show ?thesis by (metis mod_eq_0_iff_dvd unat_0 unat_eq_zero)
qed

definition julian_days :: "nat \<Rightarrow> nat" where
  "julian_days y = (if 4 dvd y then 366 else 365)"

lemma year_loop_spec:
  assumes "unat t0 < 4263344896" "unat t \<le> unat t0" "unat y + unat t div 31536000 < 65535"
  shows "\<exists>t' y'. year_loop t0 t y = Some (t', y') \<and> unat y \<le> unat y' \<and> unat t' \<le> unat t \<and>
    unat t = unat t' + 86400 * sum_list (map julian_days [unat y..<unat y']) \<and>
    unat t' < 86400 * julian_days (unat y')"
  using assms(2,3)
proof (induction "unat t" arbitrary: t y rule: less_induct)
  case less
  define k :: quad where "k = (if 4 dvd unat y then 31622400 else 31536000)"
  have k: "unat k = 86400 * julian_days (unat y)" "unat t0 + unat k < 4294967296"
    using assms(1) by (simp_all add: k_def julian_days_def)
  have step: "year_loop t0 t y = (if t - k > t0 then Some (t, y) else year_loop t0 (t - k) (y + 1))"
    by (subst year_loop.simps) (simp add: k_def and_3 diff_diff_eq)
  note b = below_zero [OF less(2) k(2)]
  show ?case
  proof (cases "unat t < unat k")
    case True
    then show ?thesis using step b k(1) by (intro exI [of _ t] exI [of _ y]) simp
  next
    case False
    then have u: "unat (t - k) = unat t - unat k" using b(2) by blast
    have big: "31536000 \<le> unat k" by (simp add: k_def)
    then have "(unat t - unat k) div 31536000 \<le> (unat t - 31536000) div 31536000"
      by (intro div_le_mono) simp
    moreover have "unat t div 31536000 = Suc ((unat t - 31536000) div 31536000)"
      using big False by (simp add: le_div_geq)
    ultimately have "(unat t - unat k) div 31536000 + 1 \<le> unat t div 31536000" by simp
    then have y: "unat (y + 1) = unat y + 1" "unat (y + 1) + unat (t - k) div 31536000 < 65535"
      using less(3) u by (simp_all add: unat_word_ariths)
    have lt: "unat (t - k) < unat t" "unat (t - k) \<le> unat t0" using u big False less(2) by simp_all
    from less(1) [OF lt y(2)] obtain t' y' where r: "year_loop t0 (t - k) (y + 1) = Some (t', y')"
        "unat (y + 1) \<le> unat y'" "unat t' \<le> unat (t - k)"
        "unat (t - k) = unat t' + 86400 * sum_list (map julian_days [unat (y + 1)..<unat y'])"
        "unat t' < 86400 * julian_days (unat y')" by blast
    have "[unat y..<unat y'] = unat y # [unat (y + 1)..<unat y']" using r(2) y(1) by (simp add: upt_conv_Cons)
    moreover have "unat t = unat (t - k) + 86400 * julian_days (unat y)" using u k(1) False by simp
    ultimately show ?thesis using r step b(1) False y(1) by simp
  qed
qed

lemma unat_days: "unat (86400 * ucast (b :: byte) :: quad) = 86400 * unat b"
proof -
  have "unat (ucast b :: quad) = unat b" 
    by (simp add: unsigned_ucast_eq take_bit_nat_eq_self_iff less_le_trans [OF unat_byte_lt])
  moreover have "86400 * unat b < 4294967296" using unat_byte_lt [of b] by linarith
  ultimately show ?thesis by (simp add: unat_word_ariths)
qed

lemma month_loop_spec:
  assumes "unat t0 < 4263344896" "unat t \<le> unat t0" "unat t < 86400 * sum_list (map (\<lambda>m. unat (month_len y m)) ms)"
  shows "\<exists>pre m post t'. ms = pre @ m # post \<and> month_loop t0 y ms t = (m, t') \<and>
    unat t = unat t' + 86400 * sum_list (map (\<lambda>m. unat (month_len y m)) pre) \<and> unat t' < 86400 * unat (month_len y m)"
  using assms(2,3)
proof (induction ms arbitrary: t)
  case (Cons m ms)
  let ?k = "86400 * ucast (month_len y m) :: quad"
  note k = unat_days [of "month_len y m"]
  have "unat t0 + unat ?k < 4294967296" using assms(1) unat_byte_lt [of "month_len y m"] k by linarith
  note b = below_zero [OF Cons(2) this]
  show ?case
  proof (cases "unat t < unat ?k")
    case True
    then show ?thesis using b(1) k by (intro exI [of _ "[]"] exI [of _ m] exI [of _ ms] exI [of _ t]) simp
  next
    case False
    then have u: "unat (t - ?k) = unat t - 86400 * unat (month_len y m)" using b(2) k by simp
    then have "unat (t - ?k) \<le> unat t0" "unat (t - ?k) < 86400 * sum_list (map (\<lambda>m. unat (month_len y m)) ms)"
      using Cons(2,3) False k by simp_all
    from Cons(1) [OF this] obtain pre m' post t' where r: "ms = pre @ m' # post"
        "month_loop t0 y ms (t - ?k) = (m', t')"
        "unat (t - ?k) = unat t' + 86400 * sum_list (map (\<lambda>m. unat (month_len y m)) pre)"
        "unat t' < 86400 * unat (month_len y m')" by blast
    have "unat t = unat (t - ?k) + 86400 * unat (month_len y m)" using u False k by simp
    then show ?thesis using r b(1) False
      by (intro exI [of _ "m # pre"] exI [of _ m'] exI [of _ post] exI [of _ t']) simp
  qed
qed simp

lemma month_list: "map unat [1, 2, 3, 4, 5, 6, 7, 8, 9, 10, 11, 12 :: byte] = [1..<13]"
  by (simp add: upt_rec)

lemma month_number:
  assumes "[1, 2, 3, 4, 5, 6, 7, 8, 9, 10, 11, 12 :: byte] = pre @ m # post"
  shows "unat m \<in> {1..12}" "map unat pre = [1..<unat m]"
proof -
  have ms: "map unat pre @ unat m # map unat post = [1..<13]" using month_list assms by simp
  have l: "length pre < 12" using arg_cong [OF ms, of length] by simp
  have "unat m = [1..<13] ! length pre" using ms by (metis length_map nth_append_length)
  then have m: "unat m = 1 + length pre" using l by simp
  then show "unat m \<in> {1..12}" using l by simp
  have "map unat pre = take (length pre) [1..<13]" using ms by (metis append_eq_conv_conj length_map)
  then show "map unat pre = [1..<unat m]" using m l by (simp add: min_def)
qed

lemma month_len_days:
  assumes "unat m \<in> {1..12}" "leap (unat y) \<longleftrightarrow> 4 dvd unat y"
  shows "unat (month_len y m) = month_days (unat y) (unat m)"
proof -
  have "m \<in> {1, 2, 3, 4, 5, 6, 7, 8, 9, 10, 11, 12}"
  proof -
    have "unat m \<in> {1, 2, 3, 4, 5, 6, 7, 8, 9, 10, 11, 12}"
      using assms(1) by (simp only: atLeastAtMost_iff insert_iff empty_iff) presburger
    then show ?thesis by (auto simp: word_unat_eq_iff)
  qed
  then show ?thesis
    using assms(2) by (auto simp: month_len_def month_days_def and_3 dpm_def nth_Cons' split: if_splits)
qed

lemma year_months: "sum_list (map (month_days y) [1..<13]) = year_days y"
  by (simp add: upt_rec month_days_def year_days_def)

lemma leap_julian:
  assumes "1900 < y" "y < 2100"
  shows "leap y \<longleftrightarrow> 4 dvd y"
proof -
  have "400 dvd y" if h: "100 dvd y"
  proof -
    obtain k where "y = 100 * k" using h by (rule dvdE)
    then have "y = 2000" using assms by simp
    then show ?thesis by simp
  qed
  then show ?thesis by (auto simp: leap_def)
qed

lemma julian_sum: "sum_list (map julian_days [4 * a..<4 * a + n]) = 365 * n + (n + 3) div 4"
proof (induction n)
  case (Suc n)
  have "4 dvd 4 * a + n \<longleftrightarrow> 4 dvd n" by presburger
  then have "julian_days (4 * a + n) = 365 + (if 4 dvd n then 1 else 0)" by (simp add: julian_days_def)
  moreover have "(Suc n + 3) div 4 = (n + 3) div 4 + (if 4 dvd n then 1 else 0)" by presburger
  ultimately show ?case using Suc by simp
qed simp

lemma years_to_2100: "sum_list (map julian_days [2020..<2100]) = 29220"
  using julian_sum [of 505 80] by simp

lemma years_to_2020: "sum_list (map year_days [1900..<2020]) = 43829"
proof -
  have "sum_list (map year_days [1901..<2020]) = sum_list (map julian_days [1901..<2020])"
    using leap_julian by (intro arg_cong [where f = sum_list] map_cong refl) (simp add: year_days_def julian_days_def)
  moreover have "[1900..<2020] = 1900 # [1901..<2020]" by (simp add: upt_conv_Cons)
  moreover have "year_days 1900 = 365" "julian_days 1900 = 366"
    by (simp_all add: year_days_def julian_days_def leap_def)
  ultimately show ?thesis using julian_sum [of 475 120] by simp
qed

lemma before_2100:
  assumes "86400 * sum_list (map julian_days [2020..<y]) \<le> t" "t < 2524608000"
  shows "y < 2100"
proof (rule ccontr)
  assume "\<not> y < 2100"
  then have "[2020..<y] = [2020..<2100] @ [2100..<y]" using upt_add_eq_append [of 2020 2100 "y - 2100"] by simp
  then have "29220 \<le> sum_list (map julian_days [2020..<y])" using years_to_2100 by simp
  then show False using assms by linarith
qed

lemma years_split:
  assumes "2020 \<le> y" "y < 2100"
  shows "sum_list (map year_days [1900..<y]) = 43829 + sum_list (map julian_days [2020..<y])"
proof -
  have "[1900..<y] = [1900..<2020] @ [2020..<y]" using assms(1) upt_add_eq_append [of 1900 2020 "y - 2020"] by simp
  moreover have "sum_list (map year_days [2020..<y]) = sum_list (map julian_days [2020..<y])"
    using assms(2) leap_julian
    by (intro arg_cong [where f = sum_list] map_cong refl) (simp add: year_days_def julian_days_def)
  ultimately show ?thesis using years_to_2020 by simp
qed

lemma day_parts:
  assumes "unat (t :: quad) < 86400 * 31"
  shows "unat (1 + ucast (t div 86400) :: byte) = 1 + unat t div 86400"
    "unat (ucast (t mod 86400 div 3600) :: byte) = unat t mod 86400 div 3600"
    "unat (ucast (t mod 86400 mod 3600 div 60) :: byte) = unat t mod 86400 mod 3600 div 60"
    "unat (ucast (t mod 86400 mod 3600 mod 60) :: byte) = unat t mod 86400 mod 3600 mod 60"
    "t mod 86400 mod 3600 mod 60 < 60"
proof -
  have small: "unat (ucast x :: byte) = unat x" if "unat x < 256" for x :: quad
    using that by (simp add: unsigned_ucast_eq take_bit_nat_eq_self_iff)
  have d: "unat t div 86400 < 31" using assms by (simp add: div_less_iff_less_mult mult.commute)
  have "unat (t div 86400) = unat t div 86400" by (simp add: unat_div_distrib)
  then show "unat (1 + ucast (t div 86400) :: byte) = 1 + unat t div 86400"
    using small [of "t div 86400"] d by (simp add: unat_word_ariths)
  let ?t = "t mod 86400"
  have 1: "unat ?t = unat t mod 86400" by (simp add: unat_mod_distrib)
  have 2: "unat (?t mod 3600) = unat t mod 86400 mod 3600" unfolding unat_mod_distrib 1 by simp
  have h: "unat (?t div 3600) = unat t mod 86400 div 3600" unfolding unat_div_distrib 1 by simp
  have "unat t mod 86400 div 3600 < 24" by (simp add: div_less_iff_less_mult)
  then show "unat (ucast (?t div 3600) :: byte) = unat t mod 86400 div 3600"
    using small [of "?t div 3600"] h by simp
  have m: "unat (?t mod 3600 div 60) = unat t mod 86400 mod 3600 div 60" unfolding unat_div_distrib 2 by simp
  have "unat t mod 86400 mod 3600 div 60 < 60" by (simp add: div_less_iff_less_mult)
  then show "unat (ucast (?t mod 3600 div 60) :: byte) = unat t mod 86400 mod 3600 div 60"
    using small [of "?t mod 3600 div 60"] m by simp
  have s: "unat (?t mod 3600 mod 60) = unat t mod 86400 mod 3600 mod 60"
    unfolding unat_mod_distrib [of _ 60] 2 by simp
  have "unat t mod 86400 mod 3600 mod 60 < 60" by simp
  then show "unat (ucast (?t mod 3600 mod 60) :: byte) = unat t mod 86400 mod 3600 mod 60"
    "?t mod 3600 mod 60 < 60"
    using small [of "?t mod 3600 mod 60"] s by (simp_all add: word_less_nat_alt)
qed

lemma day_decomp:
  obtains a b c e where "(u :: nat) div 86400 = a" "u mod 86400 div 3600 = b"
    "u mod 86400 mod 3600 div 60 = c" "u mod 86400 mod 3600 mod 60 = e" "u = 86400 * a + 3600 * b + 60 * c + e"
proof -
  have "v = d * (v div d) + v mod d" for v d :: nat by simp
  note m = this [of u 86400] this [of "u mod 86400" 3600] this [of "u mod 86400 mod 3600" 60]
  define a r where "a = u div 86400" and "r = u mod 86400"
  define b q where "b = r div 3600" and "q = r mod 3600"
  define c e where "c = q div 60" and "e = q mod 60"
  have "u = 86400 * a + r" "r = 3600 * b + q" "q = 60 * c + e"
    using m unfolding a_def b_def c_def e_def r_def q_def by blast+
  then have "u = 86400 * a + 3600 * b + 60 * c + e" by linarith
  then show ?thesis using that unfolding a_def b_def c_def e_def r_def q_def by blast
qed

lemma month_part:
  assumes "unat t0 < 4263344896" "unat t \<le> unat t0" "unat t < 86400 * julian_days (unat y)"
    "leap (unat y) \<longleftrightarrow> 4 dvd unat y"
  shows "\<exists>m u. month_loop t0 y [1, 2, 3, 4, 5, 6, 7, 8, 9, 10, 11, 12] t = (m, u) \<and> unat m \<in> {1..12} \<and>
    unat t = unat u + 86400 * sum_list (map (month_days (unat y)) [1..<unat m]) \<and>
    unat u < 86400 * month_days (unat y) (unat m)"
proof -
  let ?months = "[1, 2, 3, 4, 5, 6, 7, 8, 9, 10, 11, 12 :: byte]"
  have len: "unat (month_len y k) = month_days (unat y) (unat k)" if "k \<in> set ?months" for k
    using month_len_days [OF _ assms(4)] that by auto
  have "map (\<lambda>k. unat (month_len y k)) ?months = map (month_days (unat y)) (map unat ?months)"
    unfolding map_map comp_def map_eq_conv using len by blast
  then have "map (\<lambda>k. unat (month_len y k)) ?months = map (month_days (unat y)) [1..<13]"
    by (simp only: month_list)
  then have "unat t < 86400 * sum_list (map (\<lambda>k. unat (month_len y k)) ?months)"
    using assms(3) year_months [of "unat y"] assms(4) by (simp only: year_days_def julian_days_def)
  then obtain pre m post u where M: "?months = pre @ m # post" "month_loop t0 y ?months t = (m, u)"
      "unat t = unat u + 86400 * sum_list (map (\<lambda>k. unat (month_len y k)) pre)"
      "unat u < 86400 * unat (month_len y m)"
    using month_loop_spec [OF assms(1,2)] by blast
  have mem: "m \<in> set ?months" "set pre \<subseteq> set ?months" unfolding M(1) by auto
  have "map (\<lambda>k. unat (month_len y k)) pre = map (month_days (unat y)) (map unat pre)"
    using len mem(2) by auto
  then show ?thesis using M(2,3,4) month_number [OF M(1)] len [OF mem(1)] by auto
qed

section \<open>Properties\<close>

text \<open>
  C37. The clock is right: for every moment from 2020 to the end of 2099, given as the seconds since
  1900 (of which the packet carries the lower 32 bits, so the count may have passed 2036), the
  client finds a date; it is a date of the Gregorian calendar, and the seconds from 1900 to it
  are the given ones.
\<close>
theorem ntp_date_correct:
  assumes n: "3786825600 \<le> n" "n < 6311433600"
  shows "\<exists>d. date_of (of_nat n) = Some d \<and> valid_date d \<and> seconds d = n"
proof -
  define t0 :: quad where "t0 = of_nat n - 3786825600"
  have "t0 = of_nat (n - 3786825600)" using n(1) by (simp add: t0_def of_nat_diff)
  then have t0: "unat t0 = n - 3786825600" using n(2) by (simp add: unat_of_nat)
  have small: "unat t0 < 4263344896" "unat (2020 :: word16) + unat t0 div 31536000 < 65535"
    using t0 n(2) by auto
  obtain t y where Y: "year_loop t0 t0 2020 = Some (t, y)" "2020 \<le> unat y" "unat t \<le> unat t0"
      "unat t0 = unat t + 86400 * sum_list (map julian_days [2020..<unat y])"
      "unat t < 86400 * julian_days (unat y)"
    using year_loop_spec [OF small(1) order_refl small(2)] by auto
  have y: "unat y < 2100" using before_2100 [of "unat y" "unat t0"] Y(4) t0 n(2) by simp
  have leap: "leap (unat y) \<longleftrightarrow> 4 dvd unat y" using leap_julian Y(2) y by simp
  obtain m u where M: "month_loop t0 y [1, 2, 3, 4, 5, 6, 7, 8, 9, 10, 11, 12] t = (m, u)" "unat m \<in> {1..12}"
      "unat t = unat u + 86400 * sum_list (map (month_days (unat y)) [1..<unat m])"
      "unat u < 86400 * month_days (unat y) (unat m)"
    using month_part [OF small(1) Y(3,5) leap] by blast
  have "month_days (unat y) (unat m) \<le> 31" by (simp add: month_days_def)
  then have "unat u < 86400 * 31" using M(4) by linarith
  note parts = day_parts [OF this]
  let ?d = "\<lparr>d_year = y, d_month = m, d_day = 1 + ucast (u div 86400), d_hour = ucast (u mod 86400 div 3600),
    d_min = ucast (u mod 86400 mod 3600 div 60), d_sec = ucast (u mod 86400 mod 3600 mod 60)\<rparr>"
  have "m < 13" using M(2) by (simp add: word_less_nat_alt)
  then have "date_of (of_nat n) = Some ?d"
    using Y(1) M(1) parts(5) by (simp add: date_of_def t0_def Let_def del: month_loop.simps)
  moreover have "valid_date ?d"
    using M(2,4) parts by (simp add: valid_date_def div_less_iff_less_mult Suc_le_eq mult.commute)
  moreover have "seconds ?d = n"
  proof -
    obtain a b c e where D: "unat u div 86400 = a" "unat u mod 86400 div 3600 = b"
        "unat u mod 86400 mod 3600 div 60 = c" "unat u mod 86400 mod 3600 mod 60 = e"
        "unat u = 86400 * a + 3600 * b + 60 * c + e" by (rule day_decomp)
    have "n = 3786825600 + unat t0" using t0 n(1) by linarith
    then show ?thesis unfolding seconds_def date.simps parts(1-4) D(1-4) years_split [OF Y(2) y] Y(4) M(3) D(5)
      by (simp add: algebra_simps del: upt_rec_numeral)
  qed
  ultimately show ?thesis by blast
qed

text \<open>A moment behind the overflow of 2036.\<close>

theorem ntp_date_correct_witness:
  "\<exists>d. date_of 705032704 = Some d \<and> valid_date d \<and> seconds d = 5000000000"
proof -
  have "(of_nat 5000000000 :: quad) = 705032704" by (simp only: word_unat_eq_iff unat_of_nat) simp
  then show ?thesis using ntp_date_correct [of 5000000000] by (simp only:)
qed

declare upt_rec_numeral [simp]

end
