(* ===== verification/Net_Tcp.thy ===== *)
theory Net_Tcp
  imports Net_Wiz
begin

text \<open>
  The TCP half of the driver \<^verbatim>\<open>wiz/wiz5100s.c\<close>: opening, dialling and listening, the three
  operations that return \<^verbatim>\<open>NotYet\<close> (establish, receive, send), closing, and the forms that
  try again until the answer is another one.  \<^verbatim>\<open>size_t\<close> is a 16-bit word.  The bytes received are the
  front of the buffer of the caller; where a receive leaves a gap the buffer itself is passed.
\<close>

section \<open>Registers\<close>

definition SK_CR_LSTN :: byte where "SK_CR_LSTN = 2"
definition SK_CR_DISC :: byte where "SK_CR_DISC = 8"
definition SK_IR_TXOK :: byte where "SK_IR_TXOK = 0x10"
definition SK_SR_CLOS :: byte where "SK_SR_CLOS = 0"
definition SK_SR_LSTN :: byte where "SK_SR_LSTN = 0x14"
definition SK_SR_SYNR :: byte where "SK_SR_SYNR = 0x16"
definition SK_SR_FINW :: byte where "SK_SR_FINW = 0x18"
definition SK_SR_TIMW :: byte where "SK_SR_TIMW = 0x1B"
definition SK_SR_CLWT :: byte where "SK_SR_CLWT = 0x1C"
definition SK_SR_LACK :: byte where "SK_SR_LACK = 0x1D"
definition SK_IMR :: word16 where "SK_IMR = 0x2C"
definition SK_KPALVTR :: word16 where "SK_KPALVTR = 0x30"
definition WIZ_RING_SIZE :: word16 where "WIZ_RING_SIZE = 2048"
definition WIZ_RING_MASK :: word16 where "WIZ_RING_MASK = WIZ_RING_SIZE - 1"
definition TX_SIZE :: word16 where "TX_SIZE = 2048"

section \<open>Commands\<close>

partial_function (option) taken_loop :: "'w port \<Rightarrow> word16 \<Rightarrow> 'w net \<Rightarrow> 'w net option" where
  "taken_loop W base s =
     (let (c, s) = Get1 W (base + SK_CR) s in if c \<noteq> 0 then taken_loop W base s else Some s)"

declare taken_loop.simps [code]

definition Wiz__command :: "'w port \<Rightarrow> word16 \<Rightarrow> byte \<Rightarrow> 'w net \<Rightarrow> 'w net option" where
  "Wiz__command W base cmd s = taken_loop W base (Put1 W (base + SK_CR) cmd s)"

partial_function (option) Wiz__advance :: "'w port \<Rightarrow> word16 \<Rightarrow> byte \<Rightarrow> 'w net \<Rightarrow> (byte \<times> 'w net) option" where
  "Wiz__advance W base old_status s =
     (let (status, s) = Get1 W (base + SK_SR) s in
      if status = old_status then Wiz__advance W base old_status s else Some (status, s))"

declare Wiz__advance.simps [code]

definition Wiz__sock_command ::
  "'w port \<Rightarrow> word16 \<Rightarrow> byte \<Rightarrow> byte \<Rightarrow> 'w net \<Rightarrow> (bool \<times> 'w net) option" where
  "Wiz__sock_command W base cmd want s = do {
     s \<leftarrow> taken_loop W base (Put1 W (base + SK_CR) cmd s);
     if want \<noteq> 0 then
       let (status, s) = Get1 W (base + SK_SR) s in Some (status = want, s)
     else Some (True, s) }"

definition TcpClose :: "'w port \<Rightarrow> byte \<Rightarrow> 'w net \<Rightarrow> (prob \<times> 'w net) option" where
  "TcpClose W socknum s = do {
     let base = sock_base socknum;
     (_, s) \<leftarrow> Wiz__sock_command W base SK_CR_DISC 0 s;
     Some (GOOD, Put1 W (base + SK_MR) 0 s) }"

text \<open>\<^verbatim>\<open>return TcpClose(socknum), problem\<close>\<close>

definition close_with :: "'w port \<Rightarrow> byte \<Rightarrow> string \<Rightarrow> 'w net \<Rightarrow> (prob \<times> 'w net) option" where
  "close_with W socknum why s = do { (_, s) \<leftarrow> TcpClose W socknum s; Some (Problem why, s) }"

section \<open>Connections\<close>

definition TcpOpen :: "'w port \<Rightarrow> 'w net \<Rightarrow> ((prob \<times> byte) \<times> 'w net) option" where
  "TcpOpen W s =
     (let ((socknum, base), s) = find_available_socket W s in
      if socknum > 3 then Some ((Problem ''NoAvailableSocket'', socknum), s)
      else do {
        let s = Put1 W (base + SK_MR) SK_MR_TCP s;
        let s = Put1 W (base + SK_IR) 0xFF s;
        let s = Put1 W (base + SK_IMR) 0xFF s;
        s \<leftarrow> Wiz__command W base SK_CR_OPEN s;
        (status, s) \<leftarrow> Wiz__advance W base SK_SR_CLOS s;
        if status \<noteq> SK_SR_INIT then do {
          (err, s) \<leftarrow> close_with W socknum ''TcpCannotOpen'' s;
          Some ((err, socknum), s) }
        else Some ((GOOD, socknum), Put2 W (base + SK_TX_WR0) 0 s) })"

definition TcpDial_lib :: "'w port \<Rightarrow> byte \<Rightarrow> quad \<Rightarrow> word16 \<Rightarrow> 'w net \<Rightarrow> (prob \<times> 'w net) option" where
  "TcpDial_lib W socknum host port s = do {
     let base = sock_base socknum;
     let s = Put1 W (base + SK_KPALVTR) 6 s;
     let s = Put2 W (base + SK_DIPR0) (ucast (drop_bit 16 host)) s;
     let s = Put2 W (base + SK_DIPR0 + 2) (ucast host) s;
     let s = Put2 W (base + SK_DPORTR0) port s;
     s \<leftarrow> Wiz__command W base SK_CR_CONN s;
     Some (GOOD, s) }"

definition TcpListen :: "'w port \<Rightarrow> byte \<Rightarrow> word16 \<Rightarrow> 'w net \<Rightarrow> (prob \<times> 'w net) option" where
  "TcpListen W socknum listen_port s = do {
     let base = sock_base socknum;
     let s = Put1 W (base + SK_KPALVTR) 6 s;
     let s = Put2 W (base + SK_PORTR0) listen_port s;
     s \<leftarrow> Wiz__command W base SK_CR_LSTN s;
     (a, s) \<leftarrow> Wiz__advance W base SK_SR_INIT s;
     if a \<noteq> SK_SR_LSTN \<and> a \<noteq> SK_SR_ESTB then close_with W socknum ''TcpCannotListen'' s
     else Some (GOOD, s) }"

definition TcpEstablishOrNotYet :: "'w port \<Rightarrow> byte \<Rightarrow> 'w net \<Rightarrow> (prob \<times> 'w net) option" where
  "TcpEstablishOrNotYet W socknum s =
     (let base = sock_base socknum; (ir, s) = Get1 W (base + SK_IR) s in
      if and ir SK_IR_TOUT \<noteq> 0 then Some (Problem ''TcpTimeout'', Put1 W (base + SK_IR) SK_IR_TOUT s)
      else
        let s = (if and ir SK_IR_CON \<noteq> 0 then Put1 W (base + SK_IR) SK_IR_CON s else s);
            (status, s) = Get1 W (base + SK_SR) s in
        if status \<in> {SK_SR_LSTN, SK_SR_SYNS, SK_SR_SYNR} then Some (NotYet, s)
        else if status = SK_SR_ESTB then Some (GOOD, s)
        else if status \<in> {SK_SR_FINW, SK_SR_TIMW, SK_SR_CLWT, SK_SR_LACK, SK_SR_CLOS}
        then close_with W socknum ''TcpMoribund'' s
        else close_with W socknum ''TcpWeird'' s)"

section \<open>Receiving\<close>

definition acknowledge :: "'w port \<Rightarrow> word16 \<Rightarrow> word16 \<Rightarrow> 'w net \<Rightarrow> (prob \<times> 'w net) option" where
  "acknowledge W base rd s = do {
     (ok, s) \<leftarrow> Wiz__sock_command W base SK_CR_RECV SK_SR_ESTB (Put2 W (base + SK_RX_RD0) rd s);
     Some (if ok then GOOD else Problem ''TcpRecvBad'', s) }"

text \<open>The first \<^verbatim>\<open>n\<close> bytes of \<^verbatim>\<open>buf\<close> are the room of the caller.\<close>

definition TcpRecvUntilOrNotYet ::
  "'w port \<Rightarrow> byte \<Rightarrow> byte list \<Rightarrow> word16 \<Rightarrow> byte \<Rightarrow> 'w net \<Rightarrow> ((prob \<times> word16 \<times> byte list) \<times> 'w net) option" where
  "TcpRecvUntilOrNotYet W socknum buf n until s =
     (if \<not> n < 1200 then None
      else
        let base = sock_base socknum; rxbuf = RX_BUF socknum;
            (bytes_waiting, s) = Get2 W (base + SK_RX_RSR0) s in
        if bytes_waiting = 0 then Some ((NotYet, 0, buf), s)
        else
          let bytes_waiting = (if bytes_waiting > n then n else bytes_waiting);
              (rd, s) = Get2 W (base + SK_RX_RD0) s;
              begin = and rd WIZ_RING_MASK;
              fin = begin + bytes_waiting in do {
            ((count, buf), s) \<leftarrow>
              (if fin \<ge> WIZ_RING_SIZE then
                 let first_n = WIZ_RING_SIZE - begin;
                     second_n = bytes_waiting - first_n;
                     (xs, s) = GetNUntil W (rxbuf + begin) first_n 0 s in do {
                   buf \<leftarrow> put_bytes buf 0 xs;
                   if xs \<noteq> [] \<and> last xs \<noteq> until then
                     let (ys, s) = GetNUntil W rxbuf second_n 0 s in do {
                       buf \<leftarrow> put_bytes buf (unat first_n) ys;
                       Some ((of_nat (length xs) + of_nat (length ys), buf), s) }
                   else Some ((of_nat (length xs), buf), s) }
               else
                 let (xs, s) = GetNUntil W (rxbuf + begin) bytes_waiting 0 s in do {
                   buf \<leftarrow> put_bytes buf 0 xs;
                   Some ((of_nat (length xs), buf), s) });
            (err, s) \<leftarrow> acknowledge W base (rd + count) s;
            Some ((err, count, buf), s) })"

definition get_split :: "'w port \<Rightarrow> word16 \<Rightarrow> word16 \<Rightarrow> word16 \<Rightarrow> 'w net \<Rightarrow> byte list \<times> 'w net" where
  "get_split W rxbuf begin n s =
     (if begin + n \<ge> WIZ_RING_SIZE then
        let first_n = WIZ_RING_SIZE - begin;
            second_n = n - first_n;
            (xs, s) = GetN W (rxbuf + begin) first_n s;
            (ys, s) = GetN W rxbuf second_n s
        in (xs @ ys, s)
      else GetN W (rxbuf + begin) n s)"

text \<open>The number stored for the caller is the second result; with \<^verbatim>\<open>NotYet\<close> it is 0.\<close>

definition TcpRecvOrNotYet ::
  "'w port \<Rightarrow> byte \<Rightarrow> word16 \<Rightarrow> 'w net \<Rightarrow> ((prob \<times> word16 \<times> byte list) \<times> 'w net) option" where
  "TcpRecvOrNotYet W socknum n s =
     (if \<not> n < 1200 then None
      else
        let base = sock_base socknum; rxbuf = RX_BUF socknum;
            (bytes_waiting, s) = Get2 W (base + SK_RX_RSR0) s;
            n = (if bytes_waiting > n then n else bytes_waiting) in
        if n = 0 then Some ((NotYet, n, []), s)
        else
          let (rd, s) = Get2 W (base + SK_RX_RD0) s;
              (bs, s) = get_split W rxbuf (and rd WIZ_RING_MASK) n s in do {
            (err, s) \<leftarrow> acknowledge W base (rd + n) s;
            Some ((err, n, bs), s) })"

section \<open>Sending\<close>

partial_function (option) room_loop :: "'w port \<Rightarrow> word16 \<Rightarrow> word16 \<Rightarrow> 'w net \<Rightarrow> 'w net option" where
  "room_loop W base send_size s =
     (let (free, s) = Get2 W (base + SK_TX_FSR0) s in
      if send_size \<ge> free then room_loop W base send_size s else Some s)"

declare room_loop.simps [code]

fun put_ring :: "'w port \<Rightarrow> word16 \<Rightarrow> word16 \<Rightarrow> byte list \<Rightarrow> 'w net \<Rightarrow> 'w net" where
  "put_ring W txbuf p [] s = s"
| "put_ring W txbuf p (b # bs) s = put_ring W txbuf (and (p + 1) TX_MASK) bs (Put1 W (txbuf + p) b s)"

partial_function (option) ack_loop :: "'w port \<Rightarrow> word16 \<Rightarrow> 'w net \<Rightarrow> (prob \<times> 'w net) option" where
  "ack_loop W base s =
     (let (ir, s) = Get1 W (base + SK_IR) s in
      if and ir SK_IR_DISC \<noteq> 0 then Some (Problem ''TcpSendDisconnect'', Put1 W (base + SK_IR) SK_IR_DISC s)
      else if and ir SK_IR_TOUT \<noteq> 0 then Some (Problem ''TcpSendTimeout'', Put1 W (base + SK_IR) SK_IR_TOUT s)
      else if and ir SK_IR_TXOK \<noteq> 0 then Some (GOOD, Put1 W (base + SK_IR) SK_IR_TXOK s)
      else ack_loop W base s)"

declare ack_loop.simps [code]

definition send_piece :: "'w port \<Rightarrow> byte \<Rightarrow> byte list \<Rightarrow> 'w net \<Rightarrow> (prob \<times> 'w net) option" where
  "send_piece W socknum bs s = do {
     let base = sock_base socknum;
     let send_size = of_nat (length bs);
     let (wr, s) = Get2 W (base + SK_TX_WR0) s;
     let get_offset = and wr TX_MASK;
     s \<leftarrow> room_loop W base send_size s;
     let s = put_ring W (TX_BUF socknum) get_offset bs s;
     let (wr, s) = Get2 W (base + SK_TX_WR0) s;
     let s = Put2 W (base + SK_TX_WR0) (send_size + wr) s;
     (ok, s) \<leftarrow> Wiz__sock_command W base SK_CR_SEND SK_SR_ESTB s;
     if \<not> ok then Some (Problem ''TcpSendFailed'', s)
     else let (_, s) = Get1 W (base + SK_IR) s in ack_loop W base s }"

text \<open>Every piece is taken from the front of \<^verbatim>\<open>buf\<close>: the pointer does not move on.\<close>

function send_loop :: "'w port \<Rightarrow> byte \<Rightarrow> byte list \<Rightarrow> word16 \<Rightarrow> 'w net \<Rightarrow> (prob \<times> 'w net) option" where
  "send_loop W socknum buf left s =
     (if left = 0 then Some (GOOD, s)
      else
        let send_size = (if left < TX_SIZE then left else TX_SIZE) in do {
          (err, s) \<leftarrow> send_piece W socknum (take (unat send_size) buf) s;
          if err \<noteq> GOOD then Some (err, s)
          else send_loop W socknum buf (left - send_size) s })"
  by auto
termination
  by (relation "measure (\<lambda>(_, _, _, left, _). unat left)")
    (auto simp: TX_SIZE_def word_less_nat_alt unat_sub_if' unat_gt_0 split: if_splits)

declare send_loop.simps [simp del]

definition TcpSendOrNotYet :: "'w port \<Rightarrow> byte \<Rightarrow> byte list \<Rightarrow> 'w net \<Rightarrow> (prob \<times> 'w net) option" where
  "TcpSendOrNotYet W socknum buf s = send_loop W socknum buf (of_nat (length buf)) s"

section \<open>Blocking forms\<close>

partial_function (option) TcpEstablishBlocking :: "'w port \<Rightarrow> byte \<Rightarrow> 'w net \<Rightarrow> (prob \<times> 'w net) option" where
  "TcpEstablishBlocking W socknum s = do {
     (e, s) \<leftarrow> TcpEstablishOrNotYet W socknum s;
     if e = NotYet then TcpEstablishBlocking W socknum s else Some (e, s) }"

declare TcpEstablishBlocking.simps [code]

partial_function (option) recv_again ::
  "'w port \<Rightarrow> byte \<Rightarrow> word16 \<Rightarrow> 'w net \<Rightarrow> ((prob \<times> word16 \<times> byte list) \<times> 'w net) option" where
  "recv_again W socknum n s = do {
     ((e, got, bs), s) \<leftarrow> TcpRecvOrNotYet W socknum n s;
     if e = NotYet then recv_again W socknum n s else Some ((e, got, bs), s) }"

declare recv_again.simps [code]

definition TcpRecvBlocking ::
  "'w port \<Rightarrow> byte \<Rightarrow> word16 \<Rightarrow> 'w net \<Rightarrow> ((prob \<times> word16 \<times> byte list) \<times> 'w net) option" where
  "TcpRecvBlocking W socknum n s = do {
     ((e, got, bs), s) \<leftarrow> recv_again W socknum n s;
     if got < n then None else Some ((e, got, bs), s) }"

partial_function (option) TcpSendBlocking :: "'w port \<Rightarrow> byte \<Rightarrow> byte list \<Rightarrow> 'w net \<Rightarrow> (prob \<times> 'w net) option" where
  "TcpSendBlocking W socknum buf s = do {
     (e, s) \<leftarrow> TcpSendOrNotYet W socknum buf s;
     if e = NotYet then TcpSendBlocking W socknum buf s else Some (e, s) }"

declare TcpSendBlocking.simps [code]

end
