(* ===== verification/Net_Irq.thy ===== *)
theory Net_Irq
  imports Net_Tcp Ax_Ring
begin

text \<open>
  Interrupts in the driver: every access to the chip disables them and enables them again, and
  every operation of \<^verbatim>\<open>frobnet.h\<close> leaves them as deep as it found them, on every path and whatever
  the chip answers; the one exception is \<^verbatim>\<open>MacRawOpen\<close>.
\<close>

section \<open>Interrupts\<close>

named_theorems irqd \<open>the same for a result\<close>
named_theorems irq \<open>what an operation does to the depth to which interrupts are disabled\<close>

lemma irq_raw [irq]:
  "irq_depth (set_reg W a s) = irq_depth s" "irq_depth (put3 W b s) = irq_depth s"
  "irq_depth (DisableIrqsCounting s) = irq_depth s + 1" "irq_depth (EnableIrqsCounting s) = irq_depth s - 1"
  "irq_depth (set_raw W i b s) = irq_depth s" "irq_depth (snd (get3 W s)) = irq_depth s"
  by (simp_all add: set_reg_def put3_def DisableIrqsCounting_def EnableIrqsCounting_def set_raw_def get3_def
      split: prod.splits)

lemma irq_get3 [irqd]: "get3 W s = (b, s') \<Longrightarrow> irq_depth s' = irq_depth s"
  using irq_raw(6) [of W s] by simp

lemma irq_get3_n [irqd]: "get3_n W n s = (bs, s') \<Longrightarrow> irq_depth s' = irq_depth s"
  by (induction n arbitrary: s bs s') (auto simp: irq dest: irq_get3 split: prod.splits)

lemma irq_get3_until [irqd]: "get3_until W n u s = (bs, s') \<Longrightarrow> irq_depth s' = irq_depth s"
  by (induction n arbitrary: s bs s') (auto dest: irq_get3 split: prod.splits if_splits)

lemma irq_put3_n [irq]: "irq_depth (put3_n W bs s) = irq_depth s"
  by (induction bs arbitrary: s) (simp_all add: irq)

lemma irq_puts [irq]:
  "irq_depth (Put1 W a v s) = irq_depth s" "irq_depth (Put2 W a x s) = irq_depth s"
  "irq_depth (PutN W a bs s) = irq_depth s"
  by (simp_all add: Put1_def Put2_def PutN_def irq)

lemma irq_gets [irq]:
  "irq_depth (snd (Get1 W a s)) = irq_depth s" "irq_depth (snd (Get2 W a s)) = irq_depth s"
  "irq_depth (snd (GetN W a n s)) = irq_depth s" "irq_depth (snd (GetNUntil W a n u s)) = irq_depth s"
  by (auto simp: Get1_def Get2_def GetN_def GetNUntil_def irq split: prod.splits
      dest!: irqd)

lemma irq_got [irqd]:
  "Get1 W a s = (v, s') \<Longrightarrow> irq_depth s' = irq_depth s" "Get2 W a s = (x, s') \<Longrightarrow> irq_depth s' = irq_depth s"
  "GetN W a n s = (bs, s') \<Longrightarrow> irq_depth s' = irq_depth s"
  "GetNUntil W a n u s = (bs, s') \<Longrightarrow> irq_depth s' = irq_depth s"
  using irq_gets by (metis snd_conv)+

lemma irq_before [irqd]: "Wiz__before W l s = (b, s') \<Longrightarrow> irq_depth s' = irq_depth s"
  by (auto simp: Wiz__before_def dest!: irqd split: prod.splits)

lemma irq_wait_loop: "wait_loop W reg v l s = Some r \<Longrightarrow> irq_depth (snd r) = irq_depth s"
  by (erule wait_loop.raw_induct [where P = "\<lambda>W reg v l s r. irq_depth (snd r) = irq_depth s", rotated])
    (auto 0 4 simp: Let_def dest!: irqd split: prod.splits if_splits)

lemma irq_recv_wait: "recv_wait W base wait s = Some r \<Longrightarrow> irq_depth (snd r) = irq_depth s"
  by (erule recv_wait.raw_induct [where P = "\<lambda>W base wait s r. irq_depth (snd r) = irq_depth s", rotated])
    (auto 0 4 simp: Let_def irq dest!: irqd split: prod.splits if_splits)

lemma irq_arp_loop: "arp_loop W s = Some r \<Longrightarrow> irq_depth (snd r) = irq_depth s"
  by (erule arp_loop.raw_induct [where P = "\<lambda>W s r. irq_depth (snd r) = irq_depth s", rotated])
    (auto 0 4 simp: Let_def irq get_hw_def dest!: irqd split: prod.splits if_splits)

lemma irq_ping_loop: "ping_loop W  s = Some r \<Longrightarrow> irq_depth (snd r) = irq_depth s"
  by (erule ping_loop.raw_induct [where P = "\<lambda>W  s r. irq_depth (snd r) = irq_depth s", rotated])
    (auto 0 4 simp: Let_def irq get_hw_def dest!: irqd split: prod.splits if_splits)

lemma irq_sent_loop: "sent_loop W base s = Some s' \<Longrightarrow> irq_depth s' = irq_depth s"
  by (erule sent_loop.raw_induct [where P = "\<lambda>W base s s'. irq_depth s' = irq_depth s", rotated])
    (auto 0 4 simp: Let_def irq dest!: irqd split: prod.splits if_splits)

lemma irq_taken_loop: "taken_loop W base s = Some s' \<Longrightarrow> irq_depth s' = irq_depth s"
  by (erule taken_loop.raw_induct [where P = "\<lambda>W base s s'. irq_depth s' = irq_depth s", rotated])
    (auto 0 4 simp: Let_def irq dest!: irqd split: prod.splits if_splits)

lemma irq_Wiz__advance: "Wiz__advance W base old s = Some r \<Longrightarrow> irq_depth (snd r) = irq_depth s"
  by (erule Wiz__advance.raw_induct [where P = "\<lambda>W base old s r. irq_depth (snd r) = irq_depth s", rotated])
    (auto 0 4 simp: Let_def irq get_hw_def dest!: irqd split: prod.splits if_splits)

lemma irq_room_loop: "room_loop W base n s = Some s' \<Longrightarrow> irq_depth s' = irq_depth s"
  by (erule room_loop.raw_induct [where P = "\<lambda>W base n s s'. irq_depth s' = irq_depth s", rotated])
    (auto 0 4 simp: Let_def irq dest!: irqd split: prod.splits if_splits)

lemma irq_ack_loop: "ack_loop W base s = Some r \<Longrightarrow> irq_depth (snd r) = irq_depth s"
  by (erule ack_loop.raw_induct [where P = "\<lambda>W base s r. irq_depth (snd r) = irq_depth s", rotated])
    (auto 0 4 simp: Let_def irq get_hw_def dest!: irqd split: prod.splits if_splits)

lemma irq_pairs [irqd]:
  "wait_loop W reg v l s = Some (x, s') \<Longrightarrow> irq_depth s' = irq_depth s"
  "recv_wait W base wait s = Some (x, s') \<Longrightarrow> irq_depth s' = irq_depth s"
  "arp_loop W s = Some (m, s') \<Longrightarrow> irq_depth s' = irq_depth s"
  "ping_loop W s = Some (b, s') \<Longrightarrow> irq_depth s' = irq_depth s"
  "sent_loop W base s = Some s' \<Longrightarrow> irq_depth s' = irq_depth s"
  "taken_loop W base s = Some s' \<Longrightarrow> irq_depth s' = irq_depth s"
  "Wiz__advance W base b s = Some (b', s') \<Longrightarrow> irq_depth s' = irq_depth s"
  "room_loop W base n s = Some s' \<Longrightarrow> irq_depth s' = irq_depth s"
  "ack_loop W base s = Some (x, s') \<Longrightarrow> irq_depth s' = irq_depth s"
  using irq_wait_loop irq_recv_wait irq_arp_loop irq_ping_loop irq_sent_loop irq_taken_loop irq_Wiz__advance
    irq_room_loop irq_ack_loop by (metis snd_conv)+

lemma irq_find_from [irqd]: "find_from W n k base s = (r, s') \<Longrightarrow> irq_depth s' = irq_depth s"
  by (induction n arbitrary: k base s r s') (auto dest!: irqd split: prod.splits if_splits)

lemma irq_ring_bytes [irqd]: "ring_bytes W buf ptr n s = (r, s') \<Longrightarrow> irq_depth s' = irq_depth s"
  by (induction n arbitrary: ptr s r s') (auto dest!: irqd split: prod.splits)

lemma irq_put_ring [irq]: "irq_depth (put_ring W buf p bs s) = irq_depth s"
  by (induction bs arbitrary: p s) (auto simp: irq)

lemmas step_splits = Option.bind_split_asm prod.split_asm if_split_asm

lemma irq_wait [irqd]: "Wiz__wait W reg v ms s = Some (x, s') \<Longrightarrow> irq_depth s' = irq_depth s"
  by (auto simp: Wiz__wait_def dest!: irqd split: prod.splits)

lemma irq_steps [irqd]:
  "close_socket W base s = Some s' \<Longrightarrow> irq_depth s' = irq_depth s"
  "start_recv W base s = Some s' \<Longrightarrow> irq_depth s' = irq_depth s"
  "Wiz__command W base cmd s = Some s' \<Longrightarrow> irq_depth s' = irq_depth s"
  "Wiz__sock_command W base cmd want s = Some (ok, s') \<Longrightarrow> irq_depth s' = irq_depth s"
  "finish_open W base st s = Some (x, s') \<Longrightarrow> irq_depth s' = irq_depth s"
  by (auto simp: close_socket_def start_recv_def Wiz__command_def Wiz__sock_command_def finish_open_def
      irq Let_def dest!: irqd split: step_splits)

lemma irq_close_all [irqd]: "close_all W ks s = Some s' \<Longrightarrow> irq_depth s' = irq_depth s"
  by (induction ks arbitrary: s) (auto simp: irq Let_def dest!: irqd split: step_splits)

lemma irq_close [irqd]:
  "TcpClose W k s = Some (x, s') \<Longrightarrow> irq_depth s' = irq_depth s"
  "close_with W k why s = Some (x, s') \<Longrightarrow> irq_depth s' = irq_depth s"
  by (auto simp: TcpClose_def close_with_def irq Let_def dest!: irqd split: step_splits)

lemma irq_pure [irq]:
  "irq_depth (put_addresses W ip nm gw s) = irq_depth s" "irq_depth (socketless W ip s) = irq_depth s"
  "irq_depth (put_split W buf off bs s) = irq_depth s"
  by (simp_all add: put_addresses_def socketless_def put_split_def Let_def irq)

lemma irq_transfer [irqd]:
  "acknowledge W base rd s = Some (x, s') \<Longrightarrow> irq_depth s' = irq_depth s"
  "get_split W buf b n s = (bs, s') \<Longrightarrow> irq_depth s' = irq_depth s"
  "send_piece W k bs s = Some (x, s') \<Longrightarrow> irq_depth s' = irq_depth s"
  by (auto simp: acknowledge_def get_split_def send_piece_def irq Let_def dest!: irqd
      split: step_splits)

lemma irq_setup [irqd]:
  "WizConfigure_lib W ip nm gw s = Some s' \<Longrightarrow> irq_depth s' = irq_depth s"
  "wiz_configure_for_DHCP W name s = Some (mac, s') \<Longrightarrow> irq_depth s' = irq_depth s"
  "WizArp W ip s = Some (r, s') \<Longrightarrow> irq_depth s' = irq_depth s"
  "WizPing W ip s = Some (x, s') \<Longrightarrow> irq_depth s' = irq_depth s"
  by (auto simp: WizConfigure_lib_def wiz_configure_for_DHCP_def WizArp_def WizPing_def irq Let_def
      dest!: irqd split: step_splits)

lemma irq_find [irqd]: "find_available_socket W s = (r, s') \<Longrightarrow> irq_depth s' = irq_depth s"
  by (auto simp: find_available_socket_def dest: irqd)

lemma irq_found [irq]: "irq_depth (snd (find_available_socket W s)) = irq_depth s"
  by (metis irq_find prod.collapse)

lemma irq_raw_sockets [irqd]:
  "MacRawClose W k s = Some (x, s') \<Longrightarrow> irq_depth s' = irq_depth s"
  "MacRawRecv W k n s = Some (m, s') \<Longrightarrow> irq_depth s' = irq_depth s"
  by (auto simp: MacRawClose_def MacRawRecv_def irq Let_def dest!: irqd split: step_splits)

lemma irq_take_datagram [irqd]: "take_datagram W k n s = (d, s') \<Longrightarrow> irq_depth s' = irq_depth s"
  by (auto simp: take_datagram_def irq Let_def dest!: irqd split: prod.split_asm if_split_asm)

lemma irq_udp [irqd]:
  "UdpOpen W port s = Some (o', s') \<Longrightarrow> irq_depth s' = irq_depth s"
  "UdpClose W k s = Some (x, s') \<Longrightarrow> irq_depth s' = irq_depth s"
  "UdpSend W k bs ip port s = Some (x, s') \<Longrightarrow> irq_depth s' = irq_depth s"
  "UdpRecvCommon W k n wait s = Some (d, s') \<Longrightarrow> irq_depth s' = irq_depth s"
  by (auto simp: UdpOpen_def UdpClose_def UdpSend_def UdpRecvCommon_def irq Let_def
      dest!: irqd split: step_splits)

lemma irq_tcp [irqd]:
  "TcpOpen W s = Some (o', s') \<Longrightarrow> irq_depth s' = irq_depth s"
  "TcpDial_lib W k host port s = Some (x, s') \<Longrightarrow> irq_depth s' = irq_depth s"
  "TcpListen W k port s = Some (x, s') \<Longrightarrow> irq_depth s' = irq_depth s"
  "TcpEstablishOrNotYet W k s = Some (x, s') \<Longrightarrow> irq_depth s' = irq_depth s"
  "TcpRecvOrNotYet W k n s = Some (r, s') \<Longrightarrow> irq_depth s' = irq_depth s"
  "TcpRecvUntilOrNotYet W k buf n u s = Some (r, s') \<Longrightarrow> irq_depth s' = irq_depth s"
  by (auto simp: TcpOpen_def TcpDial_lib_def TcpListen_def TcpEstablishOrNotYet_def TcpRecvOrNotYet_def
      TcpRecvUntilOrNotYet_def irq Let_def dest!: irqd split: step_splits)

lemma irq_send_loop [irqd]: "send_loop W k buf left s = Some (x, s') \<Longrightarrow> irq_depth s' = irq_depth s"
proof (induction W k buf left s rule: send_loop.induct)
  case (1 W k buf left s)
  let ?n = "if left < TX_SIZE then left else TX_SIZE"
  note run = 1(2) [unfolded send_loop.simps [of W k buf left s] Let_def]
  show ?case
  proof (cases "left = 0")
    case False
    then obtain e u where p: "send_piece W k (take (unat ?n) buf) s = Some (e, u)"
      using run by (cases "send_piece W k (take (unat ?n) buf) s") (simp_all, metis surj_pair)
    have u: "irq_depth u = irq_depth s" using irq_transfer(3) p by blast
    show ?thesis
    proof (cases "e = GOOD")
      case True
      then have "send_loop W k buf (left - ?n) u = Some (x, s')" using run False p by (simp only: bind.simps) simp
      then show ?thesis using 1(1) [OF False refl p refl] True u by simp
    next
      case e: False
      then show ?thesis using run False p u by (simp only: bind.simps) simp
    qed
  qed (use run in simp)
qed

lemma irq_blocking:
  "TcpEstablishBlocking W k s = Some r \<Longrightarrow> irq_depth (snd r) = irq_depth s"
  "recv_again W k n s = Some r' \<Longrightarrow> irq_depth (snd r') = irq_depth s"
  "TcpSendBlocking W k buf s = Some r \<Longrightarrow> irq_depth (snd r) = irq_depth s"
  subgoal by (erule TcpEstablishBlocking.raw_induct
      [where P = "\<lambda>W k s r. irq_depth (snd r) = irq_depth s", rotated])
    (auto 0 4 dest!: irqd split: step_splits)
  subgoal by (erule recv_again.raw_induct [where P = "\<lambda>W k n s r. irq_depth (snd r) = irq_depth s", rotated])
    (auto 0 4 dest!: irqd split: step_splits)
  subgoal by (erule TcpSendBlocking.raw_induct [where P = "\<lambda>W k buf s r. irq_depth (snd r) = irq_depth s", rotated])
    (auto 0 4 simp: TcpSendOrNotYet_def dest!: irqd split: step_splits)
  done

section \<open>Properties\<close>

text \<open>The calls of \<^verbatim>\<open>frobnet.h\<close>, and a program that makes a sequence of them.\<close>

datatype net_call =
    CallReset | CallConfigure quad quad quad | CallConfigureDhcp cstr | CallReconfigure quad quad quad
  | CallArp quad | CallPing quad | CallPort | CallFind
  | CallUdpOpen word16 | CallUdpSend byte "byte list" quad word16 | CallUdpRecv byte word16
  | CallUdpRecvNotYet byte word16 | CallUdpClose byte
  | CallMacRawOpen | CallMacRawRecv byte word16 | CallMacRawClose byte
  | CallTcpOpen | CallTcpDial byte quad word16 | CallTcpListen byte word16 | CallEstablish byte
  | CallTcpRecv byte word16 | CallTcpRecvUntil byte "byte list" word16 byte | CallTcpSend byte "byte list"
  | CallEstablishBlocking byte | CallRecvBlocking byte word16 | CallSendBlocking byte "byte list"
  | CallTcpClose byte

fun make_call :: "'w port \<Rightarrow> net_call \<Rightarrow> 'w net \<Rightarrow> 'w net option" where
  "make_call W CallReset s = Some (WizReset_lib W s)"
| "make_call W (CallConfigure ip nm gw) s = WizConfigure_lib W ip nm gw s"
| "make_call W (CallConfigureDhcp name) s = map_option snd (wiz_configure_for_DHCP W name s)"
| "make_call W (CallReconfigure ip nm gw) s = Some (WizReconfigureForDhcp W ip nm gw s)"
| "make_call W (CallArp ip) s = map_option snd (WizArp W ip s)"
| "make_call W (CallPing ip) s = map_option snd (WizPing W ip s)"
| "make_call W CallPort s = Some (snd (suggest_client_port W s))"
| "make_call W CallFind s = Some (snd (find_available_socket W s))"
| "make_call W (CallUdpOpen p) s = map_option snd (UdpOpen W p s)"
| "make_call W (CallUdpSend k bs ip p) s = map_option snd (UdpSend W k bs ip p s)"
| "make_call W (CallUdpRecv k n) s = map_option snd (UdpRecv W k n s)"
| "make_call W (CallUdpRecvNotYet k n) s = map_option snd (UdpRecvNotYet W k n s)"
| "make_call W (CallUdpClose k) s = map_option snd (UdpClose W k s)"
| "make_call W CallMacRawOpen s = map_option snd (MacRawOpen W s)"
| "make_call W (CallMacRawRecv k n) s = map_option snd (MacRawRecv W k n s)"
| "make_call W (CallMacRawClose k) s = map_option snd (MacRawClose W k s)"
| "make_call W CallTcpOpen s = map_option snd (TcpOpen W s)"
| "make_call W (CallTcpDial k h p) s = map_option snd (TcpDial_lib W k h p s)"
| "make_call W (CallTcpListen k p) s = map_option snd (TcpListen W k p s)"
| "make_call W (CallEstablish k) s = map_option snd (TcpEstablishOrNotYet W k s)"
| "make_call W (CallTcpRecv k n) s = map_option snd (TcpRecvOrNotYet W k n s)"
| "make_call W (CallTcpRecvUntil k buf n u) s = map_option snd (TcpRecvUntilOrNotYet W k buf n u s)"
| "make_call W (CallTcpSend k bs) s = map_option snd (TcpSendOrNotYet W k bs s)"
| "make_call W (CallEstablishBlocking k) s = map_option snd (TcpEstablishBlocking W k s)"
| "make_call W (CallRecvBlocking k n) s = map_option snd (TcpRecvBlocking W k n s)"
| "make_call W (CallSendBlocking k bs) s = map_option snd (TcpSendBlocking W k bs s)"
| "make_call W (CallTcpClose k) s = map_option snd (TcpClose W k s)"

fun make_calls :: "'w port \<Rightarrow> net_call list \<Rightarrow> 'w net \<Rightarrow> 'w net option" where
  "make_calls W [] s = Some s"
| "make_calls W (c # calls) s = do { s \<leftarrow> make_call W c s; make_calls W calls s }"

lemma irq_make_call:
  "\<lbrakk>make_call W c s = Some s'; c \<noteq> CallMacRawOpen\<rbrakk> \<Longrightarrow> irq_depth s' = irq_depth s"
  by (cases c)
    (auto simp: WizReset_lib_def WizReconfigureForDhcp_def suggest_client_port_def Ticks_def UdpRecv_def
      UdpRecvNotYet_def TcpSendOrNotYet_def TcpRecvBlocking_def irq dest!: irqd irq_blocking
      split: step_splits prod.splits)

text \<open>\<^verbatim>\<open>MacRawOpen\<close> returns with interrupts disabled when socket 0 is in use.\<close>

lemma MacRawOpen_busy:
  assumes "find_available_socket W (DisableIrqsCounting s) = ((k, base), u)" "k > 0"
  shows "MacRawOpen W s = Some ((Problem ''NoAvailableSocket'', k), u) \<and> irq_depth u = irq_depth s + 1"
  using assms irq_find [OF assms(1)] by (simp add: MacRawOpen_def irq)

lemma MacRawOpen_free:
  assumes "find_available_socket W (DisableIrqsCounting s) = ((0, base), u)" "MacRawOpen W s = Some (r, s')"
  shows "irq_depth s' = irq_depth s"
  using assms irq_find [OF assms(1)]
  by (auto simp: MacRawOpen_def irq Let_def dest!: irq_steps(5) split: step_splits)

text \<open>
  C18. Interrupts are balanced: a program that makes any sequence of calls of the interface, but
  for \<^verbatim>\<open>MacRawOpen\<close>, and gets to its end has interrupts as deep as they were, whatever the chip
  answered and whichever of the calls failed.
\<close>
theorem interrupts_balanced:
  assumes "make_calls W calls s = Some s'" "CallMacRawOpen \<notin> set calls"
  shows "irq_depth s' = irq_depth s"
  using assms by (induction calls arbitrary: s) (auto split: step_splits dest: irq_make_call)


theorem interrupts_balanced_witness:
  "\<exists>s'. make_calls ram_port [CallReset, CallPing 0, CallFind, CallUdpClose 1]
      \<lparr>chip = (0, (\<lambda>_. 0)), irq_depth = 0, ping_sequence = 7\<rparr> = Some s' \<and> irq_depth s' = 0"
proof -
  have "\<not> Option.is_none (make_calls ram_port [CallReset, CallPing 0, CallFind, CallUdpClose 1]
      \<lparr>chip = (0, (\<lambda>_. 0)), irq_depth = 0, ping_sequence = 7\<rparr>)" by code_simp
  then obtain s' where r: "make_calls ram_port [CallReset, CallPing 0, CallFind, CallUdpClose 1]
      \<lparr>chip = (0, (\<lambda>_. 0)), irq_depth = 0, ping_sequence = 7\<rparr> = Some s'"
    by (auto simp only: Option.is_none_def)
  then show ?thesis using interrupts_balanced [OF r] by simp
qed
end
