(* ===== verification/Net_Ring.thy ===== *)
theory Net_Ring
  imports Net_Irq
begin

text \<open>
  What the driver promises of the rings of the chip.  To the laws of \<^verbatim>\<open>quiet_chip\<close> comes one:
  clearing an interrupt changes neither the buffers nor the pointers that the host owns.
\<close>

section \<open>Accesses\<close>

definition wiz_chip :: "'w port \<Rightarrow> ('w \<Rightarrow> ax_mem) \<Rightarrow> ('w \<Rightarrow> word16) \<Rightarrow> bool" where
  "wiz_chip W regs cur \<longleftrightarrow> quiet_chip W regs cur \<and>
     (\<forall>b w a. interrupt_reg (cur w) \<longrightarrow> host_owned a \<longrightarrow> regs (pwrite W 3 b w) a = regs w a)"

lemma wiz_quiet: "wiz_chip W regs cur \<Longrightarrow> quiet_chip W regs cur"
  by (simp add: wiz_chip_def)

lemma chip_gets:
  "Get1 W a s = (let (v, c) = WizGet1 W a (chip s) in (v, s\<lparr>chip := c\<rparr>))"
  "Get2 W a s = (let (x, c) = WizGet2 W a (chip s) in (x, s\<lparr>chip := c\<rparr>))"
  by (simp_all add: Get1_def Get2_def WizGet1_def WizGet2_def get3_def set_reg_def set_addr_def
      DisableIrqsCounting_def EnableIrqsCounting_def Let_def split: prod.splits)

lemma chip_get3_n: "get3_n W n s = (let (bs, c) = get_data W n (chip s) in (bs, s\<lparr>chip := c\<rparr>))"
  by (induction n arbitrary: s) (simp_all add: get3_def Let_def split: prod.splits)

lemma chip_getN: "GetN W a n s = (let (bs, c) = WizGetN W a n (chip s) in (bs, s\<lparr>chip := c\<rparr>))"
  by (simp add: GetN_def WizGetN_def chip_get3_n set_reg_def set_addr_def DisableIrqsCounting_def
      EnableIrqsCounting_def Let_def split: prod.splits)

lemma chip_puts:
  "chip (Put1 W a v s) = WizPut1 W a v (chip s)" "chip (Put2 W a x s) = WizPut2 W a x (chip s)"
  by (simp_all add: Put1_def Put2_def WizPut1_def WizPut2_def put3_def set_reg_def set_addr_def
      DisableIrqsCounting_def EnableIrqsCounting_def)

lemma read1_at:
  assumes "quiet_chip W regs cur" "0x400 \<le> a" "Get1 W a s = (v, s')"
  shows "v = regs (chip s) a \<and> regs (chip s') = regs (chip s)"
  using assms quiet_get1 [OF assms(1,2)] by (auto simp: chip_gets Let_def split: prod.splits)

lemma read2_at:
  assumes "quiet_chip W regs cur" "0x400 \<le> a" "0x400 \<le> a + 1" "Get2 W a s = (v, s')"
  shows "v = reg2 (regs (chip s)) a \<and> regs (chip s') = regs (chip s)"
  using assms quiet_get2 [OF assms(1-3)] by (auto simp: chip_gets Let_def split: prod.splits)

lemma read2_any:
  assumes "quiet_chip W regs cur" "Get2 W a s = (v, s')"
  shows "regs (chip s') = regs (chip s)"
  using assms(2) quiet(1-4) [OF assms(1)]
  by (auto simp: chip_gets WizGet2_def Let_def split: prod.splits) (metis snd_conv)

lemma put1_plain:
  assumes "quiet_chip W regs cur" "plain_reg a"
  shows "regs (chip (Put1 W a v s)) = (regs (chip s))(a := v)"
  using quiet [OF assms(1)] assms(2) by (simp add: chip_puts WizPut1_def plain_reg_def)

lemma put2_plain:
  assumes "quiet_chip W regs cur" "plain_reg a" "plain_reg (a + 1)"
  shows "regs (chip (Put2 W a v s)) = (regs (chip s))(a := hi v, a + 1 := lo v)"
  using quiet_put2 [OF assms] by (simp add: chip_puts)

lemma put1_command:
  assumes q: "quiet_chip W regs cur" and a: "command_reg a"
  shows "regs (chip (Put1 W a v s)) a = 0"
    "host_owned x \<Longrightarrow> regs (chip (Put1 W a v s)) x = regs (chip s) x"
proof -
  let ?w = "set_addr W a (chip s)"
  have w: "cur ?w = a" "regs ?w = regs (chip s)" using quiet(1,2) [OF q] by blast+
  have "\<And>b w. command_reg (cur w) \<Longrightarrow> regs (pwrite W 3 b w) (cur w) = 0 \<and>
      (\<forall>x. host_owned x \<longrightarrow> regs (pwrite W 3 b w) x = regs w x)"
    using q unfolding quiet_chip_def by blast
  from this [of ?w v] show "regs (chip (Put1 W a v s)) a = 0"
    "host_owned x \<Longrightarrow> regs (chip (Put1 W a v s)) x = regs (chip s) x"
    using w a by (simp_all add: chip_puts WizPut1_def)
qed

lemma put1_interrupt:
  assumes "wiz_chip W regs cur" "interrupt_reg a" "host_owned x"
  shows "regs (chip (Put1 W a v s)) x = regs (chip s) x"
  using assms quiet(1,2) [OF wiz_quiet [OF assms(1)], of a "chip s"]
  by (simp add: chip_puts WizPut1_def wiz_chip_def)

section \<open>Sockets\<close>

lemma socknum_cases:
  assumes "\<not> socknum > (3 :: byte)"
  shows "socknum \<in> {0, 1, 2, 3}"
proof -
  have "unat socknum \<in> {0, 1, 2, 3}" using assms by (auto simp: not_less word_le_nat_alt)
  then show ?thesis by (auto simp: word_unat_eq_iff)
qed

lemma sock_regs:
  assumes "socknum \<in> {0, 1, 2, 3 :: byte}"
  shows "command_reg (sock_base socknum + SK_CR)" "interrupt_reg (sock_base socknum + SK_IR)"
    "0x400 \<le> sock_base socknum + SK_CR" "0x400 \<le> sock_base socknum + SK_IR"
    "0x400 \<le> sock_base socknum + SK_SR"
  using assms by (auto simp: sock_base_def wiz_regs command_reg_def interrupt_reg_def)

lemma sock_words:
  assumes "socknum \<in> {0, 1, 2, 3 :: byte}"
    and "r \<in> {SK_TX_FSR0, SK_TX_WR0, SK_RX_RSR0, SK_RX_RD0, 0x2A, 0x0c, 0x0e, 0x10}"
  shows "0x400 \<le> sock_base socknum + r" "0x400 \<le> sock_base socknum + r + 1"
    "plain_reg (sock_base socknum + r)" "plain_reg (sock_base socknum + r + 1)"
    "sock_base socknum + r < 0x4000" "sock_base socknum + r + 1 < 0x4000"
  using assms by (auto simp: sock_base_def wiz_regs command_reg_def plain_reg_def interrupt_reg_def)

lemma sock_host:
  assumes "socknum \<in> {0, 1, 2, 3 :: byte}" "r \<in> {SK_TX_WR0, SK_RX_RD0}"
  shows "host_owned (sock_base socknum + r)" "host_owned (sock_base socknum + r + 1)"
  using assms by (auto simp: sock_base_def wiz_regs host_owned_def lo_def)

lemma sock_rings:
  assumes "socknum \<in> {0, 1, 2, 3 :: byte}"
  shows "0x4000 \<le> RX_BUF socknum" "unat (RX_BUF socknum) \<le> 0x7800"
    "0x4000 \<le> TX_BUF socknum" "unat (TX_BUF socknum) \<le> 0x7800"
  using assms by (auto simp: RX_BUF_def TX_BUF_def)

section \<open>Commands\<close>

lemma taken_at:
  assumes q: "quiet_chip W regs cur" and k: "socknum \<in> {0, 1, 2, 3 :: byte}"
    and z: "regs (chip s) (sock_base socknum + SK_CR) = 0"
  shows "\<exists>s'. taken_loop W (sock_base socknum) s = Some s' \<and> regs (chip s') = regs (chip s)"
proof -
  obtain c u where g: "Get1 W (sock_base socknum + SK_CR) s = (c, u)" by fastforce
  show ?thesis using read1_at [OF q sock_regs(3) [OF k] g] z g by (subst taken_loop.simps) simp
qed

lemma wait_at:
  assumes q: "quiet_chip W regs cur" and k: "socknum \<in> {0, 1, 2, 3 :: byte}"
    and z: "regs (chip s) (sock_base socknum + SK_CR) = 0"
  shows "\<exists>x s'. Wiz__wait W (sock_base socknum + SK_CR) 0 ms s = Some (x, s') \<and> regs (chip s') = regs (chip s)"
proof -
  obtain t u where t: "Get2 W 0x82 s = (t, u)" by fastforce
  obtain t' v where t': "Get2 W 0x82 u = (t', v)" by fastforce
  obtain c x where g: "Get1 W (sock_base socknum + SK_CR) v = (c, x)" by fastforce
  note 1 = read2_any [OF q t] and 2 = read2_any [OF q t'] and 3 = read1_at [OF q sock_regs(3) [OF k] g]
  show ?thesis using 1 2 3 z t t' g
    by (simp add: Wiz__wait_def wait_loop.simps Wiz__before_def)
qed

lemma sock_command_at:
  assumes q: "quiet_chip W regs cur" and k: "socknum \<in> {0, 1, 2, 3 :: byte}" and w: "want \<noteq> 0"
  shows "\<exists>s'. Wiz__sock_command W (sock_base socknum) cmd want s =
      Some (regs (chip s') (sock_base socknum + SK_SR) = want, s') \<and>
    (\<forall>x. host_owned x \<longrightarrow> regs (chip s') x = regs (chip s) x)"
proof -
  let ?u = "Put1 W (sock_base socknum + SK_CR) cmd s"
  note c = put1_command [OF q sock_regs(1) [OF k], where v = cmd and s = s]
  obtain u where u: "taken_loop W (sock_base socknum) ?u = Some u" "regs (chip u) = regs (chip ?u)"
    using taken_at [OF q k c(1)] by blast
  obtain st v where v: "Get1 W (sock_base socknum + SK_SR) u = (st, v)" by fastforce
  note g = read1_at [OF q sock_regs(5) [OF k] v]
  show ?thesis using u v g c w by (intro exI [of _ v]) (simp add: Wiz__sock_command_def)
qed

lemma host_buffer: "0x4000 \<le> x \<Longrightarrow> host_owned x"
  by (auto simp: host_owned_def word_le_nat_alt)

text \<open>A pointer of a socket stored, and kept while the buffers are.\<close>

lemma put2_pointer:
  assumes q: "quiet_chip W regs cur" and k: "socknum \<in> {0, 1, 2, 3 :: byte}"
    and r: "r \<in> {SK_TX_FSR0, SK_TX_WR0, SK_RX_RSR0, SK_RX_RD0, 0x2A, 0x0c, 0x0e, 0x10}"
  shows "reg2 (regs (chip (Put2 W (sock_base socknum + r) v s))) (sock_base socknum + r) = v"
    "0x4000 \<le> x \<Longrightarrow> regs (chip (Put2 W (sock_base socknum + r) v s)) x = regs (chip s) x"
  using put_pointer [OF q sock_words(3,4,5,6) [OF k r], where v = v and w = "chip s"] by (simp_all add: chip_puts)

section \<open>Receiving from a stream\<close>

lemma get_split_ring:
  assumes q: "quiet_chip W regs cur" and R: "0x4000 \<le> R" "unat R \<le> 0x7800" and b: "unat b < 2048"
    and n: "unat n \<le> 2048"
  shows "\<exists>s'. get_split W R b n s = (map (\<lambda>i. regs (chip s) (ring_at R (unat b) i)) [0..<unat n], s') \<and>
    regs (chip s') = regs (chip s)"
proof -
  obtain c where c: "(if b + n \<ge> RING_SIZE then
        (let (xs, w) = WizGetN W (R + b) (RING_SIZE - b) (chip s);
             (ys, w) = WizGetN W R (n - (RING_SIZE - b)) w in (xs @ ys, w))
      else WizGetN W (R + b) n (chip s)) = (map (\<lambda>i. regs (chip s) (ring_at R (unat b) i)) [0..<unat n], c)"
    "regs c = regs (chip s)"
    using read_ring [OF q R b n refl refl] by blast
  have "get_split W R b n s = (map (\<lambda>i. regs (chip s) (ring_at R (unat b) i)) [0..<unat n], s\<lparr>chip := c\<rparr>)"
    using c(1) by (auto simp: get_split_def chip_getN WIZ_RING_SIZE_def RING_SIZE_def Let_def
        split: prod.splits if_splits)
  then show ?thesis using c(2) by simp
qed

lemma acknowledge_at:
  assumes q: "quiet_chip W regs cur" and k: "socknum \<in> {0, 1, 2, 3 :: byte}"
  shows "\<exists>s'. acknowledge W (sock_base socknum) rd s =
      Some (if regs (chip s') (sock_base socknum + SK_SR) = SK_SR_ESTB then GOOD else Problem ''TcpRecvBad'', s') \<and>
    reg2 (regs (chip s')) (sock_base socknum + SK_RX_RD0) = rd \<and>
    (\<forall>x \<ge> 0x4000. regs (chip s') x = regs (chip s) x)"
proof -
  let ?b = "sock_base socknum"
  let ?p = "Put2 W (?b + SK_RX_RD0) rd s"
  have est: "SK_SR_ESTB \<noteq> 0" by (simp add: SK_SR_ESTB_def)
  obtain s' where s': "Wiz__sock_command W ?b SK_CR_RECV SK_SR_ESTB ?p =
      Some (regs (chip s') (?b + SK_SR) = SK_SR_ESTB, s')"
    "\<forall>x. host_owned x \<longrightarrow> regs (chip s') x = regs (chip ?p) x"
    using sock_command_at [OF q k est] by blast
  have "reg2 (regs (chip s')) (?b + SK_RX_RD0) = rd"
    using s'(2) sock_host [OF k, of SK_RX_RD0] put2_pointer(1) [OF q k, of SK_RX_RD0 rd s]
    by (simp add: reg2_def)
  moreover have "\<forall>y \<ge> 0x4000. regs (chip s') y = regs (chip s) y"
    using s'(2) host_buffer put2_pointer(2) [OF q k, of SK_RX_RD0] by simp
  ultimately show ?thesis using s'(1) by (intro exI [of _ s']) (simp add: acknowledge_def)
qed

text \<open>
  C19. Receiving from a stream: \<^verbatim>\<open>TcpRecvOrNotYet\<close> always comes back while the net is quiet.  It gives
  what waits, but not more than \<^verbatim>\<open>n\<close> bytes: the bytes from the read pointer on, going round at the
  end of the ring; it answers \<^verbatim>\<open>NotYet\<close> exactly when there are none and \<^verbatim>\<open>GOOD\<close> exactly when there are
  some and the connection still stands; the read pointer moves by their number and no byte of
  any buffer changes.
\<close>
theorem TcpRecv_ring:
  assumes q: "quiet_chip W regs cur" and k: "\<not> socknum > 3" and n: "n < 1200"
  shows "\<exists>err got bs s'. TcpRecvOrNotYet W socknum n s = Some ((err, got, bs), s') \<and>
    got = min n (reg2 (regs (chip s)) (sock_base socknum + SK_RX_RSR0)) \<and>
    (err = NotYet \<longleftrightarrow> got = 0) \<and>
    (err = GOOD \<longleftrightarrow> got \<noteq> 0 \<and> regs (chip s') (sock_base socknum + SK_SR) = SK_SR_ESTB) \<and>
    bs = map (\<lambda>i. regs (chip s) (ring_at (RX_BUF socknum)
        (unat (reg2 (regs (chip s)) (sock_base socknum + SK_RX_RD0)) mod 2048) i)) [0..<unat got] \<and>
    reg2 (regs (chip s')) (sock_base socknum + SK_RX_RD0) =
      reg2 (regs (chip s)) (sock_base socknum + SK_RX_RD0) + got \<and>
    (\<forall>x \<ge> 0x4000. regs (chip s') x = regs (chip s) x)"
proof -
  note k' = socknum_cases [OF k]
  let ?b = "sock_base socknum" and ?m = "regs (chip s)"
  let ?rd = "reg2 ?m (?b + SK_RX_RD0)"
  let ?got = "min n (reg2 ?m (?b + SK_RX_RSR0))"
  obtain w u where w: "Get2 W (?b + SK_RX_RSR0) s = (w, u)" by fastforce
  have w': "w = reg2 ?m (?b + SK_RX_RSR0)" "regs (chip u) = ?m"
    using read2_at [OF q sock_words(1,2) [OF k'] w] by simp_all
  have got: "(if w > n then n else w) = ?got" using w' by (auto simp: min_def)
  show ?thesis
  proof (cases "?got = 0")
    case True
    then have "TcpRecvOrNotYet W socknum n s = Some ((NotYet, 0, []), u)"
      using n w got by (simp add: TcpRecvOrNotYet_def Let_def)
    then show ?thesis using True w' by (intro exI conjI) auto
  next
    case False
    obtain rd v where v: "Get2 W (?b + SK_RX_RD0) u = (rd, v)" by fastforce
    have rd: "rd = ?rd" "regs (chip v) = ?m"
      using read2_at [OF q sock_words(1,2) [OF k'] v] w' by simp_all
    have m: "unat (and rd WIZ_RING_MASK) = unat ?rd mod 2048"
      using unat_RING_MASK [of rd] rd by (simp add: WIZ_RING_MASK_def WIZ_RING_SIZE_def RING_MASK_def RING_SIZE_def)
    have "?got \<le> n" by simp
    then have le: "unat ?got \<le> 2048" using n by (simp only: word_le_nat_alt word_less_nat_alt) simp
    have lt: "unat (and rd WIZ_RING_MASK) < 2048" unfolding m by simp
    let ?bs = "map (\<lambda>i. ?m (ring_at (RX_BUF socknum) (unat ?rd mod 2048) i)) [0..<unat ?got]"
    obtain x where x: "get_split W (RX_BUF socknum) (and rd WIZ_RING_MASK) ?got v = (?bs, x)" "regs (chip x) = ?m"
      using get_split_ring [OF q sock_rings(1,2) [OF k'] lt le, of v] rd m by auto
    obtain s' where s': "acknowledge W ?b (rd + ?got) x =
        Some (if regs (chip s') (?b + SK_SR) = SK_SR_ESTB then GOOD else Problem ''TcpRecvBad'', s')"
      "reg2 (regs (chip s')) (?b + SK_RX_RD0) = rd + ?got" "\<forall>y \<ge> 0x4000. regs (chip s') y = regs (chip x) y"
      using acknowledge_at [OF q k'] by blast
    have "TcpRecvOrNotYet W socknum n s =
        Some ((if regs (chip s') (?b + SK_SR) = SK_SR_ESTB then GOOD else Problem ''TcpRecvBad'', ?got, ?bs), s')"
      using n w got False v x s'(1) by (simp add: TcpRecvOrNotYet_def Let_def)
    then show ?thesis using False rd(1) s' x(2)
      by (intro exI [of _ "if regs (chip s') (?b + SK_SR) = SK_SR_ESTB then GOOD else Problem ''TcpRecvBad''"]
          exI [of _ ?got] exI [of _ ?bs] exI [of _ s'] conjI) simp_all
  qed
qed

section \<open>Receiving datagrams\<close>

lemma unat_RX_MASK: "unat (and ptr RX_MASK) = unat ptr mod 2048"
  using unat_RING_MASK [of ptr] by (simp add: RX_MASK_def RING_MASK_def RING_SIZE_def)

lemma ring_bytes_at:
  assumes q: "quiet_chip W regs cur" and R: "0x4000 \<le> R" "unat R \<le> 0x7800" and p: "unat ptr < 2048"
  shows "\<exists>ptr' s'. ring_bytes W R ptr n s = ((map (\<lambda>i. regs (chip s) (ring_at R (unat ptr) i)) [0..<n], ptr'), s') \<and>
    unat ptr' = (unat ptr + n) mod 2048 \<and> regs (chip s') = regs (chip s)"
  using p
proof (induction n arbitrary: ptr s)
  case (Suc n)
  obtain b u where b: "Get1 W (R + ptr) s = (b, u)" by fastforce
  have 0: "0x400 \<le> R + ptr" using buffer_plain(2) [OF R(1), of "unat ptr"] R(2) Suc(2) by simp
  have u: "b = regs (chip s) (ring_at R (unat ptr) 0)" "regs (chip u) = regs (chip s)"
    using read1_at [OF q 0 b] Suc(2) by (simp_all add: ring_at_def)
  let ?p = "and (ptr + 1) RX_MASK"
  have un: "unat (ptr + 1) = unat ptr + 1" using unat_offset [of ptr 1] Suc(2) by simp
  have p: "unat ?p = Suc (unat ptr) mod 2048" unfolding unat_RX_MASK un by simp
  then have lt: "unat ?p < 2048" by simp
  have at: "ring_at R (unat ?p) i = ring_at R (unat ptr) (Suc i)" for i
    unfolding p ring_at_def by (simp add: mod_simps)
  have up: "[0..<Suc n] = 0 # map Suc [0..<n]" by (simp only: upt_conv_Cons map_Suc_upt zero_less_Suc)
  have md: "(unat ?p + n) mod 2048 = (unat ptr + Suc n) mod 2048" unfolding p by (simp add: mod_simps)
  from Suc(1) [OF lt, of u] obtain ptr' s' where
    "ring_bytes W R ?p n u = ((map (\<lambda>i. regs (chip u) (ring_at R (unat ?p) i)) [0..<n], ptr'), s')"
    "unat ptr' = (unat ptr + Suc n) mod 2048" "regs (chip s') = regs (chip u)" unfolding md by blast
  then show ?case unfolding up using b u at by (auto simp del: upt_Suc simp: comp_def)
qed simp

lemma start_recv_at:
  assumes c: "wiz_chip W regs cur" and k: "socknum \<in> {0, 1, 2, 3 :: byte}"
  shows "\<exists>s'. start_recv W (sock_base socknum) s = Some s' \<and>
    (\<forall>x. host_owned x \<longrightarrow> regs (chip s') x = regs (chip s) x)"
proof -
  note q = wiz_quiet [OF c]
  let ?u = "Put1 W (sock_base socknum + SK_IR) 0x1f s"
  let ?v = "Put1 W (sock_base socknum + SK_CR) 0x40 ?u"
  obtain x s' where "Wiz__wait W (sock_base socknum + SK_CR) 0 500 ?v = Some (x, s')"
      "regs (chip s') = regs (chip ?v)"
    using wait_at [OF q k put1_command(1) [OF q sock_regs(1) [OF k]]] by blast
  then show ?thesis
    using put1_command(2) [OF q sock_regs(1) [OF k]] put1_interrupt [OF c sock_regs(2) [OF k]]
    by (simp add: start_recv_def)
qed

lemma recv_wait_at:
  assumes c: "wiz_chip W regs cur" and k: "socknum \<in> {0, 1, 2, 3 :: byte}"
    and r: "recv_wait W (sock_base socknum) wait s = Some r"
  shows "\<forall>x. host_owned x \<longrightarrow> regs (chip (snd r)) x = regs (chip s) x"
proof -
  have "V = W \<longrightarrow> base = sock_base socknum \<longrightarrow>
      (\<forall>x. host_owned x \<longrightarrow> regs (chip (snd r)) x = regs (chip s) x)"
    if "recv_wait V base wait s = Some r" for V base wait s r
  proof (rule recv_wait.raw_induct [OF _ that, where P = "\<lambda>V base wait s r. V = W \<longrightarrow>
      base = sock_base socknum \<longrightarrow> (\<forall>x. host_owned x \<longrightarrow> regs (chip (snd r)) x = regs (chip s) x)"])
    fix f and V :: "'a port" and base wait s r
    assume IH: "\<And>V base wait s r. f V base wait s = Some r \<Longrightarrow> V = W \<longrightarrow> base = sock_base socknum \<longrightarrow>
        (\<forall>x. host_owned x \<longrightarrow> regs (chip (snd r)) x = regs (chip s) x)"
      and run: "(let (irq, s) = Get1 V (base + SK_IR) s in
          if irq \<noteq> 0 then let s = Put1 V (base + SK_IR) 0x1f s in
            Some (if irq \<noteq> 0x04 then Problem ''BadRecv'' else GOOD, s)
          else if \<not> wait then Some (NotYet, s) else f V base wait s) = Some r"
    show "V = W \<longrightarrow> base = sock_base socknum \<longrightarrow>
        (\<forall>x. host_owned x \<longrightarrow> regs (chip (snd r)) x = regs (chip s) x)"
    proof (intro impI)
      assume e: "V = W" "base = sock_base socknum"
      obtain b u where b: "Get1 W (sock_base socknum + SK_IR) s = (b, u)" by fastforce
      note u = read1_at [OF wiz_quiet [OF c] sock_regs(4) [OF k] b]
      show "\<forall>x. host_owned x \<longrightarrow> regs (chip (snd r)) x = regs (chip s) x"
        using run b u e IH [of W "sock_base socknum" wait u r] put1_interrupt [OF c sock_regs(2) [OF k]]
        by (auto simp: Let_def split: if_splits)
    qed
  qed
  then show ?thesis using r by blast
qed

lemma rx_rd_kept:
  assumes "socknum \<in> {0, 1, 2, 3 :: byte}" "\<And>x. host_owned x \<Longrightarrow> m' x = m x"
  shows "reg2 m' (sock_base socknum + SK_RX_RD0) = reg2 m (sock_base socknum + SK_RX_RD0)"
  using assms(2) sock_host [OF assms(1), of SK_RX_RD0] by (simp add: reg2_def)

lemma clear_dest_at:
  assumes q: "quiet_chip W regs cur" and k: "socknum \<in> {0, 1, 2, 3 :: byte}" and x: "host_owned x"
  shows "regs (chip (Put2 W (sock_base socknum + 0x10) 0 (Put2 W (sock_base socknum + 0x0e) 0
    (Put2 W (sock_base socknum + 0x0c) 0 s)))) x = regs (chip s) x"
proof -
  have "regs (chip (Put2 W (sock_base socknum + r) 0 u)) x = regs (chip u) x" if r: "r \<in> {0x0c, 0x0e, 0x10}" for r u
  proof -
    have "x \<noteq> sock_base socknum + r" "x \<noteq> sock_base socknum + r + 1"
      using x k r by (auto simp: host_owned_def sock_base_def lo_def)
    then show ?thesis using put2_plain [OF q sock_words(3,4) [OF k, of r], of 0 u] r by auto
  qed
  then show ?thesis by simp
qed

lemma take_datagram_at:
  assumes q: "quiet_chip W regs cur" and k: "socknum \<in> {0, 1, 2, 3 :: byte}"
    and r: "take_datagram W socknum n s = ((GOOD, Some d), s')"
  defines "m \<equiv> regs (chip s)" and "b \<equiv> sock_base socknum"
  defines "at \<equiv> (\<lambda>i. m (ring_at (RX_BUF socknum) (unat (reg2 m (b + SK_RX_RD0)) mod 2048) i))"
  shows "udp_header (map at [0..<8]) =
      \<lparr>hdr_addr = from_addr d, hdr_port = from_port d, udp_len = of_nat (length (payload_bytes d))\<rparr>"
    "payload_bytes d = map at [8..<8 + length (payload_bytes d)]" "length (payload_bytes d) \<le> unat n"
    "\<exists>u. s' = Put2 W (b + SK_RX_RD0) (and RX_MASK (reg2 m (b + SK_RX_RD0) + reg2 m (b + SK_RX_RSR0))) u \<and>
      regs (chip u) = m"
proof -
  let ?b = "sock_base socknum" and ?R = "RX_BUF socknum"
  obtain w5 u5 where 5: "Get2 W (?b + SK_RX_RSR0) s = (w5, u5)" by fastforce
  obtain rd u6 where 6: "Get2 W (?b + SK_RX_RD0) u5 = (rd, u6)" by fastforce
  obtain w7 u7 where 7: "Get2 W (?b + 0x2A) u6 = (w7, u7)" by fastforce
  note g5 = read2_at [OF q sock_words(1,2) [OF k] 5, simplified]
    and g6 = read2_at [OF q sock_words(1,2) [OF k] 6, simplified]
    and g7 = read2_at [OF q sock_words(1,2) [OF k] 7, simplified]
  have m7: "regs (chip u7) = m" and rd: "rd = reg2 m (b + SK_RX_RD0)" and w5: "w5 = reg2 m (b + SK_RX_RSR0)"
    using g5 g6 g7 by (simp_all add: m_def b_def)
  let ?p = "and rd RX_MASK"
  have p: "unat ?p = unat rd mod 2048" "unat ?p < 2048" by (simp_all add: unat_RX_MASK)
  have at: "m (ring_at ?R (unat ?p) i) = at i" for i using p rd by (simp add: at_def)
  obtain ptr u8 where 8: "ring_bytes W ?R ?p 8 u7 = ((map at [0..<8], ptr), u8)"
      "unat ptr = (unat ?p + 8) mod 2048" "regs (chip u8) = m"
    using ring_bytes_at [OF q sock_rings(1,2) [OF k] p(2), of 8 u7] at m7 by auto
  let ?h = "udp_header (map at [0..<8])"
  let ?l = "unat (udp_len ?h)"
  have lt: "unat ptr < 2048" unfolding 8(2) by simp
  have at8: "ring_at ?R (unat ptr) i = ring_at ?R (unat ?p) (8 + i)" for i
    unfolding 8(2) ring_at_def by (simp add: mod_simps add.assoc)
  obtain ptr' u9 where 9: "ring_bytes W ?R ptr ?l u8 = ((map (\<lambda>i. at (8 + i)) [0..<?l], ptr'), u9)"
      "regs (chip u9) = m"
    using ring_bytes_at [OF q sock_rings(1,2) [OF k] lt, of ?l u8] at 8(3) unfolding at8 by auto
  have fits: "\<not> udp_len ?h > n"
    using r 5 6 7 8(1) by (auto simp: take_datagram_def Let_def split: if_split_asm)
  have run: "d = \<lparr>from_addr = hdr_addr ?h, from_port = hdr_port ?h, payload_bytes = map (\<lambda>i. at (8 + i)) [0..<?l]\<rparr>"
      "s' = Put2 W (?b + SK_RX_RD0) (and RX_MASK (rd + w5)) u9"
    using r 5 6 7 8(1) 9(1) fits by (simp_all add: take_datagram_def Let_def)
  show "udp_header (map at [0..<8]) =
      \<lparr>hdr_addr = from_addr d, hdr_port = from_port d, udp_len = of_nat (length (payload_bytes d))\<rparr>"
    "length (payload_bytes d) \<le> unat n"
    using run(1) fits by (simp_all add: not_less word_le_nat_alt)
  have "map (\<lambda>i. at (8 + i)) [0..<?l] = map at [8..<8 + ?l]"
    by (rule nth_equalityI) simp_all
  then show "payload_bytes d = map at [8..<8 + length (payload_bytes d)]" using run(1) by simp
  show "\<exists>u. s' = Put2 W (b + SK_RX_RD0) (and RX_MASK (reg2 m (b + SK_RX_RD0) + reg2 m (b + SK_RX_RSR0))) u \<and>
      regs (chip u) = m"
    using run(2) 9(2) rd w5 by (auto simp: b_def)
qed

lemma udp_arrived:
  assumes c: "wiz_chip W regs cur" and r: "UdpRecvCommon W socknum n wait s = Some ((GOOD, Some d), s')"
  shows "\<not> socknum > 3" "\<exists>u. take_datagram W socknum n u = ((GOOD, Some d), s') \<and>
    (\<forall>x. host_owned x \<longrightarrow> regs (chip u) x = regs (chip s) x)"
proof -
  note q = wiz_quiet [OF c]
  show k: "\<not> socknum > 3" using r by (auto simp: UdpRecvCommon_def split: if_splits)
  note k' = socknum_cases [OF k]
  let ?b = "sock_base socknum"
  obtain st u1 where 1: "Get1 W (?b + SK_SR) s = (st, u1)" by fastforce
  have m1: "regs (chip u1) = regs (chip s)" using read1_at [OF q sock_regs(5) [OF k'] 1] by simp
  have st: "st = 0x22" using r k 1 by (auto simp: UdpRecvCommon_def Let_def split: if_splits)
  let ?u2 = "Put2 W (?b + 0x0010) 0 (Put2 W (?b + 0x000e) 0 (Put2 W (?b + 0x000c) 0 u1))"
  obtain u3 where 3: "start_recv W ?b ?u2 = Some u3" "\<forall>x. host_owned x \<longrightarrow> regs (chip u3) x = regs (chip ?u2) x"
    using start_recv_at [OF c k'] by blast
  obtain e u4 where 4: "recv_wait W ?b wait u3 = Some (e, u4)" "e = GOOD" "take_datagram W socknum n u4 = ((GOOD, Some d), s')"
    using r k 1 st 3(1) by (auto simp: UdpRecvCommon_def Let_def split: step_splits)
  have "regs (chip u4) x = regs (chip s) x" if "host_owned x" for x
    using that recv_wait_at [OF c k' 4(1)] 3(2) clear_dest_at [OF q k' that, of u1] m1 by simp
  then show "\<exists>u. take_datagram W socknum n u = ((GOOD, Some d), s') \<and>
    (\<forall>x. host_owned x \<longrightarrow> regs (chip u) x = regs (chip s) x)" using 4(3) by blast
qed

text \<open>
  C21. Receiving a datagram: when \<^verbatim>\<open>UdpRecv\<close> or \<^verbatim>\<open>UdpRecvNotYet\<close> says \<^verbatim>\<open>GOOD\<close>, the sender's address and
  port and the length are those of the eight bytes at the read pointer, the payload is the bytes
  behind them, going round at the end of the ring, and it fits the buffer of the caller.  The
  read pointer, however, moves by all that has arrived, not by the datagram taken, and its upper
  bits are cleared.
\<close>
theorem UdpRecv_delivers:
  assumes c: "wiz_chip W regs cur" and r: "UdpRecvCommon W socknum n wait s = Some ((GOOD, Some d), s')"
  defines "m \<equiv> regs (chip s)" and "b \<equiv> sock_base socknum"
  defines "at \<equiv> (\<lambda>i. m (ring_at (RX_BUF socknum) (unat (reg2 m (b + SK_RX_RD0)) mod 2048) i))"
  shows "udp_header (map at [0..<8]) =
      \<lparr>hdr_addr = from_addr d, hdr_port = from_port d, udp_len = of_nat (length (payload_bytes d))\<rparr> \<and>
    payload_bytes d = map at [8..<8 + length (payload_bytes d)] \<and>
    length (payload_bytes d) \<le> unat n \<and>
    reg2 (regs (chip s')) (b + SK_RX_RD0) =
      and RX_MASK (reg2 m (b + SK_RX_RD0) + reg2 (regs (chip s')) (b + SK_RX_RSR0)) \<and>
    (\<forall>x \<ge> 0x4000. regs (chip s') x = m x)"
proof -
  note q = wiz_quiet [OF c] and k = socknum_cases [OF udp_arrived(1) [OF c r]]
  obtain u where u: "take_datagram W socknum n u = ((GOOD, Some d), s')"
      "\<And>x. host_owned x \<Longrightarrow> regs (chip u) x = m x"
    using udp_arrived(2) [OF c r] unfolding m_def by blast
  note t = take_datagram_at [OF q k u(1)]
  have rd: "reg2 (regs (chip u)) (b + SK_RX_RD0) = reg2 m (b + SK_RX_RD0)"
    unfolding b_def by (rule rx_rd_kept [OF k u(2)])
  have at: "(\<lambda>i. regs (chip u) (ring_at (RX_BUF socknum)
      (unat (reg2 (regs (chip u)) (sock_base socknum + SK_RX_RD0)) mod 2048) i)) = at"
    using u(2) host_buffer buffer_ring [OF sock_rings(1,2) [OF k]] rd by (simp add: at_def b_def)
  obtain v where v: "s' = Put2 W (b + SK_RX_RD0)
      (and RX_MASK (reg2 m (b + SK_RX_RD0) + reg2 (regs (chip u)) (b + SK_RX_RSR0))) v"
      "regs (chip v) = regs (chip u)"
    using t(4) rd unfolding b_def by auto
  have "regs (chip s') (b + SK_RX_RSR0 + i) = regs (chip u) (b + SK_RX_RSR0 + i)" if "i \<in> {0, 1}" for i
    unfolding v(1) b_def put2_plain [OF q sock_words(3,4) [OF k, of SK_RX_RD0, simplified]] v(2)
    using that by (auto simp: wiz_regs)
  from this [of 0] this [of 1]
  have rsr: "reg2 (regs (chip s')) (b + SK_RX_RSR0) = reg2 (regs (chip u)) (b + SK_RX_RSR0)"
    by (simp add: reg2_def)
  have "\<forall>x \<ge> 0x4000. regs (chip s') x = m x"
    using put2_pointer(2) [OF q k, of SK_RX_RD0] v u(2) host_buffer by (simp add: b_def)
  moreover have "reg2 (regs (chip s')) (b + SK_RX_RD0) =
      and RX_MASK (reg2 m (b + SK_RX_RD0) + reg2 (regs (chip u)) (b + SK_RX_RSR0))"
    unfolding v(1) b_def by (rule put2_pointer(1) [OF q k]) simp
  ultimately show ?thesis using t(1-3) rsr unfolding at by simp
qed

text \<open>
  \<^verbatim>\<open>UdpRecvNotYet\<close> comes back on every path, for every socket number and in every state of the
  chip: neither the wait for the command nor the test of the interrupt can go on for ever.
\<close>
theorem UdpRecvNotYet_returns:
  assumes c: "wiz_chip W regs cur"
  shows "\<exists>r. UdpRecvNotYet W socknum n s = Some r"
proof (cases "socknum > 3")
  case False
  note k = socknum_cases [OF False]
  let ?b = "sock_base socknum"
  obtain st u1 where 1: "Get1 W (?b + SK_SR) s = (st, u1)" by fastforce
  obtain u3 where 3: "start_recv W ?b (Put2 W (?b + 0x0010) 0 (Put2 W (?b + 0x000e) 0 (Put2 W (?b + 0x000c) 0 u1))) = Some u3"
    using start_recv_at [OF c k] by blast
  have "\<exists>e u4. recv_wait W ?b False u3 = Some (e, u4)"
    by (subst recv_wait.simps) (auto simp: Let_def split: prod.splits)
  then show ?thesis using False 1 3
    by (auto simp: UdpRecvNotYet_def UdpRecvCommon_def Let_def split: prod.splits) (metis prod.exhaust)
qed (simp add: UdpRecvNotYet_def UdpRecvCommon_def)

section \<open>Sending on a stream\<close>

lemma room_at:
  assumes q: "quiet_chip W regs cur" and k: "socknum \<in> {0, 1, 2, 3 :: byte}"
    and r: "room_loop W (sock_base socknum) n s = Some s'"
  shows "n < reg2 (regs (chip s)) (sock_base socknum + SK_TX_FSR0) \<and> regs (chip s') = regs (chip s)"
proof -
  have "V = W \<longrightarrow> base = sock_base socknum \<longrightarrow>
      n < reg2 (regs (chip s)) (sock_base socknum + SK_TX_FSR0) \<and> regs (chip s') = regs (chip s)"
    if "room_loop V base n s = Some s'" for V base n s s'
  proof (rule room_loop.raw_induct [OF _ that, where P = "\<lambda>V base n s s'. V = W \<longrightarrow>
      base = sock_base socknum \<longrightarrow> n < reg2 (regs (chip s)) (sock_base socknum + SK_TX_FSR0) \<and>
      regs (chip s') = regs (chip s)"])
    fix f and V :: "'a port" and base n s s'
    assume IH: "\<And>V base n s s'. f V base n s = Some s' \<Longrightarrow> V = W \<longrightarrow> base = sock_base socknum \<longrightarrow>
        n < reg2 (regs (chip s)) (sock_base socknum + SK_TX_FSR0) \<and> regs (chip s') = regs (chip s)"
      and run: "(let (free, s) = Get2 V (base + SK_TX_FSR0) s in
          if n \<ge> free then f V base n s else Some s) = Some s'"
    show "V = W \<longrightarrow> base = sock_base socknum \<longrightarrow>
        n < reg2 (regs (chip s)) (sock_base socknum + SK_TX_FSR0) \<and> regs (chip s') = regs (chip s)"
    proof (intro impI)
      assume e: "V = W" "base = sock_base socknum"
      obtain x u where x: "Get2 W (sock_base socknum + SK_TX_FSR0) s = (x, u)" by fastforce
      note g = read2_at [OF q sock_words(1,2) [OF k] x, simplified]
      show "n < reg2 (regs (chip s)) (sock_base socknum + SK_TX_FSR0) \<and> regs (chip s') = regs (chip s)"
        using run x g e IH [of W "sock_base socknum" n u s'] by (auto simp: not_le split: if_splits)
    qed
  qed
  then show ?thesis using r by blast
qed

lemma send_piece_full:
  assumes q: "quiet_chip W regs cur" and k: "socknum \<in> {0, 1, 2, 3 :: byte}"
    and free: "reg2 (regs (chip s)) (sock_base socknum + SK_TX_FSR0) \<le> of_nat (length bs)"
  shows "send_piece W socknum bs s = None"
proof -
  obtain x u where x: "Get2 W (sock_base socknum + SK_TX_WR0) s = (x, u)" by fastforce
  have "regs (chip u) = regs (chip s)" using read2_at [OF q sock_words(1,2) [OF k] x] by simp
  then have "room_loop W (sock_base socknum) (of_nat (length bs)) u = None"
    using room_at [OF q k, of "of_nat (length bs)" u] free by (cases "room_loop W (sock_base socknum) (of_nat (length bs)) u") force+
  then show ?thesis using x by (simp add: send_piece_def)
qed

lemma ack_at:
  assumes c: "wiz_chip W regs cur" and k: "socknum \<in> {0, 1, 2, 3 :: byte}"
    and r: "ack_loop W (sock_base socknum) s = Some r"
  shows "fst r \<noteq> NotYet \<and> (\<forall>x. host_owned x \<longrightarrow> regs (chip (snd r)) x = regs (chip s) x)"
proof -
  let ?same = "\<lambda>r s. fst r \<noteq> NotYet \<and> (\<forall>x. host_owned x \<longrightarrow> regs (chip (snd r)) x = regs (chip s) x)"
  have "V = W \<longrightarrow> base = sock_base socknum \<longrightarrow> ?same r s" if "ack_loop V base s = Some r" for V base s r
  proof (rule ack_loop.raw_induct [OF _ that, where P = "\<lambda>V base s r. V = W \<longrightarrow>
      base = sock_base socknum \<longrightarrow> ?same r s"])
    fix f and V :: "'a port" and base s r
    assume IH: "\<And>V base s r. f V base s = Some r \<Longrightarrow> V = W \<longrightarrow> base = sock_base socknum \<longrightarrow> ?same r s"
      and run: "(let (ir, s) = Get1 V (base + SK_IR) s in
          if and ir SK_IR_DISC \<noteq> 0 then Some (Problem ''TcpSendDisconnect'', Put1 V (base + SK_IR) SK_IR_DISC s)
          else if and ir SK_IR_TOUT \<noteq> 0 then Some (Problem ''TcpSendTimeout'', Put1 V (base + SK_IR) SK_IR_TOUT s)
          else if and ir SK_IR_TXOK \<noteq> 0 then Some (GOOD, Put1 V (base + SK_IR) SK_IR_TXOK s)
          else f V base s) = Some r"
    show "V = W \<longrightarrow> base = sock_base socknum \<longrightarrow> ?same r s"
    proof (intro impI)
      assume e: "V = W" "base = sock_base socknum"
      obtain b u where b: "Get1 W (sock_base socknum + SK_IR) s = (b, u)" by fastforce
      note u = read1_at [OF wiz_quiet [OF c] sock_regs(4) [OF k] b]
      show "?same r s"
        using run b u e IH [of W "sock_base socknum" u r] put1_interrupt [OF c sock_regs(2) [OF k]]
        by (auto simp: Let_def split: if_splits)
    qed
  qed
  then show ?thesis using r by blast
qed

lemma mod_ring_inj:
  assumes "(b + i) mod 2048 = (b + j) mod (2048 :: nat)" "i < 2048" "i \<le> j" "j < 2048"
  shows "i = j"
proof -
  have "2048 dvd (b + j) - (b + i)" using assms(1,3) mod_eq_dvd_iff_nat [of "b + i" "b + j" 2048] by simp
  then have "2048 dvd j - i" by simp
  then show ?thesis using assms(3,4) dvd_imp_le [of 2048 "j - i"] by (cases "j - i = 0") auto
qed

lemma ring_at_inj:
  assumes "ring_at R b i = ring_at R b j" "i < 2048" "j < 2048"
  shows "i = j"
proof -
  have "(b + i) mod 2048 = (b + j) mod 2048"
    using offset_inj [of "(b + i) mod 2048" "(b + j) mod 2048" R] assms(1) by (simp add: ring_at_def)
  then show ?thesis using mod_ring_inj [of b i j] mod_ring_inj [of b j i] assms(2,3) by (metis nat_le_linear)
qed

lemma put_ring_has:
  assumes q: "quiet_chip W regs cur" and R: "0x4000 \<le> R" "unat R \<le> 0x7800" and p: "unat p < 2048"
    and n: "length bs \<le> 2048"
  shows "ring_has R (unat p) bs (regs (chip s)) (regs (chip (put_ring W R p bs s)))"
  using p n
proof (induction bs arbitrary: p s)
  case (Cons b bs)
  let ?u = "Put1 W (R + p) b s" and ?p = "and (p + 1) TX_MASK"
  have 0: "R + p = ring_at R (unat p) 0" using Cons(2) by (simp add: ring_at_def)
  have pl: "plain_reg (R + p)" using buffer_plain(1) [OF R(1), of "unat p"] R(2) Cons(2) by simp
  have u: "regs (chip ?u) = (regs (chip s))(ring_at R (unat p) 0 := b)" using put1_plain [OF q pl] 0 by simp
  have un: "unat (p + 1) = unat p + 1" using unat_offset [of p 1] Cons(2) by simp
  have "TX_MASK = RX_MASK" by (simp add: TX_MASK_def RX_MASK_def)
  then have p: "unat ?p = Suc (unat p) mod 2048" using unat_RX_MASK [of "p + 1"] un by simp
  have at: "ring_at R (unat ?p) i = ring_at R (unat p) (Suc i)" for i
    unfolding p ring_at_def by (simp add: mod_simps)
  have "unat ?p < 2048" unfolding p by simp
  moreover have "length bs \<le> 2048" using Cons(3) by simp
  ultimately have IH: "\<forall>i < length bs. regs (chip (put_ring W R ?p bs ?u)) (ring_at R (unat p) (Suc i)) = bs ! i"
    "\<forall>x. (\<forall>i < length bs. x \<noteq> ring_at R (unat p) (Suc i)) \<longrightarrow> regs (chip (put_ring W R ?p bs ?u)) x = regs (chip ?u) x"
    using Cons(1) [of ?p ?u] unfolding ring_has_def at by blast+
  have "ring_at R (unat p) 0 \<noteq> ring_at R (unat p) (Suc i)" if "i < length bs" for i
    using ring_at_inj [of R "unat p" 0 "Suc i"] that Cons(3) by auto
  then have "regs (chip (put_ring W R ?p bs ?u)) (ring_at R (unat p) 0) = b" using IH(2) u by simp
  then show ?case using IH u unfolding ring_has_def by (auto simp: nth_Cons' gr0_conv_Suc less_Suc_eq_0_disj)
qed (simp add: ring_has_def)

text \<open>
  A message of 2048 bytes or more is never sent: the piece of 2048 bytes waits for more free
  room than the ring has, so \<^verbatim>\<open>TcpSendOrNotYet\<close> does not come back.
\<close>
theorem TcpSend_never_returns:
  assumes q: "quiet_chip W regs cur" and k: "\<not> socknum > 3"
    and free: "reg2 (regs (chip s)) (sock_base socknum + SK_TX_FSR0) \<le> 2048"
    and long: "2048 \<le> length buf" "length buf < 65536"
  shows "TcpSendOrNotYet W socknum buf s = None"
proof -
  let ?n = "of_nat (length buf) :: word16"
  have un: "unat ?n = length buf" using long(2) by (simp add: unat_of_nat)
  then have "?n \<noteq> 0" "\<not> ?n < TX_SIZE" using long(1) by (auto simp: TX_SIZE_def word_less_nat_alt)
  moreover have "send_piece W socknum (take 2048 buf) s = None"
    using send_piece_full [OF q socknum_cases [OF k], of s "take 2048 buf"] free long(1) by simp
  ultimately show ?thesis
    by (simp add: TcpSendOrNotYet_def send_loop.simps [of W socknum buf ?n s] TX_SIZE_def)
qed

lemma send_short:
  assumes n: "0 < length buf" "length buf < 2048" and r: "TcpSendOrNotYet W socknum buf s = Some (err, s')"
  shows "send_piece W socknum buf s = Some (err, s')"
proof -
  let ?n = "of_nat (length buf) :: word16"
  have un: "unat ?n = length buf" using n(2) by (simp add: unat_of_nat)
  then have nz: "?n \<noteq> 0" "?n < TX_SIZE" using n by (auto simp: TX_SIZE_def word_less_nat_alt)
  obtain e u where "send_piece W socknum buf s = Some (e, u)" "e \<noteq> GOOD \<longrightarrow> u = s' \<and> e = err"
      "e = GOOD \<longrightarrow> u = s' \<and> err = GOOD"
    using r nz un by (auto simp: TcpSendOrNotYet_def send_loop.simps [of W socknum buf ?n s]
        send_loop.simps [of W socknum buf 0] Let_def split: step_splits)
  then show ?thesis by metis
qed

lemma piece_placed:
  assumes q: "quiet_chip W regs cur" and k: "socknum \<in> {0, 1, 2, 3 :: byte}" and n: "length bs < 2048"
    and r: "send_piece W socknum bs s = Some (err, s')"
  defines "m \<equiv> regs (chip s)" and "wr \<equiv> sock_base socknum + SK_TX_WR0"
  shows "\<exists>u. ring_has (TX_BUF socknum) (unat (reg2 m wr) mod 2048) bs m (regs (chip u)) \<and>
    do { (ok, s) \<leftarrow> Wiz__sock_command W (sock_base socknum) SK_CR_SEND SK_SR_ESTB
           (Put2 W wr (of_nat (length bs) + reg2 m wr) u);
         if \<not> ok then Some (Problem ''TcpSendFailed'', s)
         else let (_, s) = Get1 W (sock_base socknum + SK_IR) s in ack_loop W (sock_base socknum) s } =
      Some (err, s')"
proof -
  let ?b = "sock_base socknum" and ?n = "of_nat (length bs) :: word16" and ?T = "TX_BUF socknum"
  obtain x u1 where 1: "Get2 W (?b + SK_TX_WR0) s = (x, u1)" by fastforce
  note g1 = read2_at [OF q sock_words(1,2) [OF k] 1, simplified]
  obtain u2 where 2: "room_loop W ?b ?n u1 = Some u2"
    using r 1 by (cases "room_loop W ?b ?n u1") (simp_all add: send_piece_def)
  note g2 = room_at [OF q k 2]
  let ?p = "and x TX_MASK"
  let ?u3 = "put_ring W ?T ?p bs u2"
  have p: "unat ?p = unat (reg2 m wr) mod 2048"
    using unat_RX_MASK [of x] g1 by (simp add: TX_MASK_def RX_MASK_def m_def wr_def)
  then have lt: "unat ?p < 2048" by simp
  have has: "ring_has ?T (unat ?p) bs m (regs (chip ?u3))"
    using put_ring_has [OF q sock_rings(3,4) [OF k] lt, of bs u2] n g1 g2 by (simp add: m_def)
  have low: "regs (chip ?u3) a = m a" if "a < 0x4000" for a
    using has buffer_ring [OF sock_rings(3,4) [OF k]] that unfolding ring_has_def by (metis leD)
  obtain y u4 where 4: "Get2 W (?b + SK_TX_WR0) ?u3 = (y, u4)" by fastforce
  note g4 = read2_at [OF q sock_words(1,2) [OF k] 4, simplified]
  have "y = reg2 m wr" using g4 low sock_words(5,6) [OF k, of SK_TX_WR0] by (simp add: reg2_def wr_def)
  then show ?thesis using r 1 2 4 has g4 p
    by (intro exI [of _ u4]) (simp add: send_piece_def wr_def Let_def)
qed

text \<open>
  C20. Sending on a stream: a message shorter than the ring lies in the ring when \<^verbatim>\<open>TcpSendOrNotYet\<close>
  comes back, whatever it answers (which is not \<^verbatim>\<open>NotYet\<close>): its bytes in order from the write
  pointer on, going round at the end; the write pointer has moved by its length and no other
  byte of any buffer has changed.
\<close>
theorem TcpSend_ring:
  assumes c: "wiz_chip W regs cur" and k: "\<not> socknum > 3" and n: "0 < length buf" "length buf < 2048"
    and r: "TcpSendOrNotYet W socknum buf s = Some (err, s')"
  defines "m \<equiv> regs (chip s)" and "m' \<equiv> regs (chip s')" and "wr \<equiv> sock_base socknum + SK_TX_WR0"
  shows "err \<noteq> NotYet \<and>
    (\<forall>i < length buf. m' (ring_at (TX_BUF socknum) (unat (reg2 m wr) mod 2048) i) = buf ! i) \<and>
    (\<forall>x \<ge> 0x4000. (\<forall>i < length buf. x \<noteq> ring_at (TX_BUF socknum) (unat (reg2 m wr) mod 2048) i) \<longrightarrow> m' x = m x) \<and>
    reg2 m' wr = reg2 m wr + of_nat (length buf)"
proof -
  note q = wiz_quiet [OF c] and k' = socknum_cases [OF k]
  let ?b = "sock_base socknum" and ?v = "of_nat (length buf) + reg2 m wr"
  obtain u where has: "ring_has (TX_BUF socknum) (unat (reg2 m wr) mod 2048) buf m (regs (chip u))"
    and run: "do { (ok, s) \<leftarrow> Wiz__sock_command W ?b SK_CR_SEND SK_SR_ESTB (Put2 W wr ?v u);
         if \<not> ok then Some (Problem ''TcpSendFailed'', s)
         else let (_, s) = Get1 W (?b + SK_IR) s in ack_loop W ?b s } = Some (err, s')"
    using piece_placed [OF q k' n(2) send_short [OF n r]] unfolding m_def wr_def by blast
  have est: "SK_SR_ESTB \<noteq> 0" by (simp add: SK_SR_ESTB_def)
  obtain ok v where v: "Wiz__sock_command W ?b SK_CR_SEND SK_SR_ESTB (Put2 W wr ?v u) = Some (ok, v)"
      "\<forall>a. host_owned a \<longrightarrow> regs (chip v) a = regs (chip (Put2 W wr ?v u)) a"
    using sock_command_at [OF q k' est] by blast
  have fin: "err \<noteq> NotYet \<and> (\<forall>a. host_owned a \<longrightarrow> m' a = regs (chip v) a)"
  proof (cases ok)
    case True
    obtain z x where z: "Get1 W (?b + SK_IR) v = (z, x)" by fastforce
    have "ack_loop W ?b x = Some (err, s')" using run v z True by simp
    from ack_at [OF c k' this] show ?thesis using read1_at [OF q sock_regs(4) [OF k'] z] by (simp add: m'_def)
  next
    case False
    then show ?thesis using run v by (auto simp: m'_def)
  qed
  have buf: "m' a = regs (chip u) a" if "0x4000 \<le> a" for a
    using fin v(2) host_buffer [OF that] put2_pointer(2) [OF q k', of SK_TX_WR0] that by (simp add: wr_def)
  have "reg2 m' wr = ?v"
    using fin v(2) sock_host [OF k', of SK_TX_WR0] put2_pointer(1) [OF q k', of SK_TX_WR0 ?v u]
    by (simp add: reg2_def wr_def)
  then show ?thesis
    using fin ring_has_cong [OF has buf sock_rings(3,4) [OF k']] by (simp add: add.commute)
qed

section \<open>Witnesses\<close>

text \<open>
  A chip on which a byte written to an interrupt register clears its bits, a receive finds a
  message and a send is done at once.  Its memory is the list of the bytes written.
\<close>

type_synonym demo_chip = "word16 \<times> (word16 \<times> byte) list"

fun demo_at :: "(word16 \<times> byte) list \<Rightarrow> word16 \<Rightarrow> byte" where
  "demo_at [] x = 0"
| "demo_at ((a, b) # l) x = (if x = a then b else demo_at l x)"

definition demo_regs :: "demo_chip \<Rightarrow> ax_mem" where
  "demo_regs w = demo_at (snd w)"

definition demo_port :: "demo_chip port" where
  "demo_port =
     \<lparr>pread = (\<lambda>i (a, l). if i = 3 then (demo_at l a, (a + 1, l)) else (3, (a, l))),
      pwrite = (\<lambda>i b (a, l).
        if i = 1 then (hilo b (lo a), l)
        else if i = 2 then (hilo (hi a) b, l)
        else if i = 3 then
          (a + 1,
           if command_reg a then
             (a, 0) # (a + 1, if b = 0x40 then 4 else if b = 0x20 then 0x10 else demo_at l (a + 1)) # l
           else if interrupt_reg a then (a, and (demo_at l a) (not b)) # l
           else (a, b) # l)
        else (a, l))\<rparr>"

lemma interrupt_reg_not_host: "interrupt_reg a \<Longrightarrow> \<not> host_owned a"
  by (auto simp: interrupt_reg_def host_owned_def lo_def)

lemma command_next_not_host: "command_reg a \<Longrightarrow> \<not> host_owned (a + 1)"
  by (auto simp: command_reg_def host_owned_def lo_def)

lemma demo_port_chip: "wiz_chip demo_port demo_regs fst"
  unfolding wiz_chip_def quiet_chip_def demo_port_def demo_regs_def
  using command_reg_not_host command_next_not_host interrupt_reg_not_host by fastforce

definition demo_net :: "demo_chip net" where
  "demo_net =
     \<lparr>chip = (0, [(0x6FFF, 65), (0x503, 0x17), (0x520, 8), (0x524, 7), (0x525, 0xFF), (0x527, 4),
        (0x528, 7), (0x529, 0xFF), (0x603, 0x22), (0x627, 20), (0x7000, 9), (0x7001, 9), (0x7007, 2),
        (0x7008, 72), (0x7009, 105)]), irq_depth = 0, ping_sequence = 0\<rparr>"

lemma demo_words:
  "reg2 (demo_regs (chip demo_net)) 0x526 = 4" "reg2 (demo_regs (chip demo_net)) 0x528 = 0x7FF"
  "reg2 (demo_regs (chip demo_net)) 0x524 = 0x7FF" "reg2 (demo_regs (chip demo_net)) 0x520 = 0x800"
  "reg2 (demo_regs (chip demo_net)) 0x628 = 0"
  by (simp_all add: reg2_def hilo_def demo_net_def demo_regs_def)

lemma demo_access:
  "Get1 demo_port a \<lparr>chip = (c, l), irq_depth = d, ping_sequence = p\<rparr> =
    (demo_at l a, \<lparr>chip = (a + 1, l), irq_depth = d, ping_sequence = p\<rparr>)"
  "Get2 demo_port a \<lparr>chip = (c, l), irq_depth = d, ping_sequence = p\<rparr> =
    (push_bit 8 (ucast (demo_at l a)) + ucast (demo_at l (a + 1)),
     \<lparr>chip = (a + 2, l), irq_depth = d, ping_sequence = p\<rparr>)"
  "Put1 demo_port a b \<lparr>chip = (c, l), irq_depth = d, ping_sequence = p\<rparr> =
    \<lparr>chip = (a + 1,
       if command_reg a then
         (a, 0) # (a + 1, if b = 0x40 then 4 else if b = 0x20 then 0x10 else demo_at l (a + 1)) # l
       else if interrupt_reg a then (a, and (demo_at l a) (not b)) # l
       else (a, b) # l), irq_depth = d, ping_sequence = p\<rparr>"
  by (simp_all add: Get1_def Get2_def Put1_def get3_def put3_def set_reg_def DisableIrqsCounting_def
      EnableIrqsCounting_def demo_port_def add.assoc)

lemma demo_Put2:
  "\<lbrakk>\<not> command_reg a; \<not> interrupt_reg a; \<not> command_reg (a + 1); \<not> interrupt_reg (a + 1)\<rbrakk> \<Longrightarrow>
    Put2 demo_port a x \<lparr>chip = (c, l), irq_depth = d, ping_sequence = p\<rparr> =
    \<lparr>chip = (a + 2, (a + 1, lo x) # (a, hi x) # l), irq_depth = d, ping_sequence = p\<rparr>"
  by (simp add: Put2_def put3_def set_reg_def DisableIrqsCounting_def
      EnableIrqsCounting_def demo_port_def add.assoc)

lemma ring_bytes_numeral:
  "ring_bytes W buf ptr (numeral k) s =
     (let (b, s) = Get1 W (buf + ptr) s;
          ((bs, ptr), s) = ring_bytes W buf (and (ptr + 1) RX_MASK) (pred_numeral k) s
      in ((b # bs, ptr), s))"
  by (simp add: numeral_eq_Suc)

lemmas demo_eval = demo_access demo_Put2 command_reg_def interrupt_reg_def wiz_regs sock_base_def TX_BUF_def RX_BUF_def

theorem TcpRecv_ring_witness:
  "\<exists>err s'. TcpRecvOrNotYet demo_port 1 100 demo_net = Some ((err, 4, [65, 0, 0, 0]), s') \<and>
    reg2 (demo_regs (chip s')) 0x528 = 0x803"
proof -
  have k: "sock_base 1 = 0x500" "RX_BUF 1 = 0x6800" by (simp_all add: sock_base_def RX_BUF_def)
  have "[0..<4::nat] = [0, 1, 2, 3]" by (simp add: upt_rec)
  then have bs: "map (\<lambda>i. demo_regs (chip demo_net) (ring_at 0x6800 2047 i)) [0..<4] = [65, 0, 0, 0]"
    by (simp add: ring_at_def demo_net_def demo_regs_def)
  obtain err got bs s' where "TcpRecvOrNotYet demo_port 1 100 demo_net = Some ((err, got, bs), s')" "got = 4"
      "bs = map (\<lambda>i. demo_regs (chip demo_net) (ring_at 0x6800 2047 i)) [0..<unat got]"
      "reg2 (demo_regs (chip s')) 0x528 = 0x7FF + got"
    using TcpRecv_ring [OF wiz_quiet [OF demo_port_chip], of 1 100 demo_net] demo_words k
    by (auto simp: wiz_regs)
  then show ?thesis using bs by auto
qed

theorem UdpRecv_delivers_witness:
  "\<exists>s'. UdpRecvCommon demo_port 2 100 True demo_net =
      Some ((GOOD, Some \<lparr>from_addr = 0x09090000, from_port = 0, payload_bytes = [72, 105]\<rparr>), s') \<and>
    reg2 (demo_regs (chip s')) 0x628 = and RX_MASK (reg2 (demo_regs (chip s')) 0x626)"
proof -
  have k: "sock_base 2 = 0x600" by (simp add: sock_base_def)
  have "map_option fst (UdpRecvCommon demo_port 2 100 True demo_net) =
      Some (GOOD, Some \<lparr>from_addr = 0x09090000, from_port = 0, payload_bytes = [72, 105]\<rparr>)"
    by (simp add: UdpRecvCommon_def take_datagram_def demo_eval demo_net_def lo_def hi_def start_recv_def Wiz__wait_def
      wait_loop.simps Wiz__before_def recv_wait.simps ring_bytes_numeral udp_header_def hilo_def RX_MASK_def
      word_rcat_def)
  then obtain s' where r: "UdpRecvCommon demo_port 2 100 True demo_net =
      Some ((GOOD, Some \<lparr>from_addr = 0x09090000, from_port = 0, payload_bytes = [72, 105]\<rparr>), s')" by auto
  then show ?thesis
    using UdpRecv_delivers [OF demo_port_chip r] demo_words k by (auto simp: wiz_regs)
qed

theorem UdpRecvNotYet_returns_witness: "\<exists>r. UdpRecvNotYet demo_port 2 100 demo_net = Some r"
  by (rule UdpRecvNotYet_returns [OF demo_port_chip])

theorem TcpSend_never_returns_witness: "TcpSendOrNotYet demo_port 1 (replicate 2048 7) demo_net = None"
proof (rule TcpSend_never_returns [OF wiz_quiet [OF demo_port_chip]])
  show "reg2 (demo_regs (chip demo_net)) (sock_base 1 + SK_TX_FSR0) \<le> 2048"
    using demo_words by (simp add: sock_base_def wiz_regs)
qed simp_all

theorem TcpSend_ring_witness:
  "\<exists>s'. TcpSendOrNotYet demo_port 1 [1, 2] demo_net = Some (GOOD, s') \<and>
    demo_regs (chip s') 0x4FFF = 1 \<and> demo_regs (chip s') 0x4800 = 2 \<and>
    reg2 (demo_regs (chip s')) 0x524 = 0x801"
proof -
  have k: "sock_base 1 = 0x500" "TX_BUF 1 = 0x4800" by (simp_all add: sock_base_def TX_BUF_def)
  have "map_option fst (TcpSendOrNotYet demo_port 1 [1, 2] demo_net) = Some GOOD"
    by (simp add: TcpSendOrNotYet_def send_loop.simps TX_SIZE_def demo_eval demo_net_def send_piece_def
      room_loop.simps TX_MASK_def lo_def hi_def Wiz__sock_command_def taken_loop.simps ack_loop.simps
      SK_CR_SEND_def SK_SR_ESTB_def SK_IR_DISC_def SK_IR_TOUT_def SK_IR_TXOK_def)
  then obtain s' where r: "TcpSendOrNotYet demo_port 1 [1, 2] demo_net = Some (GOOD, s')" by auto
  have "\<forall>i < 2. demo_regs (chip s') (ring_at 0x4800 2047 i) = [1, 2] ! i"
    "reg2 (demo_regs (chip s')) 0x524 = 0x7FF + 2"
    using TcpSend_ring [OF demo_port_chip _ _ _ r] demo_words k by (auto simp: wiz_regs)
  then show ?thesis using r by (auto simp: ring_at_def dest: spec [of _ 0] spec [of _ 1])
qed

end
