(* ===== verification/Fuse_Ramfile.thy ===== *)
theory Fuse_Ramfile
  imports Frob_Heap
begin

text \<open>
  The file server \<^verbatim>\<open>fuse-daemons/fuse-ramfile.c\<close> (CMOC): it keeps a few files in memory
  and answers the requests of the kernel's file manager.  The global \<^verbatim>\<open>Request\<close> and
  \<^verbatim>\<open>Reply\<close>, the open paths and the files are the fields of the state; a pointer to a file
  is its index, the block of its contents a list as long as the block.  \<^verbatim>\<open>None\<close> is a failed
  \<^verbatim>\<open>Assert\<close>, or an access outside of an array or block: there the program goes on with whatever lies
  behind it (a path number of 32 or more, which nothing checks, indexes behind the table of the
  paths), and the model says nothing.  The logging is compiled out of the
  daemon, and the kernel grants the memory the allocator asks for.
\<close>

section \<open>State\<close>

definition PAYSIZ :: nat where "PAYSIZ = 2048"
definition MAX_PATHS :: nat where "MAX_PATHS = 32"
definition MAX_FILES :: nat where "MAX_FILES = 50"

definition OP_CREATE :: byte where "OP_CREATE = 1"
definition OP_OPEN :: byte where "OP_OPEN = 2"
definition OP_CLOSE :: byte where "OP_CLOSE = 3"
definition OP_READ :: byte where "OP_READ = 4"
definition OP_WRITE :: byte where "OP_WRITE = 5"
definition OP_READLN :: byte where "OP_READLN = 6"
definition OP_WRITLN :: byte where "OP_WRITLN = 7"

definition E_BMODE :: byte where "E_BMODE = 0xcb"
definition E_UNKSVC :: byte where "E_UNKSVC = 0xd0"
definition E_EOF_ram :: byte where "E_EOF_ram = 0xd3"
definition E_PNNF :: byte where "E_PNNF = 0xd8"
definition E_FULL :: byte where "E_FULL = 0xf8"

record FuseRequest =
  operation :: byte
  path_num :: byte
  a_reg :: byte
  b_reg :: byte
  req_size :: word16

record FuseReply =
  status :: byte
  rep_size :: word16

record PathInfo =
  writing :: bool
  offset :: word16
  path_file :: "nat option"

record FileInfo =
  file_name :: "cstr option"
  contents :: "byte list"
  file_size :: word16

record ramfile =
  Request :: FuseRequest
  Req_payload :: "byte list"
  Reply :: FuseReply
  Rep_payload :: "byte list"
  Paths :: "PathInfo list"
  Files :: "FileInfo list"

definition ramfile_start :: ramfile where
  "ramfile_start =
     \<lparr>Request = \<lparr>operation = 0, path_num = 0, a_reg = 0, b_reg = 0, req_size = 0\<rparr>,
      Req_payload = replicate PAYSIZ 0, Reply = \<lparr>status = 0, rep_size = 0\<rparr>,
      Rep_payload = replicate PAYSIZ 0,
      Paths = replicate MAX_PATHS \<lparr>writing = False, offset = 0, path_file = None\<rparr>,
      Files = replicate MAX_FILES \<lparr>file_name = None, contents = [], file_size = 0\<rparr>\<rparr>"

section \<open>The blocks of the allocator\<close>

text \<open>A new block is as large as its bucket and zeroed; a block grows by being copied into a
  new one.  A request above the largest bucket uses a bucket that does not exist.\<close>

definition new_block :: "word16 \<Rightarrow> byte list option" where
  "new_block n = (case bucket_loop 0 n SMALLEST_BUCKET of (b, cap) \<Rightarrow>
     if b < NBUCKETS then Some (replicate (unat cap) 0) else None)"

definition grow_block :: "byte list \<Rightarrow> word16 \<Rightarrow> byte list option" where
  "grow_block old n =
     (if unat n \<le> length old then Some old else do { z \<leftarrow> new_block n; put_bytes z 0 old })"

section \<open>Files and paths\<close>

definition FindFile :: "cstr \<Rightarrow> ramfile \<Rightarrow> nat option" where
  "FindFile name s = List.find (\<lambda>i. case file_name (Files s ! i) of
     None \<Rightarrow> False | Some nm \<Rightarrow> strcasecmp nm name = 0) [0..<MAX_FILES]"

definition FindUnusedFile :: "ramfile \<Rightarrow> nat option" where
  "FindUnusedFile s = List.find (\<lambda>i. file_name (Files s ! i) = None) [0..<MAX_FILES]"

text \<open>The name ends at the first byte that is, as a signed character, at most a space.\<close>

definition RequestedFileName :: "ramfile \<Rightarrow> cstr option" where
  "RequestedFileName s =
     map_option (takeWhile (\<lambda>c. 32 < sint c)) (sub_bytes (Req_payload s) 0 (unat (req_size (Request s))))"

definition set_path :: "PathInfo \<Rightarrow> ramfile \<Rightarrow> ramfile option" where
  "set_path p s =
     (let i = unat (path_num (Request s)) in
      if i < MAX_PATHS then Some (s\<lparr>Paths := (Paths s)[i := p]\<rparr>) else None)"

definition get_path :: "ramfile \<Rightarrow> PathInfo option" where
  "get_path s =
     (let i = unat (path_num (Request s)) in if i < MAX_PATHS then Some (Paths s ! i) else None)"

definition set_file :: "nat \<Rightarrow> FileInfo \<Rightarrow> ramfile \<Rightarrow> ramfile" where
  "set_file i f s = s\<lparr>Files := (Files s)[i := f]\<rparr>"

section \<open>Operations\<close>

definition DoOpenWrite :: "ramfile \<Rightarrow> (byte \<times> ramfile) option" where
  "DoOpenWrite s = do {
     name \<leftarrow> RequestedFileName s;
     found \<leftarrow> (case FindFile name s of
         Some i \<Rightarrow> Some (Some (i, Files s ! i))
       | None \<Rightarrow> (case FindUnusedFile s of
             None \<Rightarrow> Some None
           | Some i \<Rightarrow> do {
               blk \<leftarrow> new_block 16;
               Some (Some (i, (Files s ! i)\<lparr>file_name := Some name, contents := blk\<rparr>)) }));
     case found of
       None \<Rightarrow> Some (E_FULL, s)
     | Some (i, f) \<Rightarrow> do {
         s \<leftarrow> set_path \<lparr>writing = True, offset = 0, path_file = Some i\<rparr> (set_file i (f\<lparr>file_size := 0\<rparr>) s);
         Some (0, s) } }"

definition DoOpenRead :: "ramfile \<Rightarrow> (byte \<times> ramfile) option" where
  "DoOpenRead s = do {
     name \<leftarrow> RequestedFileName s;
     case FindFile name s of
       None \<Rightarrow> Some (E_PNNF, s)
     | Some i \<Rightarrow> do {
         s \<leftarrow> set_path \<lparr>writing = False, offset = 0, path_file = Some i\<rparr> s;
         Some (0, s) } }"

definition set_reply :: "byte \<Rightarrow> word16 \<Rightarrow> ramfile \<Rightarrow> ramfile" where
  "set_reply e n s = s\<lparr>Reply := \<lparr>status = e, rep_size = n\<rparr>\<rparr>"

definition DoOpen :: "ramfile \<Rightarrow> ramfile option" where
  "DoOpen s = do {
     (e, s) \<leftarrow> (if a_reg (Request s) = 1 then DoOpenRead s
                else if a_reg (Request s) = 2 then DoOpenWrite s
                else Some (E_BMODE, s));
     Some (set_reply e 0 s) }"

definition DoClose :: "ramfile \<Rightarrow> ramfile option" where
  "DoClose s = do {
     s \<leftarrow> set_path \<lparr>writing = False, offset = 0, path_file = None\<rparr> s;
     Some (set_reply 0 0 s) }"

text \<open>The index behind the next carriage return from \<^verbatim>\<open>i\<close> on, at most \<^verbatim>\<open>n\<close>.\<close>

fun line_end :: "nat \<Rightarrow> byte list \<Rightarrow> nat \<Rightarrow> nat option" where
  "line_end 0 xs i = Some i"
| "line_end (Suc k) xs i =
     (if i < length xs then (if xs ! i = 13 then Some (i + 1) else line_end k xs (i + 1)) else None)"

definition DoRead :: "bool \<Rightarrow> ramfile \<Rightarrow> ramfile option" where
  "DoRead linely s = do {
     p \<leftarrow> get_path s;
     fi \<leftarrow> path_file p;
     let f = Files s ! fi;
     if writing p then Some (set_reply E_BMODE 0 s)
     else if offset p \<ge> file_size f then Some (set_reply E_EOF_ram 0 s)
     else do {
       i \<leftarrow> (if linely then
               map_option of_nat (line_end (unat (file_size f) - unat (offset p)) (contents f) (unat (offset p)))
             else Some (min (offset p + req_size (Request s)) (file_size f)));
       let n = i - offset p;
       bs \<leftarrow> sub_bytes (contents f) (unat (offset p)) (unat n);
       pay \<leftarrow> put_bytes (Rep_payload s) 0 bs;
       s \<leftarrow> set_path (p\<lparr>offset := i\<rparr>) (s\<lparr>Rep_payload := pay\<rparr>);
       Some (set_reply 0 n s) } }"

definition DoWrite :: "bool \<Rightarrow> ramfile \<Rightarrow> ramfile option" where
  "DoWrite linely s = do {
     p \<leftarrow> get_path s;
     fi \<leftarrow> path_file p;
     let f = Files s ! fi;
     if \<not> writing p then Some (set_reply E_BMODE 0 s)
     else do {
       n \<leftarrow> (if linely then map_option of_nat (line_end (unat (req_size (Request s))) (Req_payload s) 0)
             else Some (req_size (Request s)));
       blk \<leftarrow> grow_block (contents f) (file_size f + n);
       bs \<leftarrow> sub_bytes (Req_payload s) 0 (unat n);
       blk \<leftarrow> put_bytes blk (unat (file_size f)) bs;
       let s = set_file fi (f\<lparr>contents := blk, file_size := file_size f + n\<rparr>) s;
       Some (set_reply 0 n s) } }"

section \<open>The service loop\<close>

definition FixSizeForWritLn :: "ramfile \<Rightarrow> ramfile option" where
  "FixSizeForWritLn s = do {
     n \<leftarrow> line_end (min (unat (req_size (Request s))) PAYSIZ) (Req_payload s) 0;
     Some (s\<lparr>Request := (Request s)\<lparr>req_size := of_nat n\<rparr>\<rparr>) }"

text \<open>One read of the daemon's path: header and payload, over what was there before.\<close>

definition receive :: "byte list \<Rightarrow> ramfile \<Rightarrow> ramfile option" where
  "receive m s =
     (let m = take (6 + PAYSIZ) m in
      if \<not> length m \<ge> 6 then None
      else do {
        pay \<leftarrow> put_bytes (Req_payload s) 0 (drop 6 m);
        Some (s\<lparr>Request := \<lparr>operation = m ! 0, path_num = m ! 1, a_reg = m ! 2, b_reg = m ! 3,
                            req_size = hilo (m ! 4) (m ! 5)\<rparr>,
                Req_payload := pay\<rparr>) })"

definition carry_out :: "ramfile \<Rightarrow> (nat \<times> ramfile) option" where
  "carry_out s =
     (let op = operation (Request s) in
      if op = OP_CREATE \<or> op = OP_OPEN then map_option (Pair 3) (DoOpen s)
      else if op = OP_CLOSE then map_option (Pair 3) (DoClose s)
      else if op = OP_READ then map_option (\<lambda>s. (3 + unat (rep_size (Reply s)), s)) (DoRead False s)
      else if op = OP_READLN then map_option (\<lambda>s. (3 + unat (rep_size (Reply s)), s)) (DoRead True s)
      else if op = OP_WRITE then map_option (Pair 3) (DoWrite False s)
      else if op = OP_WRITLN then map_option (Pair 3) (do { s \<leftarrow> FixSizeForWritLn s; DoWrite True s })
      else Some (3, set_reply E_UNKSVC 0 s))"

definition reply_bytes :: "ramfile \<Rightarrow> byte list" where
  "reply_bytes s = status (Reply s) # hi (rep_size (Reply s)) # lo (rep_size (Reply s)) # Rep_payload s"

definition serve_one :: "byte list \<Rightarrow> ramfile \<Rightarrow> (byte list \<times> ramfile) option" where
  "serve_one m s = do {
     s \<leftarrow> receive m s;
     (n, s) \<leftarrow> carry_out s;
     r \<leftarrow> sub_bytes (reply_bytes s) 0 n;
     Some (r, s) }"

text \<open>The loop of \<^verbatim>\<open>main\<close> on the requests that come in.\<close>

fun serve_all :: "byte list list \<Rightarrow> ramfile \<Rightarrow> (byte list list \<times> ramfile) option" where
  "serve_all [] s = Some ([], s)"
| "serve_all (m # ms) s = do {
     (r, s) \<leftarrow> serve_one m s;
     (rs, s) \<leftarrow> serve_all ms s;
     Some (r # rs, s) }"

end
