(* ===== verification/Fuse_Kernel.thy ===== *)
theory Fuse_Kernel
  imports Fuse_Ramfile
begin

text \<open>
  The file manager \<^verbatim>\<open>fuse-modules/fusec.c\<close> in the kernel (CMOC): it carries the file operations of a
  client process to a daemon process and the replies back.  A path descriptor is known by its
  number (the code asserts that the number fits its place), 0 is the null pointer.  Memory of
  processes and tasks belongs to the kernel of OS-9, a parameter.

  The code runs without being interrupted from one sleep of the process to the next, so every
  piece between two sleeps is one function here.  A piece ends in \<^verbatim>\<open>Hang\<close> when an \<^verbatim>\<open>assert\<close> fails: the
  machine then loops for ever.  It ends in \<^verbatim>\<open>Wild\<close> when it goes through \<^verbatim>\<open>client_tmp\<close> into a stack frame
  that is gone.
\<close>

section \<open>State\<close>

definition E_SHARE :: byte where "E_SHARE = 0xfd"
definition OP_MAKDIR :: byte where "OP_MAKDIR = 8"
definition OP_CHGDIR :: byte where "OP_CHGDIR = 9"
definition OP_DELETE :: byte where "OP_DELETE = 10"
definition OP_SEEK :: byte where "OP_SEEK = 11"
definition OP_GETSTAT :: byte where "OP_GETSTAT = 12"
definition OP_SETSTAT :: byte where "OP_SETSTAT = 13"
definition DAEMON_NAME_MAX :: word16 where "DAEMON_NAME_MAX = 28"

datatype 'a outcome = Ok 'a | Hang | Wild

fun obind :: "'a outcome \<Rightarrow> ('a \<Rightarrow> 'b outcome) \<Rightarrow> 'b outcome" where
  "obind (Ok x) f = f x"
| "obind Hang f = Hang"
| "obind Wild f = Wild"

record DeviceTableEntry =
  dt_fileman :: word16
  dt_num_users :: byte

record Regs =
  rcc :: byte
  ra :: byte
  rb :: byte
  rdp :: byte
  rx :: word16
  ry :: word16
  ru :: word16
  rpc :: word16

record ClientTmp =
  task_num :: byte
  client_op :: byte
  opening_original_rx :: word16
  opening_pathname_size :: word16
  reply :: FuseReply

text \<open>\<^verbatim>\<open>client_tmp\<close> is \<^verbatim>\<open>None\<close> when it does not point into a live frame.\<close>

record PathDesc =
  pd_num :: byte
  link_count :: byte
  device_table_entry :: word16
  current_process_id :: byte
  regs :: Regs
  is_daemon :: bool
  paused_proc_id :: byte
  peer :: byte
  client_tmp :: "ClientTmp option"
  daemon_name :: cstr

text \<open>
  Where a process is: in user mode, with the status its last call returned; asleep in
  \<^verbatim>\<open>DaemonReadC\<close>; asleep for one tick in \<^verbatim>\<open>SwitchProcess\<close>, with its \<^verbatim>\<open>timeout\<close>; asleep in \<^verbatim>\<open>Os9Pause\<close>.
\<close>

datatype point =
    User byte
  | Reading (waits_at: byte)
  | Switching (waits_at: byte) byte byte byte
  | Pausing (waits_at: byte) byte

record 'k manager =
  pds :: "byte \<Rightarrow> PathDesc"
  devices :: "word16 \<Rightarrow> DeviceTableEntry"
  procs :: "byte \<Rightarrow> point"
  awake :: "byte \<Rightarrow> bool"
  kern :: 'k

text \<open>
  The calls of the kernel.  \<^verbatim>\<open>Get\<close> and \<^verbatim>\<open>Put\<close> are the two halves of \<^verbatim>\<open>F$Move\<close>, on the memory of a task;
  \<^verbatim>\<open>SetMap\<close> gives a task the memory of a process.  \<^verbatim>\<open>OldReply\<close> is what the stack holds where \<^verbatim>\<open>tmp.reply\<close> will be.
\<close>

record 'k os9 =
  UserTask :: "byte \<Rightarrow> 'k \<Rightarrow> byte"
  ResTsk :: "'k \<Rightarrow> byte \<times> byte \<times> 'k"
  RelTsk :: "byte \<Rightarrow> 'k \<Rightarrow> 'k"
  SetMap :: "byte \<Rightarrow> byte \<Rightarrow> 'k \<Rightarrow> 'k"
  Get :: "byte \<Rightarrow> word16 \<Rightarrow> nat \<Rightarrow> 'k \<Rightarrow> byte + byte list"
  Put :: "byte \<Rightarrow> word16 \<Rightarrow> byte list \<Rightarrow> 'k \<Rightarrow> byte \<times> 'k"
  LdABX :: "byte \<Rightarrow> word16 \<Rightarrow> 'k \<Rightarrow> byte \<times> byte"
  PrsNam :: "byte \<Rightarrow> word16 \<Rightarrow> 'k \<Rightarrow> byte \<times> word16 \<times> word16"
  IOQN :: "byte \<Rightarrow> 'k \<Rightarrow> byte"
  OldReply :: "'k \<Rightarrow> FuseReply"

definition set_pd :: "byte \<Rightarrow> (PathDesc \<Rightarrow> PathDesc) \<Rightarrow> 'k manager \<Rightarrow> 'k manager" where
  "set_pd p f s = s\<lparr>pds := (pds s)(p := f (pds s p))\<rparr>"

definition set_proc :: "byte \<Rightarrow> point \<Rightarrow> 'k manager \<Rightarrow> 'k manager" where
  "set_proc q w s = s\<lparr>procs := (procs s)(q := w)\<rparr>"

section \<open>Calls of the kernel\<close>

text \<open>The error of the source comes first: nothing is stored then.\<close>

definition Os9Move :: "'k os9 \<Rightarrow> nat \<Rightarrow> word16 \<Rightarrow> byte \<Rightarrow> word16 \<Rightarrow> byte \<Rightarrow> 'k \<Rightarrow> byte \<times> 'k" where
  "Os9Move K n src srcMap dest destMap k =
     (case Get K srcMap src n k of Inl e \<Rightarrow> (e, k) | Inr bs \<Rightarrow> Put K destMap dest bs k)"

text \<open>The wake-up signal has no effect on a process that is not asleep.\<close>

definition Os9Send :: "byte \<Rightarrow> 'k manager \<Rightarrow> 'k manager" where
  "Os9Send to_pid s =
     (case procs s to_pid of User z \<Rightarrow> s | _ \<Rightarrow> s\<lparr>awake := (awake s)(to_pid := True)\<rparr>)"

definition Os9Awaken :: "byte \<Rightarrow> 'k manager \<Rightarrow> 'k manager outcome" where
  "Os9Awaken p s =
     (let to_pid = paused_proc_id (pds s p) in if \<not> to_pid > 0 then Hang else Ok (Os9Send to_pid s))"

definition Os9AwakenIOQN :: "'k os9 \<Rightarrow> byte \<Rightarrow> 'k manager \<Rightarrow> 'k manager" where
  "Os9AwakenIOQN K q s = (let to_pid = IOQN K q (kern s) in if to_pid = 0 then s else Os9Send to_pid s)"

text \<open>\<^verbatim>\<open>Os9Pause\<close> up to its sleep.\<close>

definition Os9Pause :: "byte \<Rightarrow> byte \<Rightarrow> byte \<Rightarrow> 'k manager \<Rightarrow> 'k manager" where
  "Os9Pause q p op s = set_proc q (Pausing p op) (set_pd p (\<lambda>d. d\<lparr>paused_proc_id := q\<rparr>) s)"

section \<open>Names\<close>

definition ToUpper :: "byte \<Rightarrow> byte" where
  "ToUpper b = (let b = and b 127 in if 97 \<le> b \<and> b \<le> 122 then b - 32 else b)"

text \<open>
  The loop of \<^verbatim>\<open>ShowParsedName\<close> goes to \<^verbatim>\<open>end\<close> itself, so it does not end when that is the last
  address; every byte has to be readable.
\<close>

definition ShowParsedName :: "'k os9 \<Rightarrow> byte \<Rightarrow> word16 \<Rightarrow> word16 \<Rightarrow> 'k \<Rightarrow> unit outcome" where
  "ShowParsedName K q begin_at end_at k =
     (if end_at = 0xffff \<or>
         (\<exists>p \<in> set [unat begin_at..<unat end_at + 1]. fst (LdABX K (UserTask K q k) (of_nat p) k) \<noteq> 0)
      then Hang else Ok ())"

fun equals_loop :: "'k os9 \<Rightarrow> byte \<Rightarrow> 'k \<Rightarrow> word16 \<Rightarrow> word16 \<Rightarrow> cstr \<Rightarrow> bool outcome" where
  "equals_loop K task k p end_at [] = Ok (p = end_at)"
| "equals_loop K task k p end_at (c # s) =
     (if \<not> p < end_at then Ok False
      else case LdABX K task p k of (err, b) \<Rightarrow>
        if err \<noteq> 0 then Hang
        else if ToUpper b \<noteq> c then Ok False
        else equals_loop K task k (p + 1) end_at s)"

definition ParsedNameEquals :: "'k os9 \<Rightarrow> byte \<Rightarrow> word16 \<Rightarrow> word16 \<Rightarrow> cstr \<Rightarrow> 'k \<Rightarrow> bool outcome" where
  "ParsedNameEquals K q begin_at end_at s k = equals_loop K (UserTask K q k) k begin_at end_at s"

text \<open>An error ends the copy; the descriptor was zeroed, so the name ends there too.\<close>

fun copy_name_loop :: "'k os9 \<Rightarrow> byte \<Rightarrow> 'k \<Rightarrow> word16 \<Rightarrow> nat \<Rightarrow> cstr" where
  "copy_name_loop K task k p 0 = []"
| "copy_name_loop K task k p (Suc n) =
     (case LdABX K task p k of (err, c) \<Rightarrow>
        if err \<noteq> 0 then [] else ToUpper c # copy_name_loop K task k (p + 1) n)"

definition CopyParsedName :: "'k os9 \<Rightarrow> byte \<Rightarrow> word16 \<Rightarrow> word16 \<Rightarrow> 'k \<Rightarrow> cstr outcome" where
  "CopyParsedName K q begin_at end_at k =
     (if \<not> end_at - begin_at < DAEMON_NAME_MAX - 1 then Hang
      else Ok (takeWhile (\<lambda>c. c \<noteq> 0) (copy_name_loop K (UserTask K q k) k begin_at (unat (end_at - begin_at)))))"

text \<open>0 when no daemon has the name.\<close>

fun find_daemon_loop ::
  "'k os9 \<Rightarrow> byte \<Rightarrow> word16 \<Rightarrow> word16 \<Rightarrow> word16 \<Rightarrow> 'k manager \<Rightarrow> byte list \<Rightarrow> byte outcome" where
  "find_daemon_loop K q dte begin_at end_at s [] = Ok 0"
| "find_daemon_loop K q dte begin_at end_at s (p # ps) =
     (let pd = pds s p in
      if pd_num pd \<noteq> 0 \<and> dt_fileman (devices s (device_table_entry pd)) = dt_fileman (devices s dte) then
        if pd_num pd \<noteq> p then Hang
        else if is_daemon pd then
          obind (ParsedNameEquals K q begin_at end_at (daemon_name pd) (kern s)) (\<lambda>same.
            if same then Ok p else find_daemon_loop K q dte begin_at end_at s ps)
        else find_daemon_loop K q dte begin_at end_at s ps
      else find_daemon_loop K q dte begin_at end_at s ps)"

definition FindDaemon :: "'k os9 \<Rightarrow> byte \<Rightarrow> word16 \<Rightarrow> word16 \<Rightarrow> word16 \<Rightarrow> 'k manager \<Rightarrow> byte outcome" where
  "FindDaemon K q dte begin_at end_at s =
     obind (ShowParsedName K q begin_at end_at (kern s)) (\<lambda>_.
       find_daemon_loop K q dte begin_at end_at s (map of_nat [1..<256]))"

section \<open>Peers\<close>

definition CheckClient :: "byte \<Rightarrow> 'k manager \<Rightarrow> unit outcome" where
  "CheckClient cli s = (if cli = 0 \<or> is_daemon (pds s cli) then Hang else Ok ())"

definition CheckDaemon :: "byte \<Rightarrow> 'k manager \<Rightarrow> unit outcome" where
  "CheckDaemon dae s = (if dae = 0 \<or> \<not> is_daemon (pds s dae) then Hang else Ok ())"

definition SetPeer :: "byte \<Rightarrow> byte \<Rightarrow> 'k manager \<Rightarrow> 'k manager outcome" where
  "SetPeer subject obj s =
     (if peer (pds s subject) \<noteq> 0 then Hang
      else Ok (set_pd subject (\<lambda>d. d\<lparr>peer := obj\<rparr>) (set_pd obj (\<lambda>d. d\<lparr>link_count := link_count d + 1\<rparr>) s)))"

definition CheckPeer :: "byte \<Rightarrow> byte \<Rightarrow> 'k manager \<Rightarrow> unit outcome" where
  "CheckPeer subject obj s = (if peer (pds s subject) \<noteq> obj then Hang else Ok ())"

definition ClearPeer :: "byte \<Rightarrow> byte \<Rightarrow> 'k manager \<Rightarrow> 'k manager outcome" where
  "ClearPeer subject obj s =
     (if peer (pds s subject) \<noteq> obj then Hang
      else Ok (set_pd subject (\<lambda>d. d\<lparr>peer := 0\<rparr>) (set_pd obj (\<lambda>d. d\<lparr>link_count := link_count d - 1\<rparr>) s)))"

section \<open>The daemon\<close>

definition OpenDaemon :: "'k os9 \<Rightarrow> byte \<Rightarrow> byte \<Rightarrow> word16 \<Rightarrow> word16 \<Rightarrow> 'k manager \<Rightarrow> (byte \<times> 'k manager) outcome" where
  "OpenDaemon K q dae begin2 end2 s =
     obind (FindDaemon K q (device_table_entry (pds s dae)) begin2 end2 s) (\<lambda>already.
       if already \<noteq> 0 then Ok (E_SHARE, s)
       else obind (CopyParsedName K q begin2 end2 (kern s)) (\<lambda>name.
         Ok (0, set_pd dae (\<lambda>d. d\<lparr>is_daemon := True, peer := 0, daemon_name := name, current_process_id := 0\<rparr>) s)))"

text \<open>\<^verbatim>\<open>DaemonReadC\<close> up to its sleep, and from there on.\<close>

definition DaemonReadC :: "byte \<Rightarrow> byte \<Rightarrow> 'k manager \<Rightarrow> 'k manager outcome" where
  "DaemonReadC q dae s =
     (if dae = 0 then Hang
      else Ok (set_proc q (Reading dae)
             (set_pd dae (\<lambda>d. d\<lparr>current_process_id := q, paused_proc_id := q\<rparr>) s)))"

definition request_bytes :: "FuseRequest \<Rightarrow> byte list" where
  "request_bytes r = [operation r, path_num r, a_reg r, b_reg r, hi (req_size r), lo (req_size r)]"

text \<open>How many bytes of the client go with a request, and where they are.\<close>

definition request_payload :: "PathDesc \<Rightarrow> ClientTmp \<Rightarrow> (word16 \<times> word16) option" where
  "request_payload cli t =
     (if client_op t = OP_CREATE \<or> client_op t = OP_OPEN then Some (opening_pathname_size t, opening_original_rx t)
      else if client_op t = OP_WRITE \<or> client_op t = OP_WRITLN then Some (ry (regs cli), rx (regs cli))
      else None)"

definition set_ry :: "byte \<Rightarrow> word16 \<Rightarrow> 'k manager \<Rightarrow> 'k manager" where
  "set_ry p n s = set_pd p (\<lambda>d. d\<lparr>regs := (regs d)\<lparr>ry := n\<rparr>\<rparr>) s"

definition DaemonRead_resumed :: "'k os9 \<Rightarrow> byte \<Rightarrow> byte \<Rightarrow> 'k manager \<Rightarrow> 'k manager outcome" where
  "DaemonRead_resumed K q dae s =
     (let s = set_pd dae (\<lambda>d. d\<lparr>paused_proc_id := 0\<rparr>) s;
          dtask = UserTask K q (kern s);
          cli = peer (pds s dae);
          r = regs (pds s dae);
          finish = (\<lambda>err s. Ok (set_proc q (User err) (set_pd dae (\<lambda>d. d\<lparr>current_process_id := 0\<rparr>) s))) in
      obind (CheckClient cli s) (\<lambda>_.
      obind (CheckPeer cli dae s) (\<lambda>_.
      case client_tmp (pds s cli) of None \<Rightarrow> Wild | Some t \<Rightarrow>
        let req = \<lparr>operation = client_op t, path_num = pd_num (pds s cli), a_reg = ra (regs (pds s cli)),
                   b_reg = rb (regs (pds s cli)), req_size = 0\<rparr>;
            send = (\<lambda>req s. case Put K dtask (rx r) (request_bytes req) (kern s) of (err, k) \<Rightarrow>
                     finish err (s\<lparr>kern := k\<rparr>)) in
        case request_payload (pds s cli) t of
          Some (n, src) \<Rightarrow>
            if \<not> ry r > 6 then Hang
            else
              let sz = min n (ry r - 6); s = set_ry dae (sz + 6) s in
              (case Os9Move K (unat sz) src (task_num t) (rx r + 6) dtask (kern s) of (err, k) \<Rightarrow>
                 let s = s\<lparr>kern := k\<rparr> in
                 if err \<noteq> 0 then finish err s else send (req\<lparr>req_size := sz\<rparr>) s)
        | None \<Rightarrow>
            let s = set_ry dae 6 s in
            if client_op t = OP_READ \<or> client_op t = OP_READLN
            then send (req\<lparr>req_size := ry (regs (pds s cli))\<rparr>) s
            else send req s)))"

text \<open>What the reply does to the registers of both and to the client's memory; the error of the last
  move is not looked at.\<close>

definition pass_reply ::
  "'k os9 \<Rightarrow> byte \<Rightarrow> byte \<Rightarrow> byte \<Rightarrow> ClientTmp \<Rightarrow> FuseReply \<Rightarrow> 'k manager \<Rightarrow> 'k manager" where
  "pass_reply K dtask dae cli t rep s =
     (if status rep \<noteq> 0 then s
      else if client_op t = OP_READ \<or> client_op t = OP_READLN then
        let sz = min (rep_size rep) (ry (regs (pds s cli)));
            s = set_ry dae sz (set_ry cli sz s) in
        s\<lparr>kern := snd (Os9Move K (unat sz) (rx (regs (pds s dae)) + 3) dtask
                             (rx (regs (pds s cli))) (task_num t) (kern s))\<rparr>
      else if client_op t = OP_WRITE \<or> client_op t = OP_WRITLN then set_ry cli (rep_size rep) s
      else s)"

definition DaemonWriteC :: "'k os9 \<Rightarrow> byte \<Rightarrow> byte \<Rightarrow> 'k manager \<Rightarrow> 'k manager outcome" where
  "DaemonWriteC K q dae s =
     obind (CheckDaemon dae s) (\<lambda>_.
     let cli = peer (pds s dae) in
     obind (CheckClient cli s) (\<lambda>_.
     let s = set_pd dae (\<lambda>d. d\<lparr>current_process_id := q\<rparr>) s in
     obind (CheckPeer cli dae s) (\<lambda>_.
     case client_tmp (pds s cli) of None \<Rightarrow> Wild | Some t \<Rightarrow>
       let dtask = UserTask K q (kern s) in
       case Get K dtask (rx (regs (pds s dae))) 3 (kern s) of Inl err \<Rightarrow> Hang | Inr bs \<Rightarrow>
         let rep = \<lparr>status = bs ! 0, rep_size = hilo (bs ! 1) (bs ! 2)\<rparr>;
             s = set_pd cli (\<lambda>d. d\<lparr>client_tmp := Some (t\<lparr>reply := rep\<rparr>)\<rparr>) s in
         obind (ClearPeer dae cli (pass_reply K dtask dae cli t rep s)) (\<lambda>s.
         obind (Os9Awaken cli (set_pd dae (\<lambda>d. d\<lparr>current_process_id := 0\<rparr>) s)) (\<lambda>s.
         Ok (set_proc q (User 0) (Os9AwakenIOQN K q s)))))))"

section \<open>The client\<close>

text \<open>
  \<^verbatim>\<open>SwitchProcess\<close>: as long as the daemon is not asleep in its read, one more tick; then it is
  woken and the client sleeps.
\<close>

definition SwitchProcess :: "byte \<Rightarrow> byte \<Rightarrow> byte \<Rightarrow> byte \<Rightarrow> byte \<Rightarrow> 'k manager \<Rightarrow> 'k manager outcome" where
  "SwitchProcess q cli dae op timeout s =
     (if paused_proc_id (pds s dae) = 0 then Ok (set_proc q (Switching cli dae op timeout) s)
      else obind (Os9Awaken dae s) (\<lambda>s. Ok (Os9Pause q cli op s)))"

definition SwitchProcess_tick :: "byte \<Rightarrow> byte \<Rightarrow> byte \<Rightarrow> byte \<Rightarrow> byte \<Rightarrow> 'k manager \<Rightarrow> 'k manager outcome" where
  "SwitchProcess_tick q cli dae op timeout s =
     (let timeout = timeout - 1 in if \<not> timeout > 0 then Hang else SwitchProcess q cli dae op timeout s)"

text \<open>
  \<^verbatim>\<open>ClientOperationC\<close> from where the daemon is known, up to the sleep.  An error of \<^verbatim>\<open>Os9ReserveTask\<close>
  returns at once.
\<close>

definition call_daemon ::
  "'k os9 \<Rightarrow> byte \<Rightarrow> byte \<Rightarrow> byte \<Rightarrow> byte \<Rightarrow> (word16 \<times> word16) \<Rightarrow> 'k manager \<Rightarrow> 'k manager outcome" where
  "call_daemon K q cli dae op name s =
     obind (SetPeer dae cli s) (\<lambda>s.
       case ResTsk K (kern s) of (e, task, k) \<Rightarrow>
         if e \<noteq> 0 then Ok (set_proc q (User e) (set_pd cli (\<lambda>d. d\<lparr>client_tmp := None\<rparr>) (s\<lparr>kern := k\<rparr>)))
         else
           let tmp = \<lparr>task_num = task, client_op = op, opening_original_rx = fst name,
                      opening_pathname_size = snd name, reply = OldReply K k\<rparr>;
               s = set_pd cli (\<lambda>d. d\<lparr>client_tmp := Some tmp\<rparr>) (s\<lparr>kern := SetMap K task q k\<rparr>) in
           SwitchProcess q cli dae op 50 s)"

definition ClientOperationC :: "'k os9 \<Rightarrow> byte \<Rightarrow> byte \<Rightarrow> byte \<Rightarrow> 'k manager \<Rightarrow> 'k manager outcome" where
  "ClientOperationC K q cli op s =
     (let s = set_pd cli (\<lambda>d. d\<lparr>current_process_id := q, is_daemon := False\<rparr>) s; dae = peer (pds s cli) in
      obind (CheckDaemon dae s) (\<lambda>_.
      obind (CheckPeer cli dae s) (\<lambda>_. call_daemon K q cli dae op (0, 0) s)))"

record Opening =
  begin1 :: word16
  end1 :: word16
  begin2 :: word16
  end2 :: word16
  original_rx :: word16

text \<open>With an \<^verbatim>\<open>opening\<close>; the first component tells an early return, after which IOMan takes the path back.\<close>

definition ClientOperationC_opening ::
  "'k os9 \<Rightarrow> byte \<Rightarrow> byte \<Rightarrow> byte \<Rightarrow> Opening \<Rightarrow> 'k manager \<Rightarrow> 'k manager outcome" where
  "ClientOperationC_opening K q cli op opn s =
     (let s = set_pd cli (\<lambda>d. d\<lparr>current_process_id := q, is_daemon := False\<rparr>) s in
      obind (ShowParsedName K q (begin1 opn) (end1 opn) (kern s)) (\<lambda>_.
      obind (ShowParsedName K q (begin2 opn) (end2 opn) (kern s)) (\<lambda>_.
      obind (FindDaemon K q (device_table_entry (pds s cli)) (begin1 opn) (end1 opn) s) (\<lambda>dae.
        if dae = 0 then Ok (set_proc q (User E_SHARE) s)
        else obind (SetPeer cli dae s) (\<lambda>s.
          call_daemon K q cli dae op (original_rx opn, rx (regs (pds s cli)) - original_rx opn) s)))))"


text \<open>\<^verbatim>\<open>ClientOperationC\<close> behind its sleep; the frame of \<^verbatim>\<open>tmp\<close> is gone when it returns.\<close>

definition ClientOperation_resumed :: "'k os9 \<Rightarrow> byte \<Rightarrow> byte \<Rightarrow> 'k manager \<Rightarrow> (byte \<times> 'k manager) outcome" where
  "ClientOperation_resumed K q cli s =
     (let s = set_pd cli (\<lambda>d. d\<lparr>paused_proc_id := 0\<rparr>) s in
      case client_tmp (pds s cli) of None \<Rightarrow> Wild | Some tmp \<Rightarrow>
        let s = s\<lparr>kern := RelTsk K (task_num tmp) (kern s)\<rparr>;
            s = set_pd cli (\<lambda>d. d\<lparr>current_process_id := 0, client_tmp := None\<rparr>) s in
        Ok (status (reply tmp), s))"

section \<open>The operations of the file manager\<close>

text \<open>The words of a path name; the first one may be \<^verbatim>\<open>FUSE\<close>.  The loop ends before the 99th word.\<close>

function parse_loop ::
  "'k os9 \<Rightarrow> byte \<Rightarrow> 'k \<Rightarrow> nat \<Rightarrow> word16 \<Rightarrow> Opening \<Rightarrow> (nat \<times> word16 \<times> Opening) outcome" where
  "parse_loop K q k i at_rx opn =
     (if \<not> i < 99 then Ok (i, at_rx, opn)
      else case PrsNam K q at_rx k of (err, b, e) \<Rightarrow>
        if err \<noteq> 0 then Ok (i, e, opn)
        else obind (ShowParsedName K q b e k) (\<lambda>_.
          obind (if i = 0 then ParsedNameEquals K q b e (cs ''FUSE'') k else Ok True) (\<lambda>same.
            let i = (if i = 0 \<and> \<not> same then 1 else i) in
            parse_loop K q k (i + 1) e
              (if i = 1 then opn\<lparr>begin1 := b, end1 := e\<rparr>
               else if i = 2 then opn\<lparr>begin2 := b, end2 := e\<rparr> else opn))))"
  by pat_completeness auto
termination
  by (relation "measure (\<lambda>(K, q, k, i, at_rx, opn). 99 - i)") (auto simp: Let_def)

declare parse_loop.simps [simp del]

definition open_parsed ::
  "'k os9 \<Rightarrow> byte \<Rightarrow> byte \<Rightarrow> nat \<times> word16 \<times> Opening \<Rightarrow> 'k manager \<Rightarrow> 'k manager outcome" where
  "open_parsed K q p = (\<lambda>(i, end_rx, opn) s.
     let s = set_pd p (\<lambda>d. d\<lparr>regs := (regs d)\<lparr>rx := end_rx\<rparr>\<rparr>) s in
     obind (if i = 3 then ParsedNameEquals K q (begin1 opn) (end1 opn) (cs ''DAEMON'') (kern s) else Ok False)
       (\<lambda>daemon.
         if daemon then
           obind (OpenDaemon K q p (begin2 opn) (end2 opn) s) (\<lambda>(z, s). Ok (set_proc q (User z) s))
         else ClientOperationC_opening K q p OP_OPEN opn s))"

definition CreateOrOpenC :: "'k os9 \<Rightarrow> byte \<Rightarrow> byte \<Rightarrow> 'k manager \<Rightarrow> 'k manager outcome" where
  "CreateOrOpenC K q p s =
     (let dte = device_table_entry (pds s p); at_rx = rx (regs (pds s p));
          s = s\<lparr>devices := (devices s)(dte := (devices s dte)\<lparr>dt_num_users := 16\<rparr>)\<rparr> in
      obind (parse_loop K q (kern s) 0 at_rx \<lparr>begin1 = 0, end1 = 0, begin2 = 0, end2 = 0, original_rx = at_rx\<rparr>)
        (\<lambda>w. open_parsed K q p w s))"

text \<open>
  \<^verbatim>\<open>CloseC\<close> of a client goes on with \<^verbatim>\<open>ClearPeer\<close> when its operation is back, which is behind its sleep,
  or at once when there was no task for it.
\<close>

definition CloseC_resumed :: "byte \<Rightarrow> 'k manager \<Rightarrow> 'k manager outcome" where
  "CloseC_resumed p s = ClearPeer p (peer (pds s p)) s"

definition CloseC :: "'k os9 \<Rightarrow> byte \<Rightarrow> byte \<Rightarrow> 'k manager \<Rightarrow> 'k manager outcome" where
  "CloseC K q p s =
     (if link_count (pds s p) \<noteq> 0 then Ok (set_proc q (User 0) (Os9AwakenIOQN K q s))
      else if is_daemon (pds s p) then Ok (set_proc q (User 0) (set_pd p (\<lambda>d. d\<lparr>daemon_name := []\<rparr>) s))
      else obind (CheckClient p s) (\<lambda>_.
        obind (ClientOperationC K q p OP_CLOSE s) (\<lambda>s.
          case procs s q of User z \<Rightarrow> CloseC_resumed p s | _ \<Rightarrow> Ok s)))"

definition ReadLnC :: "'k os9 \<Rightarrow> byte \<Rightarrow> byte \<Rightarrow> 'k manager \<Rightarrow> 'k manager outcome" where
  "ReadLnC K q p s =
     (if is_daemon (pds s p) then Ok (set_proc q (User E_BMODE) s) else ClientOperationC K q p OP_READLN s)"

definition WritLnC :: "'k os9 \<Rightarrow> byte \<Rightarrow> byte \<Rightarrow> 'k manager \<Rightarrow> 'k manager outcome" where
  "WritLnC K q p s =
     (if is_daemon (pds s p) then Ok (set_proc q (User E_BMODE) s) else ClientOperationC K q p OP_WRITLN s)"

definition ReadC :: "'k os9 \<Rightarrow> byte \<Rightarrow> byte \<Rightarrow> 'k manager \<Rightarrow> 'k manager outcome" where
  "ReadC K q p s = (if is_daemon (pds s p) then DaemonReadC q p s else ClientOperationC K q p OP_READ s)"

definition WriteC :: "'k os9 \<Rightarrow> byte \<Rightarrow> byte \<Rightarrow> 'k manager \<Rightarrow> 'k manager outcome" where
  "WriteC K q p s = (if is_daemon (pds s p) then DaemonWriteC K q p s else ClientOperationC K q p OP_WRITE s)"

definition GetStatC :: "'k os9 \<Rightarrow> byte \<Rightarrow> byte \<Rightarrow> 'k manager \<Rightarrow> 'k manager outcome" where
  "GetStatC K q p s =
     (if is_daemon (pds s p) then Ok (set_proc q (User E_UNKSVC) s) else ClientOperationC K q p OP_GETSTAT s)"

definition SetStatC :: "'k os9 \<Rightarrow> byte \<Rightarrow> byte \<Rightarrow> 'k manager \<Rightarrow> 'k manager outcome" where
  "SetStatC K q p s =
     (if is_daemon (pds s p) then Ok (set_proc q (User E_UNKSVC) s) else ClientOperationC K q p OP_SETSTAT s)"

definition MakDirC :: "'k os9 \<Rightarrow> byte \<Rightarrow> byte \<Rightarrow> 'k manager \<Rightarrow> 'k manager outcome" where
  "MakDirC K q p s =
     (if is_daemon (pds s p) then Ok (set_proc q (User E_UNKSVC) s) else ClientOperationC K q p OP_MAKDIR s)"

definition ChgDirC :: "'k os9 \<Rightarrow> byte \<Rightarrow> byte \<Rightarrow> 'k manager \<Rightarrow> 'k manager outcome" where
  "ChgDirC K q p s =
     (if is_daemon (pds s p) then Ok (set_proc q (User E_UNKSVC) s) else ClientOperationC K q p OP_CHGDIR s)"

definition DeleteC :: "'k os9 \<Rightarrow> byte \<Rightarrow> byte \<Rightarrow> 'k manager \<Rightarrow> 'k manager outcome" where
  "DeleteC K q p s =
     (if is_daemon (pds s p) then Ok (set_proc q (User E_UNKSVC) s) else ClientOperationC K q p OP_DELETE s)"

definition SeekC :: "'k os9 \<Rightarrow> byte \<Rightarrow> byte \<Rightarrow> 'k manager \<Rightarrow> 'k manager outcome" where
  "SeekC K q p s =
     (if is_daemon (pds s p) then Ok (set_proc q (User E_UNKSVC) s) else ClientOperationC K q p OP_SEEK s)"

text \<open>The entry points the kernel calls on an open path.\<close>

datatype entry = Close | ReadLn | WritLn | Read | Write | GetStat | SetStat | MakDir | ChgDir | Delete | Seek

fun enter :: "entry \<Rightarrow> 'k os9 \<Rightarrow> byte \<Rightarrow> byte \<Rightarrow> 'k manager \<Rightarrow> 'k manager outcome" where
  "enter Close = CloseC"
| "enter ReadLn = ReadLnC"
| "enter WritLn = WritLnC"
| "enter Read = ReadC"
| "enter Write = WriteC"
| "enter GetStat = GetStatC"
| "enter SetStat = SetStatC"
| "enter MakDir = MakDirC"
| "enter ChgDir = ChgDirC"
| "enter Delete = DeleteC"
| "enter Seek = SeekC"

section \<open>The machine\<close>

text \<open>
  What the kernel's IOMan does around the calls: a new descriptor is zeroed; a failed open and the
  last close give it back; a close counts the links down first; no two processes are inside a call
  on the same path.
\<close>

definition no_regs :: Regs where
  "no_regs = \<lparr>rcc = 0, ra = 0, rb = 0, rdp = 0, rx = 0, ry = 0, ru = 0, rpc = 0\<rparr>"

definition zero_pd :: PathDesc where
  "zero_pd = \<lparr>pd_num = 0, link_count = 0, device_table_entry = 0, current_process_id = 0, regs = no_regs,
     is_daemon = False, paused_proc_id = 0, peer = 0, client_tmp = None, daemon_name = []\<rparr>"

definition new_pd :: "byte \<Rightarrow> word16 \<Rightarrow> Regs \<Rightarrow> PathDesc" where
  "new_pd p dte r = zero_pd\<lparr>pd_num := p, link_count := 1, device_table_entry := dte, regs := r\<rparr>"

definition free_pd :: "byte \<Rightarrow> 'k manager \<Rightarrow> 'k manager" where
  "free_pd p s = set_pd p (\<lambda>_. zero_pd) s"

definition opened :: "byte \<Rightarrow> byte \<Rightarrow> 'k manager \<Rightarrow> 'k manager" where
  "opened q p s = (case procs s q of User z \<Rightarrow> if z = 0 then s else free_pd p s | _ \<Rightarrow> s)"

definition closed :: "byte \<Rightarrow> byte \<Rightarrow> 'k manager \<Rightarrow> 'k manager" where
  "closed q p s = (case procs s q of User z \<Rightarrow> if link_count (pds s p) = 0 then free_pd p s else s | _ \<Rightarrow> s)"

fun omap :: "('a \<Rightarrow> 'b) \<Rightarrow> 'a outcome \<Rightarrow> 'b outcome" where
  "omap f (Ok x) = Ok (f x)"
| "omap f Hang = Hang"
| "omap f Wild = Wild"

text \<open>A process that waits in \<^verbatim>\<open>Os9Pause\<close> and has been woken goes on to the end of its call.\<close>

definition client_wakes :: "'k os9 \<Rightarrow> byte \<Rightarrow> byte \<Rightarrow> byte \<Rightarrow> 'k manager \<Rightarrow> 'k manager outcome" where
  "client_wakes K q cli op s =
     obind (ClientOperation_resumed K q cli s) (\<lambda>(z, s).
     obind (if op = OP_CLOSE then CloseC_resumed cli s else Ok s) (\<lambda>s.
       let s = set_proc q (User z) s in
       Ok (if op = OP_CLOSE then closed q cli s else if op = OP_OPEN then opened q cli s else s)))"

definition asleep_at :: "point \<Rightarrow> byte \<Rightarrow> bool" where
  "asleep_at w p = (case w of User z \<Rightarrow> False | _ \<Rightarrow> waits_at w = p)"

definition unlink :: "entry \<Rightarrow> PathDesc \<Rightarrow> PathDesc" where
  "unlink e d = (if e = Close then d\<lparr>link_count := link_count d - 1\<rparr> else d)"

text \<open>
  What can happen: a process opens a path or calls an operation on an open one; a tick of the clock;
  a woken process goes on; a process in user mode changes its memory; a path is duplicated; a signal
  comes from elsewhere.
\<close>

datatype 'k act =
    Opens byte byte word16 Regs
  | Calls byte entry byte Regs
  | Tick byte
  | Goes_on byte
  | Computes byte 'k
  | Dups byte
  | Signal byte

inductive fuse_step :: "'k os9 \<Rightarrow> 'k act \<Rightarrow> 'k manager \<Rightarrow> 'k manager outcome \<Rightarrow> bool" for K where
  opens: "procs s q = User z \<Longrightarrow> q \<noteq> 0 \<Longrightarrow> p \<noteq> 0 \<Longrightarrow> pd_num (pds s p) = 0 \<Longrightarrow>
    fuse_step K (Opens q p dte r) s
      (omap (opened q p) (CreateOrOpenC K q p (set_pd p (\<lambda>_. new_pd p dte r) s)))"
| calls: "procs s q = User z \<Longrightarrow> q \<noteq> 0 \<Longrightarrow> pd_num (pds s p) \<noteq> 0 \<Longrightarrow> \<forall>q'. \<not> asleep_at (procs s q') p \<Longrightarrow>
    fuse_step K (Calls q e p r) s
      (omap (if e = Close then closed q p else (\<lambda>s. s)) (enter e K q p (set_pd p (\<lambda>d. unlink e (d\<lparr>regs := r\<rparr>)) s)))"
| tick: "procs s q = Switching cli dae op t \<Longrightarrow>
    fuse_step K (Tick q) s (SwitchProcess_tick q cli dae op t (s\<lparr>awake := (awake s)(q := False)\<rparr>))"
| reader: "procs s q = Reading dae \<Longrightarrow> awake s q \<Longrightarrow>
    fuse_step K (Goes_on q) s (DaemonRead_resumed K q dae (s\<lparr>awake := (awake s)(q := False)\<rparr>))"
| client: "procs s q = Pausing cli op \<Longrightarrow> awake s q \<Longrightarrow>
    fuse_step K (Goes_on q) s (client_wakes K q cli op (s\<lparr>awake := (awake s)(q := False)\<rparr>))"
| computes: "procs s q = User z \<Longrightarrow> fuse_step K (Computes q k) s (Ok (s\<lparr>kern := k\<rparr>))"
| dups: "pd_num (pds s p) \<noteq> 0 \<Longrightarrow>
    fuse_step K (Dups p) s (Ok (set_pd p (\<lambda>d. d\<lparr>link_count := link_count d + 1\<rparr>) s))"
| signal: "fuse_step K (Signal q) s (Ok (Os9Send q s))"

inductive_cases fuse_stepE: "fuse_step K a s r"

end
