(* ===== verification/Fuse_Links.thy ===== *)
theory Fuse_Links
  imports Fuse_Kernel
begin

text \<open>
  The links between client and daemon paths of the kernel's file manager, over every interleaving of
  the processes: which process waits where, who is linked to whom, and that the frame behind
  \<^verbatim>\<open>client_tmp\<close> is alive whenever the code goes through that pointer.
\<close>

section \<open>Projections\<close>

lemma set_pd_sel [simp]:
  "pds (set_pd p f s) = (pds s)(p := f (pds s p))" "procs (set_pd p f s) = procs s"
  "awake (set_pd p f s) = awake s" "kern (set_pd p f s) = kern s" "devices (set_pd p f s) = devices s"
  by (simp_all add: set_pd_def)

lemma set_proc_sel [simp]:
  "pds (set_proc q w s) = pds s" "procs (set_proc q w s) = (procs s)(q := w)"
  "awake (set_proc q w s) = awake s" "kern (set_proc q w s) = kern s" "devices (set_proc q w s) = devices s"
  by (simp_all add: set_proc_def)

lemma Os9Send_sel [simp]:
  "pds (Os9Send q s) = pds s" "procs (Os9Send q s) = procs s" "kern (Os9Send q s) = kern s"
  "devices (Os9Send q s) = devices s"
  by (simp_all add: Os9Send_def split: point.splits)

lemma Os9Send_awake:
  "awake (Os9Send q s) = (case procs s q of User z \<Rightarrow> awake s | _ \<Rightarrow> (awake s)(q := True))"
  by (simp add: Os9Send_def split: point.splits)

lemma set_ry_sel [simp]:
  "pds (set_ry p n s) = (pds s)(p := (pds s p)\<lparr>regs := (regs (pds s p))\<lparr>ry := n\<rparr>\<rparr>)" "procs (set_ry p n s) = procs s"
  "awake (set_ry p n s) = awake s" "kern (set_ry p n s) = kern s" "devices (set_ry p n s) = devices s"
  by (simp_all add: set_ry_def)

lemma pass_reply_sel [simp]:
  "procs (pass_reply K dt dae cli t rep s) = procs s" "awake (pass_reply K dt dae cli t rep s) = awake s"
  "pd_num (pds (pass_reply K dt dae cli t rep s) p) = pd_num (pds s p)"
  "is_daemon (pds (pass_reply K dt dae cli t rep s) p) = is_daemon (pds s p)"
  "client_tmp (pds (pass_reply K dt dae cli t rep s) p) = client_tmp (pds s p)"
  "peer (pds (pass_reply K dt dae cli t rep s) p) = peer (pds s p)"
  "paused_proc_id (pds (pass_reply K dt dae cli t rep s) p) = paused_proc_id (pds s p)"
  "link_count (pds (pass_reply K dt dae cli t rep s) p) = link_count (pds s p)"
  by (simp_all add: pass_reply_def Let_def)

lemma obind_Ok: "obind m f = Ok y \<longleftrightarrow> (\<exists>x. m = Ok x \<and> f x = Ok y)"
  by (cases m) simp_all

lemma obind_Wild: "obind m f = Wild \<longleftrightarrow> m = Wild \<or> (\<exists>x. m = Ok x \<and> f x = Wild)"
  by (cases m) simp_all

lemma omap_Ok: "omap f m = Ok y \<longleftrightarrow> (\<exists>x. m = Ok x \<and> y = f x)"
  by (cases m) auto

lemma Ok_omap: "Ok y = omap f m \<longleftrightarrow> (\<exists>x. m = Ok x \<and> y = f x)"
  by (cases m) auto

lemma omap_Wild: "omap f m = Wild \<longleftrightarrow> m = Wild"
  by (cases m) auto

section \<open>The invariant\<close>

text \<open>
  The facts about the descriptors that matter here: the number, 0 when the descriptor is not in use;
  whether it is a daemon's; whether \<^verbatim>\<open>client_tmp\<close> points into a live frame; the peer; the paused
  process.
\<close>

definition client_at :: "point \<Rightarrow> byte \<Rightarrow> bool" where
  "client_at w c \<longleftrightarrow> (\<exists>d op t. w = Switching c d op t) \<or> (\<exists>op. w = Pausing c op)"

definition waits_for :: "point \<Rightarrow> byte \<Rightarrow> byte \<Rightarrow> bool" where
  "waits_for w c d \<longleftrightarrow> (\<exists>op t. w = Switching c d op t) \<or> (\<exists>op. w = Pausing c op)"

definition links_ok ::
  "(byte \<Rightarrow> byte) \<Rightarrow> (byte \<Rightarrow> bool) \<Rightarrow> (byte \<Rightarrow> bool) \<Rightarrow> (byte \<Rightarrow> byte) \<Rightarrow> (byte \<Rightarrow> byte) \<Rightarrow>
    (byte \<Rightarrow> point) \<Rightarrow> (byte \<Rightarrow> bool) \<Rightarrow> bool" where
  "links_ok num dmn tmp pr pz pt aw \<longleftrightarrow>
     (\<forall>p. (num p = 0 \<or> num p = p) \<and> (num p = 0 \<longrightarrow> \<not> dmn p)) \<and>
     (\<forall>q c. client_at (pt q) c \<longrightarrow> num c \<noteq> 0 \<and> \<not> dmn c \<and> tmp c \<and> q \<noteq> 0) \<and>
     (\<forall>q d. pt q = Reading d \<longrightarrow> num d \<noteq> 0 \<and> dmn d \<and> q \<noteq> 0 \<and> pz d = q) \<and>
     (\<forall>q q' p. asleep_at (pt q) p \<longrightarrow> asleep_at (pt q') p \<longrightarrow> q = q') \<and>
     (\<forall>q z. pt q = User z \<longrightarrow> \<not> aw q) \<and>
     (\<forall>q c d op t. pt q = Switching c d op t \<longrightarrow> pz c = 0 \<and> \<not> aw q \<and> pr c = d \<and> pr d = c \<and> dmn d) \<and>
     (\<forall>q c op. pt q = Pausing c op \<longrightarrow> pz c = q) \<and>
     (\<forall>q c op. pt q = Pausing c op \<longrightarrow> \<not> aw q \<longrightarrow> pr (pr c) = c \<and> dmn (pr c)) \<and>
     (\<forall>p. pz p \<noteq> 0 \<longrightarrow> dmn p \<longrightarrow> pt (pz p) = Reading p) \<and>
     (\<forall>p. pz p \<noteq> 0 \<longrightarrow> \<not> dmn p \<longrightarrow> (\<exists>op. pt (pz p) = Pausing p op)) \<and>
     (\<forall>d. dmn d \<longrightarrow> pr d \<noteq> 0 \<longrightarrow> pr (pr d) = d \<and> (\<exists>q. waits_for (pt q) (pr d) d \<and> \<not> aw q)) \<and>
     (\<forall>q d. pt q = Reading d \<longrightarrow> aw q \<longrightarrow> pr d \<noteq> 0)"

definition link_inv :: "'k manager \<Rightarrow> bool" where
  "link_inv s \<longleftrightarrow> links_ok (\<lambda>p. pd_num (pds s p)) (\<lambda>p. is_daemon (pds s p)) (\<lambda>p. client_tmp (pds s p) \<noteq> None)
     (\<lambda>p. peer (pds s p)) (\<lambda>p. paused_proc_id (pds s p)) (procs s) (awake s)"

lemma asleep_simps [simp]:
  "\<not> asleep_at (User z) p" "asleep_at (Reading d) p \<longleftrightarrow> d = p"
  "asleep_at (Switching c d op t) p \<longleftrightarrow> c = p" "asleep_at (Pausing c op) p \<longleftrightarrow> c = p"
  by (simp_all add: asleep_at_def)

lemma client_at_simps [simp]:
  "\<not> client_at (User z) p" "\<not> client_at (Reading d) p"
  "client_at (Switching c d op t) p \<longleftrightarrow> c = p" "client_at (Pausing c op) p \<longleftrightarrow> c = p"
  by (simp_all add: client_at_def)

lemma waits_simps [simp]:
  "\<not> waits_for (User z) p d" "\<not> waits_for (Reading d') p d"
  "waits_for (Switching c d' op t) p d \<longleftrightarrow> c = p \<and> d' = d" "waits_for (Pausing c op) p d \<longleftrightarrow> c = p"
  by (simp_all add: waits_for_def)

lemma client_asleep: "client_at w c \<Longrightarrow> asleep_at w c" "waits_for w c d \<Longrightarrow> asleep_at w c"
  "waits_for w c d \<Longrightarrow> client_at w c"
  by (cases w; simp)+

lemma links_okI:
  assumes "\<And>p. (num p = 0 \<or> num p = p) \<and> (num p = 0 \<longrightarrow> \<not> dmn p)"
    "\<And>q c. client_at (pt q) c \<Longrightarrow> num c \<noteq> 0 \<and> \<not> dmn c \<and> tmp c \<and> q \<noteq> 0"
    "\<And>q d. pt q = Reading d \<Longrightarrow> num d \<noteq> 0 \<and> dmn d \<and> q \<noteq> 0 \<and> pz d = q"
    "\<And>q q' p. asleep_at (pt q) p \<Longrightarrow> asleep_at (pt q') p \<Longrightarrow> q = q'"
    "\<And>q z. pt q = User z \<Longrightarrow> \<not> aw q"
    "\<And>q c d op t. pt q = Switching c d op t \<Longrightarrow> pz c = 0 \<and> \<not> aw q \<and> pr c = d \<and> pr d = c \<and> dmn d"
    "\<And>q c op. pt q = Pausing c op \<Longrightarrow> pz c = q"
    "\<And>q c op. pt q = Pausing c op \<Longrightarrow> \<not> aw q \<Longrightarrow> pr (pr c) = c \<and> dmn (pr c)"
    "\<And>p. pz p \<noteq> 0 \<Longrightarrow> dmn p \<Longrightarrow> pt (pz p) = Reading p"
    "\<And>p. pz p \<noteq> 0 \<Longrightarrow> \<not> dmn p \<Longrightarrow> \<exists>op. pt (pz p) = Pausing p op"
    "\<And>d. dmn d \<Longrightarrow> pr d \<noteq> 0 \<Longrightarrow> pr (pr d) = d \<and> (\<exists>q. waits_for (pt q) (pr d) d \<and> \<not> aw q)"
    "\<And>q d. pt q = Reading d \<Longrightarrow> aw q \<Longrightarrow> pr d \<noteq> 0"
  shows "links_ok num dmn tmp pr pz pt aw"
  unfolding links_ok_def using assms by (intro conjI) blast+

lemma links_okD:
  assumes "links_ok num dmn tmp pr pz pt aw"
  shows "(num p = 0 \<or> num p = p) \<and> (num p = 0 \<longrightarrow> \<not> dmn p)"
    "client_at (pt q) c \<Longrightarrow> num c \<noteq> 0 \<and> \<not> dmn c \<and> tmp c \<and> q \<noteq> 0"
    "pt q = Reading d \<Longrightarrow> num d \<noteq> 0 \<and> dmn d \<and> q \<noteq> 0 \<and> pz d = q"
    "asleep_at (pt q) p \<Longrightarrow> asleep_at (pt q') p \<Longrightarrow> q = q'"
    "pt q = User z \<Longrightarrow> \<not> aw q"
    "pt q = Switching c d op t \<Longrightarrow> pz c = 0 \<and> \<not> aw q \<and> pr c = d \<and> pr d = c \<and> dmn d"
    "pt q = Pausing c op \<Longrightarrow> pz c = q"
    "pt q = Pausing c op \<Longrightarrow> \<not> aw q \<Longrightarrow> pr (pr c) = c \<and> dmn (pr c)"
    "pz p \<noteq> 0 \<Longrightarrow> dmn p \<Longrightarrow> pt (pz p) = Reading p"
    "pz p \<noteq> 0 \<Longrightarrow> \<not> dmn p \<Longrightarrow> \<exists>op. pt (pz p) = Pausing p op"
    "dmn d \<Longrightarrow> pr d \<noteq> 0 \<Longrightarrow> pr (pr d) = d \<and> (\<exists>q. waits_for (pt q) (pr d) d \<and> \<not> aw q)"
    "pt q = Reading d \<Longrightarrow> aw q \<Longrightarrow> pr d \<noteq> 0"
    "client_at (pt q) c \<Longrightarrow> c \<noteq> 0"
proof -
  note D1 = assms [unfolded links_ok_def]
  note D2 = D1 [THEN conjunct2]
  note D3 = D2 [THEN conjunct2]
  note D4 = D3 [THEN conjunct2]
  note D5 = D4 [THEN conjunct2]
  note D6 = D5 [THEN conjunct2]
  note D7 = D6 [THEN conjunct2]
  note D8 = D7 [THEN conjunct2]
  note D9 = D8 [THEN conjunct2]
  note D10 = D9 [THEN conjunct2]
  note D11 = D10 [THEN conjunct2]
  note D12 = D11 [THEN conjunct2]
  show "(num p = 0 \<or> num p = p) \<and> (num p = 0 \<longrightarrow> \<not> dmn p)" using D1 [THEN conjunct1] by blast
  show "client_at (pt q) c \<Longrightarrow> num c \<noteq> 0 \<and> \<not> dmn c \<and> tmp c \<and> q \<noteq> 0" using D2 [THEN conjunct1] by blast
  show "pt q = Reading d \<Longrightarrow> num d \<noteq> 0 \<and> dmn d \<and> q \<noteq> 0 \<and> pz d = q" using D3 [THEN conjunct1] by blast
  show "asleep_at (pt q) p \<Longrightarrow> asleep_at (pt q') p \<Longrightarrow> q = q'" using D4 [THEN conjunct1] by blast
  show "pt q = User z \<Longrightarrow> \<not> aw q" using D5 [THEN conjunct1] by blast
  show "pt q = Switching c d op t \<Longrightarrow> pz c = 0 \<and> \<not> aw q \<and> pr c = d \<and> pr d = c \<and> dmn d" using D6 [THEN conjunct1] by blast
  show "pt q = Pausing c op \<Longrightarrow> pz c = q" using D7 [THEN conjunct1] by blast
  show "pt q = Pausing c op \<Longrightarrow> \<not> aw q \<Longrightarrow> pr (pr c) = c \<and> dmn (pr c)" using D8 [THEN conjunct1] by blast
  show "pz p \<noteq> 0 \<Longrightarrow> dmn p \<Longrightarrow> pt (pz p) = Reading p" using D9 [THEN conjunct1] by blast
  show "pz p \<noteq> 0 \<Longrightarrow> \<not> dmn p \<Longrightarrow> \<exists>op. pt (pz p) = Pausing p op" using D10 [THEN conjunct1] by blast
  show "dmn d \<Longrightarrow> pr d \<noteq> 0 \<Longrightarrow> pr (pr d) = d \<and> (\<exists>q. waits_for (pt q) (pr d) d \<and> \<not> aw q)" using D11 [THEN conjunct1] by blast
  show "pt q = Reading d \<Longrightarrow> aw q \<Longrightarrow> pr d \<noteq> 0" using D12 by blast
  then show "client_at (pt q) c \<Longrightarrow> c \<noteq> 0" using D1 [THEN conjunct1] D2 [THEN conjunct1] by metis
qed

section \<open>The transitions\<close>

lemma ok_switch:
  assumes ok: "links_ok num dmn tmp pr pz pt aw" and q: "pt q = User z" "q \<noteq> 0"
    and c: "num c \<noteq> 0" "\<forall>q. \<not> asleep_at (pt q) c" "\<not> dmn c" "pr c = d" and d: "dmn d" "pr d = 0"
  shows "links_ok num dmn (tmp(c := True)) (pr(d := c)) pz (pt(q := Switching c d op t)) aw"
proof -
  note D = links_okD [OF ok]
  have pz: "pz c = 0" using D(10) c(2,3) by (metis asleep_simps(4))
  have ne: "c \<noteq> d" using c(3) d(1) by blast
  show ?thesis
  proof (rule links_okI, goal_cases)
    case (2 q' c') then show ?case using D(2) [of q' c'] q c by (cases "q' = q") auto
  next
    case (3 q' d') then show ?case using D(3) [of q' d'] by (cases "q' = q") auto
  next
    case (4 q1 q2 p) then show ?case using D(4) [of q1 p q2] c(2) by (cases "q1 = q"; cases "q2 = q") auto
  next
    case (5 q' z) then show ?case using D(5) by (cases "q' = q") auto
  next
    case (6 q' c' d' op t)
    then show ?case using D(6) [of q' c' d' op t] D(5) [OF q(1)] D(2) [of q' c'] D(13) [of q' c'] pz c ne d by (cases "q' = q") auto
  next
    case (7 q' c' op) then show ?case using D(7) by (cases "q' = q") auto
  next
    case (8 q' c' op) then show ?case using D(8) [of q' c' op] D(2,13) [of q' c'] c d by (cases "q' = q") auto
  next
    case (9 p) then show ?case using D(9) [of p] q by (cases "pz p = q") auto
  next
    case (10 p) then show ?case using D(10) [of p] q by (cases "pz p = q") auto
  next
    case (11 d')
    then show ?case
    proof (cases "d' = d")
      case True then show ?thesis using c ne D(5) [OF q(1)] by (auto intro!: exI [of _ q])
    next
      case False
      with 11 D(11) [of d'] obtain q' where "pr (pr d') = d'" "waits_for (pt q') (pr d') d'" "\<not> aw q'" by auto
      moreover have "q' \<noteq> q" using calculation(2) q(1) by auto
      moreover have "pr d' \<noteq> d" using D(2) [of q' "pr d'"] calculation(2) d(1) by (auto dest: client_asleep(3))
      ultimately show ?thesis using False by (auto intro!: exI [of _ q'])
    qed
  next
    case (12 q' d') then show ?case using D(12) [of q' d'] d c D(5) [OF q(1)] by (cases "q' = q") auto
  qed (use D(1) in auto)
qed

lemma ok_wake:
  assumes ok: "links_ok num dmn tmp pr pz pt aw" and q: "pt q = Switching c d op t" and d: "pz d \<noteq> 0"
  shows "links_ok num dmn tmp pr (pz(c := q)) (pt(q := Pausing c op)) (aw(pz d := True))"
proof -
  note D = links_okD [OF ok]
  have c: "pz c = 0" "\<not> aw q" "pr c = d" "pr d = c" "dmn d" "\<not> dmn c" "num c \<noteq> 0" "tmp c" "q \<noteq> 0" "c \<noteq> 0"
    using D(6) [OF q] D(2,13) [of q c] q by auto
  have r: "pt (pz d) = Reading d" by (rule D(9) [OF d c(5)])
  show ?thesis
  proof (rule links_okI, goal_cases)
    case (2 q' c') then show ?case using D(2) [of q' c'] c by (cases "q' = q") auto
  next
    case (3 q' d') then show ?case using D(3) [of q' d'] c by (cases "q' = q") auto
  next
    case (4 q1 q2 p) then show ?case using D(4) [of q1 p q2] D(4) [of q c q1] D(4) [of q c q2] q
      by (cases "q1 = q"; cases "q2 = q") auto
  next
    case (5 q' z) then show ?case using D(5) r by (cases "q' = q") auto
  next
    case (6 q' c' d' op' t')
    then show ?case using D(6) [of q' c' d' op' t'] D(4) [of q c q'] q r by (cases "q' = q") auto
  next
    case (7 q' c' op') then show ?case using D(7) D(4) [of q c q'] q by (cases "q' = q") auto
  next
    case (8 q' c' op')
    then show ?case using D(8) [of q' c' op'] c by (cases "q' = q") (auto split: if_splits)
  next
    case (9 p) then show ?case using D(9) [of p] q c by (cases "p = c") (auto split: if_splits)
  next
    case (10 p) then show ?case using D(10) [of p] q c by (cases "p = c") (auto split: if_splits)
  next
    case (11 d')
    then obtain q' where w: "pr (pr d') = d'" "waits_for (pt q') (pr d') d'" "\<not> aw q'" using D(11) [of d'] by auto
    then have "q' \<noteq> pz d" using r by auto
    with w show ?case using q by (cases "q' = q") (auto intro!: exI [of _ q'])
  next
    case (12 q' d') then show ?case using D(12) [of q' d'] r c by (cases "q' = q") (auto split: if_splits)
  qed (use D(1) in auto)
qed

lemma ok_tick:
  assumes ok: "links_ok num dmn tmp pr pz pt aw" and q: "pt q = Switching c d op t"
  shows "links_ok num dmn tmp pr pz (pt(q := Switching c d op t')) aw"
proof -
  note D = links_okD [OF ok]
  show ?thesis
  proof (rule links_okI, goal_cases)
    case (2 q' c') then show ?case using D(2) [of q' c'] q by (cases "q' = q") auto
  next
    case (3 q' d') then show ?case using D(3) [of q' d'] by (cases "q' = q") auto
  next
    case (4 q1 q2 p) then show ?case using D(4) [of q1 p q2] D(4) [of q c q1] D(4) [of q c q2] q
      by (cases "q1 = q"; cases "q2 = q") auto
  next
    case (5 q' z) then show ?case using D(5) by (cases "q' = q") auto
  next
    case (6 q' c' d' op' t') then show ?case using D(6) [of q' c' d' op'] q by (cases "q' = q") auto
  next
    case (7 q' c' op') then show ?case using D(7) by (cases "q' = q") auto
  next
    case (8 q' c' op') then show ?case using D(8) [of q' c' op'] by (cases "q' = q") auto
  next
    case (9 p) then show ?case using D(9) [of p] q by (auto split: if_splits)
  next
    case (10 p) then show ?case using D(10) [of p] q by (auto split: if_splits)
  next
    case (11 d')
    then obtain q' where w: "pr (pr d') = d'" "waits_for (pt q') (pr d') d'" "\<not> aw q'" using D(11) [of d'] by auto
    then show ?case using q by (cases "q' = q") (auto intro!: exI [of _ q'])
  next
    case (12 q' d') then show ?case using D(12) [of q' d'] by (cases "q' = q") auto
  qed (use D(1) in auto)
qed

lemma ok_read:
  assumes ok: "links_ok num dmn tmp pr pz pt aw" and q: "pt q = User z" "q \<noteq> 0"
    and d: "num d \<noteq> 0" "dmn d" "\<forall>q. \<not> asleep_at (pt q) d"
  shows "links_ok num dmn tmp pr (pz(d := q)) (pt(q := Reading d)) aw"
proof -
  note D = links_okD [OF ok]
  show ?thesis
  proof (rule links_okI, goal_cases)
    case (2 q' c') then show ?case using D(2) [of q' c'] by (cases "q' = q") auto
  next
    case (3 q' d') then show ?case using D(3) [of q' d'] q d spec [OF d(3), of q'] by (cases "q' = q") auto
  next
    case (4 q1 q2 p) then show ?case using D(4) [of q1 p q2] d(3) by (cases "q1 = q"; cases "q2 = q") auto
  next
    case (5 q' z) then show ?case using D(5) by (cases "q' = q") auto
  next
    case (6 q' c d' op t)
    then show ?case using D(6) [of q' c d' op t] D(2) [of q' c] d(2) by (cases "q' = q") auto
  next
    case (7 q' c op) then show ?case using D(7) [of q' c op] D(2) [of q' c] d(2) by (cases "q' = q") auto
  next
    case (8 q' c op) then show ?case using D(8) [of q' c op] by (cases "q' = q") auto
  next
    case (9 p) then show ?case using D(9) [of p] q by (cases "p = d"; cases "pz p = q") auto
  next
    case (10 p) then show ?case using D(10) [of p] q d(2) by (cases "p = d"; cases "pz p = q") auto
  next
    case (11 d')
    then obtain q' where w: "pr (pr d') = d'" "waits_for (pt q') (pr d') d'" "\<not> aw q'" using D(11) [of d'] by auto
    then show ?case using q by (cases "q' = q") (auto intro!: exI [of _ q'])
  next
    case (12 q' d') then show ?case using D(12) [of q' d'] D(5) [OF q(1)] by (cases "q' = q") auto
  qed (use D(1) in auto)
qed

lemma ok_read_on:
  assumes ok: "links_ok num dmn tmp pr pz pt aw" and q: "pt q = Reading d"
  shows "links_ok num dmn tmp pr (pz(d := 0)) (pt(q := User z)) (aw(q := False))"
proof -
  note D = links_okD [OF ok]
  have d: "dmn d" "pz d = q" "q \<noteq> 0" using D(3) [OF q] by auto
  have un: "q' = q" if "asleep_at (pt q') d" for q' using D(4) [of q' d q] that q by simp
  show ?thesis
  proof (rule links_okI, goal_cases)
    case (2 q' c') then show ?case using D(2) [of q' c'] by (cases "q' = q") auto
  next
    case (3 q' d') then show ?case using D(3) [of q' d'] un [of q'] by (cases "q' = q") auto
  next
    case (4 q1 q2 p) then show ?case using D(4) [of q1 p q2] by (cases "q1 = q"; cases "q2 = q") auto
  next
    case (5 q' z) then show ?case using D(5) by (cases "q' = q") auto
  next
    case (6 q' c d' op t) then show ?case using D(6) [of q' c d' op t] by (cases "q' = q") auto
  next
    case (7 q' c op) then show ?case using D(7) [of q' c op] D(2) [of q' c] d by (cases "q' = q") auto
  next
    case (8 q' c op) then show ?case using D(8) [of q' c op] by (cases "q' = q") auto
  next
    case (9 p) then show ?case using D(9) [of p] q by (cases "p = d"; cases "pz p = q") auto
  next
    case (10 p) then show ?case using D(10) [of p] q by (cases "p = d"; cases "pz p = q") auto
  next
    case (11 d')
    then obtain q' where w: "pr (pr d') = d'" "waits_for (pt q') (pr d') d'" "\<not> aw q'" using D(11) [of d'] by auto
    then show ?case using q by (cases "q' = q") (auto intro!: exI [of _ q'])
  next
    case (12 q' d') then show ?case using D(12) [of q' d'] by (cases "q' = q") auto
  qed (use D(1) in auto)
qed

text \<open>A process in user mode gets the status of its call.\<close>

lemma ok_user:
  assumes ok: "links_ok num dmn tmp pr pz pt aw" and q: "pt q = User z"
  shows "links_ok num dmn tmp pr pz (pt(q := User z')) aw"
proof -
  note D = links_okD [OF ok]
  show ?thesis
  proof (rule links_okI, goal_cases)
    case (4 q1 q2 p) then show ?case using D(4) [of q1 p q2] by (cases "q1 = q"; cases "q2 = q") auto
  next
    case (5 q' z) then show ?case using D(5) q by (cases "q' = q") auto
  next
    case (9 p) then show ?case using D(9) [of p] q by (cases "pz p = q") auto
  next
    case (10 p) then show ?case using D(10) [of p] q by (cases "pz p = q") auto
  next
    case (11 d)
    then obtain q' where w: "pr (pr d) = d" "waits_for (pt q') (pr d) d" "\<not> aw q'" using D(11) [of d] by auto
    then show ?case using q by (cases "q' = q") (auto intro!: exI [of _ q'])
  qed (use D(1,2,3,6,7,8,12) in \<open>auto split: if_splits\<close>)
qed

lemma ok_write:
  assumes ok: "links_ok num dmn tmp pr pz pt aw" and d: "dmn d" "\<forall>q. \<not> asleep_at (pt q) d"
    and c: "pr d = c" "c \<noteq> 0" "\<not> dmn c" "pz c \<noteq> 0"
  shows "links_ok num dmn tmp (pr(d := 0)) pz pt (aw(pz c := True))"
proof -
  note D = links_okD [OF ok]
  obtain op where w: "pt (pz c) = Pausing c op" using D(10) c by blast
  have un: "q' = pz c" if "asleep_at (pt q') c" for q' using D(4) [of q' c "pz c"] that w by simp
  have pc: "pr c = d" using D(11) [OF d(1)] c by auto
  show ?thesis
  proof (rule links_okI, goal_cases)
    case (5 q' z) then show ?case using D(5) w by auto
  next
    case (6 q' c' d' op t)
    then have "c' \<noteq> c" using un [of q'] w by auto
    then show ?case using 6 D(6) [of q' c' d' op t] D(2) [of q' c'] pc c d w by auto
  next
    case (8 q' c' op')
    then have "c' \<noteq> c" using un [of q'] w by auto
    then show ?case using 8 D(8) [of q' c' op'] D(2) [of q' c'] pc c d by (auto split: if_splits)
  next
    case (11 d')
    then have d': "d' \<noteq> d" "pr d' \<noteq> 0" by (auto split: if_splits)
    obtain q' where q': "pr (pr d') = d'" "waits_for (pt q') (pr d') d'" "\<not> aw q'"
      using D(11) [of d'] 11(1) d'(2) by auto
    moreover have "q' \<noteq> pz c" using q' w d' pc by auto
    moreover have "pr d' \<noteq> d" using D(2) [of q' "pr d'"] q'(2) d(1) by (auto dest: client_asleep(3))
    ultimately show ?case using d' by (auto intro!: exI [of _ q'])
  next
    case (12 q' d') then show ?case using D(12) [of q' d'] spec [OF d(2), of q'] w by (cases "d' = d") (auto split: if_splits)
  qed (rule D(1-4,7,9,10); assumption)+
qed

lemma ok_return:
  assumes ok: "links_ok num dmn tmp pr pz pt aw" and q: "pt q = Pausing c op" "aw q"
  shows "links_ok num dmn (tmp(c := False)) pr (pz(c := 0)) (pt(q := User z)) (aw(q := False))"
    "\<forall>q'. \<not> asleep_at ((pt(q := User z)) q') c" "\<forall>d. dmn d \<longrightarrow> pr d \<noteq> c"
proof -
  note D = links_okD [OF ok]
  have c: "\<not> dmn c" "pz c = q" "q \<noteq> 0" "c \<noteq> 0" using D(2,13) [of q c] D(7) [OF q(1)] q by auto
  have un: "q' = q" if "asleep_at (pt q') c" for q' using D(4) [of q' c q] that q by simp
  show free: "\<forall>d. dmn d \<longrightarrow> pr d \<noteq> c"
  proof (intro allI impI notI)
    fix d assume "dmn d" "pr d = c"
    then obtain q' where "waits_for (pt q') c d" "\<not> aw q'" using D(11) [of d] c(4) by auto
    then show False using un [of q'] q(2) by (auto dest: client_asleep(2))
  qed
  show "\<forall>q'. \<not> asleep_at ((pt(q := User z)) q') c" using un by auto
  show "links_ok num dmn (tmp(c := False)) pr (pz(c := 0)) (pt(q := User z)) (aw(q := False))"
  proof (rule links_okI, goal_cases)
    case (2 q' c')
    then show ?case using D(2) [of q' c'] un [of q'] by (cases "q' = q") (auto dest: client_asleep(1))
  next
    case (3 q' d') then show ?case using D(3) [of q' d'] c by (cases "q' = q") auto
  next
    case (4 q1 q2 p) then show ?case using D(4) [of q1 p q2] by (cases "q1 = q"; cases "q2 = q") auto
  next
    case (5 q' z) then show ?case using D(5) by (cases "q' = q") auto
  next
    case (6 q' c' d' op t) then show ?case using D(6) [of q' c' d' op t] by (cases "q' = q") auto
  next
    case (7 q' c' op) then show ?case using D(7) [of q' c' op] un [of q'] by (cases "q' = q") auto
  next
    case (8 q' c' op) then show ?case using D(8) [of q' c' op] by (cases "q' = q") auto
  next
    case (9 p) then show ?case using D(9) [of p] q by (cases "p = c"; cases "pz p = q") auto
  next
    case (10 p) then show ?case using D(10) [of p] q by (cases "p = c"; cases "pz p = q") auto
  next
    case (11 d')
    then obtain q' where w: "pr (pr d') = d'" "waits_for (pt q') (pr d') d'" "\<not> aw q'" using D(11) [of d'] by auto
    then show ?case using q by (cases "q' = q") (auto intro!: exI [of _ q'])
  next
    case (12 q' d') then show ?case using D(12) [of q' d'] by (cases "q' = q") auto
  qed (use D(1) in auto)
qed

text \<open>A descriptor no call is on can be taken, given back, linked or unlinked.\<close>

lemma ok_reset:
  assumes ok: "links_ok num dmn tmp pr pz pt aw" and p: "\<forall>q. \<not> asleep_at (pt q) p"
    "\<forall>d. dmn d \<longrightarrow> pr d \<noteq> p" "dmn p \<longrightarrow> (\<forall>c. c \<noteq> p \<longrightarrow> pr c \<noteq> p)" "n = 0 \<or> n = p" "n = 0 \<longrightarrow> \<not> b" "b \<longrightarrow> r = 0"
  shows "links_ok (num(p := n)) (dmn(p := b)) (tmp(p := x)) (pr(p := r)) (pz(p := 0)) pt aw"
proof -
  note D = links_okD [OF ok]
  have ne: "c \<noteq> p" if "client_at (pt q) c" for q c using that p(1) client_asleep(1) by blast
  have nr: "d \<noteq> p" if "pt q = Reading d" for q d using that p(1) by (metis asleep_simps(2))
  show ?thesis
  proof (rule links_okI, goal_cases)
    case (1 q') then show ?case using D(1) p(4,5) by auto
  next
    case (2 q c) then show ?case using D(2) [of q c] ne [of q c] by auto
  next
    case (3 q d) then show ?case using D(3) [of q d] nr [of q d] by auto
  next
    case (6 q c d op t)
    then show ?case using D(6) [of q c d op t] ne [of q c] p(3) by auto
  next
    case (7 q c op) then show ?case using D(7) [of q c op] ne [of q c] by auto
  next
    case (8 q c op) then show ?case using D(8) [of q c op] ne [of q c] p(3) by auto
  next
    case (9 p') then show ?case using D(9) [of p'] by (auto split: if_splits)
  next
    case (10 p') then show ?case using D(10) [of p'] by (auto split: if_splits)
  next
    case (11 d)
    then have d: "d \<noteq> p" "dmn d" "pr d \<noteq> 0" using p(6) by (auto split: if_splits)
    then obtain q where "pr (pr d) = d" "waits_for (pt q) (pr d) d" "\<not> aw q" using D(11) [of d] by auto
    then show ?case using d p(2) by (auto intro!: exI [of _ q])
  next
    case (12 q d) then show ?case using D(12) [of q d] nr [of q d] by auto
  qed (use D(4,5) in auto)
qed

section \<open>The invariant of the machine\<close>

lemma link_invI:
  assumes "links_ok num dmn tmp pr pz pt aw" "\<And>p. pd_num (pds s p) = num p" "\<And>p. is_daemon (pds s p) = dmn p"
    "\<And>p. (client_tmp (pds s p) \<noteq> None) = tmp p" "\<And>p. peer (pds s p) = pr p"
    "\<And>p. paused_proc_id (pds s p) = pz p" "procs s = pt" "awake s = aw"
  shows "link_inv s"
  using assms by (simp add: link_inv_def)

lemma SwitchProcess_inv:
  assumes inv: "link_inv (set_proc q (Switching c d op t0) s)" and r: "SwitchProcess q c d op t s = Ok s'"
  shows "link_inv s'"
proof -
  note ok = inv [unfolded link_inv_def set_proc_sel]
  note D = links_okD [OF ok]
  have d: "is_daemon (pds s d)" using D(6) [of q c d op t0] by simp
  show ?thesis
  proof (cases "paused_proc_id (pds s d) = 0")
    case True
    then have "s' = set_proc q (Switching c d op t) s" using r by (simp add: SwitchProcess_def)
    then show ?thesis using ok_tick [OF ok, of q c d op t0 t] by (simp add: link_inv_def)
  next
    case False
    let ?w = "paused_proc_id (pds s d)"
    have w: "((procs s)(q := Switching c d op t0)) ?w = Reading d" using D(9) [OF False d] .
    then have "?w \<noteq> q" "procs s ?w = Reading d" by (auto split: if_splits)
    then have s': "s' = Os9Pause q c op (s\<lparr>awake := (awake s)(?w := True)\<rparr>)"
      using r False by (auto simp: SwitchProcess_def Os9Awaken_def Os9Send_def word_gt_0 Let_def)
    show ?thesis
      by (rule link_invI [OF ok_wake [OF ok, of q c d op t0]]) (use False in \<open>simp_all add: s' Os9Pause_def\<close>)
  qed
qed

definition quiet_os9 :: "'k os9 \<Rightarrow> bool" where
  "quiet_os9 K \<longleftrightarrow> (\<forall>k. fst (ResTsk K k) = 0) \<and> (\<forall>q k. IOQN K q k = 0)"

lemma quiet_ResTsk: "quiet_os9 K \<Longrightarrow> \<exists>task k'. ResTsk K k = (0, task, k')"
  by (cases "ResTsk K k") (auto simp: quiet_os9_def dest: spec [of _ k])

text \<open>A process in user mode calls on a path no other process is inside of.\<close>

definition calls_on :: "'k manager \<Rightarrow> byte \<Rightarrow> byte \<Rightarrow> bool" where
  "calls_on s q p \<longleftrightarrow> (\<exists>z. procs s q = User z) \<and> q \<noteq> 0 \<and> pd_num (pds s p) \<noteq> 0 \<and> (\<forall>q'. \<not> asleep_at (procs s q') p)"

lemma call_daemon_inv:
  assumes K: "quiet_os9 K" and inv: "link_inv s" and c: "calls_on s q c" "\<not> is_daemon (pds s c)" "peer (pds s c) = d"
    and d: "is_daemon (pds s d)" and r: "call_daemon K q c d op nm s = Ok s'"
  shows "link_inv s'"
proof -
  have ne: "c \<noteq> d" using c(2) d by blast
  obtain task k where k: "ResTsk K (kern s) = (0, task, k)" using quiet_ResTsk [OF K] by blast
  obtain z where z: "procs s q = User z" "q \<noteq> 0" using c(1) by (auto simp: calls_on_def)
  have p0: "peer (pds s d) = 0" using r by (auto simp: call_daemon_def SetPeer_def split: if_splits)
  obtain s1 where s1: "SwitchProcess q c d op 50 s1 = Ok s'" "procs s1 = procs s" "awake s1 = awake s"
      "\<And>p. pd_num (pds s1 p) = pd_num (pds s p)" "\<And>p. is_daemon (pds s1 p) = is_daemon (pds s p)"
      "\<And>p. (client_tmp (pds s1 p) \<noteq> None) = ((\<lambda>p. client_tmp (pds s p) \<noteq> None)(c := True)) p"
      "\<And>p. peer (pds s1 p) = ((\<lambda>p. peer (pds s p))(d := c)) p"
      "\<And>p. paused_proc_id (pds s1 p) = paused_proc_id (pds s p)"
    using r p0 k ne by (auto simp: call_daemon_def SetPeer_def Let_def)
  have "link_inv (set_proc q (Switching c d op 0) s1)"
    by (rule link_invI [OF ok_switch [OF inv [unfolded link_inv_def] z]])
      (use c d p0 s1 in \<open>simp_all add: calls_on_def\<close>)
  then show ?thesis by (rule SwitchProcess_inv [OF _ s1(1)])
qed

lemma SwitchProcess_sleeps: "SwitchProcess q c d op t s = Ok s' \<Longrightarrow> procs s' q \<noteq> User z"
  by (auto simp: SwitchProcess_def Os9Pause_def obind_Ok split: if_splits)

lemma call_daemon_sleeps:
  assumes "quiet_os9 K" "call_daemon K q c d op nm s = Ok s'"
  shows "procs s' q \<noteq> User z"
proof -
  obtain s1 where s1: "SetPeer d c s = Ok s1" using assms(2) by (auto simp: call_daemon_def obind_Ok)
  obtain task k where "ResTsk K (kern s1) = (0, task, k)" using quiet_ResTsk [OF assms(1)] by blast
  then show ?thesis using assms(2) s1 by (auto simp: call_daemon_def Let_def dest: SwitchProcess_sleeps)
qed

lemma ClientOperationC_inv:
  assumes K: "quiet_os9 K" and inv: "link_inv s" and c: "calls_on s q c" "\<not> is_daemon (pds s c)"
    and r: "ClientOperationC K q c op s = Ok s'"
  shows "link_inv s'"
proof -
  let ?s = "set_pd c (\<lambda>d. d\<lparr>current_process_id := q, is_daemon := False\<rparr>) s"
  have "link_inv ?s" by (rule link_invI [OF inv [unfolded link_inv_def]]) (use c in simp_all)
  moreover have "calls_on ?s q c" using c(1) by (simp add: calls_on_def)
  ultimately show ?thesis
    using call_daemon_inv [OF K, of ?s q c "peer (pds s c)" op "(0, 0)" s'] r
    by (auto simp: ClientOperationC_def obind_Ok CheckDaemon_def Let_def split: if_splits)
qed

text \<open>What may be given back: a path that no call is on and no daemon is linked to.\<close>

definition loose :: "'k manager \<Rightarrow> byte \<Rightarrow> bool" where
  "loose s p \<longleftrightarrow> (\<forall>q. \<not> asleep_at (procs s q) p) \<and> (\<forall>d. is_daemon (pds s d) \<longrightarrow> peer (pds s d) \<noteq> p) \<and>
     (is_daemon (pds s p) \<longrightarrow> (\<forall>c. c \<noteq> p \<longrightarrow> peer (pds s c) \<noteq> p))"

lemma reset_inv:
  assumes inv: "link_inv s" and p: "loose s p" and d: "pd_num x = 0 \<or> pd_num x = p" "pd_num x = 0 \<longrightarrow> \<not> is_daemon x"
      "is_daemon x \<longrightarrow> peer x = 0" "paused_proc_id x = 0"
  shows "link_inv (set_pd p (\<lambda>_. x) s)"
  by (rule link_invI [OF ok_reset [OF inv [unfolded link_inv_def], of p "pd_num x" "is_daemon x" "peer x" "client_tmp x \<noteq> None"]])
    (use p d in \<open>simp_all add: loose_def\<close>)

lemma free_inv: "link_inv s \<Longrightarrow> loose s p \<Longrightarrow> link_inv (free_pd p s)"
  using reset_inv [of s p zero_pd] by (simp add: free_pd_def zero_pd_def)

lemma calls_on_loose:
  assumes "link_inv s" "\<forall>q. \<not> asleep_at (procs s q) p" "\<not> is_daemon (pds s p)" "p \<noteq> 0"
  shows "loose s p"
proof -
  have "peer (pds s d) \<noteq> p" if d: "is_daemon (pds s d)" for d
  proof
    assume "peer (pds s d) = p"
    then obtain q where "waits_for (procs s q) p d"
      using links_okD(11) [OF assms(1) [unfolded link_inv_def], of d] d assms(4) by auto
    then show False using assms(2) client_asleep(2) by blast
  qed
  then show ?thesis using assms by (simp add: loose_def)
qed

lemma user_inv: "link_inv s \<Longrightarrow> procs s q = User z \<Longrightarrow> link_inv (set_proc q (User z') s)"
  by (rule link_invI [OF ok_user [of _ _ _ _ _ "procs s" "awake s" q z z']]) (simp_all add: link_inv_def)

lemma same_inv:
  assumes "link_inv s" "\<And>p. pd_num (pds s' p) = pd_num (pds s p)" "\<And>p. is_daemon (pds s' p) = is_daemon (pds s p)"
    "\<And>p. (client_tmp (pds s' p) \<noteq> None) = (client_tmp (pds s p) \<noteq> None)" "\<And>p. peer (pds s' p) = peer (pds s p)"
    "\<And>p. paused_proc_id (pds s' p) = paused_proc_id (pds s p)" "procs s' = procs s" "awake s' = awake s"
  shows "link_inv s'"
  by (rule link_invI [OF assms(1) [unfolded link_inv_def]]) (use assms in simp_all)

lemma DaemonReadC_inv:
  assumes inv: "link_inv s" and d: "calls_on s q d" "is_daemon (pds s d)" and r: "DaemonReadC q d s = Ok s'"
  shows "link_inv s'"
proof -
  obtain z where z: "procs s q = User z" using d by (auto simp: calls_on_def)
  show ?thesis
    by (rule link_invI [OF ok_read [OF inv [unfolded link_inv_def] z, of d]])
      (use d r in \<open>auto simp: calls_on_def DaemonReadC_def split: if_splits\<close>)
qed

lemma DaemonRead_resumed_inv:
  assumes inv: "link_inv s" and q: "procs s q = Reading d"
    and r: "DaemonRead_resumed K q d (s\<lparr>awake := (awake s)(q := False)\<rparr>) = Ok s'"
  shows "link_inv s'"
proof -
  obtain e where e: "procs s' = (procs s)(q := User e)" "awake s' = (awake s)(q := False)"
      "\<And>p. pd_num (pds s' p) = pd_num (pds s p)" "\<And>p. is_daemon (pds s' p) = is_daemon (pds s p)"
      "\<And>p. client_tmp (pds s' p) = client_tmp (pds s p)" "\<And>p. peer (pds s' p) = peer (pds s p)"
      "\<And>p. paused_proc_id (pds s' p) = ((\<lambda>p. paused_proc_id (pds s p))(d := 0)) p"
    using r unfolding DaemonRead_resumed_def Let_def
    by (auto simp: obind_Ok split: option.splits if_splits prod.splits)
  show ?thesis
    by (rule link_invI [OF ok_read_on [OF inv [unfolded link_inv_def] q, of e]]) (simp_all add: e)
qed

lemma DaemonWriteC_inv:
  assumes K: "quiet_os9 K" and inv: "link_inv s" and d: "calls_on s q d" "is_daemon (pds s d)"
    and r: "DaemonWriteC K q d s = Ok s'"
  shows "link_inv s'"
proof -
  let ?c = "peer (pds s d)" and ?w = "paused_proc_id (pds s (peer (pds s d)))"
  obtain z where z: "procs s q = User z" using d by (auto simp: calls_on_def)
  have c: "?c \<noteq> 0" "\<not> is_daemon (pds s ?c)" and w: "?w \<noteq> 0"
    using r d(2) unfolding DaemonWriteC_def Let_def
    by (auto simp: obind_Ok CheckClient_def ClearPeer_def Os9Awaken_def Let_def split: option.splits sum.splits if_splits)
  have "d \<noteq> ?c" using c d(2) by auto
  then have e: "procs s' = (procs s)(q := User 0)"
      "awake s' = (case procs s ?w of User z \<Rightarrow> awake s | _ \<Rightarrow> (awake s)(?w := True))"
      "\<And>p. pd_num (pds s' p) = pd_num (pds s p)" "\<And>p. is_daemon (pds s' p) = is_daemon (pds s p)"
      "\<And>p. (client_tmp (pds s' p) \<noteq> None) = (client_tmp (pds s p) \<noteq> None)"
      "\<And>p. peer (pds s' p) = ((\<lambda>p. peer (pds s p))(d := 0)) p"
      "\<And>p. paused_proc_id (pds s' p) = paused_proc_id (pds s p)"
    using r d(2) K unfolding DaemonWriteC_def Let_def quiet_os9_def
    by (auto simp: obind_Ok CheckClient_def ClearPeer_def Os9Awaken_def Os9AwakenIOQN_def Os9Send_awake Let_def
      split: option.splits sum.splits if_splits point.split)
  obtain op where "procs s ?w = Pausing ?c op"
    using links_okD(10) [OF inv [unfolded link_inv_def] w c(2)] by blast
  then have aw: "awake s' = (awake s)(?w := True)" by (simp add: e(2))
  have "\<forall>q. \<not> asleep_at (procs s q) d" using d(1) by (simp add: calls_on_def)
  from ok_write [OF inv [unfolded link_inv_def] d(2) this refl c w]
  have "link_inv (s'\<lparr>procs := procs s\<rparr>)" by (rule link_invI) (use e(5) in \<open>simp_all add: e(1,3,4,6,7) aw\<close>)
  then have "link_inv (set_proc q (User 0) (s'\<lparr>procs := procs s\<rparr>))" by (rule user_inv) (simp add: z)
  moreover have "set_proc q (User 0) (s'\<lparr>procs := procs s\<rparr>) = s'"
    by (rule manager.equality) (simp_all add: e(1) set_proc_def)
  ultimately show ?thesis by simp
qed

lemma find_daemon_is: "find_daemon_loop K q dte b e s ps = Ok d \<Longrightarrow> d \<noteq> 0 \<Longrightarrow> is_daemon (pds s d)"
  by (induction ps) (auto simp: Let_def obind_Ok split: if_splits)

lemma SetPeer_client_inv:
  assumes "link_inv s" "loose s c" "\<not> is_daemon (pds s c)" "pd_num (pds s c) = c" "is_daemon (pds s d)"
    "SetPeer c d s = Ok s'"
  shows "link_inv s'"
proof -
  have "c \<noteq> d" using assms(3,5) by auto
  have z: "paused_proc_id (pds s c) = 0"
    using links_okD(10) [OF assms(1) [unfolded link_inv_def], of c] assms(2,3)
    by (metis asleep_simps(4) loose_def)
  have "link_inv (set_pd c (\<lambda>_. (pds s c)\<lparr>peer := d\<rparr>) s)"
    by (rule reset_inv [OF assms(1,2)]) (use assms(3,4) z in auto)
  then show ?thesis
    by (rule same_inv) (use assms(6) \<open>c \<noteq> d\<close> in \<open>auto simp: SetPeer_def split: if_splits\<close>)
qed

lemma ClientOperationC_opening_inv:
  assumes K: "quiet_os9 K" and inv: "link_inv s" and c: "calls_on s q c" "\<not> is_daemon (pds s c)" "c \<noteq> 0"
    and r: "ClientOperationC_opening K q c op opn s = Ok s'"
  shows "link_inv s' \<and> (procs s' q = User E_SHARE \<and> loose s' c \<and> \<not> is_daemon (pds s' c) \<or> (\<forall>z. procs s' q \<noteq> User z))"
proof -
  let ?s = "set_pd c (\<lambda>d. d\<lparr>current_process_id := q, is_daemon := False\<rparr>) s"
  have i: "link_inv ?s" by (rule same_inv [OF inv]) (use c in simp_all)
  have o: "calls_on ?s q c" "loose ?s c" "\<not> is_daemon (pds ?s c)"
    using c calls_on_loose [OF i, of c] by (simp_all add: calls_on_def)
  obtain z where z: "procs s q = User z" using c(1) by (auto simp: calls_on_def)
  from r consider "s' = set_proc q (User E_SHARE) ?s"
    | d s1 where "is_daemon (pds ?s d)" "SetPeer c d ?s = Ok s1"
        "call_daemon K q c d op (original_rx opn, rx (regs (pds s1 c)) - original_rx opn) s1 = Ok s'"
    by (auto simp: ClientOperationC_opening_def Let_def obind_Ok FindDaemon_def dest!: find_daemon_is split: if_splits)
  then show ?thesis
  proof cases
    case 1
    then show ?thesis using user_inv [OF i, of q z] z o c(1) by (auto simp: loose_def calls_on_def)
  next
    case 2
    have n: "pd_num (pds ?s c) = c"
      using links_okD(1) [OF i [unfolded link_inv_def], of c] o(1) by (simp add: calls_on_def)
    have i1: "link_inv s1" by (rule SetPeer_client_inv [OF i o(2,3) n 2(1,2)])
    have "c \<noteq> d" using o(3) 2(1) by auto
    with 2(2) have s1: "calls_on s1 q c" "\<not> is_daemon (pds s1 c)" "peer (pds s1 c) = d" "is_daemon (pds s1 d)"
      using o 2(1) by (auto simp: SetPeer_def calls_on_def split: if_splits)
    then show ?thesis using call_daemon_inv [OF K i1 s1 2(3)] call_daemon_sleeps [OF K 2(3)] by blast
  qed
qed

lemma OpenDaemon_inv:
  assumes inv: "link_inv s" and p: "loose s p" "\<not> is_daemon (pds s p)" "pd_num (pds s p) = p" "p \<noteq> 0"
    and r: "OpenDaemon K q p b e s = Ok (z, s')"
  shows "link_inv s' \<and> procs s' = procs s \<and> (z = 0 \<or> z = E_SHARE \<and> s' = s)"
proof -
  have z: "paused_proc_id (pds s p) = 0"
    using links_okD(10) [OF inv [unfolded link_inv_def], of p] p(1,2) by (metis asleep_simps(4) loose_def)
  from r consider "z = E_SHARE" "s' = s"
    | name where "z = 0" "s' = set_pd p (\<lambda>_. (pds s p)\<lparr>is_daemon := True, peer := 0, daemon_name := name, current_process_id := 0\<rparr>) s"
    by (auto simp: OpenDaemon_def obind_Ok set_pd_def split: if_splits)
  then show ?thesis
  proof cases
    case 2
    have "link_inv s'" unfolding 2(2) by (rule reset_inv [OF inv p(1)]) (use p z in simp_all)
    then show ?thesis using 2 by simp
  qed (use inv in simp)
qed

section \<open>Every run\<close>

lemma new_path_inv:
  assumes inv: "link_inv s" and p: "pd_num (pds s p) = 0" "p \<noteq> 0"
  shows "link_inv (set_pd p (\<lambda>_. new_pd p dte r) s)" "loose (set_pd p (\<lambda>_. new_pd p dte r) s) p"
proof -
  note D = links_okD [OF inv [unfolded link_inv_def]]
  have d: "\<not> is_daemon (pds s p)" using D(1) [of p] p(1) by simp
  have n: "\<not> asleep_at (procs s q) p" for q
    using D(2) [of q p] D(3) [of q p] p(1) by (cases "procs s q") auto
  have l: "loose s p" using calls_on_loose [OF inv _ d p(2)] n by blast
  show "link_inv (set_pd p (\<lambda>_. new_pd p dte r) s)"
    by (rule reset_inv [OF inv l]) (simp_all add: new_pd_def zero_pd_def)
  show "loose (set_pd p (\<lambda>_. new_pd p dte r) s) p"
    using l by (simp add: loose_def new_pd_def zero_pd_def)
qed

lemma CreateOrOpenC_inv:
  assumes K: "quiet_os9 K" and inv: "link_inv s" and p: "loose s p" "pd_num (pds s p) = p" "p \<noteq> 0" "\<not> is_daemon (pds s p)"
    and q: "procs s q = User z" "q \<noteq> 0" and r: "CreateOrOpenC K q p s = Ok s'"
  shows "link_inv (opened q p s')"
proof -
  obtain i e opn dte v where o: "open_parsed K q p (i, e, opn) (s\<lparr>devices := (devices s)(dte := v)\<rparr>) = Ok s'"
    using r unfolding CreateOrOpenC_def Let_def obind_Ok by (metis prod_cases3)
  define s1 where "s1 = set_pd p (\<lambda>d. d\<lparr>regs := (regs d)\<lparr>rx := e\<rparr>\<rparr>) (s\<lparr>devices := (devices s)(dte := v)\<rparr>)"
  have s1: "\<And>p. pd_num (pds s1 p) = pd_num (pds s p)" "\<And>p. is_daemon (pds s1 p) = is_daemon (pds s p)"
      "\<And>p. client_tmp (pds s1 p) = client_tmp (pds s p)" "\<And>p. peer (pds s1 p) = peer (pds s p)"
      "\<And>p. paused_proc_id (pds s1 p) = paused_proc_id (pds s p)" "procs s1 = procs s" "awake s1 = awake s"
    by (simp_all add: s1_def)
  have s': "(\<exists>z s2. OpenDaemon K q p (begin2 opn) (end2 opn) s1 = Ok (z, s2) \<and> s' = set_proc q (User z) s2) \<or>
      ClientOperationC_opening K q p OP_OPEN opn s1 = Ok s'"
    using o by (auto simp: open_parsed_def Let_def s1_def [symmetric] obind_Ok split: if_splits)
  have i1: "link_inv s1" by (rule same_inv [OF inv]) (simp_all add: s1)
  have l1: "loose s1 p" using p(1) by (simp add: loose_def s1)
  from s' show ?thesis
  proof (elim disjE exE conjE)
    fix z' s2
    assume o: "OpenDaemon K q p (begin2 opn) (end2 opn) s1 = Ok (z', s2)" and s': "s' = set_proc q (User z') s2"
    have O: "link_inv s2 \<and> procs s2 = procs s1 \<and> (z' = 0 \<or> z' = E_SHARE \<and> s2 = s1)"
      by (rule OpenDaemon_inv [OF i1 l1 _ _ _ o]) (use p s1 in simp_all)
    then have i: "link_inv s'" unfolding s' using user_inv [of s2 q z z'] q s1 by simp
    moreover have "loose s' p" if "z' \<noteq> 0" using that O s' l1 q s1(6) by (auto simp: loose_def)
    ultimately show ?thesis using free_inv by (auto simp: opened_def s')
  next
    assume "ClientOperationC_opening K q p OP_OPEN opn s1 = Ok s'"
    moreover have "calls_on s1 q p" using p q l1 s1 by (auto simp: calls_on_def loose_def)
    ultimately have "link_inv s' \<and> (procs s' q = User E_SHARE \<and> loose s' p \<and> \<not> is_daemon (pds s' p) \<or> (\<forall>z. procs s' q \<noteq> User z))"
      using ClientOperationC_opening_inv [OF K i1, of q p OP_OPEN opn s'] p(3,4) s1(2) by simp
    then show ?thesis using free_inv by (auto simp: opened_def split: point.splits)
  qed
qed

lemma client_wakes_inv:
  assumes inv: "link_inv s" and q: "procs s q = Pausing c op" "awake s q"
    and r: "client_wakes K q c op (s\<lparr>awake := (awake s)(q := False)\<rparr>) = Ok s'"
  shows "link_inv s'"
proof -
  note D = links_okD [OF inv [unfolded link_inv_def]]
  note R = ok_return [OF inv [unfolded link_inv_def] q]
  have c: "\<not> is_daemon (pds s c)" "pd_num (pds s c) = c" using D(1) [of c] D(2) [of q c] q by auto
  obtain z s1 where s1: "ClientOperation_resumed K q c (s\<lparr>awake := (awake s)(q := False)\<rparr>) = Ok (z, s1)"
    using r by (auto simp: client_wakes_def obind_Ok)
  have v: "\<And>p. pd_num (pds s1 p) = pd_num (pds s p)" "\<And>p. is_daemon (pds s1 p) = is_daemon (pds s p)"
      "\<And>p. (client_tmp (pds s1 p) \<noteq> None) = ((\<lambda>p. client_tmp (pds s p) \<noteq> None)(c := False)) p"
      "\<And>p. peer (pds s1 p) = peer (pds s p)"
      "\<And>p. paused_proc_id (pds s1 p) = ((\<lambda>p. paused_proc_id (pds s p))(c := 0)) p"
      "procs s1 = procs s" "awake s1 = (awake s)(q := False)"
    using s1 by (auto simp: ClientOperation_resumed_def Let_def split: option.splits if_splits)
  let ?t = "set_proc q (User z) s1"
  have i: "link_inv ?t" by (rule link_invI [OF R(1)]) (use v in simp_all)
  have l: "loose ?t c" using R(2,3) c by (simp add: loose_def v)
  show ?thesis
  proof (cases "op = OP_CLOSE")
    case True
    then have s': "s' = closed q c (set_proc q (User z) (set_pd c (\<lambda>d. d\<lparr>peer := 0\<rparr>)
        (set_pd (peer (pds s1 c)) (\<lambda>d. d\<lparr>link_count := link_count d - 1\<rparr>) s1)))" (is "_ = closed q c ?u")
      using r s1 by (simp add: client_wakes_def CloseC_resumed_def ClearPeer_def Let_def)
    have "link_inv (set_pd c (\<lambda>_. (pds s1 c)\<lparr>peer := 0\<rparr>) ?t)"
      by (rule reset_inv [OF i l]) (use c v in auto)
    then have "link_inv ?u" by (rule same_inv) auto
    moreover have "loose ?u c" using l c(1) v(2) by (auto simp: loose_def)
    ultimately show ?thesis using s' free_inv by (auto simp: closed_def)
  next
    case False
    then have "s' = (if op = OP_OPEN then opened q c ?t else ?t)"
      using r s1 by (simp add: client_wakes_def Let_def)
    then show ?thesis using i l free_inv by (auto simp: opened_def)
  qed
qed

text \<open>
  The circumstances of the invariant: no signals but those of the file manager itself, and no daemon
  path closed for good while a client path is linked to it.
\<close>

fun calm :: "'k act \<Rightarrow> 'k manager \<Rightarrow> bool" where
  "calm (Signal q) s = False"
| "calm (Calls q e p r) s = (e = Close \<and> is_daemon (pds s p) \<longrightarrow> (\<forall>c. peer (pds s c) \<noteq> p))"
| "calm _ s = True"

lemmas entry_defs = CloseC_def ReadLnC_def WritLnC_def ReadC_def WriteC_def GetStatC_def SetStatC_def MakDirC_def
  ChgDirC_def DeleteC_def SeekC_def

lemma client_calls_inv:
  assumes K: "quiet_os9 K" and inv: "link_inv s" and c: "calls_on s q p" and d: "\<not> is_daemon (pds s p)"
    and r: "enter e K q p s = Ok s'"
  shows "link_inv (if e = Close then closed q p s' else s')"
proof -
  obtain z where z: "procs s q = User z" using c by (auto simp: calls_on_def)
  have sleeps: "procs t q \<noteq> User z'" if "ClientOperationC K q p op s = Ok t" for t z' op
    using that call_daemon_sleeps [OF K] by (auto simp: ClientOperationC_def obind_Ok Let_def)
  have stays: "(case procs t q of User z \<Rightarrow> CloseC_resumed p t | _ \<Rightarrow> Ok t) = Ok t"
    if "ClientOperationC K q p OP_CLOSE s = Ok t" for t
    using sleeps [OF that] by (simp split: point.split)
  consider "s' = set_proc q (User 0) s" "e = Close" "link_count (pds s p) \<noteq> 0"
    | op where "ClientOperationC K q p op s = Ok s'"
    using r d K by (cases e)
      (auto simp: entry_defs obind_Ok Os9AwakenIOQN_def quiet_os9_def stays split: if_splits)
  then show ?thesis
  proof cases
    case 1
    then show ?thesis using user_inv [OF inv z] by (simp add: closed_def)
  next
    case 2
    then have "procs s' q \<noteq> User z'" for z' by (rule sleeps)
    then have "closed q p s' = s'" by (simp add: closed_def split: point.split)
    then show ?thesis using ClientOperationC_inv [OF K inv c d 2] by simp
  qed
qed

lemma daemon_calls_inv:
  assumes K: "quiet_os9 K" and inv: "link_inv s" and c: "calls_on s q p" and d: "is_daemon (pds s p)" "e = Close \<Longrightarrow> loose s p"
    and r: "enter e K q p s = Ok s'"
  shows "link_inv (if e = Close then closed q p s' else s')"
proof -
  obtain z where z: "procs s q = User z" using c by (auto simp: calls_on_def)
  have u: "link_inv (set_proc q (User z') s)" for z' by (rule user_inv [OF inv z])
  show ?thesis
  proof (cases "e = Close")
    case t: True
    let ?u = "set_proc q (User 0) (set_pd p (\<lambda>d. d\<lparr>daemon_name := []\<rparr>) s)"
    have "s' = set_proc q (User 0) s \<and> link_count (pds s p) \<noteq> 0 \<or> s' = ?u"
      using r t d(1) K by (auto simp: CloseC_def Os9AwakenIOQN_def quiet_os9_def split: if_splits)
    moreover have "link_inv ?u" by (rule same_inv [OF u [of 0]]) simp_all
    moreover have "loose ?u p" using d(2) [OF t] z by (auto simp: loose_def)
    ultimately show ?thesis using t u free_inv by (auto simp: closed_def)
  next
    case False
    then consider "DaemonReadC q p s = Ok s'" | "DaemonWriteC K q p s = Ok s'" | z' where "s' = set_proc q (User z') s"
      using r d(1) by (cases e) (auto simp: entry_defs)
    then show ?thesis
      using False u DaemonReadC_inv [OF inv c d(1)] DaemonWriteC_inv [OF K inv c d(1)] by cases simp_all
  qed
qed

lemma fuse_step_inv:
  assumes K: "quiet_os9 K" and inv: "link_inv s" and a: "calm a s" and st: "fuse_step K a s out" "out = Ok s'"
  shows "link_inv s'"
  using st(1)
proof (cases rule: fuse_step.cases)
  case (opens q z p dte r)
  let ?s = "set_pd p (\<lambda>_. new_pd p dte r) s"
  obtain s1 where "CreateOrOpenC K q p ?s = Ok s1" "s' = opened q p s1" using opens st(2) by (auto simp: Ok_omap)
  then show ?thesis
    using CreateOrOpenC_inv [OF K new_path_inv(1) [OF inv] new_path_inv(2) [OF inv], of p dte r q z s1] opens
    by (simp add: new_pd_def zero_pd_def)
next
  case (calls q z p e r)
  let ?s = "set_pd p (\<lambda>d. unlink e (d\<lparr>regs := r\<rparr>)) s"
  obtain s1 where s1: "enter e K q p ?s = Ok s1" "s' = (if e = Close then closed q p s1 else s1)"
    using calls st(2) by (auto simp: Ok_omap split: if_splits)
  have i: "link_inv ?s" by (rule same_inv [OF inv]) (simp_all add: unlink_def)
  have c: "calls_on ?s q p" using calls by (auto simp: calls_on_def unlink_def)
  show ?thesis
  proof (cases "is_daemon (pds ?s p)")
    case True
    have "loose ?s p" if "e = Close"
      using that True a calls c by (auto simp: loose_def calls_on_def unlink_def)
    then show ?thesis using daemon_calls_inv [OF K i c True _ s1(1)] s1(2) by simp
  next
    case False
    then show ?thesis using client_calls_inv [OF K i c False s1(1)] s1(2) by simp
  qed
next
  case (tick q cli dae op t)
  have "\<not> awake s q" using links_okD(6) [OF inv [unfolded link_inv_def] tick(3)] by simp
  then have "s\<lparr>awake := (awake s)(q := False)\<rparr> = s" by (simp add: fun_upd_idem)
  moreover have "set_proc q (Switching cli dae op t) s = s" using tick by (simp add: set_proc_def fun_upd_idem)
  ultimately show ?thesis
    using tick st(2) inv SwitchProcess_inv [of q cli dae op t s "t - 1" s'] by (simp add: SwitchProcess_tick_def Let_def split: if_splits)
next
  case (reader q dae)
  then show ?thesis using DaemonRead_resumed_inv [OF inv] st(2) by simp
next
  case (client q cli op)
  then show ?thesis using client_wakes_inv [OF inv] st(2) by simp
next
  case (computes q z k)
  show ?thesis by (rule same_inv [OF inv]) (use computes st(2) in simp_all)
next
  case (dups p)
  show ?thesis by (rule same_inv [OF inv]) (use dups st(2) in auto)
qed (use a in simp)

section \<open>No stale frame\<close>

lemma checks_not_wild [simp]:
  "CheckClient c s \<noteq> Wild" "CheckDaemon d s \<noteq> Wild" "CheckPeer a b s \<noteq> Wild" "SetPeer a b s \<noteq> Wild"
  "ClearPeer a b s \<noteq> Wild" "Os9Awaken p s \<noteq> Wild" "ShowParsedName K q b' e k \<noteq> Wild" "CopyParsedName K q b' e k \<noteq> Wild"
  by (simp_all add: CheckClient_def CheckDaemon_def CheckPeer_def SetPeer_def ClearPeer_def Os9Awaken_def Let_def
    ShowParsedName_def CopyParsedName_def)

lemma equals_not_wild [simp]: "equals_loop K task k p e s \<noteq> Wild"
  by (induction s arbitrary: p) (auto split: prod.split)

lemma find_not_wild [simp]: "find_daemon_loop K q dte b e s ps \<noteq> Wild"
  by (induction ps) (auto simp: Let_def obind_Wild ParsedNameEquals_def)

lemma parse_not_wild [simp]: "parse_loop K q k i x opn \<noteq> Wild"
proof (induction K q k i x opn rule: parse_loop.induct)
  case (1 K q k i x opn)
  then show ?case
    by (subst parse_loop.simps) (auto simp: obind_Wild ParsedNameEquals_def Let_def split: prod.split if_splits)
qed

lemma call_not_wild [simp]: "call_daemon K q c d op nm s \<noteq> Wild" "SwitchProcess q c d op t s \<noteq> Wild"
  by (auto simp: call_daemon_def SwitchProcess_def obind_Wild Let_def split: prod.split)

lemma obind_not_wild: "m \<noteq> Wild \<Longrightarrow> (\<And>x. m = Ok x \<Longrightarrow> f x \<noteq> Wild) \<Longrightarrow> obind m f \<noteq> Wild"
  by (cases m) auto

lemma FindDaemon_not_wild [simp]: "FindDaemon K q dte b e s \<noteq> Wild"
  unfolding FindDaemon_def by (intro obind_not_wild) simp_all

lemma ParsedName_not_wild [simp]: "ParsedNameEquals K q b e n k \<noteq> Wild"
  by (simp add: ParsedNameEquals_def)

lemma OpenDaemon_not_wild [simp]: "OpenDaemon K q p b e s \<noteq> Wild"
  unfolding OpenDaemon_def by (intro obind_not_wild) (auto simp: obind_Wild)

lemma ClientOperation_not_wild [simp]: "ClientOperationC K q c op s \<noteq> Wild"
  unfolding ClientOperationC_def Let_def by (intro obind_not_wild) simp_all

lemma ClientOpening_not_wild [simp]: "ClientOperationC_opening K q c op opn s \<noteq> Wild"
  unfolding ClientOperationC_opening_def Let_def by (intro obind_not_wild) (auto simp: obind_Wild)

lemma CreateOrOpen_not_wild [simp]: "CreateOrOpenC K q p s \<noteq> Wild"
  unfolding CreateOrOpenC_def open_parsed_def Let_def
  by (intro obind_not_wild) (auto simp: obind_Wild split: prod.split)

lemma linked_frame:
  assumes "link_inv s" "is_daemon (pds s d)" "peer (pds s d) \<noteq> 0"
  shows "\<exists>t. client_tmp (pds s (peer (pds s d))) = Some t"
proof -
  note D = links_okD [OF assms(1) [unfolded link_inv_def]]
  obtain q where "waits_for (procs s q) (peer (pds s d)) d" using D(11) [of d] assms by auto
  then show ?thesis using D(2) [of q] client_asleep(3) by blast
qed

lemma DaemonWrite_not_wild:
  assumes "link_inv s" shows "DaemonWriteC K q d s \<noteq> Wild"
proof -
  have "client_tmp (pds s (peer (pds s d))) \<noteq> None" if "CheckDaemon d s = Ok ()" "CheckClient (peer (pds s d)) s = Ok ()"
    using that linked_frame [OF assms, of d] by (auto simp: CheckDaemon_def CheckClient_def split: if_splits)
  then show ?thesis
    by (auto simp: DaemonWriteC_def obind_Wild Let_def split: option.split sum.split if_splits)
qed

lemma DaemonRead_not_wild:
  assumes "link_inv s" "procs s q = Reading d"
  shows "DaemonRead_resumed K q d (s\<lparr>awake := (awake s)(q := False)\<rparr>) \<noteq> Wild"
proof -
  have d: "is_daemon (pds s d)" using links_okD(3) [OF assms(1) [unfolded link_inv_def] assms(2)] by simp
  let ?s = "set_pd d (\<lambda>d. d\<lparr>paused_proc_id := 0\<rparr>) (s\<lparr>awake := (awake s)(q := False)\<rparr>)"
  have f: "client_tmp (pds ?s (peer (pds ?s d))) \<noteq> None" if "CheckClient (peer (pds ?s d)) ?s = Ok ()"
    using that linked_frame [OF assms(1) d] by (auto simp: CheckClient_def split: if_splits)
  show ?thesis
    unfolding DaemonRead_resumed_def Let_def
    by (intro obind_not_wild) (use f in \<open>auto split: option.split prod.split if_splits\<close>)
qed

lemma fuse_step_not_wild:
  assumes inv: "link_inv s" and st: "fuse_step K a s out"
  shows "out \<noteq> Wild"
  using st
proof (cases rule: fuse_step.cases)
  case (calls q z p e r)
  let ?s = "set_pd p (\<lambda>d. unlink e (d\<lparr>regs := r\<rparr>)) s"
  have "link_inv ?s" by (rule same_inv [OF inv]) (simp_all add: unlink_def)
  then have "enter e K q p ?s \<noteq> Wild"
    by (cases e) (auto simp: entry_defs obind_Wild CloseC_resumed_def DaemonReadC_def DaemonWrite_not_wild split: if_splits point.splits)
  then show ?thesis using calls by (auto simp: omap_Wild)
next
  case (client q c op)
  have "client_tmp (pds s c) \<noteq> None"
    using links_okD(2) [OF inv [unfolded link_inv_def], of q c] client by simp
  then show ?thesis using client
    by (auto simp: client_wakes_def obind_Wild ClientOperation_resumed_def CloseC_resumed_def Let_def split: if_splits)
qed (use DaemonRead_not_wild [OF inv] in \<open>simp_all add: omap_Wild SwitchProcess_tick_def Let_def\<close>)

section \<open>Properties\<close>

text \<open>The machine as it starts: no path in use, every process in user mode.\<close>

definition booted :: "'k manager \<Rightarrow> bool" where
  "booted s \<longleftrightarrow> (\<forall>p. pds s p = zero_pd) \<and> (\<forall>q. \<exists>z. procs s q = User z) \<and> (\<forall>q. \<not> awake s q)"

inductive reached :: "'k os9 \<Rightarrow> 'k manager \<Rightarrow> bool" for K where
  start: "booted s \<Longrightarrow> reached K s"
| step: "reached K s \<Longrightarrow> calm a s \<Longrightarrow> fuse_step K a s (Ok s') \<Longrightarrow> reached K s'"

lemma booted_inv: "booted s \<Longrightarrow> link_inv s"
  unfolding link_inv_def
  by (rule links_okI) (auto simp: booted_def zero_pd_def asleep_at_def client_at_def split: point.splits; metis point.distinct)+

lemma reached_inv: "reached K s \<Longrightarrow> quiet_os9 K \<Longrightarrow> link_inv s"
  by (induction rule: reached.induct) (auto intro: booted_inv fuse_step_inv)

end
