(* ===== verification/Fuse_Store.thy ===== *)
theory Fuse_Store
  imports Fuse_Ramfile
begin

text \<open>
  What the file server promises: a map from names, compared without case, to contents, and
  for every open path its mode, its position and the name of its file.  The detailed server
  of \<^verbatim>\<open>Fuse_Ramfile\<close> is shown to implement it, and what is written is read back.
\<close>

section \<open>The promised behaviour\<close>

record text_store =
  texts :: "cstr \<rightharpoonup> byte list"
  opens :: "nat \<rightharpoonup> bool \<times> nat \<times> cstr"

datatype fuse_req =
    RqOpen bool byte cstr
  | RqClose
  | RqRead bool word16
  | RqWrite bool "byte list"

fun encode :: "byte \<Rightarrow> fuse_req \<Rightarrow> byte list" where
  "encode p (RqOpen create mode name) =
     (if create then OP_CREATE else OP_OPEN) # p # mode # 0 #
     hi (of_nat (length name)) # lo (of_nat (length name)) # name"
| "encode p RqClose = [OP_CLOSE, p, 0, 0, 0, 0]"
| "encode p (RqRead ln k) = [if ln then OP_READLN else OP_READ, p, 0, 0, hi k, lo k]"
| "encode p (RqWrite ln bs) =
     (if ln then OP_WRITLN else OP_WRITE) # p # 0 # 0 # hi (of_nat (length bs)) # lo (of_nat (length bs)) # bs"

text \<open>The same with what the A and B registers of the caller hold; a close, a read and a write do not look at them.\<close>

fun encode_regs :: "byte \<Rightarrow> byte \<Rightarrow> byte \<Rightarrow> fuse_req \<Rightarrow> byte list" where
  "encode_regs a b p (RqOpen create mode name) = encode p (RqOpen create mode name)"
| "encode_regs a b p RqClose = [OP_CLOSE, p, a, b, 0, 0]"
| "encode_regs a b p (RqRead ln k) = [if ln then OP_READLN else OP_READ, p, a, b, hi k, lo k]"
| "encode_regs a b p (RqWrite ln bs) =
     (if ln then OP_WRITLN else OP_WRITE) # p # a # b # hi (of_nat (length bs)) # lo (of_nat (length bs)) # bs"

lemma encode_no_regs: "encode p rq = encode_regs 0 0 p rq"
  by (cases rq) simp_all

definition answer :: "byte \<Rightarrow> nat \<Rightarrow> byte list \<Rightarrow> byte list" where
  "answer e n bs = e # hi (of_nat n) # lo (of_nat n) # bs"

definition first_line :: "byte list \<Rightarrow> byte list" where
  "first_line xs = takeWhile (\<lambda>c. c \<noteq> 13) xs @ (if 13 \<in> set xs then [13] else [])"

definition name_key :: "cstr \<Rightarrow> cstr" where
  "name_key name = map CharUp (takeWhile (\<lambda>c. 32 < sint c) name)"

definition portion :: "bool \<Rightarrow> word16 \<Rightarrow> byte list \<Rightarrow> byte list" where
  "portion ln k xs = (if ln then first_line xs else take (unat k) xs)"

fun spec_step :: "nat \<Rightarrow> fuse_req \<Rightarrow> text_store \<Rightarrow> byte list \<times> text_store" where
  "spec_step p (RqOpen create mode name) st =
     (let k = name_key name in
      if mode = 1 then
        (if texts st k = None then (answer E_PNNF 0 [], st)
         else (answer 0 0 [], st\<lparr>opens := (opens st)(p \<mapsto> (False, 0, k))\<rparr>))
      else if mode = 2 then
        (if texts st k = None \<and> card (dom (texts st)) = MAX_FILES then (answer E_FULL 0 [], st)
         else (answer 0 0 [], st\<lparr>texts := (texts st)(k \<mapsto> []), opens := (opens st)(p \<mapsto> (True, 0, k))\<rparr>))
      else (answer E_BMODE 0 [], st))"
| "spec_step p RqClose st = (answer 0 0 [], st\<lparr>opens := (opens st)(p := None)\<rparr>)"
| "spec_step p (RqRead ln k) st =
     (case opens st p of
        None \<Rightarrow> ([], st)
      | Some (w, pos, nm) \<Rightarrow>
          let t = the (texts st nm); bs = portion ln k (drop pos t) in
          if w then (answer E_BMODE 0 [], st)
          else if length t \<le> pos then (answer E_EOF_ram 0 [], st)
          else (answer 0 (length bs) bs, st\<lparr>opens := (opens st)(p \<mapsto> (False, pos + length bs, nm))\<rparr>))"
| "spec_step p (RqWrite ln bs) st =
     (case opens st p of
        None \<Rightarrow> ([], st)
      | Some (w, pos, nm) \<Rightarrow>
          let bs = (if ln then first_line bs else bs) in
          if \<not> w then (answer E_BMODE 0 [], st)
          else (answer 0 (length bs) [], st\<lparr>texts := (texts st)(nm \<mapsto> the (texts st nm) @ bs)\<rparr>))"

text \<open>
  What the code asks of a request: a path of its table, open for a read or a write; payloads
  within the buffers, on which it makes no test of its own; contents within the largest block.
\<close>

definition request_ok :: "nat \<Rightarrow> fuse_req \<Rightarrow> text_store \<Rightarrow> bool" where
  "request_ok p rq st \<longleftrightarrow> p < MAX_PATHS \<and>
     (case rq of
        RqOpen create mode name \<Rightarrow> length name \<le> PAYSIZ
      | RqClose \<Rightarrow> True
      | RqRead ln k \<Rightarrow> (case opens st p of None \<Rightarrow> False | Some (w, pos, nm) \<Rightarrow>
          w \<or> length (portion ln k (drop pos (the (texts st nm)))) \<le> PAYSIZ \<and> (ln \<or> pos + unat k < 65536))
      | RqWrite ln bs \<Rightarrow> length bs \<le> PAYSIZ \<and> (case opens st p of None \<Rightarrow> False | Some (w, pos, nm) \<Rightarrow>
          w \<longrightarrow> length (the (texts st nm)) + length bs \<le> 16384))"

section \<open>The abstraction\<close>

definition up_name :: "FileInfo \<Rightarrow> cstr option" where
  "up_name f = map_option (map CharUp) (file_name f)"

definition file_text :: "FileInfo \<Rightarrow> byte list" where
  "file_text f = take (unat (file_size f)) (contents f)"

definition file_idx :: "FileInfo list \<Rightarrow> cstr \<Rightarrow> nat option" where
  "file_idx fs k = List.find (\<lambda>i. up_name (fs ! i) = Some k) [0..<MAX_FILES]"

definition path_abs :: "FileInfo list \<Rightarrow> PathInfo \<Rightarrow> (bool \<times> nat \<times> cstr) option" where
  "path_abs fs p = (case path_file p of None \<Rightarrow> None
     | Some i \<Rightarrow> Some (writing p, unat (offset p), the (up_name (fs ! i))))"

definition store_of :: "PathInfo list \<Rightarrow> FileInfo list \<Rightarrow> text_store" where
  "store_of ps fs =
     \<lparr>texts = (\<lambda>k. map_option (\<lambda>i. file_text (fs ! i)) (file_idx fs k)),
      opens = (\<lambda>p. if p < MAX_PATHS then path_abs fs (ps ! p) else None)\<rparr>"

abbreviation store_abs :: "ramfile \<Rightarrow> text_store" where
  "store_abs s \<equiv> store_of (Paths s) (Files s)"

definition file_ok :: "FileInfo \<Rightarrow> bool" where
  "file_ok f \<longleftrightarrow> unat (file_size f) \<le> length (contents f) \<and> length (contents f) \<le> 16384"

definition files_ok :: "FileInfo list \<Rightarrow> bool" where
  "files_ok fs \<longleftrightarrow> length fs = MAX_FILES \<and> (\<forall>f \<in> set fs. file_ok f) \<and>
     (\<forall>i < MAX_FILES. \<forall>j < MAX_FILES. up_name (fs ! i) = up_name (fs ! j) \<longrightarrow> up_name (fs ! i) \<noteq> None \<longrightarrow> i = j)"

definition path_ok :: "FileInfo list \<Rightarrow> PathInfo \<Rightarrow> bool" where
  "path_ok fs p \<longleftrightarrow> (\<forall>i. path_file p = Some i \<longrightarrow> i < MAX_FILES \<and> up_name (fs ! i) \<noteq> None)"

definition tables_ok :: "PathInfo list \<Rightarrow> FileInfo list \<Rightarrow> bool" where
  "tables_ok ps fs \<longleftrightarrow> files_ok fs \<and> length ps = MAX_PATHS \<and> (\<forall>p \<in> set ps. path_ok fs p)"

definition ram_inv :: "ramfile \<Rightarrow> bool" where
  "ram_inv s \<longleftrightarrow> length (Req_payload s) = PAYSIZ \<and> length (Rep_payload s) = PAYSIZ \<and>
     tables_ok (Paths s) (Files s)"

section \<open>The tables\<close>

lemma find_upt_None: "List.find P [0..<n] = None \<longleftrightarrow> (\<forall>i < n. \<not> P i)"
  by (auto simp: find_None_iff)

lemma find_upt_Some: "List.find P [0..<n] = Some i \<Longrightarrow> i < n \<and> P i"
  by (auto simp: find_Some_iff)

lemma files_unique:
  "files_ok fs \<Longrightarrow> i < MAX_FILES \<Longrightarrow> j < MAX_FILES \<Longrightarrow> up_name (fs ! i) = Some k \<Longrightarrow>
    up_name (fs ! j) = Some k \<Longrightarrow> i = j"
  by (simp add: files_ok_def)

lemma file_idx_Some:
  assumes "files_ok fs"
  shows "file_idx fs k = Some i \<longleftrightarrow> i < MAX_FILES \<and> up_name (fs ! i) = Some k"
proof
  assume r: "i < MAX_FILES \<and> up_name (fs ! i) = Some k"
  then obtain j where j: "file_idx fs k = Some j"
    by (cases "file_idx fs k") (auto simp: file_idx_def find_upt_None)
  then have "j < MAX_FILES" "up_name (fs ! j) = Some k" unfolding file_idx_def by (auto dest: find_upt_Some)
  then have "j = i" using r files_unique [OF assms] by blast
  with j show "file_idx fs k = Some i" by simp
qed (auto simp: file_idx_def dest: find_upt_Some)

lemma file_idx_None: "file_idx fs k = None \<longleftrightarrow> (\<forall>i < MAX_FILES. up_name (fs ! i) \<noteq> Some k)"
  by (auto simp: file_idx_def find_upt_None)

lemma FindFile_idx: "FindFile name s = file_idx (Files s) (map CharUp name)"
  unfolding FindFile_def file_idx_def
  by (rule arg_cong [where f = "\<lambda>P. List.find P [0..<MAX_FILES]"])
    (auto simp: up_name_def strcasecmp_eq_0 split: option.splits)

text \<open>A path of the table is set; a file is replaced by one of the same name, or put into an
  unused slot.\<close>

lemma set_path_abs:
  assumes "tables_ok ps fs" "p < MAX_PATHS" "path_ok fs q"
  shows "tables_ok (ps[p := q]) fs"
    "store_of (ps[p := q]) fs = (store_of ps fs)\<lparr>opens := (opens (store_of ps fs))(p := path_abs fs q)\<rparr>"
proof -
  show "tables_ok (ps[p := q]) fs"
    using assms set_update_subset_insert [of ps p q] by (auto simp: tables_ok_def)
  show "store_of (ps[p := q]) fs = (store_of ps fs)\<lparr>opens := (opens (store_of ps fs))(p := path_abs fs q)\<rparr>"
    using assms by (auto simp: store_of_def tables_ok_def nth_list_update)
qed

lemma files_update_abs:
  assumes t: "tables_ok ps fs" and i: "i < MAX_FILES" and f: "file_ok f" "up_name f = Some k"
    and k: "up_name (fs ! i) = Some k \<or> up_name (fs ! i) = None \<and> file_idx fs k = None"
  shows "tables_ok ps (fs[i := f])"
    "store_of ps (fs[i := f]) = (store_of ps fs)\<lparr>texts := (texts (store_of ps fs))(k \<mapsto> file_text f)\<rparr>"
proof -
  have l: "length fs = MAX_FILES" and fo: "files_ok fs" using t by (auto simp: tables_ok_def files_ok_def)
  have un: "up_name (fs[i := f] ! j) = (if j = i then Some k else up_name (fs ! j))" if "j < MAX_FILES" for j
    using that i l f by (simp add: nth_list_update)
  have other: "up_name (fs ! j) \<noteq> Some k" if "j < MAX_FILES" "j \<noteq> i" for j
    using k that fo i unfolding files_ok_def file_idx_None by (metis option.distinct(1))
  have fo': "files_ok (fs[i := f])"
    unfolding files_ok_def
  proof (intro conjI allI impI)
    show "length (fs[i := f]) = MAX_FILES" using l by simp
    show "\<forall>g \<in> set (fs[i := f]). file_ok g"
      using fo f set_update_subset_insert [of fs i f] by (auto simp: files_ok_def)
    fix a b assume ab: "a < MAX_FILES" "b < MAX_FILES" "up_name (fs[i := f] ! a) = up_name (fs[i := f] ! b)"
      "up_name (fs[i := f] ! a) \<noteq> None"
    then show "a = b"
      using other [of a] other [of b] fo un [OF ab(1)] un [OF ab(2)] unfolding files_ok_def
      by (metis (no_types, lifting))
  qed
  have keep: "up_name (fs[i := f] ! j) = up_name (fs ! j)" if "j < MAX_FILES" "up_name (fs ! j) \<noteq> None" for j
    using un [OF that(1)] that k by auto
  have po: "path_ok (fs[i := f]) q \<and> path_abs (fs[i := f]) q = path_abs fs q" if "path_ok fs q" for q
    using that keep by (auto simp: path_ok_def path_abs_def split: option.split)
  show "tables_ok ps (fs[i := f])" using t fo' po by (auto simp: tables_ok_def)
  have "opens (store_of ps (fs[i := f])) = opens (store_of ps fs)"
    using t po by (auto simp: store_of_def tables_ok_def)
  moreover have "texts (store_of ps (fs[i := f])) n = ((texts (store_of ps fs))(k \<mapsto> file_text f)) n" for n
  proof (cases "n = k")
    case True
    have "file_idx (fs[i := f]) k = Some i" using file_idx_Some [OF fo'] un [OF i] i by simp
    then show ?thesis using True i l by (simp add: store_of_def)
  next
    case False
    have "file_idx (fs[i := f]) n = file_idx fs n"
    proof (cases "file_idx fs n")
      case None
      then have "file_idx (fs[i := f]) n = None" using un False by (simp add: file_idx_None)
      with None show ?thesis by simp
    next
      case (Some j)
      then have j: "j < MAX_FILES" "up_name (fs ! j) = Some n" using file_idx_Some [OF fo] by auto
      then have "up_name (fs[i := f] ! j) = Some n" using keep by simp
      then show ?thesis using j Some file_idx_Some [OF fo'] by simp
    qed
    moreover have "j \<noteq> i" if "file_idx fs n = Some j" for j
      using that k False file_idx_Some [OF fo, of n j] by auto
    ultimately show ?thesis using False
      by (auto simp: store_of_def nth_list_update split: option.split intro!: option.map_cong0)
  qed
  ultimately show "store_of ps (fs[i := f]) = (store_of ps fs)\<lparr>texts := (texts (store_of ps fs))(k \<mapsto> file_text f)\<rparr>"
    by (intro text_store.equality) auto
qed

lemma store_full:
  assumes "files_ok fs"
  shows "card (dom (texts (store_of ps fs))) = MAX_FILES \<longleftrightarrow> (\<forall>i < MAX_FILES. file_name (fs ! i) \<noteq> None)"
proof -
  let ?I = "{i. i < MAX_FILES \<and> file_name (fs ! i) \<noteq> None}"
  have d: "dom (texts (store_of ps fs)) = (\<lambda>i. the (up_name (fs ! i))) ` ?I"
    using file_idx_Some [OF assms] by (force simp: store_of_def dom_def up_name_def)
  have "inj_on (\<lambda>i. the (up_name (fs ! i))) ?I"
    using assms by (intro inj_onI) (auto simp: files_ok_def up_name_def)
  then have c: "card (dom (texts (store_of ps fs))) = card ?I" unfolding d by (rule card_image)
  show ?thesis
  proof
    assume "card (dom (texts (store_of ps fs))) = MAX_FILES"
    then have "card ?I = card {..<MAX_FILES}" using c by simp
    then have "?I = {..<MAX_FILES}" by (intro card_subset_eq) auto
    then show "\<forall>i < MAX_FILES. file_name (fs ! i) \<noteq> None" by auto
  next
    assume "\<forall>i < MAX_FILES. file_name (fs ! i) \<noteq> None"
    then have "?I = {..<MAX_FILES}" by auto
    then show "card (dom (texts (store_of ps fs))) = MAX_FILES" using c by simp
  qed
qed

lemma texts_None: "texts (store_of ps fs) k = None \<longleftrightarrow> file_idx fs k = None"
  by (simp add: store_of_def)

section \<open>Lines and blocks\<close>

lemma first_line_Nil [simp]: "first_line [] = []"
  by (simp add: first_line_def)

lemma first_line_Cons [simp]: "first_line (c # xs) = (if c = 13 then [13] else c # first_line xs)"
  by (auto simp: first_line_def)

lemma first_line_prefix: "take (length (first_line xs)) xs = first_line xs"
  by (induction xs) auto

lemma first_line_length: "length (first_line xs) \<le> length xs"
  by (induction xs) auto

lemma first_line_idem [simp]: "first_line (first_line xs) = first_line xs"
  by (induction xs) auto

lemma portion_prefix: "take (length (portion ln k xs)) xs = portion ln k xs"
  by (cases "length xs \<le> unat k") (simp_all add: portion_def first_line_prefix)

lemma portion_length: "length (portion ln k xs) \<le> length xs"
  by (simp add: portion_def first_line_length)

lemma line_end_first_line:
  "i + k \<le> length xs \<Longrightarrow> line_end k xs i = Some (i + length (first_line (take k (drop i xs))))"
proof (induction k arbitrary: i)
  case (Suc k)
  then have "drop i xs = xs ! i # drop (Suc i) xs" by (intro Cons_nth_drop_Suc [symmetric]) simp
  with Suc show ?case by simp
qed simp

lemma unat_of_nat_16: "n < 65536 \<Longrightarrow> unat (of_nat n :: word16) = n"
  by (simp add: unat_of_nat)

lemma new_block_ok:
  assumes "unat n \<le> 16384"
  shows "\<exists>m. new_block n = Some (replicate m 0) \<and> unat n \<le> m \<and> m \<le> 16384"
proof -
  have sn: "sint n = int (unat n)" using assms by (simp add: sint_word16_pos)
  then obtain b where b: "b < NBUCKETS" "bucket_loop 0 n (capb 0) = (b, capb b)" "sint n \<le> sint (capb b)"
    using bucket_loop_ok [of 0 n] assms by (auto simp: NBUCKETS_def uint_unat_cmp)
  have "unat (capb b) \<le> 16384" "sint (capb b) = int (unat (capb b))"
    using capb_cases [OF b(1)] by simp_all
  moreover from this have "unat n \<le> unat (capb b)" using b(3) sn by linarith
  moreover have "new_block n = Some (replicate (unat (capb b)) 0)"
    using b(1,2) by (simp add: new_block_def SMALLEST_BUCKET_def capb_def)
  ultimately show ?thesis by blast
qed

lemma grow_block_ok:
  assumes "length old \<le> 16384" "unat n \<le> 16384"
  shows "\<exists>z. grow_block old n = Some z \<and> unat n \<le> length z \<and> length z \<le> 16384 \<and> take (length old) z = old"
proof (cases "unat n \<le> length old")
  case True
  then show ?thesis using assms by (simp add: grow_block_def)
next
  case False
  obtain m where m: "new_block n = Some (replicate m 0)" "unat n \<le> m" "m \<le> 16384"
    using new_block_ok [OF assms(2)] by blast
  with False show ?thesis by (simp add: grow_block_def put_bytes_def)
qed

section \<open>One request\<close>

text \<open>The state a request has been received in.\<close>

definition received :: "nat \<Rightarrow> byte list \<Rightarrow> word16 \<Rightarrow> ramfile \<Rightarrow> bool" where
  "received p body n s \<longleftrightarrow> ram_inv s \<and> unat (path_num (Request s)) = p \<and> p < MAX_PATHS \<and>
     length body \<le> PAYSIZ \<and> take (length body) (Req_payload s) = body \<and> req_size (Request s) = n"

text \<open>The code has answered as promised.\<close>

definition keeps_promise :: "nat \<Rightarrow> fuse_req \<Rightarrow> ramfile \<Rightarrow> (nat \<times> ramfile) option \<Rightarrow> bool" where
  "keeps_promise p rq s r \<longleftrightarrow> (\<exists>n s'. r = Some (n, s') \<and> ram_inv s' \<and> n \<le> 3 + PAYSIZ \<and>
     spec_step p rq (store_abs s) = (take n (reply_bytes s'), store_abs s'))"

lemma set_reply_sel [simp]:
  "Paths (set_reply e n s) = Paths s" "Files (set_reply e n s) = Files s"
  "ram_inv (set_reply e n s) = ram_inv s" "Reply (set_reply e n s) = \<lparr>status = e, rep_size = n\<rparr>"
  "Rep_payload (set_reply e n s) = Rep_payload s"
  by (simp_all add: set_reply_def ram_inv_def)

lemma reply_short:
  "take 3 (reply_bytes (set_reply e (of_nat n) s)) = answer e n []"
  by (simp add: reply_bytes_def answer_def numeral_3_eq_3)

lemma reply_long:
  assumes "take n (Rep_payload s) = bs"
  shows "take (3 + n) (reply_bytes (set_reply e (of_nat n) s)) = answer e n bs"
  using assms by (simp add: reply_bytes_def answer_def numeral_3_eq_3)

lemma path_inv:
  assumes "ram_inv s" "unat (path_num (Request s)) < MAX_PATHS" "path_ok (Files s) q"
  shows "\<exists>s'. set_path q s = Some s' \<and> ram_inv s' \<and> Files s' = Files s \<and> Rep_payload s' = Rep_payload s \<and>
    store_abs s' = (store_abs s)\<lparr>opens := (opens (store_abs s))(unat (path_num (Request s)) := path_abs (Files s) q)\<rparr>"
  using assms set_path_abs [of "Paths s" "Files s" _ q]
  by (simp add: set_path_def ram_inv_def)

lemma close_promise:
  assumes "received p [] n s"
  shows "keeps_promise p RqClose s (map_option (Pair 3) (DoClose s))"
proof -
  have "path_ok (Files s) \<lparr>writing = False, offset = 0, path_file = None\<rparr>" by (simp add: path_ok_def)
  then obtain s' where "set_path \<lparr>writing = False, offset = 0, path_file = None\<rparr> s = Some s'" "ram_inv s'"
      "store_abs s' = (store_abs s)\<lparr>opens := (opens (store_abs s))(p := None)\<rparr>"
    using path_inv [of s] assms by (force simp: received_def path_abs_def)
  then show ?thesis
    using reply_short [of 0 0 s'] by (simp add: keeps_promise_def DoClose_def)
qed

lemma requested_name:
  assumes "received p name (of_nat (length name)) s"
  shows "RequestedFileName s = Some (takeWhile (\<lambda>c. 32 < sint c) name)"
proof -
  have "unat (of_nat (length name) :: word16) = length name"
    using assms by (intro unat_of_nat_16) (simp add: received_def PAYSIZ_def)
  then show ?thesis
    using assms by (simp add: RequestedFileName_def received_def ram_inv_def sub_bytes_def)
qed

lemma open_read_promise:
  assumes r: "received p name (of_nat (length name)) s" and m: "a_reg (Request s) = 1"
  shows "keeps_promise p (RqOpen c 1 name) s (map_option (Pair 3) (DoOpen s))"
proof -
  let ?k = "name_key name"
  have f: "FindFile (takeWhile (\<lambda>c. 32 < sint c) name) s = file_idx (Files s) ?k"
    by (simp add: FindFile_idx name_key_def)
  have i: "ram_inv s" "files_ok (Files s)" "unat (path_num (Request s)) = p" "p < MAX_PATHS"
    using r by (simp_all add: received_def ram_inv_def tables_ok_def)
  show ?thesis
  proof (cases "file_idx (Files s) ?k")
    case None
    then show ?thesis
      using i reply_short [of E_PNNF 0 s] m requested_name [OF r] f
      by (simp add: keeps_promise_def DoOpen_def DoOpenRead_def texts_None)
  next
    case (Some fi)
    let ?q = "\<lparr>writing = False, offset = 0, path_file = Some fi\<rparr>"
    have fi: "fi < MAX_FILES" "up_name (Files s ! fi) = Some ?k" using Some file_idx_Some [OF i(2)] by auto
    then have "path_ok (Files s) ?q" by (simp add: path_ok_def)
    then obtain s' where "set_path ?q s = Some s'" "ram_inv s'"
        "store_abs s' = (store_abs s)\<lparr>opens := (opens (store_abs s))(p \<mapsto> (False, 0, ?k))\<rparr>"
      using path_inv [of s ?q] i fi by (force simp: path_abs_def)
    moreover obtain t where "texts (store_abs s) ?k = Some t"
      using Some texts_None [of "Paths s" "Files s" ?k] by auto
    ultimately show ?thesis
      using reply_short [of 0 0 s'] m requested_name [OF r] f Some
      by (simp add: keeps_promise_def DoOpen_def DoOpenRead_def Let_def)
  qed
qed

lemma open_write_promise:
  assumes r: "received p name (of_nat (length name)) s" and m: "a_reg (Request s) = 2"
  shows "keeps_promise p (RqOpen c 2 name) s (map_option (Pair 3) (DoOpen s))"
proof -
  let ?n = "takeWhile (\<lambda>c. 32 < sint c) name" and ?k = "name_key name"
  have f: "FindFile ?n s = file_idx (Files s) ?k"
    by (simp add: FindFile_idx name_key_def)
  have i: "ram_inv s" "files_ok (Files s)" "tables_ok (Paths s) (Files s)"
      "unat (path_num (Request s)) = p" "p < MAX_PATHS"
    using r by (simp_all add: received_def ram_inv_def tables_ok_def)
  show ?thesis
  proof (cases "file_idx (Files s) ?k = None \<and> FindUnusedFile s = None")
    case True
    then have "\<forall>i < MAX_FILES. file_name (Files s ! i) \<noteq> None" by (simp add: FindUnusedFile_def find_upt_None)
    then have "card (dom (texts (store_abs s))) = MAX_FILES" using store_full [OF i(2)] by blast
    then show ?thesis
      using i reply_short [of E_FULL 0 s] m requested_name [OF r] f True
      by (simp add: keeps_promise_def DoOpen_def DoOpenWrite_def texts_None)
  next
    case False
    obtain fi g where g: "(case FindFile ?n s of
         Some i \<Rightarrow> Some (Some (i, Files s ! i))
       | None \<Rightarrow> (case FindUnusedFile s of
             None \<Rightarrow> Some None
           | Some i \<Rightarrow> do {
               blk \<leftarrow> new_block 16;
               Some (Some (i, (Files s ! i)\<lparr>file_name := Some ?n, contents := blk\<rparr>)) })) = Some (Some (fi, g))"
      and fi: "fi < MAX_FILES" "up_name g = Some ?k" "length (contents g) \<le> 16384"
        "up_name (Files s ! fi) = Some ?k \<or> up_name (Files s ! fi) = None \<and> file_idx (Files s) ?k = None"
    proof (cases "file_idx (Files s) ?k")
      case (Some j)
      then have "j < MAX_FILES" "up_name (Files s ! j) = Some ?k" using file_idx_Some [OF i(2)] by auto
      moreover from this have "length (contents (Files s ! j)) \<le> 16384"
        using i(2) by (simp add: files_ok_def file_ok_def)
      ultimately show ?thesis using that [of j "Files s ! j"] Some f by simp
    next
      case None
      with False obtain j where j: "FindUnusedFile s = Some j" by auto
      then have "j < MAX_FILES" "file_name (Files s ! j) = None"
        unfolding FindUnusedFile_def by (auto dest: find_upt_Some)
      moreover obtain b where "new_block 16 = Some (replicate b 0)" "b \<le> 16384"
        using new_block_ok [of 16] by auto
      ultimately show ?thesis
        using that [of j "(Files s ! j)\<lparr>file_name := Some ?n, contents := replicate b 0\<rparr>"] j None f
        by (simp add: up_name_def name_key_def)
    qed
    let ?g = "g\<lparr>file_size := 0\<rparr>" and ?q = "\<lparr>writing = True, offset = 0, path_file = Some fi\<rparr>"
    let ?s = "set_file fi ?g s"
    have g': "file_ok ?g" "up_name ?g = Some ?k" "file_text ?g = []"
      using fi by (simp_all add: file_ok_def up_name_def file_text_def)
    note u = files_update_abs [OF i(3) fi(1) g'(1,2) fi(4)]
    have s: "ram_inv ?s" "Request ?s = Request s" "Files ?s = (Files s)[fi := ?g]" "Paths ?s = Paths s"
      using i(1) u(1) by (simp_all add: ram_inv_def set_file_def)
    have l: "(Files s)[fi := ?g] ! fi = ?g" using i(2) fi(1) by (simp add: files_ok_def)
    then have "path_ok (Files ?s) ?q" using s fi g' by (simp add: path_ok_def)
    then obtain s' where s': "set_path ?q ?s = Some s'" "ram_inv s'"
        "store_abs s' = (store_abs ?s)\<lparr>opens := (opens (store_abs ?s))(p \<mapsto> (True, 0, ?k))\<rparr>"
      using path_inv [of ?s ?q] s i l g' by (force simp: path_abs_def)
    have full: "\<not> (texts (store_abs s) ?k = None \<and> card (dom (texts (store_abs s))) = MAX_FILES)"
      using False store_full [OF i(2)] by (auto simp: texts_None FindUnusedFile_def find_upt_None)
    have "store_abs s' = (store_abs s)\<lparr>texts := (texts (store_abs s))(?k \<mapsto> []),
        opens := (opens (store_abs s))(p \<mapsto> (True, 0, ?k))\<rparr>"
      using s'(3) s u(2) g'(3) by simp
    then have "spec_step p (RqOpen c 2 name) (store_abs s) = (answer 0 0 [], store_abs s')"
      using full by (auto simp: Let_def)
    moreover have "DoOpen s = Some (set_reply 0 0 s')"
      using s'(1) m requested_name [OF r] g by (simp add: DoOpen_def DoOpenWrite_def)
    ultimately show ?thesis
      using s'(2) reply_short [of 0 0 s'] by (simp add: keeps_promise_def)
  qed
qed

lemma open_other_promise:
  assumes "received p name n s" "a_reg (Request s) = m" "m \<noteq> 1" "m \<noteq> 2"
  shows "keeps_promise p (RqOpen c m name) s (map_option (Pair 3) (DoOpen s))"
  using assms reply_short [of E_BMODE 0 s]
  by (simp add: keeps_promise_def DoOpen_def received_def)

text \<open>The file behind an open path.\<close>

lemma open_file:
  assumes "received p body n s" "opens (store_abs s) p = Some (w, pos, nm)"
  obtains fi where "get_path s = Some (Paths s ! p)" "path_file (Paths s ! p) = Some fi" "fi < MAX_FILES"
    "writing (Paths s ! p) = w" "unat (offset (Paths s ! p)) = pos" "up_name (Files s ! fi) = Some nm"
    "file_ok (Files s ! fi)" "texts (store_abs s) nm = Some (file_text (Files s ! fi))"
proof -
  from assms have p: "p < MAX_PATHS" "unat (path_num (Request s)) = p" "files_ok (Files s)"
      "path_ok (Files s) (Paths s ! p)" "path_abs (Files s) (Paths s ! p) = Some (w, pos, nm)"
    by (auto simp: received_def ram_inv_def tables_ok_def store_of_def)
  then obtain fi where fi: "path_file (Paths s ! p) = Some fi" "fi < MAX_FILES" "up_name (Files s ! fi) = Some nm"
      "writing (Paths s ! p) = w" "unat (offset (Paths s ! p)) = pos"
    by (auto simp: path_abs_def path_ok_def split: option.splits)
  moreover have "file_ok (Files s ! fi)" using p(3) fi(2) by (simp add: files_ok_def)
  moreover have "file_idx (Files s) nm = Some fi" using file_idx_Some [OF p(3)] fi by simp
  then have "texts (store_abs s) nm = Some (file_text (Files s ! fi))" by (simp add: store_of_def)
  moreover have "get_path s = Some (Paths s ! p)" using p by (simp add: get_path_def)
  ultimately show ?thesis using that by blast
qed

lemma read_portion:
  assumes r: "received p [] k s" and opn: "opens (store_abs s) p = Some (False, pos, nm)"
    and t: "texts (store_abs s) nm = Some t" "pos < length t" and k: "ln \<or> pos + unat k < 65536"
    and bs: "bs = portion ln k (drop pos t)"
  obtains i where "unat i = pos + length bs" "writing (Paths s ! p) = False"
    "path_ok (Files s) ((Paths s ! p)\<lparr>offset := i\<rparr>)"
    "path_abs (Files s) ((Paths s ! p)\<lparr>offset := i\<rparr>) = Some (False, pos + length bs, nm)"
    "DoRead ln s = do {
       pay \<leftarrow> put_bytes (Rep_payload s) 0 bs;
       s \<leftarrow> set_path ((Paths s ! p)\<lparr>offset := i\<rparr>) (s\<lparr>Rep_payload := pay\<rparr>);
       Some (set_reply 0 (of_nat (length bs)) s) }"
proof -
  obtain fi where fi: "get_path s = Some (Paths s ! p)" "path_file (Paths s ! p) = Some fi" "fi < MAX_FILES"
    "writing (Paths s ! p) = False" "unat (offset (Paths s ! p)) = pos" "up_name (Files s ! fi) = Some nm"
    "file_ok (Files s ! fi)" "texts (store_abs s) nm = Some (file_text (Files s ! fi))"
    by (rule open_file [OF r opn])
  let ?p = "Paths s ! p" and ?f = "Files s ! fi"
  have tf: "t = file_text ?f" using t(1) fi(8) by simp
  have sz: "length t = unat (file_size ?f)" "unat (file_size ?f) \<le> length (contents ?f)"
    using fi(7) by (simp_all add: tf file_text_def file_ok_def)
  have rq: "req_size (Request s) = k" using r by (simp add: received_def)
  have le: "\<not> file_size ?f \<le> offset ?p" using t(2) sz fi(5) by (simp add: word_le_nat_alt)
  have d: "drop pos t = take (unat (file_size ?f) - pos) (drop pos (contents ?f))"
    by (simp add: tf file_text_def drop_take)
  have "length bs \<le> unat (file_size ?f) - pos"
    using portion_length [of ln k "drop pos t"] sz by (simp add: bs)
  then have cut: "take (length bs) (drop pos (contents ?f)) = bs" "pos + length bs \<le> unat (file_size ?f)"
    using portion_prefix [of ln k "drop pos t"] t(2) sz(1) by (simp_all add: bs d min_absorb1)
  have "\<exists>i. (if ln then map_option of_nat (line_end (unat (file_size ?f) - unat (offset ?p)) (contents ?f) (unat (offset ?p)))
           else Some (min (offset ?p + req_size (Request s)) (file_size ?f))) = Some i \<and> unat i = pos + length bs"
  proof (cases ln)
    case True
    have "unat (of_nat (pos + length bs) :: word16) = pos + length bs"
      using cut(2) unat_word16_lt [of "file_size ?f"] by (intro unat_of_nat_16) linarith
    moreover have "line_end (unat (file_size ?f) - pos) (contents ?f) pos = Some (pos + length bs)"
      using line_end_first_line [of pos "unat (file_size ?f) - pos" "contents ?f"] t(2) sz True d
      by (simp add: portion_def bs)
    ultimately show ?thesis using True fi(5) by simp
  next
    case False
    then have "unat (offset ?p + k) = pos + unat k"
      using k fi(5) by (simp add: unat_word_ariths)
    then show ?thesis using False rq sz t(2) by (auto simp: min_def word_le_nat_alt portion_def bs)
  qed
  then obtain i where i: "(if ln then map_option of_nat (line_end (unat (file_size ?f) - unat (offset ?p)) (contents ?f) (unat (offset ?p)))
           else Some (min (offset ?p + req_size (Request s)) (file_size ?f))) = Some i"
      "unat i = pos + length bs" by blast
  have n1: "unat (i - offset ?p) = length bs"
    using i(2) fi(5) by (subst unat_diff_le) (simp_all add: word_le_nat_alt)
  then have n: "unat (i - offset ?p) = length bs" "i - offset ?p = of_nat (length bs)"
    using unat_of_nat_16 [of "length bs"] unat_word16_lt [of "i - offset ?p"]
    by (simp_all add: word_unat_eq_iff)
  have "sub_bytes (contents ?f) (unat (offset ?p)) (unat (i - offset ?p)) = Some bs"
    using cut n fi(5) sz by (simp add: sub_bytes_def)
  then have "DoRead ln s = do {
       pay \<leftarrow> put_bytes (Rep_payload s) 0 bs;
       s \<leftarrow> set_path (?p\<lparr>offset := i\<rparr>) (s\<lparr>Rep_payload := pay\<rparr>);
       Some (set_reply 0 (of_nat (length bs)) s) }"
    using fi i(1) le n by (simp add: DoRead_def Let_def)
  then show ?thesis using fi i(2) by (intro that) (simp_all add: path_ok_def path_abs_def)
qed

lemma read_promise:
  assumes r: "received p [] k s" and ok: "request_ok p (RqRead ln k) (store_abs s)"
  shows "keeps_promise p (RqRead ln k) s
    (map_option (\<lambda>s. (3 + unat (rep_size (Reply s)), s)) (DoRead ln s))"
proof -
  obtain w pos nm where opn: "opens (store_abs s) p = Some (w, pos, nm)"
    and bound: "\<not> w \<Longrightarrow> length (portion ln k (drop pos (the (texts (store_abs s) nm)))) \<le> PAYSIZ"
      "\<not> w \<Longrightarrow> ln \<or> pos + unat k < 65536"
    using ok by (auto simp: request_ok_def split: option.splits prod.splits)
  obtain fi where fi: "get_path s = Some (Paths s ! p)" "path_file (Paths s ! p) = Some fi" "fi < MAX_FILES"
    "writing (Paths s ! p) = w" "unat (offset (Paths s ! p)) = pos" "up_name (Files s ! fi) = Some nm"
    "file_ok (Files s ! fi)" "texts (store_abs s) nm = Some (file_text (Files s ! fi))"
    by (rule open_file [OF r opn])
  let ?p = "Paths s ! p" and ?f = "Files s ! fi" and ?t = "file_text (Files s ! fi)"
  have inv: "ram_inv s" "unat (path_num (Request s)) = p" "p < MAX_PATHS"
      "length (Rep_payload s) = PAYSIZ"
    using r by (simp_all add: received_def ram_inv_def)
  have sz: "length ?t = unat (file_size ?f)" using fi(7) by (simp add: file_text_def file_ok_def)
  consider "w" | "\<not> w" "length ?t \<le> pos" | "\<not> w" "pos < length ?t" by linarith
  then show ?thesis
  proof cases
    case 1
    then show ?thesis using fi opn reply_short [of E_BMODE 0 s] inv
      by (simp add: keeps_promise_def DoRead_def Let_def)
  next
    case 2
    then have "file_size ?f \<le> offset ?p" using sz fi(5) by (simp add: word_le_nat_alt)
    then show ?thesis using 2 fi opn reply_short [of E_EOF_ram 0 s] inv
      by (simp add: keeps_promise_def DoRead_def Let_def)
  next
    case 3
    let ?bs = "portion ln k (drop pos ?t)"
    from 3 opn have opn': "opens (store_abs s) p = Some (False, pos, nm)" by simp
    obtain i where i: "path_ok (Files s) (?p\<lparr>offset := i\<rparr>)"
        "path_abs (Files s) (?p\<lparr>offset := i\<rparr>) = Some (False, pos + length ?bs, nm)"
        "DoRead ln s = do {
           pay \<leftarrow> put_bytes (Rep_payload s) 0 ?bs;
           s \<leftarrow> set_path (?p\<lparr>offset := i\<rparr>) (s\<lparr>Rep_payload := pay\<rparr>);
           Some (set_reply 0 (of_nat (length ?bs)) s) }"
      by (rule read_portion [OF r opn' fi(8) 3(2) bound(2) [OF 3(1)] refl]) blast
    have len: "length ?bs \<le> PAYSIZ" using bound(1) 3 fi(8) by simp
    let ?pay = "?bs @ drop (length ?bs) (Rep_payload s)"
    have put: "put_bytes (Rep_payload s) 0 ?bs = Some ?pay" using len inv(4) by (simp add: put_bytes_def)
    let ?s = "s\<lparr>Rep_payload := ?pay\<rparr>"
    have "ram_inv ?s" using inv(1,4) len by (simp add: ram_inv_def)
    then obtain s' where s': "set_path (?p\<lparr>offset := i\<rparr>) ?s = Some s'" "ram_inv s'" "Rep_payload s' = ?pay"
        "store_abs s' = (store_abs s)\<lparr>opens := (opens (store_abs s))(p \<mapsto> (False, pos + length ?bs, nm))\<rparr>"
      using path_inv [of ?s "?p\<lparr>offset := i\<rparr>"] inv i(1,2) by force
    have "take (3 + length ?bs) (reply_bytes (set_reply 0 (of_nat (length ?bs)) s')) = answer 0 (length ?bs) ?bs"
      using reply_long [of "length ?bs" s' ?bs 0] s'(3) by simp
    moreover have "unat (of_nat (length ?bs) :: word16) = length ?bs"
      using len by (intro unat_of_nat_16) (simp add: PAYSIZ_def)
    ultimately show ?thesis
      using s' opn fi 3 i(3) put len by (simp add: keeps_promise_def Let_def)
  qed
qed

lemma write_promise:
  assumes r: "received p body (of_nat (length body)) s" and opn: "opens (store_abs s) p = Some (w, pos, nm)"
    and bs: "bs = (if ln then first_line body else body)"
    and bound: "w \<Longrightarrow> length (the (texts (store_abs s) nm)) + length bs \<le> 16384"
  shows "keeps_promise p (RqWrite ln body) s (map_option (Pair 3) (DoWrite ln s))"
proof -
  obtain fi where fi: "get_path s = Some (Paths s ! p)" "path_file (Paths s ! p) = Some fi" "fi < MAX_FILES"
    "writing (Paths s ! p) = w" "unat (offset (Paths s ! p)) = pos" "up_name (Files s ! fi) = Some nm"
    "file_ok (Files s ! fi)" "texts (store_abs s) nm = Some (file_text (Files s ! fi))"
    by (rule open_file [OF r opn])
  let ?f = "Files s ! fi" and ?t = "file_text (Files s ! fi)"
  have inv: "ram_inv s" "tables_ok (Paths s) (Files s)" "length (Req_payload s) = PAYSIZ" "length body \<le> PAYSIZ"
      "take (length body) (Req_payload s) = body" "req_size (Request s) = of_nat (length body)"
    using r by (simp_all add: received_def ram_inv_def)
  have sz: "length ?t = unat (file_size ?f)" "unat (file_size ?f) \<le> length (contents ?f)" "length (contents ?f) \<le> 16384"
    using fi(7) by (simp_all add: file_text_def file_ok_def)
  have sb: "unat (of_nat (length body) :: word16) = length body"
    using inv(4) by (intro unat_of_nat_16) (simp add: PAYSIZ_def)
  have lb: "length bs \<le> length body" using first_line_length [of body] by (simp add: bs)
  have tb: "take (length bs) (Req_payload s) = bs"
    using inv(5) first_line_prefix [of body] lb by (metis bs min_absorb1 take_take)
  show ?thesis
  proof (cases w)
    case False
    then show ?thesis using fi opn reply_short [of E_BMODE 0 s] inv
      by (simp add: keeps_promise_def DoWrite_def Let_def)
  next
    case True
    let ?n = "of_nat (length bs) :: word16"
    have n: "(if ln then map_option of_nat (line_end (unat (req_size (Request s))) (Req_payload s) 0)
             else Some (req_size (Request s))) = Some ?n"
      using line_end_first_line [of 0 "length body" "Req_payload s"] inv sb bs by simp
    have un: "unat ?n = length bs"
      using lb inv(4) by (intro unat_of_nat_16) (simp add: PAYSIZ_def)
    have tot: "length ?t + length bs \<le> 16384" using bound [OF True] fi(8) by simp
    then have us: "unat (file_size ?f + ?n) = length ?t + length bs"
      using sz(1) un by (simp add: unat_word_ariths)
    obtain z where z: "grow_block (contents ?f) (file_size ?f + ?n) = Some z" "length ?t + length bs \<le> length z"
        "length z \<le> 16384" "take (length (contents ?f)) z = contents ?f"
      using grow_block_ok [OF sz(3), of "file_size ?f + ?n"] us tot by auto
    have sub: "sub_bytes (Req_payload s) 0 (unat ?n) = Some bs"
      using tb lb inv(3,4) un by (simp add: sub_bytes_def)
    have "put_bytes z (unat (file_size ?f)) bs \<noteq> None" using z(2) sz(1) by (simp add: put_bytes_def)
    then obtain z' where z': "put_bytes z (unat (file_size ?f)) bs = Some z'" by auto
    let ?g = "?f\<lparr>contents := z', file_size := file_size ?f + ?n\<rparr>"
    have "take (unat (file_size ?f)) z = ?t"
      using z(4) sz(2) unfolding file_text_def by (metis min_absorb1 take_take)
    then have new_text: "file_text ?g = ?t @ bs"
      using put_bytes_take [OF z'] us sz(1) by (simp add: file_text_def)
    have g: "file_ok ?g" "up_name ?g = Some nm"
      using put_bytes_length [OF z'] z us fi(6) by (simp_all add: file_ok_def up_name_def)
    note u = files_update_abs [OF inv(2) fi(3) g disjI1 [OF fi(6)]]
    let ?s = "set_file fi ?g s"
    have s: "ram_inv ?s" "Files ?s = (Files s)[fi := ?g]" "Paths ?s = Paths s"
      using inv(1) u(1) by (simp_all add: ram_inv_def set_file_def)
    have "DoWrite ln s = Some (set_reply 0 ?n ?s)"
      using fi True n z(1) sub z' by (simp add: DoWrite_def Let_def)
    moreover have "spec_step p (RqWrite ln body) (store_abs s) = (answer 0 (length bs) [], store_abs ?s)"
      using opn True fi(8) u(2) new_text s by (simp add: bs Let_def)
    ultimately show ?thesis
      using s(1) reply_short [of 0 "length bs" ?s] by (simp add: keeps_promise_def)
  qed
qed

lemma writln_fixed:
  assumes "received p body (of_nat (length body)) s"
  shows "\<exists>s'. FixSizeForWritLn s = Some s' \<and> received p (first_line body) (of_nat (length (first_line body))) s' \<and>
    store_abs s' = store_abs s"
proof -
  have inv: "length body \<le> PAYSIZ" "take (length body) (Req_payload s) = body" "length (Req_payload s) = PAYSIZ"
    using assms by (simp_all add: received_def ram_inv_def)
  have "unat (of_nat (length body) :: word16) = length body"
    using inv(1) by (intro unat_of_nat_16) (simp add: PAYSIZ_def)
  then have f: "FixSizeForWritLn s = Some (s\<lparr>Request := (Request s)\<lparr>req_size := of_nat (length (first_line body))\<rparr>\<rparr>)"
    using line_end_first_line [of 0 "length body" "Req_payload s"] inv assms
    by (simp add: FixSizeForWritLn_def received_def)
  have "take (length (first_line body)) (Req_payload s) = first_line body"
    using inv(2) first_line_prefix [of body] first_line_length [of body] by (metis min_absorb1 take_take)
  then show ?thesis
    using f assms first_line_length [of body] by (simp add: received_def ram_inv_def)
qed

lemma spec_writln: "spec_step p (RqWrite True (first_line body)) st = spec_step p (RqWrite True body) st"
  by (auto simp: Let_def split: option.split)

lemma keeps_promise_writln:
  assumes "keeps_promise p (RqWrite True (first_line body)) s' r" "store_abs s' = store_abs s"
  shows "keeps_promise p (RqWrite True body) s r"
  using assms by (simp only: keeps_promise_def spec_writln)

section \<open>The server implements its specification\<close>

lemma receive_ok:
  assumes "ram_inv s" "length body \<le> PAYSIZ"
  shows "receive (op # p # a # b # h # l # body) s = Some (s\<lparr>
      Request := \<lparr>operation = op, path_num = p, a_reg = a, b_reg = b, req_size = hilo h l\<rparr>,
      Req_payload := body @ drop (length body) (Req_payload s)\<rparr>)"
  using assms by (simp add: receive_def put_bytes_def ram_inv_def eval_nat_numeral)

lemma serve_one_promise:
  assumes "receive m s = Some s1" "store_abs s1 = store_abs s" "keeps_promise p rq s1 (carry_out s1)"
  shows "\<exists>r s'. serve_one m s = Some (r, s') \<and> ram_inv s' \<and> spec_step p rq (store_abs s) = (r, store_abs s')"
proof -
  obtain n s' where n: "carry_out s1 = Some (n, s')" "ram_inv s'" "n \<le> 3 + PAYSIZ"
      "spec_step p rq (store_abs s1) = (take n (reply_bytes s'), store_abs s')"
    using assms(3) by (auto simp: keeps_promise_def)
  have "length (reply_bytes s') = 3 + PAYSIZ" using n(2) by (simp add: reply_bytes_def ram_inv_def)
  then have "sub_bytes (reply_bytes s') 0 n = Some (take n (reply_bytes s'))" using n(3) by (simp add: sub_bytes_def)
  then show ?thesis using assms(1,2) n(1,2,4) by (simp add: serve_one_def)
qed

lemmas op_codes = OP_CREATE_def OP_OPEN_def OP_CLOSE_def OP_READ_def OP_WRITE_def OP_READLN_def OP_WRITLN_def

lemma serve_step_regs:
  assumes inv: "ram_inv s" and ok: "request_ok (unat p) rq (store_abs s)"
  shows "\<exists>r s'. serve_one (encode_regs a b p rq) s = Some (r, s') \<and> ram_inv s' \<and>
    spec_step (unat p) rq (store_abs s) = (r, store_abs s')"
proof (cases rq)
  case (RqOpen c m name)
  let ?l = "of_nat (length name) :: word16"
  let ?s = "s\<lparr>Request := \<lparr>operation = (if c then OP_CREATE else OP_OPEN), path_num = p, a_reg = m, b_reg = 0, req_size = ?l\<rparr>,
      Req_payload := name @ drop (length name) (Req_payload s)\<rparr>"
  have n: "length name \<le> PAYSIZ" "unat p < MAX_PATHS" using ok RqOpen by (simp_all add: request_ok_def)
  have rc: "receive (encode_regs a b p rq) s = Some ?s"
    using receive_ok [OF inv n(1)] RqOpen by simp
  have r: "received (unat p) name ?l ?s" using inv n by (simp add: received_def ram_inv_def)
  have "keeps_promise (unat p) rq ?s (map_option (Pair 3) (DoOpen ?s))"
  proof -
    consider "m = 1" | "m = 2" | "m \<noteq> 1" "m \<noteq> 2" by blast
    then show ?thesis
    proof cases
      case 1
      then show ?thesis using open_read_promise [OF r, of c] RqOpen by simp
    next
      case 2
      then show ?thesis using open_write_promise [OF r, of c] RqOpen by simp
    next
      case 3
      then show ?thesis using open_other_promise [OF r, of m c] RqOpen by simp
    qed
  qed
  moreover have "carry_out ?s = map_option (Pair 3) (DoOpen ?s)" by (simp add: carry_out_def)
  ultimately show ?thesis by (intro serve_one_promise [OF rc]) simp_all
next
  case RqClose
  let ?s = "s\<lparr>Request := \<lparr>operation = OP_CLOSE, path_num = p, a_reg = a, b_reg = b, req_size = 0\<rparr>,
      Req_payload := Req_payload s\<rparr>"
  have rc: "receive (encode_regs a b p rq) s = Some ?s"
    using receive_ok [OF inv, of "[]"] RqClose by (simp add: hilo_def)
  have r: "received (unat p) [] 0 ?s" using inv ok by (simp add: received_def ram_inv_def request_ok_def)
  have "carry_out ?s = map_option (Pair 3) (DoClose ?s)" by (simp add: carry_out_def op_codes)
  then show ?thesis using close_promise [OF r] RqClose by (intro serve_one_promise [OF rc]) simp_all
next
  case (RqRead ln k)
  let ?s = "s\<lparr>Request := \<lparr>operation = (if ln then OP_READLN else OP_READ), path_num = p, a_reg = a, b_reg = b, req_size = k\<rparr>,
      Req_payload := Req_payload s\<rparr>"
  have rc: "receive (encode_regs a b p rq) s = Some ?s"
    using receive_ok [OF inv, of "[]"] RqRead by simp
  have r: "received (unat p) [] k ?s" using inv ok by (simp add: received_def ram_inv_def request_ok_def)
  have "carry_out ?s = map_option (\<lambda>s. (3 + unat (rep_size (Reply s)), s)) (DoRead ln ?s)"
    by (simp add: carry_out_def op_codes)
  then show ?thesis using read_promise [OF r, of ln] ok RqRead by (intro serve_one_promise [OF rc]) simp_all
next
  case (RqWrite ln body)
  let ?l = "of_nat (length body) :: word16"
  let ?s = "s\<lparr>Request := \<lparr>operation = (if ln then OP_WRITLN else OP_WRITE), path_num = p, a_reg = a, b_reg = b, req_size = ?l\<rparr>,
      Req_payload := body @ drop (length body) (Req_payload s)\<rparr>"
  obtain w pos nm where n: "length body \<le> PAYSIZ" "unat p < MAX_PATHS" "opens (store_abs s) (unat p) = Some (w, pos, nm)"
      "w \<Longrightarrow> length (the (texts (store_abs s) nm)) + length body \<le> 16384"
    using ok RqWrite by (auto simp: request_ok_def split: option.splits prod.splits)
  have rc: "receive (encode_regs a b p rq) s = Some ?s"
    using receive_ok [OF inv n(1)] RqWrite by simp
  have r: "received (unat p) body ?l ?s" using inv n by (simp add: received_def ram_inv_def)
  have "keeps_promise (unat p) rq ?s (carry_out ?s)"
  proof (cases ln)
    case False
    then show ?thesis using write_promise [OF r, of w pos nm body False] n RqWrite by (simp add: carry_out_def op_codes)
  next
    case True
    obtain s2 where s2: "FixSizeForWritLn ?s = Some s2" "store_abs s2 = store_abs ?s"
        "received (unat p) (first_line body) (of_nat (length (first_line body))) s2"
      using writln_fixed [OF r] by blast
    have "length (the (texts (store_abs s) nm)) + length (first_line body) \<le> 16384" if w
      using n(4) [OF that] first_line_length [of body] by simp
    then have "keeps_promise (unat p) (RqWrite True (first_line body)) s2 (map_option (Pair 3) (DoWrite True s2))"
      using write_promise [OF s2(3), of w pos nm "first_line body" True] n(3) s2(2) by simp
    then have "keeps_promise (unat p) rq ?s (map_option (Pair 3) (DoWrite True s2))"
      using keeps_promise_writln [OF _ s2(2)] True RqWrite by simp
    then show ?thesis using s2(1) True by (simp add: carry_out_def op_codes)
  qed
  then show ?thesis by (intro serve_one_promise [OF rc]) simp_all
qed

lemma serve_step:
  assumes "ram_inv s" "request_ok (unat p) rq (store_abs s)"
  shows "\<exists>r s'. serve_one (encode p rq) s = Some (r, s') \<and> ram_inv s' \<and>
    spec_step (unat p) rq (store_abs s) = (r, store_abs s')"
  unfolding encode_no_regs by (rule serve_step_regs [OF assms])

text \<open>A sequence of requests, by the specification; every one of them is to be acceptable.\<close>

fun spec_all :: "(byte \<times> fuse_req) list \<Rightarrow> text_store \<Rightarrow> byte list list \<times> text_store" where
  "spec_all [] st = ([], st)"
| "spec_all ((p, rq) # rqs) st =
     (let (r, st) = spec_step (unat p) rq st; (rs, st) = spec_all rqs st in (r # rs, st))"

fun requests_ok :: "(byte \<times> fuse_req) list \<Rightarrow> text_store \<Rightarrow> bool" where
  "requests_ok [] st = True"
| "requests_ok ((p, rq) # rqs) st \<longleftrightarrow>
     request_ok (unat p) rq st \<and> requests_ok rqs (snd (spec_step (unat p) rq st))"

lemma serve_all_step:
  assumes "ram_inv s" "requests_ok rqs (store_abs s)"
  shows "\<exists>rs s'. serve_all (map (\<lambda>(p, rq). encode p rq) rqs) s = Some (rs, s') \<and> ram_inv s' \<and>
    spec_all rqs (store_abs s) = (rs, store_abs s')"
  using assms
proof (induction rqs arbitrary: s)
  case (Cons a rqs)
  obtain p rq where a: "a = (p, rq)" by (cases a)
  then obtain r s1 where s1: "serve_one (encode p rq) s = Some (r, s1)" "ram_inv s1"
      "spec_step (unat p) rq (store_abs s) = (r, store_abs s1)"
    using serve_step [OF Cons.prems(1), of p rq] Cons.prems(2) by auto
  then obtain rs s2 where "serve_all (map (\<lambda>(p, rq). encode p rq) rqs) s1 = Some (rs, s2)" "ram_inv s2"
      "spec_all rqs (store_abs s1) = (rs, store_abs s2)"
    using Cons.IH [of s1] Cons.prems(2) a by auto
  then show ?case using s1 a by simp
qed simp

lemma start_inv: "ram_inv ramfile_start"
  by (simp add: ram_inv_def ramfile_start_def tables_ok_def files_ok_def path_ok_def file_ok_def up_name_def)

definition empty_store :: text_store where
  "empty_store = \<lparr>texts = Map.empty, opens = Map.empty\<rparr>"

lemma start_abs: "store_abs ramfile_start = empty_store"
  by (auto simp: ramfile_start_def store_of_def empty_store_def path_abs_def file_idx_None up_name_def)

text \<open>
  C5.  The file server implements a store of named texts: for every sequence of acceptable
  requests from the start it answers each one, with the bytes the specification gives, and
  ends in a state that stands for the store the specification ends in.
\<close>

theorem ramfile_refines_store:
  assumes "requests_ok rqs empty_store"
  shows "\<exists>rs s'. serve_all (map (\<lambda>(p, rq). encode p rq) rqs) ramfile_start = Some (rs, s') \<and>
    spec_all rqs empty_store = (rs, store_abs s') \<and> ram_inv s'"
  using serve_all_step [OF start_inv, of rqs] assms unfolding start_abs by blast

lemmas spec_simps = request_ok_def MAX_PATHS_def PAYSIZ_def empty_store_def name_key_def answer_def portion_def
  CharUp_def srange_def MAX_FILES_def hi_def lo_def E_EOF_ram_def E_PNNF_def Let_def

lemma ramfile_refines_store_witness:
  "\<exists>s'. serve_all (map (\<lambda>(p, rq). encode p rq)
      [(3, RqOpen True 2 [78, 111]), (3, RqWrite True [104, 105, 13, 33]), (3, RqClose),
       (4, RqOpen False 1 [110, 79, 32]), (4, RqRead False 1), (4, RqRead True 80), (4, RqRead True 80)]) ramfile_start =
    Some ([[0, 0, 0], [0, 0, 3], [0, 0, 0], [0, 0, 0], [0, 0, 1, 104], [0, 0, 2, 105, 13], [0xd3, 0, 0]], s')"
proof -
  let ?rqs = "[(3, RqOpen True 2 [78, 111]), (3, RqWrite True [104, 105, 13, 33]), (3, RqClose),
       (4, RqOpen False 1 [110, 79, 32]), (4, RqRead False 1), (4, RqRead True 80), (4, RqRead True 80)]"
  have ok: "requests_ok ?rqs empty_store" by (simp add: spec_simps)
  have "fst (spec_all ?rqs empty_store) =
      [[0, 0, 0], [0, 0, 3], [0, 0, 0], [0, 0, 0], [0, 0, 1, 104], [0, 0, 2, 105, 13], [0xd3, 0, 0]]"
    by (simp add: spec_simps)
  with ramfile_refines_store [OF ok] show ?thesis by auto
qed

section \<open>Written texts are read back\<close>

lemma spec_writes:
  assumes "opens st (unat p) = Some (True, pos, nm)" "texts st nm = Some t" "unat p < MAX_PATHS"
    "\<forall>b \<in> set bs. length b \<le> PAYSIZ" "length t + length (concat bs) \<le> 16384"
  shows "requests_ok (map (\<lambda>b. (p, RqWrite False b)) bs @ rqs) st \<longleftrightarrow>
      requests_ok rqs (st\<lparr>texts := (texts st)(nm \<mapsto> t @ concat bs)\<rparr>)"
    "spec_all (map (\<lambda>b. (p, RqWrite False b)) bs @ rqs) st =
      (let (rs, st') = spec_all rqs (st\<lparr>texts := (texts st)(nm \<mapsto> t @ concat bs)\<rparr>)
       in (map (\<lambda>b. answer 0 (length b) []) bs @ rs, st'))"
  using assms
proof (induction bs arbitrary: st t)
  case Nil
  {
    case 1
    then have "(texts st)(nm \<mapsto> t @ concat []) = texts st" by auto
    then show ?case by simp
  next
    case 2
    then have "(texts st)(nm \<mapsto> t @ concat []) = texts st" by auto
    then show ?case by (simp add: case_prod_beta)
  }
next
  case (Cons b bs)
  have step: "request_ok (unat p) (RqWrite False b) st"
    "spec_step (unat p) (RqWrite False b) st = (answer 0 (length b) [], st\<lparr>texts := (texts st)(nm \<mapsto> t @ b)\<rparr>)"
    if "opens st (unat p) = Some (True, pos, nm)" "texts st nm = Some t" "unat p < MAX_PATHS"
      "length b \<le> PAYSIZ" "length t + length b \<le> 16384" for st t
    using that by (simp_all add: request_ok_def)
  have upd: "st\<lparr>texts := (texts st)(nm \<mapsto> t @ b)\<rparr>\<lparr>texts := (texts (st\<lparr>texts := (texts st)(nm \<mapsto> t @ b)\<rparr>))
      (nm \<mapsto> (t @ b) @ concat bs)\<rparr> = st\<lparr>texts := (texts st)(nm \<mapsto> t @ concat (b # bs))\<rparr>" for st :: text_store and t
    by simp
  {
    case (1 st t)
    have "requests_ok (map (\<lambda>b. (p, RqWrite False b)) bs @ rqs) (st\<lparr>texts := (texts st)(nm \<mapsto> t @ b)\<rparr>) \<longleftrightarrow>
        requests_ok rqs (st\<lparr>texts := (texts st)(nm \<mapsto> t @ concat (b # bs))\<rparr>)"
      unfolding upd [symmetric] by (rule Cons.IH(1)) (use 1 in simp_all)
    moreover have "length t + length b \<le> 16384" using 1 by simp
    ultimately show ?case using step [of st t] 1
      by (simp only: list.map append_Cons requests_ok.simps snd_conv list.set ball_simps simp_thms)
  next
    case (2 st t)
    have "spec_all (map (\<lambda>b. (p, RqWrite False b)) bs @ rqs) (st\<lparr>texts := (texts st)(nm \<mapsto> t @ b)\<rparr>) =
        (let (rs, st') = spec_all rqs (st\<lparr>texts := (texts st)(nm \<mapsto> t @ concat (b # bs))\<rparr>)
         in (map (\<lambda>b. answer 0 (length b) []) bs @ rs, st'))"
      unfolding upd [symmetric] by (rule Cons.IH(2)) (use 2 in simp_all)
    moreover have "length t + length b \<le> 16384" using 2 by simp
    ultimately show ?case using step(2) [of st t] 2
      by (simp only: list.map append_Cons spec_all.simps list.set ball_simps simp_thms Let_def prod.case case_prod_beta fst_conv snd_conv)
  }
qed

lemma drop_answer [simp]: "drop 3 (answer e n bs) = bs"
  by (simp add: answer_def numeral_3_eq_3)

lemma spec_reads:
  assumes "opens st (unat p) = Some (False, pos, nm)" "texts st nm = Some t" "unat p < MAX_PATHS"
    "\<forall>k \<in> set ks. unat k \<le> PAYSIZ" "length t \<le> 16384" "pos \<le> length t"
  shows "requests_ok (map (\<lambda>k. (p, RqRead False k)) ks) st"
    "concat (map (drop 3) (fst (spec_all (map (\<lambda>k. (p, RqRead False k)) ks) st))) =
      take (\<Sum>k \<leftarrow> ks. unat k) (drop pos t)"
  using assms
proof (induction ks arbitrary: st pos)
  case (Cons k ks)
  {
    case 1
  let ?bs = "take (unat k) (drop pos t)"
  let ?st = "if length t \<le> pos then st else st\<lparr>opens := (opens st)(unat p \<mapsto> (False, pos + length ?bs, nm))\<rparr>"
    from 1 have ok: "request_ok (unat p) (RqRead False k) st"
      by (simp add: request_ok_def portion_def PAYSIZ_def min_def)
    moreover have "snd (spec_step (unat p) (RqRead False k) st) = ?st"
      using 1 by (simp add: portion_def Let_def)
    moreover have "requests_ok (map (\<lambda>k. (p, RqRead False k)) ks) ?st"
      by (rule Cons.IH(1) [where pos = "pos + length ?bs"]) (use 1 in \<open>auto simp: min_def\<close>)
    ultimately show ?case by simp
  next
    case 2
  let ?bs = "take (unat k) (drop pos t)"
  let ?st = "if length t \<le> pos then st else st\<lparr>opens := (opens st)(unat p \<mapsto> (False, pos + length ?bs, nm))\<rparr>"
    have e: "spec_step (unat p) (RqRead False k) st =
        (if length t \<le> pos then answer E_EOF_ram 0 [] else answer 0 (length ?bs) ?bs, ?st)"
      using 2 by (simp add: portion_def Let_def)
    have "concat (map (drop 3) (fst (spec_all (map (\<lambda>k. (p, RqRead False k)) ks) ?st))) =
        take (\<Sum>k \<leftarrow> ks. unat k) (drop (pos + length ?bs) t)"
      by (rule Cons.IH(2)) (use 2 in \<open>auto simp: min_def\<close>)
    moreover have "drop (pos + length ?bs) t = drop (unat k) (drop pos t)"
      by (cases "unat k \<le> length t - pos") (simp_all add: min_def add.commute)
    then have "take (unat k + n) (drop pos t) = ?bs @ take n (drop (pos + length ?bs) t)" for n
      by (simp only: take_add)
    ultimately show ?case using e by (auto simp: case_prod_beta Let_def)
  }
qed simp_all

text \<open>
  C25.  What is written to a file in any number of pieces, after it was opened for writing
  under a free or an existing name, is read back in pieces of any sizes through a path opened
  under the same name, up to case, and behind the end nothing follows.
\<close>

theorem written_is_read_back:
  assumes "ram_inv s" "unat p < MAX_PATHS" "unat q < MAX_PATHS"
    "length name \<le> PAYSIZ" "length name' \<le> PAYSIZ" "name_key name' = name_key name"
    "card (dom (texts (store_abs s))) < MAX_FILES"
    "\<forall>b \<in> set bs. length b \<le> PAYSIZ" "length (concat bs) \<le> 16384" "\<forall>k \<in> set ks. unat k \<le> PAYSIZ"
  shows "\<exists>rs s'. serve_all (map (encode p) (RqOpen c 2 name # map (RqWrite False) bs @ [RqClose]) @
      map (encode q) (RqOpen c' 1 name' # map (RqRead False) ks)) s = Some (rs, s') \<and>
    concat (map (drop 3) rs) = take (\<Sum>k \<leftarrow> ks. unat k) (concat bs)"
proof -
  let ?k = "name_key name" and ?st = "store_abs s"
  let ?st1 = "?st\<lparr>texts := (texts ?st)(?k \<mapsto> []), opens := (opens ?st)(unat p \<mapsto> (True, 0, ?k))\<rparr>"
  let ?st2 = "?st1\<lparr>texts := (texts ?st1)(?k \<mapsto> [] @ concat bs)\<rparr>"
  let ?st3 = "?st2\<lparr>opens := (opens ?st2)(unat p := None)\<rparr>"
  let ?st4 = "?st3\<lparr>opens := (opens ?st3)(unat q \<mapsto> (False, 0, ?k))\<rparr>"
  let ?rd = "map (\<lambda>k. (q, RqRead False k)) ks"
  let ?rest = "(p, RqClose) # (q, RqOpen c' 1 name') # ?rd"
  let ?all = "(p, RqOpen c 2 name) # map (\<lambda>b. (p, RqWrite False b)) bs @ ?rest"
  have o1: "spec_step (unat p) (RqOpen c 2 name) ?st = (answer 0 0 [], ?st1)"
    using assms(7) by (simp add: Let_def)
  have w: "requests_ok (map (\<lambda>b. (p, RqWrite False b)) bs @ ?rest) ?st1 \<longleftrightarrow> requests_ok ?rest ?st2"
    "spec_all (map (\<lambda>b. (p, RqWrite False b)) bs @ ?rest) ?st1 =
      (let (rs, st') = spec_all ?rest ?st2 in (map (\<lambda>b. answer 0 (length b) []) bs @ rs, st'))"
    by (rule spec_writes [where pos = 0]; use assms in simp)+
  have o2: "spec_step (unat q) (RqOpen c' 1 name') ?st3 = (answer 0 0 [], ?st4)"
    using assms(6) by (simp add: Let_def)
  have r: "requests_ok ?rd ?st4" "concat (map (drop 3) (fst (spec_all ?rd ?st4))) = take (\<Sum>k \<leftarrow> ks. unat k) (drop 0 (concat bs))"
    by (rule spec_reads [where nm = ?k and t = "concat bs" and pos = 0]; use assms in simp)+
  have cl: "spec_step (unat p) RqClose ?st2 = (answer 0 0 [], ?st3)" by simp
  have "requests_ok ?rest ?st2"
    using r(1) o2 cl assms(2,3,5) by (simp only: requests_ok.simps snd_conv) (simp add: request_ok_def)
  then have "requests_ok ?all ?st"
    using w(1) o1 assms(2,4) by (simp only: requests_ok.simps snd_conv) (simp add: request_ok_def)
  then obtain rs s' where "serve_all (map (\<lambda>(p, rq). encode p rq) ?all) s = Some (rs, s')" "spec_all ?all ?st = (rs, store_abs s')"
    using serve_all_step [OF assms(1)] by blast
  moreover have "concat (map (drop 3) (fst (spec_all ?all ?st))) = take (\<Sum>k \<leftarrow> ks. unat k) (concat bs)"
    using r(2) by (simp only: spec_all.simps o1 w(2) cl o2 Let_def prod.case case_prod_beta fst_conv snd_conv)
      (simp add: comp_def)
  ultimately show ?thesis by (intro exI [of _ rs] exI [of _ s']) (simp add: comp_def)
qed

lemma written_is_read_back_witness:
  "\<exists>rs s'. serve_all [encode 3 (RqOpen True 2 [97, 66]), encode 3 (RqWrite False [1, 2]), encode 3 (RqWrite False [3]),
      encode 3 RqClose, encode 4 (RqOpen False 1 [65, 98]), encode 4 (RqRead False 2), encode 4 (RqRead False 9)] ramfile_start =
      Some (rs, s') \<and> concat (map (drop 3) rs) = [1, 2, 3]"
proof -
  have "name_key [65, 98] = name_key [97, 66]" by (simp add: name_key_def CharUp_def srange_def)
  then show ?thesis
    using written_is_read_back [where s = ramfile_start and p = 3 and q = 4 and name = "[97, 66]" and name' = "[65, 98]"
        and bs = "[[1, 2], [3]]" and ks = "[2, 9]" and c = True and c' = False]
    by (simp add: start_inv start_abs empty_store_def MAX_PATHS_def PAYSIZ_def MAX_FILES_def)
qed

section \<open>Lines longer than the buffer of the caller\<close>

lemma readln_serve:
  assumes "ram_inv s" "unat p < MAX_PATHS"
    "opens (store_abs s) (unat p) = Some (False, pos, nm)" "texts (store_abs s) nm = Some t" "pos < length t"
    "PAYSIZ < length (first_line (drop pos t))"
  shows "serve_one (encode p (RqRead True k)) s = None"
proof -
  let ?s = "s\<lparr>Request := \<lparr>operation = OP_READLN, path_num = p, a_reg = 0, b_reg = 0, req_size = k\<rparr>,
      Req_payload := Req_payload s\<rparr>"
  have rc: "receive (encode p (RqRead True k)) s = Some ?s"
    using receive_ok [OF assms(1), of "[]"] by simp
  have r: "received (unat p) [] k ?s" using assms(1,2) by (simp add: received_def ram_inv_def)
  have "opens (store_abs ?s) (unat p) = Some (False, pos, nm)" "texts (store_abs ?s) nm = Some t" using assms by simp_all
  then obtain i where "DoRead True ?s = do {
       pay \<leftarrow> put_bytes (Rep_payload ?s) 0 (portion True k (drop pos t));
       s \<leftarrow> set_path ((Paths ?s ! unat p)\<lparr>offset := i\<rparr>) (?s\<lparr>Rep_payload := pay\<rparr>);
       Some (set_reply 0 (of_nat (length (portion True k (drop pos t)))) s) }"
    by (rule read_portion [OF r _ _ assms(5), of nm True, OF _ _ _ refl]) auto
  moreover have "put_bytes (Rep_payload s) 0 (portion True k (drop pos t)) = None"
    using assms(1,6) by (simp add: put_bytes_def ram_inv_def portion_def)
  ultimately have "DoRead True ?s = None" by simp
  then show ?thesis using rc by (simp add: serve_one_def carry_out_def op_codes)
qed

text \<open>
   A request to read a line is answered with the whole line, whatever size the caller
  asks for; a line longer than the reply buffer is copied beyond the end of it.
\<close>

theorem readln_ignores_size:
  assumes "ram_inv s" "unat p < MAX_PATHS"
    "opens (store_abs s) (unat p) = Some (False, pos, nm)" "texts (store_abs s) nm = Some t" "pos < length t"
  shows "if length (first_line (drop pos t)) \<le> PAYSIZ
    then \<exists>s'. serve_one (encode p (RqRead True k)) s = Some (answer 0 (length (first_line (drop pos t))) (first_line (drop pos t)), s')
    else serve_one (encode p (RqRead True k)) s = None"
proof (cases "length (first_line (drop pos t)) \<le> PAYSIZ")
  case True
  then have "request_ok (unat p) (RqRead True k) (store_abs s)"
    using assms by (simp add: request_ok_def portion_def)
  from serve_step [OF assms(1) this] assms True show ?thesis by (auto simp: portion_def Let_def)
next
  case False
  then show ?thesis using readln_serve [OF assms, of k] by simp
qed

lemma readln_ignores_size_witness:
  "\<exists>rs s s'. serve_all [encode 3 (RqOpen True 2 [97]), encode 3 (RqWrite False [1, 2, 3, 13, 4]), encode 4 (RqOpen False 1 [97])]
      ramfile_start = Some (rs, s) \<and>
    serve_one (encode 4 (RqRead True 2)) s = Some ([0, 0, 4, 1, 2, 3, 13], s')"
proof -
  let ?rqs = "[(3, RqOpen True 2 [97]), (3, RqWrite False [1, 2, 3, 13, 4]), (4, RqOpen False 1 [97])]"
  have ok: "requests_ok ?rqs empty_store" by (simp add: spec_simps)
  then obtain rs s where s: "serve_all (map (\<lambda>(p, rq). encode p rq) ?rqs) ramfile_start = Some (rs, s)"
      "ram_inv s" "spec_all ?rqs empty_store = (rs, store_abs s)"
    using serve_all_step [OF start_inv, of ?rqs] by (auto simp: start_abs)
  then have st: "store_abs s = snd (spec_all ?rqs empty_store)" by simp
  have "opens (store_abs s) (unat (4 :: byte)) = Some (False, 0, [65])" "texts (store_abs s) [65] = Some [1, 2, 3, 13, 4]"
    unfolding st by (simp_all add: spec_simps)
  from readln_ignores_size [OF s(2) _ this, of 2]
  have "\<exists>s'. serve_one (encode 4 (RqRead True 2)) s = Some ([0, 0, 4, 1, 2, 3, 13], s')"
    by (simp add: MAX_PATHS_def PAYSIZ_def answer_def hi_def lo_def)
  then show ?thesis using s(1) by auto
qed

end
