(* ===== verification/Fuse_Call.thy ===== *)
theory Fuse_Call
  imports Fuse_Links Fuse_Store
begin

text \<open>
  One file operation from the call of the client to its return: through the kernel's file manager to
  the daemon, and the reply back; and the file server \<^verbatim>\<open>fuse-ramfile\<close> as the daemon at the other end.
\<close>

section \<open>Memory\<close>

definition mem_bytes :: "(word16 \<Rightarrow> byte) \<Rightarrow> word16 \<Rightarrow> nat \<Rightarrow> byte list" where
  "mem_bytes m a n = map (\<lambda>i. m (a + of_nat i)) [0..<n]"

definition mem_store :: "(word16 \<Rightarrow> byte) \<Rightarrow> word16 \<Rightarrow> byte list \<Rightarrow> word16 \<Rightarrow> byte" where
  "mem_store m a bs = (\<lambda>x. if unat (x - a) < length bs then bs ! unat (x - a) else m x)"

lemma mem_bytes_length [simp]: "length (mem_bytes m a n) = n"
  by (simp add: mem_bytes_def)

lemma mem_bytes_nth [simp]: "i < n \<Longrightarrow> mem_bytes m a n ! i = m (a + of_nat i)"
  by (simp add: mem_bytes_def)

lemma mem_bytes_0 [simp]: "mem_bytes m a 0 = []"
  by (simp add: mem_bytes_def)

lemma mem_bytes_store: "length bs \<le> 65536 \<Longrightarrow> mem_bytes (mem_store m a bs) a (length bs) = bs"
  by (rule nth_equalityI) (simp_all add: mem_store_def unat_of_nat)

lemma mem_bytes_append: "mem_bytes m a (n + k) = mem_bytes m a n @ mem_bytes m (a + of_nat n) k"
  by (induction k) (simp_all add: mem_bytes_def add.assoc)

lemma mem_bytes_take: "n \<le> k \<Longrightarrow> take n (mem_bytes m a k) = mem_bytes m a n"
  by (simp add: mem_bytes_def take_map)

lemma mem_bytes_drop: "drop n (mem_bytes m a (n + k)) = mem_bytes m (a + of_nat n) k"
  by (simp add: mem_bytes_append)

lemma mem_bytes_behind:
  assumes "length bs + n \<le> 65536"
  shows "mem_bytes (mem_store m a bs) (a + of_nat (length bs)) n = mem_bytes m (a + of_nat (length bs)) n"
proof (rule nth_equalityI)
  fix i assume "i < length (mem_bytes (mem_store m a bs) (a + of_nat (length bs)) n)"
  then have i: "i < n" by simp
  have "unat (a + of_nat (length bs) + of_nat i - a) = length bs + i"
    using assms i by (simp add: unat_of_nat flip: of_nat_add)
  then show "mem_bytes (mem_store m a bs) (a + of_nat (length bs)) n ! i = mem_bytes m (a + of_nat (length bs)) n ! i"
    using i by (simp add: mem_store_def)
qed simp

text \<open>Two blocks, the front one stored last.\<close>

lemma mem_bytes_two:
  assumes "length h + length bs \<le> 65536"
  shows "mem_bytes (mem_store (mem_store m (a + of_nat (length h)) bs) a h) a (length h + length bs) = h @ bs"
  using assms by (simp add: mem_bytes_append mem_bytes_store mem_bytes_behind)

section \<open>The kernel\<close>

text \<open>
  What the code relies on: the tasks of user processes are never handed out; the calls that move
  bytes work on the memory of the process a task belongs to; nobody waits in a queue of IOMan.
\<close>

definition os9_laws ::
  "'k os9 \<Rightarrow> ('k \<Rightarrow> byte \<Rightarrow> word16 \<Rightarrow> byte) \<Rightarrow> ('k \<Rightarrow> byte \<Rightarrow> byte) \<Rightarrow> (byte \<Rightarrow> byte) \<Rightarrow> bool" where
  "os9_laws K space owner ut \<longleftrightarrow>
     (\<forall>q k. UserTask K q k = ut q \<and> IOQN K q k = 0) \<and>
     (\<forall>k. \<exists>t k'. ResTsk K k = (0, t, k') \<and> t \<notin> range ut \<and> space k' = space k \<and> owner k' = owner k) \<and>
     (\<forall>t k. space (RelTsk K t k) = space k) \<and>
     (\<forall>t q k. space (SetMap K t q k) = space k \<and> owner (SetMap K t q k) = (owner k)(t := q)) \<and>
     (\<forall>t a n k. Get K t a n k = Inr (mem_bytes (space k (owner k t)) a n)) \<and>
     (\<forall>t a bs k. \<exists>k'. Put K t a bs k = (0, k') \<and> owner k' = owner k \<and>
        space k' = (space k)(owner k t := mem_store (space k (owner k t)) a bs))"

lemma os9_quiet: "os9_laws K space owner ut \<Longrightarrow> quiet_os9 K"
  by (auto simp: os9_laws_def quiet_os9_def) (metis fst_conv)

lemma os9_lawsD:
  assumes "os9_laws K space owner ut"
  shows "UserTask K q k = ut q" "IOQN K q k = 0"
    "\<exists>t k'. ResTsk K k = (0, t, k') \<and> t \<notin> range ut \<and> space k' = space k \<and> owner k' = owner k"
    "space (RelTsk K t k) = space k" "space (SetMap K t q k) = space k" "owner (SetMap K t q k) = (owner k)(t := q)"
    "Get K t a n k = Inr (mem_bytes (space k (owner k t)) a n)"
    "\<exists>k'. Put K t a bs k = (0, k') \<and> owner k' = owner k \<and>
       space k' = (space k)(owner k t := mem_store (space k (owner k t)) a bs)"
  using assms unfolding os9_laws_def by blast+

lemma os9_move:
  assumes "os9_laws K space owner ut"
  shows "\<exists>k'. Os9Move K n a t b t' k = (0, k') \<and> owner k' = owner k \<and>
    space k' = (space k)(owner k t' := mem_store (space k (owner k t')) b (mem_bytes (space k (owner k t)) a n))"
  using os9_lawsD(8) [OF assms, of t' b _ k] by (simp add: Os9Move_def os9_lawsD(7) [OF assms])

section \<open>The middle of a call\<close>

text \<open>Process \<open>q\<close> waits in operation \<open>op\<close> on its path \<open>c\<close> for the daemon of path \<open>d\<close>, which is process \<open>w\<close>;
  its registers are \<open>r\<close>, its memory is reached by a task of its own.\<close>

definition in_call where
  "in_call owner ut s q c op d w r \<longleftrightarrow>
     procs s q = Pausing c op \<and> \<not> awake s q \<and> q \<noteq> 0 \<and> q \<noteq> w \<and> w \<noteq> 0 \<and> c \<noteq> 0 \<and> pd_num (pds s c) = c \<and> d \<noteq> 0 \<and>
     pd_num (pds s d) \<noteq> 0 \<and> is_daemon (pds s d) \<and> \<not> is_daemon (pds s c) \<and> peer (pds s d) = c \<and> peer (pds s c) = d \<and>
     paused_proc_id (pds s c) = q \<and> regs (pds s c) = r \<and> owner (kern s) (ut w) = w \<and>
     (\<exists>t. client_tmp (pds s c) = Some t \<and> client_op t = op \<and> owner (kern s) (task_num t) = q)"

fun op_of :: "entry \<Rightarrow> byte" where
  "op_of Close = OP_CLOSE"
| "op_of ReadLn = OP_READLN"
| "op_of WritLn = OP_WRITLN"
| "op_of Read = OP_READ"
| "op_of Write = OP_WRITE"
| "op_of GetStat = OP_GETSTAT"
| "op_of SetStat = OP_SETSTAT"
| "op_of MakDir = OP_MAKDIR"
| "op_of ChgDir = OP_CHGDIR"
| "op_of Delete = OP_DELETE"
| "op_of Seek = OP_SEEK"

lemma enter_client: "e \<noteq> Close \<Longrightarrow> \<not> is_daemon (pds s c) \<Longrightarrow> enter e K q c s = ClientOperationC K q c (op_of e) s"
  by (cases e) (simp_all add: entry_defs)

text \<open>The daemon \<open>w\<close> sleeps in its read of path \<open>d\<close>, and the path \<open>c\<close> of process \<open>q\<close> is linked to it.\<close>

definition idle where
  "idle owner ut s q c d w \<longleftrightarrow> link_inv s \<and> calls_on s q c \<and> \<not> is_daemon (pds s c) \<and> peer (pds s c) = d \<and>
     procs s w = Reading d \<and> peer (pds s d) = 0 \<and> d \<noteq> 0 \<and> owner (kern s) (ut w) = w"

lemma call_reaches_daemon:
  assumes K: "os9_laws K space owner ut" and s: "idle owner ut s q c d w" and e: "e \<noteq> Close"
  shows "\<exists>s'. fuse_step K (Calls q e c r) s (Ok s') \<and> in_call owner ut s' q c (op_of e) d w r \<and>
    procs s' w = Reading d \<and> awake s' w \<and> regs (pds s' d) = regs (pds s d) \<and> space (kern s') = space (kern s) \<and>
    (\<forall>x. asleep_at (procs s' x) d \<longrightarrow> x = w)"
proof -
  note D = links_okD [OF conjunct1 [OF s [unfolded idle_def], unfolded link_inv_def]]
  have w: "procs s w = Reading d" and p0: "peer (pds s d) = 0" using s by (simp_all add: idle_def)
  have d: "pd_num (pds s d) \<noteq> 0" "is_daemon (pds s d)" "w \<noteq> 0" "paused_proc_id (pds s d) = w" using D(3) [OF w] by auto
  obtain z where q: "procs s q = User z" "q \<noteq> 0" "pd_num (pds s c) = c" "c \<noteq> 0" "\<forall>x. \<not> asleep_at (procs s x) c"
      "\<not> is_daemon (pds s c)" "peer (pds s c) = d" "d \<noteq> 0" "\<not> awake s q"
    using s D(1) [of c] D(5) [of q] by (auto simp: idle_def calls_on_def)
  have ne: "c \<noteq> d" "q \<noteq> w" using q d w by auto
  obtain t k where t: "ResTsk K (kern s) = (0, t, k)" "t \<notin> range ut" "space k = space (kern s)" "owner k = owner (kern s)"
    using os9_lawsD(3) [OF K, of "kern s"] by blast
  have k: "space (SetMap K t q k) = space (kern s)" "owner (SetMap K t q k) = (owner (kern s))(t := q)"
    using os9_lawsD(5,6) [OF K] t by simp_all
  let ?s = "set_pd c (\<lambda>x. unlink e (x\<lparr>regs := r\<rparr>)) s"
  obtain s' where s': "ClientOperationC K q c (op_of e) ?s = Ok s'" "procs s' = (procs s)(q := Pausing c (op_of e))"
      "awake s' = (awake s)(w := True)" "kern s' = SetMap K t q k"
      "\<And>p. pd_num (pds s' p) = pd_num (pds s p)" "\<And>p. is_daemon (pds s' p) = is_daemon (pds s p)"
      "peer (pds s' d) = c" "peer (pds s' c) = d" "paused_proc_id (pds s' c) = q" "regs (pds s' c) = r"
      "regs (pds s' d) = regs (pds s d)"
      "client_tmp (pds s' c) = Some \<lparr>task_num = t, client_op = op_of e, opening_original_rx = 0,
        opening_pathname_size = 0, reply = OldReply K k\<rparr>"
    using q d w p0 t(1) ne e
    by (auto simp: ClientOperationC_def CheckDaemon_def CheckPeer_def call_daemon_def SetPeer_def SwitchProcess_def
      Os9Awaken_def Os9Send_def Os9Pause_def unlink_def Let_def word_gt_0)
  have "fuse_step K (Calls q e c r) s (omap (if e = Close then closed q c else (\<lambda>s. s)) (enter e K q c ?s))"
    by (rule fuse_step.calls) (use q in auto)
  moreover have "enter e K q c ?s = Ok s'" using enter_client [OF e, of ?s c K q] q s'(1) by (simp add: unlink_def)
  moreover have "\<forall>x. asleep_at (procs s' x) d \<longrightarrow> x = w"
    using D(4) [of _ d w] w ne by (auto simp: s'(2))
  moreover have "(owner (kern s)) (ut w) = w" "t \<noteq> ut w" using s t(2) by (auto simp: idle_def)
  ultimately show ?thesis
    using e s' q d ne w k by (intro exI [of _ s']) (simp add: in_call_def)
qed

text \<open>What the daemon is to read: the header, and for a write the bytes of the client, as many as fit in
  the daemon's buffer of \<open>n\<close> bytes.\<close>

definition writes :: "byte \<Rightarrow> bool" where
  "writes op \<longleftrightarrow> op = OP_WRITE \<or> op = OP_WRITLN"

definition reads :: "byte \<Rightarrow> bool" where
  "reads op \<longleftrightarrow> op = OP_READ \<or> op = OP_READLN"

definition message :: "byte \<Rightarrow> byte \<Rightarrow> Regs \<Rightarrow> word16 \<Rightarrow> (word16 \<Rightarrow> byte) \<Rightarrow> byte list" where
  "message op p r n m =
     (let k = (if writes op then min (ry r) (n - 6) else 0) in
      request_bytes \<lparr>operation = op, path_num = p, a_reg = ra r, b_reg = rb r,
                     req_size = (if reads op then ry r else k)\<rparr> @ mem_bytes m (rx r) (unat k))"

lemma request_length [simp]: "length (request_bytes rq) = 6"
  by (simp add: request_bytes_def)

lemma reader_gets:
  assumes K: "os9_laws K space owner ut" and s: "in_call owner ut s q c op d w r" "procs s w = Reading d" "awake s w"
      "\<forall>x. asleep_at (procs s x) d \<longrightarrow> x = w"
    and op: "op \<noteq> OP_OPEN" "op \<noteq> OP_CREATE" and room: "6 < ry (regs (pds s d))"
    and m: "m = message op c r (ry (regs (pds s d))) (space (kern s) q)"
  shows "\<exists>s'. fuse_step K (Goes_on w) s (Ok s') \<and> in_call owner ut s' q c op d w r \<and>
    calls_on s' w d \<and> regs (pds s' d) = (regs (pds s d))\<lparr>ry := of_nat (length m)\<rparr> \<and>
    mem_bytes (space (kern s') w) (rx (regs (pds s d))) (length m) = m \<and>
    procs s' w = User 0 \<and> (\<forall>x. x \<noteq> w \<longrightarrow> space (kern s') x = space (kern s) x)"
proof -
  note I = s(1) [unfolded in_call_def]
  let ?B = "rx (regs (pds s d))" and ?N = "ry (regs (pds s d))" and ?s = "s\<lparr>awake := (awake s)(w := False)\<rparr>"
  let ?sz = "min (ry r) (?N - 6)"
  obtain t where t: "client_tmp (pds s c) = Some t" "client_op t = op" "owner (kern s) (task_num t) = q" using I by blast
  have ne: "c \<noteq> d" using I by auto
  define hdr where "hdr = request_bytes \<lparr>operation = op, path_num = c, a_reg = ra r, b_reg = rb r,
      req_size = (if reads op then ry r else if writes op then ?sz else 0)\<rparr>"
  define bs where "bs = (if writes op then mem_bytes (space (kern s) q) (rx r) (unat ?sz) else [])"
  have msg: "m = hdr @ bs" by (auto simp: m message_def hdr_def bs_def reads_def writes_def op_codes Let_def)
  have lb: "unat ?sz + 6 \<le> 65535" using room by (simp add: min_def word_le_nat_alt word_less_nat_alt unat_sub_if')
    (use unat_word16_lt [of "ry r"] unat_word16_lt [of ?N] in linarith)
  then have two: "length hdr + length bs \<le> 65536" "length hdr = 6" by (simp_all add: hdr_def bs_def)
  have uw: "owner (kern s) (ut w) = w" using I by blast
  obtain k1 where k1: "(if writes op then Os9Move K (unat ?sz) (rx r) (task_num t) (?B + 6) (ut w) (kern s) else (0, kern s)) = (0, k1)"
      "owner k1 = owner (kern s)" "space k1 = (space (kern s))(w := mem_store (space (kern s) w) (?B + 6) bs)"
    using os9_move [OF K, of "unat ?sz" "rx r" "task_num t" "?B + 6" "ut w" "kern s"] uw t(3)
    by (cases "writes op") (auto simp: bs_def mem_store_def)
  obtain k2 where k2: "Put K (ut w) ?B hdr k1 = (0, k2)" "owner k2 = owner (kern s)"
      "space k2 = (space (kern s))(w := mem_store (mem_store (space (kern s) w) (?B + 6) bs) ?B hdr)"
    using os9_lawsD(8) [OF K, of "ut w" ?B hdr k1] k1(2,3) uw by auto
  let ?s' = "set_proc w (User 0) (set_pd d (\<lambda>x. x\<lparr>paused_proc_id := 0,
      regs := (regs x)\<lparr>ry := of_nat (length m)\<rparr>, current_process_id := 0\<rparr>) (?s\<lparr>kern := k2\<rparr>))"
  have chk: "CheckClient c (set_pd d f ?s) = Ok ()" "CheckPeer c d (set_pd d f ?s) = Ok ()" for f
    using I ne by (simp_all add: CheckClient_def CheckPeer_def)
  have len: "of_nat (length m) = (if writes op then ?sz + 6 else 6)" using two(2) by (simp add: msg bs_def)
  have "DaemonRead_resumed K w d ?s = Ok ?s'"
  proof (cases "writes op")
    case True
    then have "request_payload (pds s c) t = Some (ry r, rx r)" "\<not> reads op"
      using I t(2) op by (auto simp: request_payload_def writes_def reads_def op_codes)
    then show ?thesis
      using I ne t True room k1(1) k2(1) len os9_lawsD(1) [OF K]
      by (simp add: DaemonRead_resumed_def Let_def chk hdr_def)
  next
    case False
    then have "request_payload (pds s c) t = None"
      using t(2) op by (auto simp: request_payload_def writes_def)
    then show ?thesis
      using I ne t False k1(1) k2(1) len os9_lawsD(1) [OF K]
      by (cases "reads op") (simp_all add: DaemonRead_resumed_def Let_def chk hdr_def reads_def [symmetric])
  qed
  then have "fuse_step K (Goes_on w) s (Ok ?s')" using fuse_step.reader [OF s(2,3)] by metis
  moreover have "mem_bytes (space (kern ?s') w) ?B (length m) = m"
    using mem_bytes_two [OF two(1), of "space (kern s) w" ?B] two(2) by (simp add: k2(3) msg)
  moreover have "in_call owner ut ?s' q c op d w r" using I t ne k2(2) by (auto simp: in_call_def)
  moreover have "calls_on ?s' w d" using I s(4) by (auto simp: calls_on_def)
  ultimately show ?thesis using k2(3) by (intro exI [of _ ?s']) simp
qed

text \<open>The reply: a header of three bytes, then the bytes read.\<close>

definition reply_of :: "byte list \<Rightarrow> FuseReply" where
  "reply_of m = \<lparr>status = m ! 0, rep_size = hilo (m ! 1) (m ! 2)\<rparr>"

text \<open>What the caller finds: the status; for a read the bytes, not more than it asked for.\<close>

definition caller_size :: "byte \<Rightarrow> Regs \<Rightarrow> byte list \<Rightarrow> word16" where
  "caller_size op r m =
     (if status (reply_of m) \<noteq> 0 then ry r
      else if reads op then min (rep_size (reply_of m)) (ry r)
      else if writes op then rep_size (reply_of m) else ry r)"

definition caller_memory :: "byte \<Rightarrow> Regs \<Rightarrow> byte list \<Rightarrow> (word16 \<Rightarrow> byte) \<Rightarrow> word16 \<Rightarrow> byte" where
  "caller_memory op r m f =
     (if status (reply_of m) = 0 \<and> reads op then mem_store f (rx r) (take (unat (caller_size op r m)) (drop 3 m)) else f)"

lemma pass_reply_effect:
  assumes K: "os9_laws K space owner ut" and t: "owner (kern s) (task_num t) = q" "owner (kern s) (ut w) = w"
    and s: "d \<noteq> c" "regs (pds s c) = r" "rx (regs (pds s d)) = a"
    and m: "mem_bytes (space (kern s) w) a (length m) = m"
      "reads (client_op t) \<Longrightarrow> status (reply_of m) = 0 \<Longrightarrow> 3 + unat (rep_size (reply_of m)) \<le> length m"
  shows "let s' = pass_reply K (ut w) d c t (reply_of m) s in
    regs (pds s' c) = r\<lparr>ry := caller_size (client_op t) r m\<rparr> \<and>
    space (kern s') q = caller_memory (client_op t) r m (space (kern s) q) \<and>
    (\<forall>x. x \<noteq> q \<longrightarrow> space (kern s') x = space (kern s) x)"
proof (cases "status (reply_of m) = 0 \<and> reads (client_op t)")
  case True
  let ?n = "caller_size (client_op t) r m"
  have n: "?n = min (rep_size (reply_of m)) (ry r)" using True by (simp add: caller_size_def)
  then have "unat ?n \<le> unat (rep_size (reply_of m))" by (simp add: word_le_nat_alt [symmetric])
  then have "3 + unat ?n \<le> length m" using m(2) True by linarith
  then have "mem_bytes (space (kern s) w) (a + 3) (unat ?n) = take (unat ?n) (drop 3 m)"
    using mem_bytes_drop [of 3 "space (kern s) w" a "unat ?n"] mem_bytes_take [of "3 + unat ?n" "length m" "space (kern s) w" a] m(1)
    by (simp add: take_drop add.commute)
  moreover obtain k where "Os9Move K (unat ?n) (a + 3) (ut w) (rx r) (task_num t) (kern s) = (0, k)"
      "space k = (space (kern s))(q := mem_store (space (kern s) q) (rx r) (mem_bytes (space (kern s) w) (a + 3) (unat ?n)))"
    using os9_move [OF K, of "unat ?n" "a + 3" "ut w" "rx r" "task_num t" "kern s"] t by auto
  ultimately show ?thesis
    using True s by (simp add: pass_reply_def reads_def [symmetric] Let_def n [symmetric] caller_memory_def)
next
  case False
  then show ?thesis using s(1,2)
    by (auto simp: pass_reply_def reads_def [symmetric] writes_def [symmetric] Let_def caller_size_def caller_memory_def)
qed

lemma writer_gives:
  assumes K: "os9_laws K space owner ut" and s: "in_call owner ut s q c op d w r" "calls_on s w d"
    and m: "mem_bytes (space (kern s) w) (rx r') (length m) = m" "3 \<le> length m"
      "reads op \<Longrightarrow> status (reply_of m) = 0 \<Longrightarrow> 3 + unat (rep_size (reply_of m)) \<le> length m"
  shows "\<exists>s'. fuse_step K (Calls w Write d r') s (Ok s') \<and> procs s' = (procs s)(w := User 0) \<and>
    awake s' = (awake s)(q := True) \<and> peer (pds s' d) = 0 \<and> peer (pds s' c) = d \<and>
    (\<exists>t. client_tmp (pds s' c) = Some t \<and> status (reply t) = m ! 0) \<and>
    regs (pds s' c) = r\<lparr>ry := caller_size op r m\<rparr> \<and>
    space (kern s') q = caller_memory op r m (space (kern s) q) \<and> (\<forall>x. x \<noteq> q \<longrightarrow> space (kern s') x = space (kern s) x)"
proof -
  note I = s(1) [unfolded in_call_def]
  let ?s = "set_pd d (\<lambda>x. unlink Write (x\<lparr>regs := r'\<rparr>)) s"
  obtain t where t: "client_tmp (pds s c) = Some t" "client_op t = op" "owner (kern s) (task_num t) = q" using I by blast
  have ne: "c \<noteq> d" "d \<noteq> c" using I by auto
  have uw: "owner (kern s) (ut w) = w" "UserTask K w k = ut w" for k using I os9_lawsD(1) [OF K] by auto
  have "m ! i = space (kern s) w (rx r' + of_nat i)" if "i < length m" for i
    using mem_bytes_nth [OF that, of "space (kern s) w" "rx r'"] m(1) by simp
  moreover have "m \<noteq> []" using m(2) by auto
  ultimately have rep: "\<lparr>status = space (kern s) w (rx r'), rep_size = hilo (space (kern s) w (rx r' + 1)) (space (kern s) w (rx r' + 2))\<rparr>
      = reply_of m" using m(2) by (simp add: reply_of_def numeral_2_eq_2)
  let ?rep = "reply_of m"
  let ?s1 = "set_pd c (\<lambda>x. x\<lparr>client_tmp := Some (t\<lparr>reply := ?rep\<rparr>)\<rparr>) (set_pd d (\<lambda>x. x\<lparr>current_process_id := w\<rparr>) ?s)"
  let ?s2 = "pass_reply K (ut w) d c t ?rep ?s1"
  have chk: "CheckDaemon d ?s = Ok ()" "CheckClient c (set_pd d f s) = Ok ()"
      "CheckPeer c d (set_pd d f (set_pd d g s)) = Ok ()" for f g
    using I ne by (simp_all add: CheckDaemon_def CheckClient_def CheckPeer_def unlink_def)
  let ?s3 = "set_pd d (\<lambda>x. x\<lparr>current_process_id := 0\<rparr>) (set_pd d (\<lambda>x. x\<lparr>peer := 0\<rparr>)
      (set_pd c (\<lambda>x. x\<lparr>link_count := link_count x - 1\<rparr>) ?s2))"
  have "DaemonWriteC K w d ?s = Ok (set_proc w (User 0) (Os9Send q ?s3))"
    using I ne t uw rep os9_lawsD(2,7) [OF K] chk
    by (simp add: DaemonWriteC_def Let_def unlink_def ClearPeer_def Os9Awaken_def Os9AwakenIOQN_def word_gt_0)
  then have "fuse_step K (Calls w Write d r') s (Ok (set_proc w (User 0) (Os9Send q ?s3)))"
    using fuse_step.calls [of s w _ d K Write r'] s(2) by (auto simp: calls_on_def WriteC_def unlink_def I)
  moreover have "let s' = ?s2 in regs (pds s' c) = r\<lparr>ry := caller_size op r m\<rparr> \<and>
    space (kern s') q = caller_memory op r m (space (kern s) q) \<and>
    (\<forall>x. x \<noteq> q \<longrightarrow> space (kern s') x = space (kern s) x)"
    using pass_reply_effect [OF K, of ?s1 t q w d c r "rx r'" m] t uw ne I m by (simp add: unlink_def)
  ultimately show ?thesis
    using I ne by (intro exI [of _ "set_proc w (User 0) (Os9Send q ?s3)"])
      (simp add: Let_def Os9Send_awake reply_of_def unlink_def)
qed

lemma caller_returns:
  assumes K: "os9_laws K space owner ut" and s: "procs s q = Pausing c op" "awake s q" "op \<noteq> OP_CLOSE" "op \<noteq> OP_OPEN"
      "client_tmp (pds s c) = Some t"
  shows "\<exists>s'. fuse_step K (Goes_on q) s (Ok s') \<and> procs s' = (procs s)(q := User (status (reply t))) \<and>
    (\<forall>p. regs (pds s' p) = regs (pds s p) \<and> peer (pds s' p) = peer (pds s p)) \<and> space (kern s') = space (kern s)"
proof -
  obtain s' where s': "client_wakes K q c op (s\<lparr>awake := (awake s)(q := False)\<rparr>) = Ok s'"
      "procs s' = (procs s)(q := User (status (reply t)))"
      "\<forall>p. regs (pds s' p) = regs (pds s p) \<and> peer (pds s' p) = peer (pds s p)" "space (kern s') = space (kern s)"
    using s os9_lawsD(4) [OF K] by (simp add: client_wakes_def ClientOperation_resumed_def Let_def)
  then show ?thesis using fuse_step.client [OF s(1,2), of K] by (intro exI [of _ s']) simp
qed

text \<open>One step of the machine under circumstances in which the invariant is kept.\<close>

definition moves :: "'k os9 \<Rightarrow> 'k manager \<Rightarrow> 'k manager \<Rightarrow> bool" where
  "moves K s s' \<longleftrightarrow> (\<exists>a. calm a s \<and> fuse_step K a s (Ok s'))"

lemma movesI: "fuse_step K a s (Ok s') \<Longrightarrow> calm a s \<Longrightarrow> moves K s s'"
  by (auto simp: moves_def)

lemma moves_inv: "(moves K)\<^sup>*\<^sup>* s s' \<Longrightarrow> quiet_os9 K \<Longrightarrow> link_inv s \<Longrightarrow> link_inv s'"
  by (induction rule: rtranclp_induct) (auto simp: moves_def intro: fuse_step_inv)

lemma op_of_neq:
  "e \<noteq> Close \<Longrightarrow> op_of e \<noteq> OP_CLOSE" "op_of e \<noteq> OP_OPEN" "op_of e \<noteq> OP_CREATE"
  by (cases e; simp add: op_codes OP_MAKDIR_def OP_CHGDIR_def OP_DELETE_def OP_SEEK_def OP_GETSTAT_def OP_SETSTAT_def)+

text \<open>What happens is determined by who does what: an action has one outcome.\<close>

lemma fuse_step_deterministic:
  assumes "fuse_step K a s x" "fuse_step K a s y"
  shows "x = y"
  using assms by (cases rule: fuse_step.cases) (auto elim: fuse_stepE)

text \<open>The request arrives at the daemon, in two steps, and no memory but the daemon's changes.\<close>

lemma request_arrives:
  assumes K: "os9_laws K space owner ut" and s: "idle owner ut s q c d w"
    and e: "e \<noteq> Close" and room: "6 < ry (regs (pds s d))"
    and m: "m = message (op_of e) c r (ry (regs (pds s d))) (space (kern s) q)"
  shows "\<exists>s0 s1. fuse_step K (Calls q e c r) s (Ok s0) \<and> fuse_step K (Goes_on w) s0 (Ok s1) \<and>
    in_call owner ut s1 q c (op_of e) d w r \<and> calls_on s1 w d \<and>
    procs s1 w = User 0 \<and> regs (pds s1 d) = (regs (pds s d))\<lparr>ry := of_nat (length m)\<rparr> \<and>
    mem_bytes (space (kern s1) w) (rx (regs (pds s d))) (length m) = m \<and>
    (\<forall>x. x \<noteq> w \<longrightarrow> space (kern s1) x = space (kern s) x)"
proof -
  obtain s0 where s0: "fuse_step K (Calls q e c r) s (Ok s0)" "in_call owner ut s0 q c (op_of e) d w r"
      "procs s0 w = Reading d" "awake s0 w" "regs (pds s0 d) = regs (pds s d)" "space (kern s0) = space (kern s)"
      "\<forall>x. asleep_at (procs s0 x) d \<longrightarrow> x = w"
    using call_reaches_daemon [OF K s e] by blast
  obtain s1 where s1: "fuse_step K (Goes_on w) s0 (Ok s1)" "in_call owner ut s1 q c (op_of e) d w r" "calls_on s1 w d"
      "regs (pds s1 d) = (regs (pds s d))\<lparr>ry := of_nat (length m)\<rparr>" "procs s1 w = User 0"
      "mem_bytes (space (kern s1) w) (rx (regs (pds s d))) (length m) = m"
      "\<forall>x. x \<noteq> w \<longrightarrow> space (kern s1) x = space (kern s) x"
    using reader_gets [OF K s0(2,3,4,7) op_of_neq(2,3), of m] s0(5,6) room m by auto
  then show ?thesis using s0(1) by (intro exI [of _ s0] exI [of _ s1]) simp
qed

text \<open>
  The daemon then computes: between its read and its write the kernel changes in nothing but the
  daemon's own memory.
\<close>

definition daemon_computed ::
  "('k \<Rightarrow> byte \<Rightarrow> word16 \<Rightarrow> byte) \<Rightarrow> ('k \<Rightarrow> byte \<Rightarrow> byte) \<Rightarrow> byte \<Rightarrow> 'k \<Rightarrow> 'k \<Rightarrow> bool" where
  "daemon_computed space owner w k k' \<longleftrightarrow>
     owner k' = owner k \<and> (\<forall>x. x \<noteq> w \<longrightarrow> space k' x = space k x)"

text \<open>An answer has a header, and for a read behind it the bytes the header speaks of.\<close>

definition whole_answer :: "byte \<Rightarrow> byte list \<Rightarrow> bool" where
  "whole_answer op m \<longleftrightarrow> 3 \<le> length m \<and>
     (reads op \<longrightarrow> status (reply_of m) = 0 \<longrightarrow> 3 + unat (rep_size (reply_of m)) \<le> length m)"

text \<open>The daemon writes the answer that is in its memory, and the client goes on: two steps.\<close>

lemma answer_returns:
  assumes K: "os9_laws K space owner ut" and s: "in_call owner ut s q c (op_of e) d w r" "calls_on s w d"
    and e: "e \<noteq> Close" and k: "daemon_computed space owner w (kern s) k"
    and rep: "mem_bytes (space k w) (rx r') (length rep) = rep" "whole_answer (op_of e) rep"
  shows "\<exists>s2 s3. fuse_step K (Calls w Write d r') (s\<lparr>kern := k\<rparr>) (Ok s2) \<and> fuse_step K (Goes_on q) s2 (Ok s3) \<and>
    procs s3 q = User (status (reply_of rep)) \<and> regs (pds s3 c) = r\<lparr>ry := caller_size (op_of e) r rep\<rparr> \<and>
    space (kern s3) = (space k)(q := caller_memory (op_of e) r rep (space (kern s) q)) \<and>
    procs s3 w = User 0 \<and> peer (pds s3 d) = 0 \<and> peer (pds s3 c) = d"
proof -
  note I = s(1) [unfolded in_call_def]
  let ?s = "s\<lparr>kern := k\<rparr>"
  have i: "in_call owner ut ?s q c (op_of e) d w r" "calls_on ?s w d" "q \<noteq> w"
    using s k by (simp_all add: in_call_def calls_on_def daemon_computed_def)
  obtain s2 t where s2: "fuse_step K (Calls w Write d r') ?s (Ok s2)" "procs s2 = (procs s)(w := User 0)"
      "awake s2 q" "peer (pds s2 d) = 0" "peer (pds s2 c) = d" "regs (pds s2 c) = r\<lparr>ry := caller_size (op_of e) r rep\<rparr>"
      "space (kern s2) q = caller_memory (op_of e) r rep (space k q)" "\<forall>x. x \<noteq> q \<longrightarrow> space (kern s2) x = space k x"
      "client_tmp (pds s2 c) = Some t" "status (reply t) = rep ! 0"
    using writer_gives [OF K i(1,2), of r' rep] rep by (auto simp: whole_answer_def)
  obtain s3 where s3: "fuse_step K (Goes_on q) s2 (Ok s3)" "procs s3 = (procs s2)(q := User (rep ! 0))"
      "\<forall>p. regs (pds s3 p) = regs (pds s2 p) \<and> peer (pds s3 p) = peer (pds s2 p)" "space (kern s3) = space (kern s2)"
    using caller_returns [OF K _ s2(3) op_of_neq(1) [OF e] op_of_neq(2) s2(9)] s2(2,10) I by auto
  have "space k q = space (kern s) q" using k i(3) by (simp add: daemon_computed_def)
  then have "space (kern s3) = (space k)(q := caller_memory (op_of e) r rep (space (kern s) q))"
    using s2(7,8) s3(4) by auto
  then show ?thesis using s2 s3 i(3) by (intro exI [of _ s2] exI [of _ s3]) (simp add: reply_of_def)
qed

end
