(* ===== verification/Fuse_Run.thy ===== *)
theory Fuse_Run
  imports Fuse_Call
begin

text \<open>
  What the kernel's file manager and a daemon do together, with runs on a small kernel as the
  concrete cases.
\<close>

section \<open>A run\<close>

text \<open>
  A small kernel: memory by process, tasks from 128 on are temporary ones and one is enough; a word of
  a name is one of the four that the run needs.
\<close>

definition demo_os9 :: "((byte \<Rightarrow> word16 \<Rightarrow> byte) \<times> (byte \<Rightarrow> byte)) os9" where
  "demo_os9 = \<lparr>UserTask = (\<lambda>q k. and q 127), ResTsk = (\<lambda>k. (0, 200, k)), RelTsk = (\<lambda>t k. k),
     SetMap = (\<lambda>t q (m, o'). (m, o'(t := q))), Get = (\<lambda>t a n (m, o'). Inr (mem_bytes (m (o' t)) a n)),
     Put = (\<lambda>t a bs (m, o'). (0, (m(o' t := mem_store (m (o' t)) a bs), o'))),
     LdABX = (\<lambda>t a (m, o'). (0, m (o' t) a)),
     PrsNam = (\<lambda>q a k. if a = 1 then (0, 1, 7) else if a = 7 then (0, 8, 9) else if a = 20 then (0, 8, 9) else (216, a, a)),
     IOQN = (\<lambda>q k. 0), OldReply = (\<lambda>k. \<lparr>status = 0, rep_size = 0\<rparr>)\<rparr>"

lemma demo_laws: "os9_laws demo_os9 fst snd (\<lambda>q. and q 127)"
proof -
  have "200 \<noteq> and q 127" for q :: byte
  proof
    assume "200 = and q 127"
    then have "bit (200 :: byte) 7 = bit (and q 127) 7" by simp
    then show False by (simp add: bit_and_iff)
  qed
  then show ?thesis by (auto simp: os9_laws_def demo_os9_def)
qed

definition demo_memory :: "byte \<Rightarrow> word16 \<Rightarrow> byte" where
  "demo_memory = (\<lambda>q a. if unat a < 10 then ([0, 68, 65, 69, 77, 79, 78, 47, 88, 0] :: byte list) ! unat a else 0)"

definition demo_boot :: "((byte \<Rightarrow> word16 \<Rightarrow> byte) \<times> (byte \<Rightarrow> byte)) manager" where
  "demo_boot = \<lparr>pds = (\<lambda>_. zero_pd), devices = (\<lambda>_. \<lparr>dt_fileman = 0, dt_num_users = 0\<rparr>), procs = (\<lambda>_. User 0),
     awake = (\<lambda>_. False), kern = (demo_memory, \<lambda>t. t)\<rparr>"

text \<open>
  The steps of a list of actions, as a function.  By the invariant the descriptors tell whether a
  process is inside a call on a path.
\<close>

definition in_user :: "point \<Rightarrow> bool" where
  "in_user w = (case w of User z \<Rightarrow> True | _ \<Rightarrow> False)"

definition quiet_path :: "'k manager \<Rightarrow> byte \<Rightarrow> bool" where
  "quiet_path s p \<longleftrightarrow> pd_num (pds s p) \<noteq> 0 \<and> paused_proc_id (pds s p) = 0 \<and>
     (is_daemon (pds s p) \<or> peer (pds s (peer (pds s p))) \<noteq> p)"

lemma quiet_path_asleep:
  assumes "link_inv s" "quiet_path s p"
  shows "\<not> asleep_at (procs s q) p"
proof -
  note D = links_okD [OF assms(1) [unfolded link_inv_def]]
  show ?thesis
    using D(2) [of q p] D(3) [of q p] D(6) [of q p] D(7) [of q p] assms(2)
    by (cases "procs s q") (auto simp: quiet_path_def)
qed

fun perform :: "'k os9 \<Rightarrow> 'k act \<Rightarrow> 'k manager \<Rightarrow> 'k manager outcome" where
  "perform K (Opens q p dte r) s =
     (if in_user (procs s q) \<and> q \<noteq> 0 \<and> p \<noteq> 0 \<and> pd_num (pds s p) = 0
      then omap (opened q p) (CreateOrOpenC K q p (set_pd p (\<lambda>_. new_pd p dte r) s)) else Hang)"
| "perform K (Calls q e p r) s =
     (if in_user (procs s q) \<and> q \<noteq> 0 \<and> quiet_path s p \<and> e \<noteq> Close
      then enter e K q p (set_pd p (\<lambda>d. unlink e (d\<lparr>regs := r\<rparr>)) s) else Hang)"
| "perform K (Goes_on q) s =
     (if \<not> awake s q then Hang
      else case procs s q of
        Reading dae \<Rightarrow> DaemonRead_resumed K q dae (s\<lparr>awake := (awake s)(q := False)\<rparr>)
      | Pausing cli op \<Rightarrow> client_wakes K q cli op (s\<lparr>awake := (awake s)(q := False)\<rparr>)
      | _ \<Rightarrow> Hang)"
| "perform K _ s = Hang"

lemma perform_step:
  assumes "perform K a s = Ok s'" "link_inv s"
  shows "moves K s s'"
proof (cases a)
  case (Opens q p dte r)
  then obtain z where "procs s q = User z" "q \<noteq> 0" "p \<noteq> 0" "pd_num (pds s p) = 0"
    using assms by (auto simp: in_user_def split: if_splits point.splits)
  from fuse_step.opens [OF this, of K dte r] show ?thesis
    using assms Opens by (intro movesI [of K a]) (auto split: if_splits)
next
  case (Calls q e p r)
  then obtain z where "procs s q = User z" "q \<noteq> 0" "pd_num (pds s p) \<noteq> 0" "\<forall>q'. \<not> asleep_at (procs s q') p" "e \<noteq> Close"
    using assms quiet_path_asleep by (auto simp: in_user_def quiet_path_def split: if_splits point.splits)
  from fuse_step.calls [OF this(1-4), of K e r] this(5) show ?thesis
    using assms Calls by (intro movesI [of K a]) (auto split: if_splits)
next
  case (Goes_on q)
  then show ?thesis
    using assms fuse_step.reader [of s q _ K] fuse_step.client [of s q _ _ K]
    by (intro movesI [of K a]) (auto split: if_splits point.splits)
qed (use assms in simp_all)

fun perform_all :: "'k os9 \<Rightarrow> 'k act list \<Rightarrow> 'k manager \<Rightarrow> 'k manager outcome" where
  "perform_all K [] s = Ok s"
| "perform_all K (a # as) s = obind (perform K a s) (perform_all K as)"

lemma perform_all_reached:
  "perform_all K as s = Ok s' \<Longrightarrow> reached K s \<Longrightarrow> quiet_os9 K \<Longrightarrow> reached K s'"
proof (induction "as" arbitrary: s)
  case (Cons a "as")
  then obtain s1 where s1: "perform K a s = Ok s1" "perform_all K as s1 = Ok s'" by (auto simp: obind_Ok)
  then have "reached K s1"
    using perform_step [OF s1(1) reached_inv [OF Cons.prems(2,3)]] Cons.prems(2) by (auto simp: moves_def intro: reached.step)
  then show ?case using Cons.IH s1(2) Cons.prems(3) by blast
qed simp

lemma find_none:
  assumes "\<And>p. p \<in> set ps \<Longrightarrow> pd_num (pds s p) = 0 \<or> pd_num (pds s p) = p \<and> \<not> is_daemon (pds s p)"
  shows "find_daemon_loop K q dte b e s ps = Ok 0"
  using assms
proof (induction ps)
  case (Cons p ps)
  from Cons.prems [of p] have "pd_num (pds s p) = 0 \<or> pd_num (pds s p) = p \<and> \<not> is_daemon (pds s p)" by simp
  moreover have "find_daemon_loop K q dte b e s ps = Ok 0" using Cons by simp
  ultimately show ?case by (auto simp: Let_def)
qed simp

lemma demo_parse: "parse_loop demo_os9 6 (demo_memory, \<lambda>t. t) 0 1 o' =
   Ok (3, 9, o'\<lparr>begin1 := 1, end1 := 7, begin2 := 8, end2 := 9\<rparr>)"
  by (simp add: parse_loop.simps demo_os9_def ShowParsedName_def ParsedNameEquals_def Let_def demo_memory_def ToUpper_def)

lemma demo_parse2: "parse_loop demo_os9 5 (demo_memory, \<lambda>t. t) 0 20 o' =
   Ok (2, 9, o'\<lparr>begin1 := 8, end1 := 9\<rparr>)"
  by (simp add: parse_loop.simps demo_os9_def ShowParsedName_def ParsedNameEquals_def Let_def demo_memory_def ToUpper_def)


lemma demo_names:
  "ParsedNameEquals demo_os9 6 1 7 [68, 65, 69, 77, 79, 78] (demo_memory, \<lambda>t. t) = Ok True"
  "CopyParsedName demo_os9 6 8 9 (demo_memory, \<lambda>t. t) = Ok [88]"
  "ParsedNameEquals demo_os9 5 8 9 [88] (demo_memory, \<lambda>t. t) = Ok True"
  "ShowParsedName demo_os9 6 8 9 (demo_memory, \<lambda>t. t) = Ok ()"
  "ShowParsedName demo_os9 5 8 9 (demo_memory, \<lambda>t. t) = Ok ()"
  "ShowParsedName demo_os9 5 0 0 (demo_memory, \<lambda>t. t) = Ok ()"
  by (simp_all add: demo_os9_def ShowParsedName_def ParsedNameEquals_def CopyParsedName_def Let_def demo_memory_def ToUpper_def DAEMON_NAME_MAX_def)

definition demo_devs :: "word16 \<Rightarrow> DeviceTableEntry" where
  "demo_devs = (\<lambda>_. \<lparr>dt_fileman = 0, dt_num_users = 0\<rparr>)(0 := \<lparr>dt_fileman = 0, dt_num_users = 16\<rparr>)"

definition demo_daemon :: PathDesc where
  "demo_daemon = (new_pd 1 0 (no_regs\<lparr>rx := 9\<rparr>))\<lparr>is_daemon := True, peer := 0, daemon_name := [88], current_process_id := 0\<rparr>"

lemma demo_1: "perform demo_os9 (Opens 6 1 0 (no_regs\<lparr>rx := 1\<rparr>)) demo_boot =
  Ok (demo_boot\<lparr>devices := demo_devs, pds := (\<lambda>_. zero_pd)(1 := demo_daemon)\<rparr>)"
proof -
  let ?s = "demo_boot\<lparr>devices := demo_devs, pds := (\<lambda>_. zero_pd)(1 := new_pd 1 0 (no_regs\<lparr>rx := 9\<rparr>))\<rparr>"
  have f: "find_daemon_loop demo_os9 6 0 8 9 ?s (map of_nat [1..<256]) = Ok 0"
    by (intro find_none) (auto simp: zero_pd_def new_pd_def)
  have "open_parsed demo_os9 6 1 (3, 9, \<lparr>begin1 = 1, end1 = 7, begin2 = 8, end2 = 9, original_rx = 1\<rparr>)
      (demo_boot\<lparr>devices := demo_devs, pds := (\<lambda>_. zero_pd)(1 := new_pd 1 0 (no_regs\<lparr>rx := 1\<rparr>))\<rparr>) =
    Ok (demo_boot\<lparr>devices := demo_devs, pds := (\<lambda>_. zero_pd)(1 := demo_daemon)\<rparr>)"
    using f by (simp add: open_parsed_def Let_def OpenDaemon_def FindDaemon_def demo_names demo_boot_def set_pd_def set_proc_def new_pd_def zero_pd_def demo_daemon_def demo_devs_def fun_upd_idem)
  then show ?thesis
    by (simp add: CreateOrOpenC_def Let_def demo_parse in_user_def opened_def demo_boot_def demo_devs_def set_pd_def new_pd_def zero_pd_def)
qed

lemma demo_2: "perform demo_os9 (Calls 6 Read 1 (no_regs\<lparr>rx := 100, ry := 2054\<rparr>))
    (demo_boot\<lparr>devices := demo_devs, pds := (\<lambda>_. zero_pd)(1 := demo_daemon)\<rparr>) =
  Ok (demo_boot\<lparr>devices := demo_devs, procs := (\<lambda>_. User 0)(6 := Reading 1), pds := (\<lambda>_. zero_pd)(1 := demo_daemon
    \<lparr>regs := no_regs\<lparr>rx := 100, ry := 2054\<rparr>, current_process_id := 6, paused_proc_id := 6\<rparr>)\<rparr>)"
  by (simp add: ReadC_def DaemonReadC_def in_user_def quiet_path_def unlink_def demo_boot_def set_pd_def set_proc_def
    demo_daemon_def new_pd_def zero_pd_def)


definition demo_linked :: "((byte \<Rightarrow> word16 \<Rightarrow> byte) \<times> (byte \<Rightarrow> byte)) manager" where
  "demo_linked = demo_boot\<lparr>devices := demo_devs, procs := (\<lambda>_. User 0)(6 := Reading 1, 5 := Pausing 2 OP_OPEN),
     awake := (\<lambda>_. False)(6 := True), kern := (demo_memory, (\<lambda>t. t)(200 := 5)),
     pds := (\<lambda>_. zero_pd)(
       1 := demo_daemon\<lparr>regs := no_regs\<lparr>rx := 100, ry := 2054\<rparr>, current_process_id := 6, paused_proc_id := 6,
         link_count := 2, peer := 2\<rparr>,
       2 := (new_pd 2 0 (no_regs\<lparr>rx := 9\<rparr>))\<lparr>link_count := 2, current_process_id := 5, peer := 1, paused_proc_id := 5,
         client_tmp := Some \<lparr>task_num = 200, client_op = OP_OPEN, opening_original_rx = 20, opening_pathname_size = 9 - 20,
           reply = \<lparr>status = 0, rep_size = 0\<rparr>\<rparr>\<rparr>)\<rparr>"

lemma demo_3: "perform demo_os9 (Opens 5 2 0 (no_regs\<lparr>rx := 20\<rparr>))
    (demo_boot\<lparr>devices := demo_devs, procs := (\<lambda>_. User 0)(6 := Reading 1), pds := (\<lambda>_. zero_pd)(1 := demo_daemon
    \<lparr>regs := no_regs\<lparr>rx := 100, ry := 2054\<rparr>, current_process_id := 6, paused_proc_id := 6\<rparr>)\<rparr>) = Ok demo_linked"
proof -
  have one: "map word_of_nat [Suc 0..<256] = (1 :: byte) # map of_nat [2..<256]" by (simp add: upt_conv_Cons)
  have K: "ResTsk demo_os9 k = (0, 200, k)" "SetMap demo_os9 t q (m, o') = (m, o'(t := q))"
      "OldReply demo_os9 k = \<lparr>status = 0, rep_size = 0\<rparr>" for k t q m o'
    by (simp_all add: demo_os9_def)
  let ?s = "demo_boot\<lparr>devices := demo_devs, procs := (\<lambda>_. User 0)(6 := Reading 1), pds := (\<lambda>_. zero_pd)(1 := demo_daemon
    \<lparr>regs := no_regs\<lparr>rx := 100, ry := 2054\<rparr>, current_process_id := 6, paused_proc_id := 6\<rparr>, 2 := new_pd 2 0 (no_regs\<lparr>rx := 20\<rparr>))\<rparr>"
  have "open_parsed demo_os9 5 2 (2, 9, \<lparr>begin1 = 8, end1 = 9, begin2 = 0, end2 = 0, original_rx = 20\<rparr>) ?s = Ok demo_linked"
    by (simp add: open_parsed_def Let_def ClientOperationC_opening_def FindDaemon_def demo_names demo_boot_def one K demo_linked_def demo_daemon_def new_pd_def zero_pd_def
     SetPeer_def call_daemon_def SwitchProcess_def Os9Awaken_def Os9Send_def Os9Pause_def set_pd_def set_proc_def demo_devs_def word_gt_0)
  moreover have "procs demo_linked 5 = Pausing 2 OP_OPEN" by (simp add: demo_linked_def)
  ultimately show ?thesis
    by (simp add: CreateOrOpenC_def Let_def demo_parse2 in_user_def opened_def demo_boot_def demo_devs_def set_pd_def new_pd_def zero_pd_def)
qed

lemma demo_reached: "reached demo_os9 demo_linked"
proof -
  have "booted demo_boot" by (simp add: booted_def demo_boot_def)
  then have "reached demo_os9 demo_boot" by (rule reached.start)
  moreover have "perform_all demo_os9 [Opens 6 1 0 (no_regs\<lparr>rx := 1\<rparr>), Calls 6 Read 1 (no_regs\<lparr>rx := 100, ry := 2054\<rparr>),
      Opens 5 2 0 (no_regs\<lparr>rx := 20\<rparr>)] demo_boot = Ok demo_linked"
    by (simp only: perform_all.simps demo_1 demo_2 demo_3 obind.simps)
  ultimately show ?thesis using perform_all_reached os9_quiet [OF demo_laws] by blast
qed

text \<open>The path open, and the daemon asleep in its next read.\<close>

definition demo_idle :: "((byte \<Rightarrow> word16 \<Rightarrow> byte) \<times> (byte \<Rightarrow> byte)) manager" where
  "demo_idle = demo_boot\<lparr>devices := demo_devs, procs := (\<lambda>_. User 0)(6 := Reading 1),
     pds := (\<lambda>_. zero_pd)(
       1 := demo_daemon\<lparr>regs := no_regs\<lparr>rx := 100, ry := 2054\<rparr>, paused_proc_id := 6, link_count := 2\<rparr>,
       2 := (new_pd 2 0 no_regs)\<lparr>peer := 1\<rparr>)\<rparr>"

lemma demo_idle_sel [simp]:
  "pds demo_idle = (\<lambda>_. zero_pd)(
       1 := demo_daemon\<lparr>regs := no_regs\<lparr>rx := 100, ry := 2054\<rparr>, paused_proc_id := 6, link_count := 2\<rparr>,
       2 := (new_pd 2 0 no_regs)\<lparr>peer := 1\<rparr>)"
  "procs demo_idle = (\<lambda>_. User 0)(6 := Reading 1)" "\<not> awake demo_idle q" "kern demo_idle = (demo_memory, \<lambda>t. t)"
  by (simp_all add: demo_idle_def demo_boot_def)

lemma demo_idle: "idle snd (\<lambda>q. and q 127) demo_idle 5 2 1 6"
proof -
  have "link_inv demo_idle"
    unfolding link_inv_def
    by (rule links_okI) (auto simp: demo_daemon_def new_pd_def zero_pd_def split: if_splits)
  then show ?thesis by (auto simp: idle_def calls_on_def demo_daemon_def new_pd_def zero_pd_def)
qed

section \<open>The file server behind the file manager\<close>

text \<open>What a read or a write asks of the server, by the registers and the memory of the caller.\<close>

definition asked :: "entry \<Rightarrow> Regs \<Rightarrow> (word16 \<Rightarrow> byte) \<Rightarrow> fuse_req" where
  "asked e r f =
     (if e = Read \<or> e = ReadLn then RqRead (e = ReadLn) (ry r)
      else RqWrite (e = WritLn) (mem_bytes f (rx r) (unat (min (ry r) 2048))))"

lemma message_asked:
  assumes "e \<in> {Read, ReadLn, Write, WritLn}"
  shows "message (op_of e) c r 2054 f = encode_regs (ra r) (rb r) c (asked e r f)"
  using assms
  by (auto simp: message_def request_bytes_def asked_def reads_def writes_def op_codes Let_def hi_def lo_def)

lemma reply_answer [simp]: "reply_of (answer e n bs) = \<lparr>status = e, rep_size = of_nat n\<rparr>"
  by (simp add: reply_of_def answer_def)

text \<open>An answer is a header, and for a read as many bytes as the header says.\<close>

lemma asked_answer:
  assumes "request_ok p (asked e r f) st" "spec_step p (asked e r f) st = (ans, st')" "e \<in> {Read, ReadLn, Write, WritLn}"
  shows "whole_answer (op_of e) ans"
proof -
  have n: "length (answer x n bs) = 3 + length bs" for x n bs by (simp add: answer_def)
  have E: "E_BMODE \<noteq> 0" "E_EOF_ram \<noteq> 0" by (simp_all add: E_BMODE_def E_EOF_ram_def)
  show ?thesis
  proof (cases "e = Read \<or> e = ReadLn")
    case True
    then obtain w pos nm where o: "opens st p = Some (w, pos, nm)"
        "w \<or> length (portion (e = ReadLn) (ry r) (drop pos (the (texts st nm)))) \<le> PAYSIZ"
      using assms(1) by (auto simp: request_ok_def asked_def split: option.splits prod.splits)
    then show ?thesis using True assms(2) n E
      by (auto simp: whole_answer_def asked_def Let_def PAYSIZ_def unat_of_nat split: if_splits)
  next
    case False
    then have "\<not> reads (op_of e)" using assms(3) by (auto simp: reads_def op_codes)
    moreover have "\<exists>w pos nm. opens st p = Some (w, pos, nm)"
      using assms(1) False by (auto simp: request_ok_def asked_def split: option.splits)
    ultimately show ?thesis using False assms(2) n by (auto simp: whole_answer_def asked_def Let_def split: if_splits)
  qed
qed

lemma unat_min_2048: "unat (min n 2048 :: word16) \<le> 2048"
  by (simp add: min_def word_le_nat_alt)

section \<open>Properties\<close>

text \<open>
  C2. Whatever the processes do, in any order, the file manager never goes through \<^verbatim>\<open>client_tmp\<close> into
  a stack frame that is gone: if the only signals are its own, temporary tasks do not run out and no
  daemon path is closed under its clients.  (What it cannot carry out ends in a failed assertion.)
\<close>
theorem fuse_frames_live:
  assumes "quiet_os9 K" "reached K s" "fuse_step K a s out"
  shows "out \<noteq> Wild"
  using fuse_step_not_wild [OF reached_inv [OF assms(2,1)] assms(3)] .

theorem fuse_frames_live_witness:
  "DaemonRead_resumed demo_os9 6 1 (demo_linked\<lparr>awake := (awake demo_linked)(6 := False)\<rparr>) \<noteq> Wild"
proof -
  have "procs demo_linked 6 = Reading 1" "awake demo_linked 6" by (simp_all add: demo_linked_def)
  from fuse_frames_live [OF os9_quiet [OF demo_laws] demo_reached fuse_step.reader [OF this]] show ?thesis .
qed

text \<open>
  C3. One operation at a time: in every state that is reached, a client a daemon is linked to is
  linked back, is not a daemon, has a live frame, and exactly one process is inside of a call on its
  path; no other daemon is linked to it.
\<close>
theorem fuse_one_client:
  assumes "quiet_os9 K" "reached K s" "is_daemon (pds s d)" "peer (pds s d) = c" "c \<noteq> 0"
  shows "peer (pds s c) = d \<and> \<not> is_daemon (pds s c) \<and> client_tmp (pds s c) \<noteq> None \<and>
    (\<exists>!q. asleep_at (procs s q) c) \<and> (\<forall>d'. is_daemon (pds s d') \<longrightarrow> peer (pds s d') = c \<longrightarrow> d' = d)"
proof -
  note D = links_okD [OF reached_inv [OF assms(2,1), unfolded link_inv_def]]
  obtain q where q: "peer (pds s c) = d" "waits_for (procs s q) c d" using D(11) [of d] assms(3-5) by auto
  then have "client_at (procs s q) c" "asleep_at (procs s q) c" by (auto dest: client_asleep)
  then have "\<exists>!q. asleep_at (procs s q) c" "\<not> is_daemon (pds s c)" "client_tmp (pds s c) \<noteq> None"
    using D(2) [of q c] D(4) by auto
  moreover have "d' = d" if "is_daemon (pds s d')" "peer (pds s d') = c" for d'
    using D(11) [of d'] that q(1) assms(5) by simp
  ultimately show ?thesis using q(1) by blast
qed

theorem fuse_one_client_witness:
  "peer (pds demo_linked 2) = 1 \<and> (\<exists>!q. asleep_at (procs demo_linked q) 2)"
proof -
  have "is_daemon (pds demo_linked 1)" "peer (pds demo_linked 1) = 2"
    by (simp_all add: demo_linked_def demo_daemon_def)
  from fuse_one_client [OF os9_quiet [OF demo_laws] demo_reached this] show ?thesis by simp
qed

text \<open>
  C4. A call comes back.  When the daemon sleeps in its read, the call of a client on a path linked to
  it and the daemon's going on put the request into the daemon's buffer and change no other memory.
  Then let the daemon compute, in its own memory alone, and have any answer at the place it writes
  from, a header with the bytes the header speaks of: the daemon's write and the client's going on
  return from the call with the status, the count and the bytes of that answer, the client's memory
  being otherwise what it was at the call, and the daemon is free for the next one.
\<close>
theorem fuse_call_returns:
  assumes "os9_laws K space owner ut" "idle owner ut s q c d w" "e \<noteq> Close" "6 < ry (regs (pds s d))"
    and m: "m = message (op_of e) c r (ry (regs (pds s d))) (space (kern s) q)"
  shows "\<exists>s0 s1. fuse_step K (Calls q e c r) s (Ok s0) \<and> fuse_step K (Goes_on w) s0 (Ok s1) \<and>
    procs s1 w = User 0 \<and> ry (regs (pds s1 d)) = of_nat (length m) \<and>
    mem_bytes (space (kern s1) w) (rx (regs (pds s d))) (length m) = m \<and>
    (\<forall>x. x \<noteq> w \<longrightarrow> space (kern s1) x = space (kern s) x) \<and>
    (\<forall>k r' rep. daemon_computed space owner w (kern s1) k \<and> mem_bytes (space k w) (rx r') (length rep) = rep \<and>
        whole_answer (op_of e) rep \<longrightarrow>
      (\<exists>s2 s3. fuse_step K (Calls w Write d r') (s1\<lparr>kern := k\<rparr>) (Ok s2) \<and> fuse_step K (Goes_on q) s2 (Ok s3) \<and>
        procs s3 q = User (status (reply_of rep)) \<and> regs (pds s3 c) = r\<lparr>ry := caller_size (op_of e) r rep\<rparr> \<and>
        space (kern s3) = (space k)(q := caller_memory (op_of e) r rep (space (kern s) q)) \<and>
        procs s3 w = User 0 \<and> peer (pds s3 d) = 0))"
proof -
  obtain s0 s1 where s1: "fuse_step K (Calls q e c r) s (Ok s0)" "fuse_step K (Goes_on w) s0 (Ok s1)"
      "in_call owner ut s1 q c (op_of e) d w r" "calls_on s1 w d" "procs s1 w = User 0"
      "regs (pds s1 d) = (regs (pds s d))\<lparr>ry := of_nat (length m)\<rparr>"
      "mem_bytes (space (kern s1) w) (rx (regs (pds s d))) (length m) = m"
      "\<forall>x. x \<noteq> w \<longrightarrow> space (kern s1) x = space (kern s) x"
    using request_arrives [OF assms] by blast
  have "q \<noteq> w" using s1(3) by (simp add: in_call_def)
  then have "space (kern s1) q = space (kern s) q" using s1(8) by simp
  note A = answer_returns [OF assms(1) s1(3,4) assms(3), unfolded this]
  have "\<exists>s2 s3. fuse_step K (Calls w Write d r') (s1\<lparr>kern := k\<rparr>) (Ok s2) \<and> fuse_step K (Goes_on q) s2 (Ok s3) \<and>
        procs s3 q = User (status (reply_of rep)) \<and> regs (pds s3 c) = r\<lparr>ry := caller_size (op_of e) r rep\<rparr> \<and>
        space (kern s3) = (space k)(q := caller_memory (op_of e) r rep (space (kern s) q)) \<and>
        procs s3 w = User 0 \<and> peer (pds s3 d) = 0"
    if "daemon_computed space owner w (kern s1) k" "mem_bytes (space k w) (rx r') (length rep) = rep"
      "whole_answer (op_of e) rep" for k r' rep
    using A [OF that] by blast
  then show ?thesis using s1 by (intro exI [of _ s0] exI [of _ s1]) simp
qed

text \<open>In the run of the witness the daemon answers a read with one byte, from its address 300.\<close>

definition demo_answer :: "byte list \<Rightarrow> (byte \<Rightarrow> word16 \<Rightarrow> byte) \<times> (byte \<Rightarrow> byte) \<Rightarrow> (byte \<Rightarrow> word16 \<Rightarrow> byte) \<times> (byte \<Rightarrow> byte)" where
  "demo_answer rep = (\<lambda>(m, o'). (m(6 := mem_store (m 6) 300 rep), o'))"

lemma demo_answer:
  "daemon_computed fst snd 6 k (demo_answer rep k)"
  "length rep \<le> 65536 \<Longrightarrow> mem_bytes (fst (demo_answer rep k) 6) (rx (no_regs\<lparr>rx := 300\<rparr>)) (length rep) = rep"
  by (simp_all add: daemon_computed_def demo_answer_def split_beta mem_bytes_store)

lemma demo_reply:
  assumes "rep = 0 # 0 # of_nat (length bs) # bs" "length bs < 10" "r = no_regs\<lparr>rx := 500, ry := 10\<rparr>"
  shows "whole_answer (op_of Read) rep" "status (reply_of rep) = 0" "caller_size (op_of Read) r rep = of_nat (length bs)"
    "caller_memory (op_of Read) r rep f = mem_store f 500 bs"
proof -
  have a: "reply_of rep = \<lparr>status = 0, rep_size = of_nat (length bs)\<rparr>"
    using assms(1,2) by (simp add: reply_of_def hilo_def unsigned_of_nat take_bit_nat_eq_self)
  have n: "unat (of_nat (length bs) :: word16) = length bs" "of_nat (length bs) \<le> (10 :: word16)"
    using assms(2) by (simp_all add: unat_of_nat word_le_nat_alt)
  show "caller_size (op_of Read) r rep = of_nat (length bs)"
    using a n by (simp add: caller_size_def reads_def assms(3) min_def)
  then show "caller_memory (op_of Read) r rep f = mem_store f 500 bs"
    using a n by (simp add: caller_memory_def reads_def assms(1,3))
  show "whole_answer (op_of Read) rep" "status (reply_of rep) = 0"
    using a n by (simp_all add: whole_answer_def assms(1))
qed

theorem fuse_call_returns_witness:
  "\<exists>s0 s1 s2 s3. fuse_step demo_os9 (Calls 5 Read 2 (no_regs\<lparr>rx := 500, ry := 10\<rparr>)) demo_idle (Ok s0) \<and>
    fuse_step demo_os9 (Goes_on 6) s0 (Ok s1) \<and> mem_bytes (fst (kern s1) 6) 100 6 = [4, 2, 0, 0, 0, 10] \<and>
    fuse_step demo_os9 (Calls 6 Write 1 (no_regs\<lparr>rx := 300\<rparr>)) (s1\<lparr>kern := demo_answer [0, 0, 1, 65] (kern s1)\<rparr>) (Ok s2) \<and>
    fuse_step demo_os9 (Goes_on 5) s2 (Ok s3) \<and> procs s3 5 = User 0 \<and> ry (regs (pds s3 2)) = 1 \<and>
    fst (kern s3) 5 = (demo_memory 5)(500 := 65)"
proof -
  let ?r = "no_regs\<lparr>rx := 500, ry := 10\<rparr>" and ?m = "[4, 2, 0, 0, 0, 10 :: byte]" and ?a = "[0, 0, 1, 65 :: byte]"
  have "message (op_of Read) 2 ?r 2054 f = ?m" for f
    using message_asked [of Read 2 ?r f] by (simp add: asked_def op_codes no_regs_def hi_def lo_def)
  then have d: "Read \<noteq> Close" "6 < ry (regs (pds demo_idle 1))"
    "?m = message (op_of Read) 2 ?r (ry (regs (pds demo_idle 1))) (fst (kern demo_idle) 5)"
    by simp_all
  note a = demo_reply [of ?a "[65]" ?r, simplified]
  obtain s0 s1 where s1: "fuse_step demo_os9 (Calls 5 Read 2 ?r) demo_idle (Ok s0)" "fuse_step demo_os9 (Goes_on 6) s0 (Ok s1)"
      "mem_bytes (fst (kern s1) 6) (rx (regs (pds demo_idle 1))) (length ?m) = ?m" and
      all: "\<forall>k r' rep. daemon_computed fst snd 6 (kern s1) k \<and> mem_bytes (fst k 6) (rx r') (length rep) = rep \<and>
        whole_answer (op_of Read) rep \<longrightarrow>
      (\<exists>s2 s3. fuse_step demo_os9 (Calls 6 Write 1 r') (s1\<lparr>kern := k\<rparr>) (Ok s2) \<and> fuse_step demo_os9 (Goes_on 5) s2 (Ok s3) \<and>
        procs s3 5 = User (status (reply_of rep)) \<and> regs (pds s3 2) = ?r\<lparr>ry := caller_size (op_of Read) ?r rep\<rparr> \<and>
        fst (kern s3) = (fst k)(5 := caller_memory (op_of Read) ?r rep (fst (kern demo_idle) 5)) \<and>
        procs s3 6 = User 0 \<and> peer (pds s3 1) = 0)"
    using fuse_call_returns [OF demo_laws demo_idle d] by blast
  obtain s2 s3 where s3: "fuse_step demo_os9 (Calls 6 Write 1 (no_regs\<lparr>rx := 300\<rparr>)) (s1\<lparr>kern := demo_answer ?a (kern s1)\<rparr>) (Ok s2)"
      "fuse_step demo_os9 (Goes_on 5) s2 (Ok s3)" "procs s3 5 = User 0" "regs (pds s3 2) = ?r\<lparr>ry := 1\<rparr>"
      "fst (kern s3) 5 = mem_store (demo_memory 5) 500 [65]"
    using all [rule_format, of "demo_answer ?a (kern s1)" "no_regs\<lparr>rx := 300\<rparr>" ?a] demo_answer(1) [of "kern s1" ?a] demo_answer(2) [of ?a "kern s1"] a by auto
  have "mem_store f 500 [65] = f(500 := 65)" for f
    by (auto simp: mem_store_def fun_eq_iff unat_eq_0)
  moreover have "mem_bytes (fst (kern s1) 6) 100 6 = ?m" using s1(3) by (simp add: eval_nat_numeral)
  ultimately show ?thesis using s1(1,2) s3
    by (intro exI [of _ s0] exI [of _ s1] exI [of _ s2] exI [of _ s3]) simp
qed

text \<open>
  C1. The file server behind the file manager.  A read or a write of a client on a path of the
  server, with the server asleep in its read, is answered as the store of named texts answers it: the
  client's call and the server's going on leave the request in the server's buffer, what the server
  finds there it answers as the specification does, and once that answer is in the server's memory,
  its write and the client's going on return from the call with that answer and nothing else.
\<close>
theorem ramfile_behind_manager:
  assumes K: "os9_laws K space owner ut" and s: "idle owner ut s q c d w" "ry (regs (pds s d)) = 2054"
    and e: "e \<in> {Read, ReadLn, Write, WritLn}" and f: "f = space (kern s) q"
    and ram: "ram_inv ram" "request_ok (unat c) (asked e r f) (store_abs ram)"
  shows "\<exists>ans ram' s0 s1. spec_step (unat c) (asked e r f) (store_abs ram) = (ans, store_abs ram') \<and> ram_inv ram' \<and>
    fuse_step K (Calls q e c r) s (Ok s0) \<and> fuse_step K (Goes_on w) s0 (Ok s1) \<and>
    serve_one (mem_bytes (space (kern s1) w) (rx (regs (pds s d))) (unat (ry (regs (pds s1 d))))) ram = Some (ans, ram') \<and>
    (\<forall>k r'. daemon_computed space owner w (kern s1) k \<and> mem_bytes (space k w) (rx r') (length ans) = ans \<longrightarrow>
      (\<exists>s2 s3. fuse_step K (Calls w Write d r') (s1\<lparr>kern := k\<rparr>) (Ok s2) \<and> fuse_step K (Goes_on q) s2 (Ok s3) \<and>
        procs s3 q = User (status (reply_of ans)) \<and> regs (pds s3 c) = r\<lparr>ry := caller_size (op_of e) r ans\<rparr> \<and>
        space (kern s3) = (space k)(q := caller_memory (op_of e) r ans f)))"
proof -
  let ?m = "message (op_of e) c r 2054 f"
  have ne: "e \<noteq> Close" using e by auto
  obtain s0 s1 where s1: "fuse_step K (Calls q e c r) s (Ok s0)" "fuse_step K (Goes_on w) s0 (Ok s1)"
      "in_call owner ut s1 q c (op_of e) d w r" "calls_on s1 w d"
      "regs (pds s1 d) = (regs (pds s d))\<lparr>ry := of_nat (length ?m)\<rparr>"
      "mem_bytes (space (kern s1) w) (rx (regs (pds s d))) (length ?m) = ?m"
      "\<forall>x. x \<noteq> w \<longrightarrow> space (kern s1) x = space (kern s) x"
    using request_arrives [OF K s(1) ne, of ?m r] s(2) f by auto
  have same: "space (kern s1) q = f" using s1(3,7) f by (simp add: in_call_def)
  have "length ?m \<le> 2054" using e unat_min_2048 [of "ry r"] by (simp add: message_def Let_def)
  then have m: "mem_bytes (space (kern s1) w) (rx (regs (pds s d))) (unat (ry (regs (pds s1 d)))) = encode_regs (ra r) (rb r) c (asked e r f)"
    using s1(5,6) message_asked [OF e, of c r f] by (simp add: unat_of_nat)
  obtain ans ram' where a: "serve_one (encode_regs (ra r) (rb r) c (asked e r f)) ram = Some (ans, ram')" "ram_inv ram'"
      "spec_step (unat c) (asked e r f) (store_abs ram) = (ans, store_abs ram')"
    using serve_step_regs [OF ram] by blast
  have "\<exists>s2 s3. fuse_step K (Calls w Write d r') (s1\<lparr>kern := k\<rparr>) (Ok s2) \<and> fuse_step K (Goes_on q) s2 (Ok s3) \<and>
        procs s3 q = User (status (reply_of ans)) \<and> regs (pds s3 c) = r\<lparr>ry := caller_size (op_of e) r ans\<rparr> \<and>
        space (kern s3) = (space k)(q := caller_memory (op_of e) r ans f)"
    if "daemon_computed space owner w (kern s1) k" "mem_bytes (space k w) (rx r') (length ans) = ans" for k r'
    using answer_returns [OF K s1(3,4) ne that asked_answer [OF ram(2) a(3) e]] same by blast
  then show ?thesis using a m s1(1,2) by (intro exI [of _ ans] exI [of _ ram'] exI [of _ s0] exI [of _ s1]) simp
qed

theorem ramfile_behind_manager_witness:
  "\<exists>ram s0 s1 s2 s3. ram_inv ram \<and> fuse_step demo_os9 (Calls 5 Read 2 (no_regs\<lparr>rx := 500, ry := 10\<rparr>)) demo_idle (Ok s0) \<and>
    fuse_step demo_os9 (Goes_on 6) s0 (Ok s1) \<and>
    fst (the (serve_one (mem_bytes (fst (kern s1) 6) 100 (unat (ry (regs (pds s1 1))))) ram)) = [0, 0, 2, 72, 73] \<and>
    fuse_step demo_os9 (Calls 6 Write 1 (no_regs\<lparr>rx := 300\<rparr>)) (s1\<lparr>kern := demo_answer [0, 0, 2, 72, 73] (kern s1)\<rparr>) (Ok s2) \<and>
    fuse_step demo_os9 (Goes_on 5) s2 (Ok s3) \<and> procs s3 5 = User 0 \<and> ry (regs (pds s3 2)) = 2 \<and>
    mem_bytes (fst (kern s3) 5) 500 2 = [72, 73]"
proof -
  let ?r = "no_regs\<lparr>rx := 500, ry := 10\<rparr>" and ?rqs = "[(2, RqOpen True 2 [65]), (2, RqWrite False [72, 73]), (2, RqClose), (2, RqOpen False 1 [65])]"
    and ?a = "[0, 0, 2, 72, 73 :: byte]"
  have "requests_ok ?rqs empty_store" by (simp add: spec_simps)
  then obtain ram where ram: "ram_inv ram" "store_abs ram = snd (spec_all ?rqs empty_store)"
    using serve_all_step [OF start_inv, of ?rqs] by (auto simp: start_abs)
  have rq: "asked Read ?r f = RqRead False 10" for f by (simp add: asked_def)
  have ok: "request_ok (unat (2 :: byte)) (asked Read ?r f) (store_abs ram)" for f
    unfolding ram(2) rq by (simp add: spec_simps)
  have ans: "fst (spec_step (unat (2 :: byte)) (asked Read ?r f) (store_abs ram)) = ?a" for f
    unfolding ram(2) rq by (simp add: spec_simps)
  have n: "ry (regs (pds demo_idle 1)) = 2054" by simp
  obtain s0 s1 ram' where s1: "fuse_step demo_os9 (Calls 5 Read 2 ?r) demo_idle (Ok s0)" "fuse_step demo_os9 (Goes_on 6) s0 (Ok s1)"
      "serve_one (mem_bytes (fst (kern s1) 6) (rx (regs (pds demo_idle 1))) (unat (ry (regs (pds s1 1))))) ram = Some (?a, ram')" and
    all: "\<forall>k r'. daemon_computed fst snd 6 (kern s1) k \<and> mem_bytes (fst k 6) (rx r') (length ?a) = ?a \<longrightarrow>
      (\<exists>s2 s3. fuse_step demo_os9 (Calls 6 Write 1 r') (s1\<lparr>kern := k\<rparr>) (Ok s2) \<and> fuse_step demo_os9 (Goes_on 5) s2 (Ok s3) \<and>
        procs s3 5 = User (status (reply_of ?a)) \<and> regs (pds s3 2) = ?r\<lparr>ry := caller_size (op_of Read) ?r ?a\<rparr> \<and>
        fst (kern s3) = (fst k)(5 := caller_memory (op_of Read) ?r ?a (fst (kern demo_idle) 5)))"
    using ramfile_behind_manager [where e = Read and r = ?r, OF demo_laws demo_idle n _ refl ram(1) ok] ans
    by (metis fst_conv insertI1)
  note a = demo_reply [of ?a "[72, 73]" ?r, simplified]
  obtain s2 s3 where s3: "fuse_step demo_os9 (Calls 6 Write 1 (no_regs\<lparr>rx := 300\<rparr>)) (s1\<lparr>kern := demo_answer ?a (kern s1)\<rparr>) (Ok s2)"
      "fuse_step demo_os9 (Goes_on 5) s2 (Ok s3)" "procs s3 5 = User 0" "regs (pds s3 2) = ?r\<lparr>ry := 2\<rparr>"
      "fst (kern s3) 5 = mem_store (demo_memory 5) 500 [72, 73]"
    using all [rule_format, of "demo_answer ?a (kern s1)" "no_regs\<lparr>rx := 300\<rparr>"] demo_answer(1) [of "kern s1" ?a] demo_answer(2) [of ?a "kern s1"] a by auto
  have "mem_bytes (mem_store f 500 [72, 73]) 500 2 = [72, 73]" for f
    using mem_bytes_store [of "[72, 73]" f 500] by (simp add: numeral_2_eq_2)
  then show ?thesis using s1 s3 ram(1)
    by (intro exI [of _ ram] exI [of _ s0] exI [of _ s1] exI [of _ s2] exI [of _ s3]) simp
qed

text \<open>
  C38. A signal from elsewhere breaks this: when the client that waits is woken by it, its call
  returns, and the answer the daemon then writes goes into the stack frame that is gone.
\<close>
theorem signal_breaks_frame:
  assumes "link_inv s" "procs s q = Pausing c op" "\<not> awake s q" "op \<noteq> OP_CLOSE" "op \<noteq> OP_OPEN"
    "d = peer (pds s c)" "calls_on s w d"
  shows "\<exists>s1 s2. fuse_step K (Signal q) s (Ok s1) \<and> fuse_step K (Goes_on q) s1 (Ok s2) \<and> fuse_step K (Calls w Write d r) s2 Wild"
proof -
  note D = links_okD [OF assms(1) [unfolded link_inv_def]]
  have c: "peer (pds s d) = c" "is_daemon (pds s d)" "c \<noteq> 0" "\<not> is_daemon (pds s c)" "c \<noteq> d"
    using D(2) [of q c] D(8) [OF assms(2,3)] D(13) [of q c] assms(2,6) by auto
  have d: "d \<noteq> 0" "pd_num (pds s d) \<noteq> 0" "w \<noteq> 0" "\<forall>x. \<not> asleep_at (procs s x) d"
    using D(1) [of d] assms(7) by (auto simp: calls_on_def)
  obtain z where z: "procs s w = User z" using assms(7) by (auto simp: calls_on_def)
  then have "w \<noteq> q" using assms(2) by auto
  obtain t where t: "client_tmp (pds s c) = Some t" using D(2) [of q c] assms(2) by auto
  let ?s1 = "Os9Send q s"
  obtain s2 where s2: "client_wakes K q c op (?s1\<lparr>awake := (awake ?s1)(q := False)\<rparr>) = Ok s2"
      "procs s2 = (procs s)(q := User (status (reply t)))" "client_tmp (pds s2 c) = None" "peer (pds s2 d) = c"
      "peer (pds s2 c) = d" "is_daemon (pds s2 d)" "\<not> is_daemon (pds s2 c)" "pd_num (pds s2 d) \<noteq> 0"
    using assms(4,5,6) t c d(2) by (simp add: client_wakes_def ClientOperation_resumed_def Let_def)
  have "fuse_step K (Goes_on q) ?s1 (Ok s2)"
    using fuse_step.client [of ?s1 q c op K] s2(1) assms(2) by (simp add: Os9Send_awake)
  moreover have "DaemonWriteC K w d (set_pd d (\<lambda>x. unlink Write (x\<lparr>regs := r\<rparr>)) s2) = Wild"
    using s2 c d by (simp add: DaemonWriteC_def CheckDaemon_def CheckClient_def CheckPeer_def unlink_def Let_def)
  then have "fuse_step K (Calls w Write d r) s2 Wild"
    using fuse_step.calls [of s2 w z d K Write r] s2(2,6,8) z \<open>w \<noteq> q\<close> d by (simp add: WriteC_def unlink_def)
  ultimately show ?thesis using fuse_step.signal by blast
qed

theorem signal_breaks_frame_witness:
  "\<exists>s s1 s2. procs s 5 = Pausing 2 OP_READ \<and> fuse_step demo_os9 (Signal 5) s (Ok s1) \<and>
    fuse_step demo_os9 (Goes_on 5) s1 (Ok s2) \<and> fuse_step demo_os9 (Calls 6 Write 1 no_regs) s2 Wild"
proof -
  have "6 < ry (regs (pds demo_idle 1))" by simp
  then obtain s0 s where s: "fuse_step demo_os9 (Calls 5 Read 2 no_regs) demo_idle (Ok s0)" "fuse_step demo_os9 (Goes_on 6) s0 (Ok s)"
      "in_call snd (\<lambda>q. and q 127) s 5 2 (op_of Read) 1 6 no_regs" "calls_on s 6 1"
    using request_arrives [OF demo_laws demo_idle _ _ refl, of Read no_regs] by auto
  note inv = fuse_step_inv [OF os9_quiet [OF demo_laws] _ _ _ refl]
  have "link_inv demo_idle" using demo_idle by (simp add: idle_def)
  then have "link_inv s" using inv [OF inv [OF _ _ s(1)] _ s(2)] by simp
  moreover have "procs s 5 = Pausing 2 OP_READ" "\<not> awake s 5" "peer (pds s 2) = 1" using s(3) by (simp_all add: in_call_def)
  ultimately show ?thesis
    using signal_breaks_frame [of s 5 2 OP_READ 1 6 demo_os9 no_regs] s(4) by (auto simp: op_codes)
qed

end
