(* ===== verification/Octet_Heap.thy ===== *)
theory Octet_Heap
  imports Frob_Malloc
begin

text \<open>
  The garbage-collected heap \<^verbatim>\<open>octet/octet2.c\<close> (CMOC), on the raw memory of the process.
  An object is a bucket byte, whose high bit is the mark, a class byte and a body; the classes
  above 15 hold pointers.  A free object is linked through the first word of its body.
  \<^verbatim>\<open>None\<close> is \<^verbatim>\<open>opanic\<close>, or an index outside the table of buckets.  \<^verbatim>\<open>OMarkRoots\<close> is the
  client's code, a parameter; it may be absent.
\<close>

section \<open>State\<close>

record octet =
  omem :: memory
  ORamBegin :: word16
  ORamUsed :: word16
  ORamEnd :: word16
  OBucket :: "nat \<Rightarrow> word16"

type_synonym mark_roots = "octet \<Rightarrow> octet option"

definition NUM_BUCKETS :: nat where "NUM_BUCKETS = 16"
definition HDR_SIZE :: word16 where "HDR_SIZE = 2"
definition BUCK_MARK_BIT :: byte where "BUCK_MARK_BIT = 0x80"
definition BUCK_MASK :: byte where "BUCK_MASK = 0x7F"
definition O_LAST_NONPTR_CLASS :: byte where "O_LAST_NONPTR_CLASS = 15"

definition OBucketCap :: "word16 list" where
  "OBucketCap = [4, 8, 12, 16, 24, 32, 48, 64, 96, 128, 192, 0x100, 0x180, 0x200, 0x300, 0x400]"

definition bucket_cap :: "byte \<Rightarrow> word16 option" where
  "bucket_cap b = (if unat b < NUM_BUCKETS then Some (OBucketCap ! unat b) else None)"

text \<open>The fields of a header.\<close>

definition hbuck :: "memory \<Rightarrow> word16 \<Rightarrow> byte" where "hbuck m h = m h"
definition hcls :: "memory \<Rightarrow> word16 \<Rightarrow> byte" where "hcls m h = m (h + 1)"
definition hlink :: "memory \<Rightarrow> word16 \<Rightarrow> word16" where "hlink m h = getw m (h + 2)"

definition set_mem :: "memory \<Rightarrow> octet \<Rightarrow> octet" where "set_mem m s = s\<lparr>omem := m\<rparr>"

section \<open>Operations\<close>

definition osize2bucket :: "word16 \<Rightarrow> nat option" where
  "osize2bucket sz = List.find (\<lambda>b. sz \<le> OBucketCap ! b) [0..<NUM_BUCKETS]"

definition oinit :: "word16 \<Rightarrow> word16 \<Rightarrow> octet \<Rightarrow> octet" where
  "oinit b e s = s\<lparr>ORamBegin := b, ORamUsed := b, ORamEnd := e\<rparr>"

primrec omemcpy_loop :: "nat \<Rightarrow> word16 \<Rightarrow> word16 \<Rightarrow> memory \<Rightarrow> word16 \<times> word16 \<times> memory" where
  "omemcpy_loop 0 dest src m = (dest, src, m)"
| "omemcpy_loop (Suc n) dest src m = omemcpy_loop n (dest + 2) (src + 2) (putw m dest (getw m src))"

definition omemcpy :: "word16 \<Rightarrow> word16 \<Rightarrow> word16 \<Rightarrow> memory \<Rightarrow> memory" where
  "omemcpy dest src len m =
     (let (dest, src, m) = omemcpy_loop (unat (drop_bit 1 len)) dest src m
      in if len AND 1 \<noteq> 0 then m(dest := m src) else m)"

primrec ozero_loop :: "nat \<Rightarrow> word16 \<Rightarrow> memory \<Rightarrow> word16 \<times> memory" where
  "ozero_loop 0 p m = (p, m)"
| "ozero_loop (Suc n) p m = ozero_loop n (p + 2) (putw m p 0)"

definition ozero :: "word16 \<Rightarrow> word16 \<Rightarrow> memory \<Rightarrow> memory" where
  "ozero p len m =
     (let (p, m) = ozero_loop (unat (drop_bit 1 len)) p m in if len AND 1 \<noteq> 0 then m(p := 0) else m)"

text \<open>0 is the result when there is no room.\<close>

definition oalloc_try :: "word16 \<Rightarrow> byte \<Rightarrow> octet \<Rightarrow> (word16 \<times> octet) option" where
  "oalloc_try len cls s =
     (if cls = 0 then None
      else do {
        buck \<leftarrow> osize2bucket len;
        let hdr = OBucket s buck;
        let cap = OBucketCap ! buck;
        if hdr \<noteq> 0 then
          let s = s\<lparr>OBucket := (OBucket s)(buck := hlink (omem s) hdr)\<rparr>;
              m = (ozero hdr cap (omem s))(hdr + 1 := cls)
          in Some (hdr + HDR_SIZE, set_mem m s)
        else
          let sz = cap + HDR_SIZE in
          if ORamUsed s + sz \<ge> ORamEnd s then Some (0, s)
          else
            let hdr = ORamUsed s; obj = hdr + HDR_SIZE;
                m = (omem s)(hdr := of_nat buck, hdr + 1 := cls)
            in Some (obj, set_mem (ozero obj cap m) (s\<lparr>ORamUsed := hdr + sz\<rparr>)) })"

definition ofree :: "word16 \<Rightarrow> octet \<Rightarrow> octet option" where
  "ofree addr s = do {
     let h = addr - HDR_SIZE;
     let buck = hbuck (omem s) h;
     cap \<leftarrow> bucket_cap buck;
     let m = (ozero addr cap (omem s))(h + 1 := 0);
     Some (set_mem (putw m (h + 2) (OBucket s (unat buck))) (s\<lparr>OBucket := (OBucket s)(unat buck := h)\<rparr>)) }"

text \<open>
  \<^verbatim>\<open>Inl\<close> is \<^verbatim>\<open>omark\<close> itself, \<^verbatim>\<open>Inr\<close> its loop over the words of a body from index \<^verbatim>\<open>i\<close> on.
  The capacity is looked up with the bucket byte that has just been marked.
\<close>

partial_function (option) omark_go :: "word16 + word16 \<times> word16 \<times> word16 \<Rightarrow> octet \<Rightarrow> octet option" where
  "omark_go job s =
     (case job of
        Inl addr \<Rightarrow>
          if addr = 0 then Some s
          else if addr AND 1 \<noteq> 0 \<or> addr < ORamBegin s \<or> addr \<ge> ORamEnd s then None
          else
            let h = addr - HDR_SIZE; cls = hcls (omem s) h in
            if cls = 0 then None
            else
              let buck = BUCK_MARK_BIT OR hbuck (omem s) h;
                  s = set_mem ((omem s)(h := buck)) s in
              if cls > O_LAST_NONPTR_CLASS then
                (case bucket_cap buck of None \<Rightarrow> None | Some cap \<Rightarrow> omark_go (Inr (addr, 0, cap)) s)
              else Some s
      | Inr (addr, i, cap) \<Rightarrow>
          if i < cap then
            let q = getw (omem s) (addr + i) in
            (if q > ORamBegin s \<and> q < ORamEnd s \<and> q AND 1 = 0 \<and>
                hbuck (omem s) (q - HDR_SIZE) AND BUCK_MARK_BIT = 0
             then omark_go (Inl q) s else Some s) \<bind> omark_go (Inr (addr, i + 2, cap))
          else Some s)"

declare omark_go.simps [code]

definition omark :: "word16 \<Rightarrow> octet \<Rightarrow> octet option" where
  "omark addr s = omark_go (Inl addr) s"

text \<open>The sweep; the mark bit is tested in the masked bucket byte.\<close>

partial_function (option) sweep :: "word16 \<Rightarrow> octet \<Rightarrow> octet option" where
  "sweep p s =
     (if p < ORamUsed s then
        let cls = hcls (omem s) p; buck = BUCK_MASK AND hbuck (omem s) p in
        case bucket_cap buck of
          None \<Rightarrow> None
        | Some cap \<Rightarrow>
            let s = (if cls = 0 \<or> BUCK_MARK_BIT AND buck = 0 then
                       let m = (ozero (p + HDR_SIZE) cap (omem s))(p + 1 := 0)
                       in set_mem (putw m (p + 2) (OBucket s (unat buck)))
                            (s\<lparr>OBucket := (OBucket s)(unat buck := p)\<rparr>)
                     else s);
                s = set_mem ((omem s)(p := hbuck (omem s) p AND BUCK_MASK)) s
            in sweep (p + HDR_SIZE + cap) s
      else Some s)"

declare sweep.simps [code]

definition ogc :: "mark_roots option \<Rightarrow> octet \<Rightarrow> octet option" where
  "ogc roots s =
     (case roots of
        None \<Rightarrow> Some s
      | Some mark \<Rightarrow> do {
          s \<leftarrow> mark s;
          let s = s\<lparr>OBucket := \<lambda>b. if b < NUM_BUCKETS then 0 else OBucket s b\<rparr>;
          sweep (ORamBegin s) s })"

definition oalloc :: "mark_roots option \<Rightarrow> word16 \<Rightarrow> byte \<Rightarrow> octet \<Rightarrow> (word16 \<times> octet) option" where
  "oalloc roots len cls s = do {
     (p, s) \<leftarrow> oalloc_try len cls s;
     (p, s) \<leftarrow> (if p = 0 then do { s \<leftarrow> ogc roots s; oalloc_try len cls s } else Some (p, s));
     if p = 0 then None else Some (p, s) }"

definition orealloc :: "mark_roots option \<Rightarrow> word16 \<Rightarrow> word16 \<Rightarrow> bool \<Rightarrow> octet \<Rightarrow> (word16 \<times> octet) option" where
  "orealloc roots obj len to_free s = do {
     let h = obj - HDR_SIZE;
     cap \<leftarrow> bucket_cap (hbuck (omem s) h);
     if cap < len then do {
       (p, s) \<leftarrow> oalloc roots len (hcls (omem s) h) s;
       let s = set_mem (omemcpy p obj len (omem s)) s;
       s \<leftarrow> (if to_free then ofree obj s else Some s);
       Some (p, s) }
     else Some (obj, s) }"

end
