(* ===== verification/Octet_Gc.thy ===== *)
theory Octet_Gc
  imports Octet_Heap
begin

text \<open>
  What the collected heap does: an allocation from fresh memory, one from a free list, and a
  collection.  The last two do not do what they are for.
\<close>

section \<open>Blocks\<close>

definition capn :: "nat \<Rightarrow> nat" where
  "capn b = unat (OBucketCap ! b)"

lemma bucket_table:
  "\<forall>b \<in> set [0..<16]. 4 \<le> unat (OBucketCap ! b) \<and> unat (OBucketCap ! b) \<le> 1024 \<and> OBucketCap ! b AND 1 = 0 \<and>
    2 * unat (drop_bit 1 (OBucketCap ! b)) = unat (OBucketCap ! b)"
  by code_simp

lemma bucket_bytes:
  "\<forall>b \<in> set [0..<16]. unat (of_nat b :: byte) = b \<and> BUCK_MASK AND of_nat b = of_nat b \<and>
    BUCK_MARK_BIT AND of_nat b = 0 \<and> BUCK_MASK AND (BUCK_MARK_BIT OR of_nat b) = of_nat b"
  by code_simp

lemma bucket_facts:
  assumes "b < NUM_BUCKETS"
  shows "4 \<le> capn b" "capn b \<le> 1024" "unat (of_nat b :: byte) = b" "bucket_cap (of_nat b) = Some (OBucketCap ! b)"
    "OBucketCap ! b AND 1 = 0" "2 * unat (drop_bit 1 (OBucketCap ! b)) = capn b" "BUCK_MASK AND of_nat b = of_nat b"
    "BUCK_MARK_BIT AND of_nat b = 0" "BUCK_MASK AND (BUCK_MARK_BIT OR of_nat b) = of_nat b"
proof -
  have b: "b \<in> set [0..<16]" using assms by (simp add: NUM_BUCKETS_def)
  show "4 \<le> capn b" "capn b \<le> 1024" "OBucketCap ! b AND 1 = 0" "2 * unat (drop_bit 1 (OBucketCap ! b)) = capn b"
    using bspec [OF bucket_table b] unfolding capn_def by blast+
  show u: "unat (of_nat b :: byte) = b" and "BUCK_MASK AND of_nat b = of_nat b"
    "BUCK_MARK_BIT AND of_nat b = 0" "BUCK_MASK AND (BUCK_MARK_BIT OR of_nat b) = of_nat b"
    using bspec [OF bucket_bytes b] by blast+
  show "bucket_cap (of_nat b) = Some (OBucketCap ! b)"
    unfolding bucket_cap_def u using assms by simp
qed

lemma putw_zero:
  assumes "unat p + 2 \<le> 65536"
  shows "putw m p 0 = (\<lambda>x. if unat p \<le> unat x \<and> unat x < unat p + 2 then 0 else m x)"
proof
  fix x
  have u: "unat (p + 1) = unat p + 1" using assms by (simp add: unat_word_ariths)
  consider "x = p" | "x = p + 1" | "x \<noteq> p" "x \<noteq> p + 1" by blast
  then show "putw m p 0 x = (if unat p \<le> unat x \<and> unat x < unat p + 2 then 0 else m x)"
  proof cases
    case 3
    then have "unat x \<noteq> unat p" "unat x \<noteq> unat p + 1" using u by (metis word_unat_eq_iff)+
    then have "\<not> (unat p \<le> unat x \<and> unat x < unat p + 2)" by linarith
    then show ?thesis using 3 by (auto simp: putw_def)
  qed (use u in \<open>simp_all add: putw_def hi_def lo_def\<close>)
qed

lemma ozero_loop_out:
  assumes "unat p + 2 * n \<le> 65536"
  shows "snd (ozero_loop n p m) = (\<lambda>x. if unat p \<le> unat x \<and> unat x < unat p + 2 * n then 0 else m x)"
  using assms
proof (induction n arbitrary: p m)
  case (Suc n)
  have z: "putw m p 0 = (\<lambda>x. if unat p \<le> unat x \<and> unat x < unat p + 2 then 0 else m x)"
    using Suc.prems by (intro putw_zero) simp
  show ?case
  proof (cases n)
    case 0
    then show ?thesis by (simp add: z)
  next
    case (Suc k)
    then have u: "unat (p + 2) = unat p + 2"
      using \<open>unat p + 2 * Suc n \<le> 65536\<close> by (simp add: unat_word_ariths)
    have "snd (ozero_loop n (p + 2) (putw m p 0)) =
        (\<lambda>x. if unat p + 2 \<le> unat x \<and> unat x < unat p + 2 + 2 * n then 0 else putw m p 0 x)"
      using Suc.IH [of "p + 2" "putw m p 0"] \<open>unat p + 2 * Suc n \<le> 65536\<close> unfolding u by simp
    also have "\<dots> = (\<lambda>x. if unat p \<le> unat x \<and> unat x < unat p + 2 * Suc n then 0 else m x)"
      unfolding z by (rule ext) simp
    finally show ?thesis by simp
  qed
qed (auto simp: fun_eq_iff)

lemma ozero_out:
  assumes "b < NUM_BUCKETS" "unat p + capn b \<le> 65536"
  shows "ozero p (OBucketCap ! b) m = (\<lambda>x. if unat p \<le> unat x \<and> unat x < unat p + capn b then 0 else m x)"
  using ozero_loop_out [of p "unat (drop_bit 1 (OBucketCap ! b))" m] bucket_facts [OF assms(1)] assms(2)
  by (simp add: ozero_def case_prod_beta)

text \<open>The blocks between two addresses, with their buckets; marks do not matter.\<close>

fun walk :: "memory \<Rightarrow> nat \<Rightarrow> (word16 \<times> nat) list \<Rightarrow> nat \<Rightarrow> bool" where
  "walk m a [] e \<longleftrightarrow> a = e"
| "walk m a ((h, b) # bs) e \<longleftrightarrow>
     unat h = a \<and> b < NUM_BUCKETS \<and> BUCK_MASK AND hbuck m h = of_nat b \<and> walk m (a + 2 + capn b) bs e"

fun ochain :: "memory \<Rightarrow> word16 \<Rightarrow> word16 list \<Rightarrow> bool" where
  "ochain m a [] \<longleftrightarrow> a = 0"
| "ochain m a (h # hs) \<longleftrightarrow> a = h \<and> h \<noteq> 0 \<and> ochain m (hlink m h) hs"

lemma walk_le: "walk m a bs e \<Longrightarrow> a \<le> e"
  by (induction m a bs e rule: walk.induct) auto

lemma walk_block: "walk m a bs e \<Longrightarrow> (h, b) \<in> set bs \<Longrightarrow> a \<le> unat h \<and> unat h + 2 + capn b \<le> e \<and> b < NUM_BUCKETS"
  by (induction m a bs e rule: walk.induct) (auto dest: walk_le)

lemma walk_frame:
  "walk m a bs e \<Longrightarrow> (\<And>h b. (h, b) \<in> set bs \<Longrightarrow> BUCK_MASK AND hbuck m' h = BUCK_MASK AND hbuck m h) \<Longrightarrow> walk m' a bs e"
proof (induction bs arbitrary: a)
  case (Cons x bs)
  obtain h b where x: "x = (h, b)" by (cases x)
  have "walk m' (a + 2 + capn b) bs e" using Cons.prems x by (intro Cons.IH) auto
  moreover have "BUCK_MASK AND hbuck m' h = BUCK_MASK AND hbuck m h" by (rule Cons.prems(2) [of h b]) (simp add: x)
  ultimately show ?case using Cons.prems(1) x by simp
qed simp

lemma walk_snoc:
  "walk m a (bs @ [(h, b)]) e \<longleftrightarrow>
    walk m a bs (unat h) \<and> b < NUM_BUCKETS \<and> BUCK_MASK AND hbuck m h = of_nat b \<and> unat h + 2 + capn b = e"
  by (induction bs arbitrary: a) auto

lemma unat_plus16: "unat (h :: word16) + k < 65536 \<Longrightarrow> unat (h + of_nat k) = unat h + k"
  by (simp add: unat_word_ariths unat_of_nat)

lemma unat_plus_2: "unat (h :: word16) + 2 < 65536 \<Longrightarrow> unat (h + 2) = unat h + 2"
  using unat_plus16 [of h 2] by simp
lemma unat_plus_1: "unat (h :: word16) + 1 < 65536 \<Longrightarrow> unat (h + 1) = unat h + 1"
  using unat_plus16 [of h 1] by simp
lemma unat_plus_3: "unat (h :: word16) + 3 < 65536 \<Longrightarrow> unat (h + 3) = unat h + 3"
  using unat_plus16 [of h 3] by simp

lemma addr_ne:
  assumes "unat x < unat h \<or> unat h + 2 \<le> unat x" "unat (h :: word16) + 1 < 65536"
  shows "x \<noteq> h \<and> x \<noteq> h + 1"
  using assms unat_plus_1 [of h] by auto

lemma ochain_frame:
  assumes "ochain m a hs" "\<And>h. h \<in> set hs \<Longrightarrow> hlink m' h = hlink m h"
  shows "ochain m' a hs"
  using assms by (induction hs arbitrary: a) auto

section \<open>Allocation from fresh memory\<close>

lemma osize2bucket_fits:
  assumes "osize2bucket len = Some b"
  shows "b < NUM_BUCKETS" "unat len \<le> capn b"
  using assms by (auto simp: osize2bucket_def find_Some_iff capn_def word_le_nat_alt)

text \<open>
  C29.  An allocation whose free list is empty takes the next block of its bucket behind the used
  ones: the block holds the requested size, carries bucket and class, its body is zero, and no
  other byte changes.  When the block would end at or behind the end of memory, the result is 0
  and nothing changes.
\<close>

theorem oalloc_fresh:
  assumes w: "walk (omem s) (unat (ORamBegin s)) bs (unat (ORamUsed s))" and e: "unat (ORamEnd s) \<le> 64000"
    and u: "ORamUsed s \<le> ORamEnd s" and c: "cls \<noteq> 0" and b: "osize2bucket len = Some b" and free: "OBucket s b = 0"
  shows "if unat (ORamEnd s) \<le> unat (ORamUsed s) + 2 + capn b
    then oalloc_try len cls s = Some (0, s)
    else \<exists>s'. oalloc_try len cls s = Some (ORamUsed s + 2, s') \<and> unat len \<le> capn b \<and>
      walk (omem s') (unat (ORamBegin s)) (bs @ [(ORamUsed s, b)]) (unat (ORamUsed s')) \<and>
      unat (ORamUsed s') = unat (ORamUsed s) + 2 + capn b \<and> OBucket s' = OBucket s \<and>
      hbuck (omem s') (ORamUsed s) = of_nat b \<and> hcls (omem s') (ORamUsed s) = cls \<and>
      (\<forall>x. unat (ORamUsed s) + 2 \<le> unat x \<and> unat x < unat (ORamUsed s) + 2 + capn b \<longrightarrow> omem s' x = 0) \<and>
      (\<forall>x. unat x < unat (ORamUsed s) \<or> unat (ORamUsed s') \<le> unat x \<longrightarrow> omem s' x = omem s x)"
proof -
  note bf = bucket_facts [OF osize2bucket_fits(1) [OF b]] and fit = osize2bucket_fits [OF b]
  let ?h = "ORamUsed s" and ?cap = "OBucketCap ! b"
  have uh: "unat ?h \<le> 64000" using u e by (simp add: word_le_nat_alt)
  have un: "unat (?h + (?cap + 2)) = unat ?h + 2 + capn b" "unat (?h + 2) = unat ?h + 2" "unat (?h + 1) = unat ?h + 1"
    using uh bf(2) by (simp_all add: unat_word_ariths capn_def)
  have cond: "?h + (?cap + 2) \<ge> ORamEnd s \<longleftrightarrow> unat (ORamEnd s) \<le> unat ?h + 2 + capn b"
    using un by (simp add: word_le_nat_alt)
  show ?thesis
  proof (cases "unat (ORamEnd s) \<le> unat ?h + 2 + capn b")
    case True
    then show ?thesis using b c free cond by (simp add: oalloc_try_def HDR_SIZE_def Let_def)
  next
    case False
    let ?m = "(omem s)(?h := of_nat b, ?h + 1 := cls)"
    let ?m' = "\<lambda>x. if unat (?h + 2) \<le> unat x \<and> unat x < unat (?h + 2) + capn b then 0 else ?m x"
    obtain m' where m': "m' = ?m'" by simp
    have "ozero (?h + 2) ?cap ?m = m'" using uh bf(2) un unfolding m' by (intro ozero_out fit) simp
    then have r: "oalloc_try len cls s = Some (?h + 2, set_mem m' (s\<lparr>ORamUsed := ?h + (?cap + 2)\<rparr>))"
      using b c free cond False by (simp add: oalloc_try_def HDR_SIZE_def Let_def)
    have m: "m' x = omem s x" if "unat x < unat ?h \<or> unat ?h + 2 + capn b \<le> unat x" for x
    proof -
      have "unat x < unat ?h \<or> unat ?h + 2 \<le> unat x" using that by linarith
      then have "x \<noteq> ?h" "x \<noteq> ?h + 1" using addr_ne [of x ?h] uh by simp_all
      moreover have "\<not> (unat (?h + 2) \<le> unat x \<and> unat x < unat (?h + 2) + capn b)"
        using that un(2) by linarith
      ultimately show ?thesis by (auto simp: m')
    qed
    have "?h + 1 \<noteq> ?h" by simp
    then have h: "m' ?h = of_nat b" "m' (?h + 1) = cls" using un(2,3) by (simp_all add: m')
    have z: "m' x = 0" if "unat ?h + 2 \<le> unat x \<and> unat x < unat ?h + 2 + capn b" for x
      using that un(2) by (simp add: m')
    have "walk m' (unat (ORamBegin s)) bs (unat ?h)"
    proof (rule walk_frame [OF w])
      fix h' b' assume "(h', b') \<in> set bs"
      from walk_block [OF w this] have "unat h' < unat ?h" by simp
      then show "BUCK_MASK AND hbuck m' h' = BUCK_MASK AND hbuck (omem s) h'" using m [of h'] by (simp add: hbuck_def)
    qed
    then have "walk m' (unat (ORamBegin s)) (bs @ [(?h, b)]) (unat (?h + (?cap + 2)))"
      using h(1) bf(7) fit(1) un(1) by (simp add: walk_snoc hbuck_def)
    then show ?thesis using r h m z un(1) fit(2) False
      by (auto simp: set_mem_def hbuck_def hcls_def)
  qed
qed

section \<open>Allocation from a free list\<close>

lemma oalloc_fresh_witness:
  "\<exists>s'. oalloc_try 5 1 \<lparr>omem = \<lambda>_. 9, ORamBegin = 1000, ORamUsed = 1000, ORamEnd = 2000, OBucket = \<lambda>_. 0\<rparr> = Some (1002, s') \<and>
    unat (ORamUsed s') = 1010 \<and> hbuck (omem s') 1000 = 1 \<and> omem s' 1009 = 0 \<and> omem s' 1010 = 9"
proof -
  have b: "osize2bucket 5 = Some 1" by (simp add: osize2bucket_def OBucketCap_def NUM_BUCKETS_def upt_rec)
  have c: "capn (Suc 0) = 8" by (simp add: capn_def OBucketCap_def)
  show ?thesis
    using oalloc_fresh [of "\<lparr>omem = \<lambda>_. 9, ORamBegin = 1000, ORamUsed = 1000, ORamEnd = 2000, OBucket = \<lambda>_. 0\<rparr>" "[]" 1 5 1]
    by (auto simp: b c)
qed

lemma block_unat:
  assumes "b < NUM_BUCKETS" "unat h + 2 + capn b < 65536"
  shows "unat (h + 1) = unat h + 1" "unat (h + 2) = unat h + 2" "unat (h + 3) = unat h + 3"
    "h + 2 - HDR_SIZE = h" "h + 2 + 1 = h + 3"
  using assms bucket_facts(1,2) [OF assms(1)] unat_plus_1 [of h] unat_plus_2 [of h] unat_plus_3 [of h]
  by (simp_all add: HDR_SIZE_def)

text \<open>The object that \<^verbatim>\<open>ofree\<close> and the sweep make of a block: the mark aside, it is free.\<close>

definition freed :: "memory \<Rightarrow> word16 \<Rightarrow> nat \<Rightarrow> word16 \<Rightarrow> memory" where
  "freed m h b next = putw ((ozero (h + 2) (OBucketCap ! b) m)(h + 1 := 0)) (h + 2) next"

lemma freed_facts:
  assumes "b < NUM_BUCKETS" "unat h + 2 + capn b < 65536"
  shows "freed m h b nxt h = m h" "freed m h b nxt (h + 1) = 0" "hlink (freed m h b nxt) h = nxt"
    "unat h + 4 \<le> unat x \<and> unat x < unat h + 2 + capn b \<Longrightarrow> freed m h b nxt x = 0"
    "unat x < unat h \<or> unat h + 2 + capn b \<le> unat x \<Longrightarrow> freed m h b nxt x = m x"
proof -
  note bu = block_unat [OF assms] and cf = bucket_facts(1) [OF assms(1)]
  have z: "ozero (h + 2) (OBucketCap ! b) m = (\<lambda>x. if unat (h + 2) \<le> unat x \<and> unat x < unat (h + 2) + capn b then 0 else m x)"
    using assms bu by (intro ozero_out) simp_all
  have e: "freed m h b nxt x = (if x = h + 3 then lo nxt else if x = h + 2 then hi nxt else if x = h + 1 then 0
      else if unat h + 2 \<le> unat x \<and> unat x < unat h + 2 + capn b then 0 else m x)" for x
    unfolding freed_def z putw_def bu(5) by (simp add: bu(2))
  have ne: "h \<noteq> h + 3" "h \<noteq> h + 2" "h \<noteq> h + 1" "h + 1 \<noteq> h + 3" "h + 1 \<noteq> h + 2" by simp_all
  show "freed m h b nxt h = m h" "freed m h b nxt (h + 1) = 0"
    unfolding e using ne by simp_all
  show "hlink (freed m h b nxt) h = nxt"
    unfolding hlink_def getw_def bu(5) e by simp
  show "freed m h b nxt x = 0" if "unat h + 4 \<le> unat x \<and> unat x < unat h + 2 + capn b"
    using that bu unfolding e by auto
  show "freed m h b nxt x = m x" if "unat x < unat h \<or> unat h + 2 + capn b \<le> unat x"
  proof -
    have "x \<noteq> h + 1" "x \<noteq> h + 2" "x \<noteq> h + 3" using that bu(1-3) cf by auto
    then show ?thesis using that unfolding e by auto
  qed
qed

lemma ofree_freed:
  assumes "hbuck (omem s) h = of_nat b" "b < NUM_BUCKETS"
  shows "ofree (h + 2) s = Some (set_mem (freed (omem s) h b (OBucket s b)) (s\<lparr>OBucket := (OBucket s)(b := h)\<rparr>))"
  using assms bucket_facts(3,4) [OF assms(2)] by (simp add: ofree_def freed_def HDR_SIZE_def Let_def)

text \<open>
   A block taken from a free list is cleared from its header on: the bucket byte is lost and
  the last two bytes of the body keep their old values.  When the object is freed again the block
  goes to the list of the smallest bucket, whatever its size.
\<close>

theorem oalloc_reuse_loses_bucket:
  assumes c: "cls \<noteq> 0" and b: "osize2bucket len = Some b" and h: "OBucket s b = h" "h \<noteq> 0" "unat h + 2 + capn b < 65536"
  shows "\<exists>s' s''. oalloc_try len cls s = Some (h + 2, s') \<and> hbuck (omem s') h = 0 \<and> hcls (omem s') h = cls \<and>
    (\<forall>x. unat h + capn b \<le> unat x \<longrightarrow> omem s' x = omem s x) \<and>
    OBucket s' b = hlink (omem s) h \<and>
    ofree (h + 2) s' = Some s'' \<and> OBucket s'' 0 = h \<and> hlink (omem s'') h = OBucket s' 0"
proof -
  note fit = osize2bucket_fits [OF b] and bu = block_unat [OF osize2bucket_fits(1) [OF b] h(3)]
  note cf = bucket_facts(1,2) [OF fit(1)]
  let ?m = "(ozero h (OBucketCap ! b) (omem s))(h + 1 := cls)"
  let ?s' = "set_mem ?m (s\<lparr>OBucket := (OBucket s)(b := hlink (omem s) h)\<rparr>)"
  have z: "ozero h (OBucketCap ! b) (omem s) = (\<lambda>x. if unat h \<le> unat x \<and> unat x < unat h + capn b then 0 else omem s x)"
    using h(3) by (intro ozero_out fit) simp
  have r: "oalloc_try len cls s = Some (h + 2, ?s')"
    using c b h by (simp add: oalloc_try_def HDR_SIZE_def Let_def)
  have m: "?m h = 0" "?m (h + 1) = cls" using cf unfolding z by simp_all
  have out: "?m x = omem s x" if "unat h + capn b \<le> unat x" for x
  proof -
    have "x \<noteq> h + 1" using that bu(1) cf by auto
    then show ?thesis using that unfolding z by simp
  qed
  have b0: "hbuck (omem ?s') h = of_nat 0" "0 < NUM_BUCKETS" using m by (simp_all add: set_mem_def hbuck_def NUM_BUCKETS_def)
  have "capn 0 \<le> capn b" using cf by (simp add: capn_def OBucketCap_def)
  then have "hlink (freed (omem ?s') h 0 (OBucket ?s' 0)) h = OBucket ?s' 0"
    using h(3) by (intro freed_facts b0(2)) simp
  then show ?thesis using r m out ofree_freed [OF b0]
    by (simp add: set_mem_def hbuck_def hcls_def)
qed

lemma oalloc_reuse_witness:
  "\<exists>s' s''. oalloc_try 100 1 \<lparr>omem = \<lambda>x. if x = 1000 then 9 else 7, ORamBegin = 1000, ORamUsed = 2000, ORamEnd = 3000,
      OBucket = (\<lambda>_. 0)(9 := 1000)\<rparr> = Some (1002, s') \<and> hbuck (omem s') 1000 = 0 \<and> omem s' 1128 = 7 \<and>
    ofree 1002 s' = Some s'' \<and> OBucket s'' 0 = 1000 \<and> OBucket s'' 9 = 0x0707"
proof -
  let ?s = "\<lparr>omem = \<lambda>x. if x = 1000 then 9 else 7, ORamBegin = 1000, ORamUsed = 2000, ORamEnd = 3000,
      OBucket = (\<lambda>_. 0)(9 := 1000)\<rparr> :: octet"
  have b: "osize2bucket 100 = Some 9" by (simp add: osize2bucket_def OBucketCap_def NUM_BUCKETS_def upt_rec)
  have c: "capn 9 = 128" by (simp add: capn_def OBucketCap_def)
  obtain s' s'' where s: "oalloc_try 100 1 ?s = Some (1002, s')" "hbuck (omem s') 1000 = 0"
      "\<forall>x. 1128 \<le> unat x \<longrightarrow> omem s' x = omem ?s x" "OBucket s' 9 = hlink (omem ?s) 1000"
      "ofree 1002 s' = Some s''" "OBucket s'' 0 = 1000"
    using oalloc_reuse_loses_bucket [of 1 100 9 ?s 1000] b by (auto simp: c)
  have "OBucket s'' 9 = OBucket s' 9" using s(2,5,6) ofree_freed [of s' 1000 0]
    by (auto simp: NUM_BUCKETS_def set_mem_def)
  then show ?thesis using s by (auto simp: hlink_def getw_def hilo_def)
qed

section \<open>A collection\<close>

lemma set_mem_sel [simp]:
  "omem (set_mem m s) = m" "ORamBegin (set_mem m s) = ORamBegin s" "ORamUsed (set_mem m s) = ORamUsed s"
  "ORamEnd (set_mem m s) = ORamEnd s" "OBucket (set_mem m s) = OBucket s" "set_mem m (set_mem m' s) = set_mem m s"
  by (simp_all add: set_mem_def)

lemma sweep_step:
  assumes p: "p < ORamUsed s" and b: "BUCK_MASK AND hbuck (omem s) p = of_nat b" "b < NUM_BUCKETS"
    and e: "unat p + 2 + capn b < 65536"
  shows "sweep p s = sweep (p + 2 + OBucketCap ! b)
    (set_mem ((freed (omem s) p b (OBucket s b))(p := of_nat b)) (s\<lparr>OBucket := (OBucket s)(b := p)\<rparr>))"
proof -
  note bf = bucket_facts(3,4,8) [OF b(2)]
  have fr: "putw ((ozero (p + 2) (OBucketCap ! b) (omem s))(p + 1 := 0)) (p + 2) (OBucket s b) =
      freed (omem s) p b (OBucket s b)"
    by (simp add: freed_def)
  have "hbuck (freed (omem s) p b (OBucket s b)) p AND BUCK_MASK = of_nat b"
    using freed_facts(1) [OF b(2) e] b(1) by (simp add: hbuck_def and.commute)
  then show ?thesis
    by (subst sweep.simps) (simp add: p b(1) bf fr Let_def set_mem_def HDR_SIZE_def)
qed

text \<open>What the sweep leaves of the blocks it has passed.\<close>

definition swept :: "memory \<Rightarrow> word16 \<times> nat \<Rightarrow> bool" where
  "swept m = (\<lambda>(h, b). hbuck m h = of_nat b \<and> hcls m h = 0 \<and>
     (\<forall>x. unat h + 4 \<le> unat x \<and> unat x < unat h + 2 + capn b \<longrightarrow> m x = 0))"

definition in_bucket :: "nat \<Rightarrow> (word16 \<times> nat) list \<Rightarrow> word16 list" where
  "in_bucket b bs = map fst (filter (\<lambda>x. snd x = b) bs)"

lemma sweep_all:
  assumes "walk (omem s) (unat p) bs (unat (ORamUsed s))" "p \<noteq> 0"
  shows "\<exists>s'. sweep p s = Some s' \<and> ORamUsed s' = ORamUsed s \<and> ORamBegin s' = ORamBegin s \<and> ORamEnd s' = ORamEnd s \<and>
    (\<forall>x. unat x < unat p \<longrightarrow> omem s' x = omem s x) \<and> (\<forall>x \<in> set bs. swept (omem s') x) \<and>
    (\<forall>b l. ochain (omem s) (OBucket s b) l \<and> (\<forall>h \<in> set l. unat h + 4 \<le> unat p) \<longrightarrow>
       ochain (omem s') (OBucket s' b) (rev (in_bucket b bs) @ l))"
  using assms
proof (induction bs arbitrary: p s)
  case Nil
  then have "\<not> p < ORamUsed s" by (simp add: word_less_nat_alt)
  then have "sweep p s = Some s" by (simp add: sweep.simps [of p s])
  then show ?case by (simp add: in_bucket_def)
next
  case (Cons x bs)
  obtain h b where hb: "x = (h, b)" by (cases x)
  have "unat h = unat p" using Cons.prems(1) hb by simp
  then have "h = p" by (rule iffD2 [OF word_unat_eq_iff])
  then have x: "x = (p, b)" and b: "b < NUM_BUCKETS" "BUCK_MASK AND hbuck (omem s) p = of_nat b"
    and w: "walk (omem s) (unat p + 2 + capn b) bs (unat (ORamUsed s))"
    using Cons.prems(1) hb by simp_all
  let ?e = "unat p + 2 + capn b"
  have le: "?e \<le> unat (ORamUsed s)" by (rule walk_le [OF w])
  then have e: "?e < 65536" using unat_word16_lt [of "ORamUsed s"] by linarith
  then have p': "unat (p + 2 + OBucketCap ! b) = ?e" by (simp add: unat_word_ariths capn_def)
  note ff = freed_facts [where m = "omem s" and nxt = "OBucket s b", OF b(1) e]
  obtain m where m: "m = (freed (omem s) p b (OBucket s b))(p := of_nat b)" by simp
  let ?s = "set_mem m (s\<lparr>OBucket := (OBucket s)(b := p)\<rparr>)"
  have ne: "p + 1 \<noteq> p" "p + 2 \<noteq> p" "p + 3 \<noteq> p" by simp_all
  have out: "m y = omem s y" if "unat y < unat p \<or> ?e \<le> unat y" for y
    using that ff(5) unfolding m by auto
  have mp: "m p = of_nat b" "m (p + 1) = 0"
    using ff(2) ne unfolding m by simp_all
  have "hlink m p = hlink (freed (omem s) p b (OBucket s b)) p" by (simp add: m hlink_def getw_def)
  then have ml: "hlink m p = OBucket s b" using ff(3) by simp
  have mz: "m y = 0" if "unat p + 4 \<le> unat y \<and> unat y < ?e" for y
    using that ff(4) unfolding m by auto
  have "walk m ?e bs (unat (ORamUsed s))"
  proof (rule walk_frame [OF w])
    fix h' b' assume "(h', b') \<in> set bs"
    from walk_block [OF w this] show "BUCK_MASK AND hbuck m h' = BUCK_MASK AND hbuck (omem s) h'"
      using out [of h'] by (simp add: hbuck_def)
  qed
  then have "walk (omem ?s) (unat (p + 2 + OBucketCap ! b)) bs (unat (ORamUsed ?s))" by (simp add: p' set_mem_def)
  moreover have "p + 2 + OBucketCap ! b \<noteq> 0" using p' by auto
  ultimately obtain s' where s': "sweep (p + 2 + OBucketCap ! b) ?s = Some s'" "ORamUsed s' = ORamUsed s"
      "ORamBegin s' = ORamBegin s" "ORamEnd s' = ORamEnd s"
      "\<And>y. unat y < ?e \<Longrightarrow> omem s' y = m y" "\<forall>x \<in> set bs. swept (omem s') x"
      "\<And>c l. ochain m (OBucket ?s c) l \<Longrightarrow> \<forall>h \<in> set l. unat h + 4 \<le> ?e \<Longrightarrow>
        ochain (omem s') (OBucket s' c) (rev (in_bucket c bs) @ l)"
    using Cons.IH [of ?s "p + 2 + OBucketCap ! b"] unfolding p' by (auto simp: set_mem_def)
  have "p < ORamUsed s" using le by (simp add: word_less_nat_alt)
  then have "sweep p s = Some s'" using sweep_step [OF _ b(2,1) e] s'(1) by (simp add: m)
  moreover have "swept (omem s') (p, b)"
    using s'(5) mp mz e block_unat(1) [OF b(1) e] bucket_facts(1) [OF b(1)]
    by (simp add: swept_def hbuck_def hcls_def)
  moreover have "ochain (omem s') (OBucket s' c) (rev (in_bucket c (x # bs)) @ l)"
    if l: "ochain (omem s) (OBucket s c) l" "\<forall>h \<in> set l. unat h + 4 \<le> unat p" for c l
  proof -
    have fr: "ochain m (OBucket s c) l"
    proof (rule ochain_frame [OF l(1)])
      fix h assume h: "h \<in> set l"
      then have "unat h + 4 \<le> unat p" using l(2) by blast
      moreover have "unat (h + 2) = unat h + 2" "unat (h + 2 + 1) = unat h + 3"
        using calculation unat_plus_2 [of h] unat_plus_3 [of h] unat_word16_lt [of p]
        by (simp_all add: add.commute [of 3 h])
      ultimately show "hlink m h = hlink (omem s) h" using out by (simp add: hlink_def getw_def)
    qed
    show ?thesis
    proof (cases "c = b")
      case True
      have "ochain m (OBucket ?s c) (p # l)" using fr ml Cons.prems(2) True by (simp add: set_mem_def)
      moreover have "\<forall>h \<in> set (p # l). unat h + 4 \<le> ?e" using l(2) bucket_facts(1) [OF b(1)] by auto
      ultimately show ?thesis using s'(7) [of c "p # l"] True by (simp add: in_bucket_def x)
    next
      case False
      have "ochain m (OBucket ?s c) l" using fr False by (simp add: set_mem_def)
      moreover have "\<forall>h \<in> set l. unat h + 4 \<le> ?e" using l(2) by auto
      ultimately show ?thesis using s'(7) [of c l] False by (simp add: in_bucket_def x)
    qed
  qed
  ultimately show ?case using s'(2-6) out x by (intro exI [of _ s']) auto
qed

lemma walk_disjoint:
  "walk m a bs e \<Longrightarrow> (h, b) \<in> set bs \<Longrightarrow> (h', b') \<in> set bs \<Longrightarrow>
    h = h' \<or> unat h + 2 + capn b \<le> unat h' \<or> unat h' + 2 + capn b' \<le> unat h"
proof (induction m a bs e rule: walk.induct)
  case (2 m a h1 b1 bs e)
  then have w: "walk m (a + 2 + capn b1) bs e" "unat h1 = a" by simp_all
  show ?case
  proof (cases "(h, b) \<in> set bs")
    case True
    show ?thesis
    proof (cases "(h', b') \<in> set bs")
      case True
      with \<open>(h, b) \<in> set bs\<close> 2 show ?thesis by auto
    next
      case False
      then show ?thesis using walk_block [OF w(1) \<open>(h, b) \<in> set bs\<close>] w(2) 2 by auto
    qed
  next
    case False
    show ?thesis
    proof (cases "(h', b') \<in> set bs")
      case True
      then show ?thesis using walk_block [OF w(1) True] w(2) 2 False by auto
    qed (use 2 False in auto)
  qed
qed simp

text \<open>A client that marks a list of objects.\<close>

fun mark_list :: "word16 list \<Rightarrow> mark_roots" where
  "mark_list [] s = Some s"
| "mark_list (r # rs) s = omark r s \<bind> mark_list rs"

definition plain_object :: "octet \<Rightarrow> (word16 \<times> nat) list \<Rightarrow> word16 \<Rightarrow> bool" where
  "plain_object s bs r \<longleftrightarrow> r AND 1 = 0 \<and> (\<exists>b. (r - 2, b) \<in> set bs) \<and>
     hcls (omem s) (r - 2) \<noteq> 0 \<and> hcls (omem s) (r - 2) \<le> O_LAST_NONPTR_CLASS"

lemma omark_plain:
  assumes w: "walk (omem s) (unat (ORamBegin s)) bs (unat (ORamUsed s))" and u: "ORamUsed s \<le> ORamEnd s"
    and r: "plain_object s bs r"
  shows "omark r s = Some (set_mem ((omem s)(r - 2 := BUCK_MARK_BIT OR hbuck (omem s) (r - 2))) s)"
proof -
  obtain b where b: "(r - 2, b) \<in> set bs" using r by (auto simp: plain_object_def)
  note wb = walk_block [OF w b]
  have "unat r = unat (r - 2 + 2)" by simp
  also have "\<dots> = unat (r - 2) + 2"
    using wb unat_word16_lt [of "ORamUsed s"] by (intro unat_plus_2) linarith
  finally have ur: "unat r = unat (r - 2) + 2" .
  have "r \<noteq> 0" using ur by auto
  moreover have "\<not> r < ORamBegin s" using ur wb by (simp add: word_less_nat_alt)
  moreover have "unat r < unat (ORamUsed s)" using ur wb bucket_facts(1) [of b] by linarith
  then have "\<not> ORamEnd s \<le> r" using u by (simp add: word_le_nat_alt)
  moreover have "\<not> O_LAST_NONPTR_CLASS < hcls (omem s) (r - 2)" using r by (simp add: plain_object_def not_less)
  ultimately show ?thesis using r
    unfolding omark_def omark_go.simps [of "Inl r"] by (simp add: plain_object_def HDR_SIZE_def Let_def)
qed

lemma mark_mask: "BUCK_MASK AND (BUCK_MARK_BIT OR x) = BUCK_MASK AND x"
proof -
  have "BUCK_MASK AND BUCK_MARK_BIT = 0" by (simp add: BUCK_MASK_def BUCK_MARK_BIT_def)
  then show ?thesis by (simp add: bit.conj_disj_distrib)
qed

lemma mark_marked: "(BUCK_MARK_BIT OR x) AND BUCK_MARK_BIT \<noteq> 0"
proof -
  have "(BUCK_MARK_BIT OR x) AND BUCK_MARK_BIT = BUCK_MARK_BIT"
    by (rule bit_word_eqI) (auto simp: bit_simps)
  then show ?thesis by (simp add: BUCK_MARK_BIT_def)
qed

lemma mark_list_ok:
  assumes "walk (omem s) (unat (ORamBegin s)) bs (unat (ORamUsed s))" "ORamUsed s \<le> ORamEnd s"
    "\<forall>r \<in> set rs. plain_object s bs r"
  shows "\<exists>m. mark_list rs s = Some (set_mem m s) \<and> walk m (unat (ORamBegin s)) bs (unat (ORamUsed s)) \<and>
    (\<forall>r \<in> set rs. m (r - 2) AND BUCK_MARK_BIT \<noteq> 0) \<and>
    (\<forall>a. omem s a AND BUCK_MARK_BIT \<noteq> 0 \<longrightarrow> m a AND BUCK_MARK_BIT \<noteq> 0)"
  using assms
proof (induction rs arbitrary: s)
  case Nil
  then show ?case by (intro exI [of _ "omem s"]) (simp add: set_mem_def)
next
  case (Cons r rs)
  let ?h = "r - 2" and ?m = "(omem s)(r - 2 := BUCK_MARK_BIT OR hbuck (omem s) (r - 2))"
  let ?s = "set_mem ?m s"
  have r: "plain_object s bs r" using Cons.prems(3) by simp
  have mk: "omark r s = Some ?s" by (rule omark_plain [OF Cons.prems(1,2) r])
  have w: "walk ?m (unat (ORamBegin s)) bs (unat (ORamUsed s))"
    by (rule walk_frame [OF Cons.prems(1)]) (simp add: hbuck_def mark_mask)
  obtain b where b: "(?h, b) \<in> set bs" using r by (auto simp: plain_object_def)
  have "plain_object ?s bs q" if q: "plain_object s bs q" for q
  proof -
    obtain c where c: "(q - 2, c) \<in> set bs" using q by (auto simp: plain_object_def)
    note wc = walk_block [OF Cons.prems(1) c]
    have "unat (q - 2 + 1) = unat (q - 2) + 1"
      using wc unat_word16_lt [of "ORamUsed s"] by (intro unat_plus_1) linarith
    then have "q - 2 + 1 \<noteq> ?h"
      using walk_disjoint [OF Cons.prems(1) b c] by auto
    then show ?thesis using q by (simp add: plain_object_def set_mem_def hcls_def)
  qed
  then have "\<forall>q \<in> set rs. plain_object ?s bs q" using Cons.prems(3) by simp
  then obtain m where m: "mark_list rs ?s = Some (set_mem m ?s)" "walk m (unat (ORamBegin s)) bs (unat (ORamUsed s))"
      "\<forall>r \<in> set rs. m (r - 2) AND BUCK_MARK_BIT \<noteq> 0"
      "\<forall>a. ?m a AND BUCK_MARK_BIT \<noteq> 0 \<longrightarrow> m a AND BUCK_MARK_BIT \<noteq> 0"
    using Cons.IH [of ?s] w Cons.prems(2) by (simp del: fun_upd_apply) blast
  moreover have "\<forall>a. omem s a AND BUCK_MARK_BIT \<noteq> 0 \<longrightarrow> ?m a AND BUCK_MARK_BIT \<noteq> 0"
    "?m (r - 2) AND BUCK_MARK_BIT \<noteq> 0"
    by (simp_all add: mark_marked) (simp_all add: BUCK_MARK_BIT_def)
  ultimately show ?case using mk by (intro exI [of _ m]) simp
qed

text \<open>
  C28.  A collection frees every object, also those it has just marked: the mark bit is tested in
  the bucket byte from which it has been masked out.  The client here marks any number of objects
  without pointers; afterwards every block between the begin and the used end of memory is free,
  cleared, and on the list of its bucket, the objects of the client included.
\<close>

theorem ogc_frees_all:
  assumes w: "walk (omem s) (unat (ORamBegin s)) bs (unat (ORamUsed s))" and u: "ORamUsed s \<le> ORamEnd s"
    and b: "ORamBegin s \<noteq> 0" and r: "\<forall>r \<in> set rs. plain_object s bs r"
  shows "\<exists>s1 s'. mark_list rs s = Some s1 \<and> (\<forall>r \<in> set rs. hbuck (omem s1) (r - 2) AND BUCK_MARK_BIT \<noteq> 0) \<and>
    ogc (Some (mark_list rs)) s = Some s' \<and> (\<forall>x \<in> set bs. swept (omem s') x) \<and>
    (\<forall>b < NUM_BUCKETS. ochain (omem s') (OBucket s' b) (rev (in_bucket b bs)))"
proof -
  obtain m where m: "mark_list rs s = Some (set_mem m s)" "walk m (unat (ORamBegin s)) bs (unat (ORamUsed s))"
      "\<forall>r \<in> set rs. m (r - 2) AND BUCK_MARK_BIT \<noteq> 0"
    using mark_list_ok [OF w u r] by blast
  let ?s = "(set_mem m s)\<lparr>OBucket := \<lambda>b. if b < NUM_BUCKETS then 0 else OBucket (set_mem m s) b\<rparr>"
  have "walk (omem ?s) (unat (ORamBegin s)) bs (unat (ORamUsed ?s))" using m(2) by simp
  from sweep_all [OF this b] obtain s' where s': "sweep (ORamBegin s) ?s = Some s'" "\<forall>x \<in> set bs. swept (omem s') x"
      "\<And>c l. ochain (omem ?s) (OBucket ?s c) l \<and> (\<forall>h \<in> set l. unat h + 4 \<le> unat (ORamBegin s)) \<Longrightarrow>
        ochain (omem s') (OBucket s' c) (rev (in_bucket c bs) @ l)"
    by blast
  have "ochain (omem s') (OBucket s' c) (rev (in_bucket c bs))" if "c < NUM_BUCKETS" for c
    using s'(3) [of c "[]"] that by simp
  moreover have "ogc (Some (mark_list rs)) s = Some s'"
    using m(1) s'(1) by (simp add: ogc_def Let_def)
  ultimately show ?thesis using m(1,3) s'(2)
    by (intro exI [of _ "set_mem m s"] exI [of _ s']) (simp add: hbuck_def)
qed

lemma ogc_frees_all_witness:
  "\<exists>s s'. oalloc_try 4 1 \<lparr>omem = \<lambda>_. 0, ORamBegin = 1000, ORamUsed = 1000, ORamEnd = 2000, OBucket = \<lambda>_. 0\<rparr> = Some (1002, s) \<and>
    ogc (Some (mark_list [1002])) s = Some s' \<and> hcls (omem s) 1000 = 1 \<and> hcls (omem s') 1000 = 0 \<and> OBucket s' 0 = 1000"
proof -
  let ?z = "\<lparr>omem = \<lambda>_. 0, ORamBegin = 1000, ORamUsed = 1000, ORamEnd = 2000, OBucket = \<lambda>_. 0\<rparr> :: octet"
  let ?s = "set_mem (ozero 1002 4 ((\<lambda>_. 0)(1001 := 1))) (?z\<lparr>ORamUsed := 1006\<rparr>)"
  have b: "osize2bucket 4 = Some 0" by (simp add: osize2bucket_def OBucketCap_def NUM_BUCKETS_def upt_rec)
  have c: "OBucketCap ! 0 = 4" "capn 0 = 4" by (simp_all add: capn_def OBucketCap_def)
  have z: "ozero 1002 4 m = (\<lambda>x. if 1002 \<le> unat x \<and> unat x < 1006 then 0 else m x)" for m
    using ozero_out [of 0 1002 m] by (simp add: c NUM_BUCKETS_def)
  have a: "oalloc_try 4 1 ?z = Some (1002, ?s)"
    by (simp add: oalloc_try_def b c HDR_SIZE_def Let_def fun_upd_idem)
  have w: "walk (omem ?s) (unat (ORamBegin ?s)) [(1000, 0)] (unat (ORamUsed ?s))"
    by (simp add: z c hbuck_def NUM_BUCKETS_def)
  have p: "\<forall>r \<in> set [1002]. plain_object ?s [(1000, 0)] r"
    by (simp add: plain_object_def hcls_def z O_LAST_NONPTR_CLASS_def)
  obtain s' where s': "ogc (Some (mark_list [1002])) ?s = Some s'" "\<forall>x \<in> set [(1000, 0)]. swept (omem s') x"
      "\<forall>b < NUM_BUCKETS. ochain (omem s') (OBucket s' b) (rev (in_bucket b [(1000, 0)]))"
    using ogc_frees_all [OF w _ _ p] by auto
  from s'(3) have "ochain (omem s') (OBucket s' 0) (rev (in_bucket 0 [(1000, 0)]))" by (simp add: NUM_BUCKETS_def)
  then have "OBucket s' 0 = 1000" by (simp add: in_bucket_def)
  then show ?thesis using a s'(1,2)
    by (intro exI [of _ ?s] exI [of _ s']) (simp add: hcls_def z swept_def)
qed

end
