(* ===== verification/Spec2Isabelle.thy ===== *)
theory Spec2Isabelle
  imports Frob_Items Ncl_Scripts Ax_Line Ax_Dhcp Net_Dns Net_Ntp Net_Ring Fuse_Run Octet_Gc
begin

text \<open>
  Frobio is network and runtime software in C for the 6809-based CoCo computers, most of it
  under \<^verbatim>\<open>src/frob3\<close>: a runtime library for NitrOS9, a driver library for the WizNet W5100S chip
  and commands on top of it, a boot ROM that starts a machine over the network, a small Tcl,
  and a file manager by which a user process serves files to other ones.  This library models
  those programs as functions and step relations and proves what makes them correct; where the
  code is wrong, the theorem states what it does.

  \<^bold>\<open>Conventions.\<close>  Integers keep their width: \<^verbatim>\<open>byte\<close>, \<^verbatim>\<open>word16\<close>, \<^verbatim>\<open>quad\<close> (\<^verbatim>\<open>Frob_Prelude\<close>).  \<^verbatim>\<open>char\<close> is
  signed where CMOC compiles the code and unsigned in the boot ROM (gcc); each theory says which.
  A C string is a list of bytes without its NUL.  A function that may fail, not end or leave its
  data returns an option: \<^verbatim>\<open>None\<close> is an exit of the program, a failed assertion, an access the
  model has no meaning for, or a loop that does not end; the head of each theory says which of
  them occur.  Definitions bear the names of the C functions; a loop of a function is a
  definition of its own.

  \<^bold>\<open>The runtime library, froblib.\<close>
  \<^item> \<^verbatim>\<open>Frob_Std\<close> (\<^verbatim>\<open>std.c\<close>, \<^verbatim>\<open>nylib.c\<close>, numbers of \<^verbatim>\<open>format.c\<close>): parsing and printing of numbers, words
    and addresses; \<^verbatim>\<open>NySplit\<close> cuts a line into exactly its words.
  \<^item> \<^verbatim>\<open>Frob_Malloc\<close> (\<^verbatim>\<open>malloc.c\<close>): the bucket allocator on the 64 KB of raw process memory;
    \<^verbatim>\<open>Frob_Heap\<close>: the heap invariant, with a ghost list of blocks, and the correctness of \<^verbatim>\<open>Malloc\<close>,
    \<^verbatim>\<open>Free\<close> and \<^verbatim>\<open>ReAlloc\<close>.  The kernel call \<^verbatim>\<open>F$Mem\<close> is a parameter.
  \<^item> \<^verbatim>\<open>Frob_Sink\<close> is the interface between what makes text and what holds it (locale \<^verbatim>\<open>byte_sink\<close>);
    \<^verbatim>\<open>Frob_Buf\<close> (\<^verbatim>\<open>buf.c\<close>) provides it, growing buffers over the allocator, with the encoding of list
    elements and its inverse.
  \<^item> \<^verbatim>\<open>Frob_Format\<close> (\<^verbatim>\<open>format.c\<close>): \<^verbatim>\<open>BufFormatVA\<close> with all its conversions; \<^verbatim>\<open>Frob_Items\<close>: what it is to
    print, said without the code by items and their values, and that it prints that.
  \<^item> \<^verbatim>\<open>Frob_Stdio\<close> (\<^verbatim>\<open>nystdio.c\<close>, \<^verbatim>\<open>flag.c\<close>): files and printing over calls of NitrOS9 that are
    parameters (record \<^verbatim>\<open>os\<close>), and the scanning of options.

  \<^bold>\<open>The command language, ncl.\<close>
  \<^item> \<^verbatim>\<open>Ncl_Parse\<close>: tokens and lists; \<^verbatim>\<open>Ncl_Interp\<close>: frames, commands, arrays and the result, with the
    laws of their tables (locale \<^verbatim>\<open>name_table\<close>); \<^verbatim>\<open>Ncl_Cmds\<close>: commands on values and the glob matcher
    (\<^verbatim>\<open>match.c\<close>) against a declarative language of patterns; \<^verbatim>\<open>Ncl_Os9\<close>: the commands of the system,
    \<^verbatim>\<open>info\<close>, \<^verbatim>\<open>peek\<close> and \<^verbatim>\<open>poke\<close>; \<^verbatim>\<open>Ncl_Eval\<close>: \<^verbatim>\<open>picolEval\<close>, the table of commands, start and
    interactive loop.
  \<^item> \<^verbatim>\<open>Ncl_Sound\<close> and \<^verbatim>\<open>Ncl_Scripts\<close>: frames of callers are safe, calls bind their parameters,
    \<^verbatim>\<open>while\<close> has a rule of total correctness, scripts of given text run as their equations say.
  Strings are values here, so the heap is no part of the interpreter.  \<^verbatim>\<open>picolEval\<close> has fuel, which
  bounds the depth of evaluations and the rounds of one \<^verbatim>\<open>while\<close>; more of it never changes a result
  (\<^verbatim>\<open>picolEval_more_fuel\<close>), and the rule for \<^verbatim>\<open>while\<close> names an amount that is enough.  The memory that
  \<^verbatim>\<open>peek\<close> shows is a parameter, and a \<^verbatim>\<open>poke\<close> into the interpreter's own code or data has no result.

  \<^bold>\<open>The chip and the network.\<close>
  \<^item> \<^verbatim>\<open>Net_Wiz\<close>, \<^verbatim>\<open>Net_Tcp\<close> (\<^verbatim>\<open>wiz/wiz5100s.c\<close>): the driver library; \<^verbatim>\<open>Net_Irq\<close>: every operation leaves
    interrupts as deep as it found them; \<^verbatim>\<open>Net_Ring\<close>: datagrams and streams against the rings of
    the chip.
  \<^item> \<^verbatim>\<open>Net_Dns\<close> (\<^verbatim>\<open>net-cmds/f-dig.c\<close>), \<^verbatim>\<open>Net_Ntp\<close> (\<^verbatim>\<open>net-cmds/f-ntp.c\<close>): requests and replies; a request
    reads back as what was asked; dates agree with the Gregorian calendar.
  The chip is a parameter: a state and what reads and writes of its four ports do.  What is
  proved of rings supposes the laws \<^verbatim>\<open>quiet_chip\<close> or \<^verbatim>\<open>wiz_chip\<close>, the data sheet while nothing
  happens on the net, which the chips \<^verbatim>\<open>ram_port\<close> and \<^verbatim>\<open>demo_port\<close> obey.  Loops that poll the chip may
  run for ever and are partial functions; loops with a bound in the code (200 looks at the status
  in the boot ROM) have that bound.

  \<^bold>\<open>The boot ROM, \<^verbatim>\<open>axiom41/axcore.c\<close>.\<close>
  \<^item> \<^verbatim>\<open>Ax_Screen\<close>: variables, text screen, formatted output; \<^verbatim>\<open>Ax_Memory\<close>: the routines of the C
    library; \<^verbatim>\<open>Ax_Wiz\<close>: the chip driver; \<^verbatim>\<open>Ax_Commands\<close>: the command line; \<^verbatim>\<open>Ax_Boot\<close>: discovery, DHCP,
    the commands of the waiter, and \<^verbatim>\<open>AxiomMain\<close>.
  \<^item> \<^verbatim>\<open>Ax_Ring\<close>, \<^verbatim>\<open>Ax_Line\<close>, \<^verbatim>\<open>Ax_Dhcp\<close>: sends and receives through the rings; typed lines end and stay
    in their buffer; addresses read back; options of DHCP are applied, and what a reply to
    somebody else does.
  The code that \<^verbatim>\<open>CMD_JSR\<close> calls and the coming keys are parameters; sound, colours and delays have no
  effect; the CoPiCo variant (\<^verbatim>\<open>FOR_COPICO\<close>) is left out.

  \<^bold>\<open>File manager and file server.\<close>
  \<^item> \<^verbatim>\<open>Fuse_Kernel\<close> (\<^verbatim>\<open>fuse-modules/fusec.c\<close>): every entry of the kernel's file manager, cut where a
    process sleeps, since nothing interrupts it elsewhere, and \<^verbatim>\<open>fuse_step\<close>, the steps of the
    processes; \<^verbatim>\<open>Hang\<close> is a failed assertion, \<^verbatim>\<open>Wild\<close> a use of a stack frame that is gone.
  \<^item> \<^verbatim>\<open>Fuse_Links\<close>: the invariant of the links over all interleavings; \<^verbatim>\<open>Fuse_Call\<close>: the four steps of
    one call, from the client to the daemon and back, with what each does to the memories;
    \<^verbatim>\<open>Fuse_Run\<close>: the properties and a run on a small kernel.
  \<^item> \<^verbatim>\<open>Fuse_Ramfile\<close> (\<^verbatim>\<open>fuse-daemons/fuse-ramfile.c\<close>): the file server; \<^verbatim>\<open>Fuse_Store\<close>: the map of named texts
    it promises, and that it implements it.
  The kernel of OS-9 is the parameter \<^verbatim>\<open>os9\<close>, with the laws \<^verbatim>\<open>quiet_os9\<close> (temporary tasks do not run
  out, nobody queues) and \<^verbatim>\<open>os9_laws\<close> (moves work on the memory of the process a task belongs to),
  which \<^verbatim>\<open>demo_os9\<close> obeys.  For the invariants the step \<^verbatim>\<open>Computes\<close> lets a process in user mode change
  the kernel's state in any way; the properties on one call do not use it: they name each step,
  an action has one outcome (\<^verbatim>\<open>fuse_step_deterministic\<close>), and what may happen between is that the
  daemon's own memory changes.  \<^verbatim>\<open>SwitchProcess\<close> waits at most 50 ticks, as in the code.  The file
  server is granted all the memory it asks for, and has no result where the C code would go on
  outside of its tables.

  \<^bold>\<open>The collector, \<^verbatim>\<open>octet/octet2.c\<close>.\<close>  \<^verbatim>\<open>Octet_Heap\<close>: allocation, marking and sweeping on raw memory, with
  the client's marking of the roots as a parameter; \<^verbatim>\<open>Octet_Gc\<close>: what an allocation gives, and that a
  collection frees what it has marked.

  \<^bold>\<open>Left out.\<close>  The regular expressions of \<^verbatim>\<open>ncl/regexp.c\<close> (third-party code, a parameter of the
  command that uses them), the assembly language and its C wrappers (\<^verbatim>\<open>os9/frobos9.c\<close>), the other
  network commands and daemons, drivers, games, burning and rescue tools, the servers in Go, and
  the superseded copies under \<^verbatim>\<open>src/old1\<close>.
\<close>

end
